(* ===== verification/Prelude.thy ===== *)
theory Prelude
  imports Main "HOL-Library.Word" "HOL-Library.Char_ord" "HOL-Library.List_Lexorder"
begin

text \<open>
  Shared vocabulary of the development: the types of the Python values the models pass
  around (strings, bytes, exceptions), the named collections the component proofs draw on,
  and generic lemmas on lists, options and sums.

  A Python \<^verbatim>\<open>str\<close> is a list of code points; the model's \<^typ>\<open>string\<close> is the code points below
  256. \<^verbatim>\<open>bytes\<close> is a list of 8-bit words. A Python exception is the left injection of a sum
  type whose error names the exception class and carries its message, without the values the
  code interpolates; a call that mutates
  state returns the result paired with the state, since a raise does not undo the writes
  made before it.
\<close>

named_theorems ledger_simps \<open>frame and result equations of the ledger operations\<close>
named_theorems gate_simps \<open>frame equations of the gate operations\<close>
named_theorems str_simps \<open>equations on Python string operations\<close>

type_synonym byte = "8 word"
type_synonym bytes = "8 word list"

datatype py_error =
    ValueError string
  | RuntimeError string
  | IndexError string
  | AttributeError string
  | TypeError string
  | KeyError string
  | OperationalError
  | IntegrityError
  | PolicyParseError string
  | BaseException

type_synonym 'a result = "py_error + 'a"

fun bind_res :: "'a result \<Rightarrow> ('a \<Rightarrow> 'b result) \<Rightarrow> 'b result" where
  "bind_res (Inl e) f = Inl e"
| "bind_res (Inr a) f = f a"

lemma bind_res_Inr_iff [simp]:
  "bind_res r f = Inr b \<longleftrightarrow> (\<exists>a. r = Inr a \<and> f a = Inr b)"
  by (cases r) auto

fun res_val :: "'a result \<Rightarrow> 'a option" where
  "res_val (Inl e) = None"
| "res_val (Inr a) = Some a"

lemma res_val_Some [simp]: "res_val r = Some a \<longleftrightarrow> r = Inr a"
  by (cases r) auto

lemma res_val_None [simp]: "res_val r = None \<longleftrightarrow> (\<exists>e. r = Inl e)"
  by (cases r) auto

text \<open>A \<^verbatim>\<open>for\<close> loop whose body may raise: results in order, the first exception wins.\<close>

fun map_res :: "('a \<Rightarrow> 'b result) \<Rightarrow> 'a list \<Rightarrow> 'b list result" where
  "map_res f [] = Inr []"
| "map_res f (x # xs) = bind_res (f x) (\<lambda>y. bind_res (map_res f xs) (\<lambda>ys. Inr (y # ys)))"

lemma map_res_length: "map_res f xs = Inr ys \<Longrightarrow> length ys = length xs"
  by (induction xs arbitrary: ys) auto

lemma map_res_mem: "map_res f xs = Inr ys \<Longrightarrow> y \<in> set ys \<Longrightarrow> \<exists>x \<in> set xs. f x = Inr y"
  by (induction xs arbitrary: ys) auto

lemma map_res_nth: "map_res f xs = Inr ys \<Longrightarrow> i < length xs \<Longrightarrow> f (xs ! i) = Inr (ys ! i)"
  by (induction xs arbitrary: ys i) (auto simp: less_Suc_eq_0_disj)

lemma map_res_Inl_iff: "(\<exists>e. map_res f xs = Inl e) \<longleftrightarrow> (\<exists>x \<in> set xs. \<exists>e. f x = Inl e)"
proof (induction xs)
  case (Cons x xs)
  then show ?case by (cases "f x"; cases "map_res f xs") auto
qed simp

text \<open>\<^verbatim>\<open>next((x for x in xs if p(x)), None)\<close> is the library's \<^const>\<open>find\<close>.\<close>

lemma find_SomeD: "find P xs = Some x \<Longrightarrow> x \<in> set xs \<and> P x"
  by (auto simp: find_Some_iff)

lemma take_drop_nth: "i < length xs \<Longrightarrow> xs = take i xs @ xs ! i # drop (Suc i) xs"
  by (rule id_take_nth_drop)

lemma map_eq_list_all2: "map f xs = map f ys \<longleftrightarrow> list_all2 (\<lambda>a b. f a = f b) xs ys"
  by (auto simp: list_eq_iff_nth_eq list_all2_conv_all_nth)

lemma set_take_subset_app: "set (take n xs) \<subseteq> set xs"
  by (rule set_take_subset)

text \<open>\<^verbatim>\<open>a or b\<close> on optional strings: None and the empty string are both falsy.\<close>

fun truthy_str :: "string option \<Rightarrow> bool" where
  "truthy_str None = False"
| "truthy_str (Some s) = (s \<noteq> [])"

definition str_or_empty :: "string option \<Rightarrow> string" where
  "str_or_empty s = (case s of None \<Rightarrow> [] | Some x \<Rightarrow> x)"

definition none_if_empty :: "string \<Rightarrow> string option" where
  "none_if_empty s = (if s = [] then None else Some s)"

lemma str_or_empty_simps [simp]: "str_or_empty None = []" "str_or_empty (Some x) = x"
  by (simp_all add: str_or_empty_def)

lemma str_or_empty_none_if_empty [simp]: "str_or_empty (none_if_empty s) = s"
  by (simp add: none_if_empty_def)

lemma none_if_empty_idem [simp]:
  "none_if_empty (str_or_empty (none_if_empty s)) = none_if_empty s"
  by simp

text \<open>The comparison \<^verbatim>\<open>hash(x) == hash(y)\<close> can only mislead through a collision: two distinct
  inputs, both given, with one digest.\<close>

definition collision_between :: "('a \<Rightarrow> 'b) \<Rightarrow> 'a set \<Rightarrow> 'a set \<Rightarrow> bool" where
  "collision_between h A B \<longleftrightarrow> (\<exists>x \<in> A. \<exists>y \<in> B. x \<noteq> y \<and> h x = h y)"

lemma collision_betweenI: "x \<in> A \<Longrightarrow> y \<in> B \<Longrightarrow> x \<noteq> y \<Longrightarrow> h x = h y \<Longrightarrow> collision_between h A B"
  by (auto simp: collision_between_def)

lemma collision_between_mono:
  "collision_between h A B \<Longrightarrow> A \<subseteq> A' \<Longrightarrow> B \<subseteq> B' \<Longrightarrow> collision_between h A' B'"
  by (auto simp: collision_between_def)

end
