(* ===== verification/Sha256.thy ===== *)
theory Sha256
  imports Prelude
begin

text \<open>
  The SHA-256 digest of \<^verbatim>\<open>hashlib\<close>, which both the Merkle tree and the consent ledger call.
  It is part of Python's standard library, so it is modelled in full (FIPS 180-4) rather than
  left as a parameter: padding, the message schedule, the compression function and the
  big-endian output. The development uses two facts of it: the digest is 32 bytes, and two
  inputs with equal digests are equal or are a collision.
\<close>

unbundle bit_operations_syntax

type_synonym u32 = "32 word"

definition rotr :: "nat \<Rightarrow> u32 \<Rightarrow> u32" where
  "rotr n x = drop_bit n x OR push_bit (32 - n) x"

definition sha_k :: "u32 list" where
  "sha_k =
    [1116352408, 1899447441, 3049323471, 3921009573, 961987163, 1508970993, 2453635748, 2870763221,
     3624381080, 310598401, 607225278, 1426881987, 1925078388, 2162078206, 2614888103, 3248222580,
     3835390401, 4022224774, 264347078, 604807628, 770255983, 1249150122, 1555081692, 1996064986,
     2554220882, 2821834349, 2952996808, 3210313671, 3336571891, 3584528711, 113926993, 338241895,
     666307205, 773529912, 1294757372, 1396182291, 1695183700, 1986661051, 2177026350, 2456956037,
     2730485921, 2820302411, 3259730800, 3345764771, 3516065817, 3600352804, 4094571909, 275423344,
     430227734, 506948616, 659060556, 883997877, 958139571, 1322822218, 1537002063, 1747873779,
     1955562222, 2024104815, 2227730452, 2361852424, 2428436474, 2756734187, 3204031479, 3329325298]"

type_synonym sha_state = "u32 \<times> u32 \<times> u32 \<times> u32 \<times> u32 \<times> u32 \<times> u32 \<times> u32"

definition sha_iv :: sha_state where
  "sha_iv = (1779033703, 3144134277, 1013904242, 2773480762, 1359893119, 2600822924, 528734635, 1541459225)"

text \<open>Bytes and 32-bit words, big end first.\<close>

definition word_of_bytes :: "byte \<Rightarrow> byte \<Rightarrow> byte \<Rightarrow> byte \<Rightarrow> u32" where
  "word_of_bytes a b c d =
     push_bit 24 (ucast a) OR push_bit 16 (ucast b) OR push_bit 8 (ucast c) OR ucast d"

definition bytes_of_word :: "u32 \<Rightarrow> bytes" where
  "bytes_of_word w = [ucast (drop_bit 24 w), ucast (drop_bit 16 w), ucast (drop_bit 8 w), ucast w]"

fun words_of_bytes :: "bytes \<Rightarrow> u32 list" where
  "words_of_bytes (a # b # c # d # r) = word_of_bytes a b c d # words_of_bytes r"
| "words_of_bytes _ = []"

text \<open>Padding: a one bit, zeros to 56 modulo 64 bytes, the bit length in eight bytes.\<close>

definition be64 :: "64 word \<Rightarrow> bytes" where
  "be64 n = map (\<lambda>i. ucast (drop_bit i n)) [56, 48, 40, 32, 24, 16, 8, 0]"

definition sha_pad :: "bytes \<Rightarrow> bytes" where
  "sha_pad m = m @ [0x80] @ replicate ((119 - length m mod 64) mod 64) 0 @ be64 (8 * word_of_nat (length m))"

text \<open>The message schedule is a sliding window of the last sixteen words.\<close>

definition sigma0 :: "u32 \<Rightarrow> u32" where
  "sigma0 x = rotr 7 x XOR rotr 18 x XOR drop_bit 3 x"

definition sigma1 :: "u32 \<Rightarrow> u32" where
  "sigma1 x = rotr 17 x XOR rotr 19 x XOR drop_bit 10 x"

definition sched_next :: "u32 list \<Rightarrow> u32 list" where
  "sched_next w = tl w @ [sigma1 (w ! 14) + w ! 9 + sigma0 (w ! 1) + w ! 0]"

fun sha_round :: "u32 \<Rightarrow> u32 \<Rightarrow> sha_state \<Rightarrow> sha_state" where
  "sha_round k w (a, b, c, d, e, f, g, h) =
     (let t1 = h + (rotr 6 e XOR rotr 11 e XOR rotr 25 e) + ((e AND f) XOR (NOT e AND g)) + k + w;
          t2 = (rotr 2 a XOR rotr 13 a XOR rotr 22 a) + ((a AND b) XOR (a AND c) XOR (b AND c))
      in (t1 + t2, a, b, c, d + t1, e, f, g))"

fun sha_rounds :: "u32 list \<Rightarrow> u32 list \<Rightarrow> sha_state \<Rightarrow> sha_state" where
  "sha_rounds [] w s = s"
| "sha_rounds (k # ks) w s = sha_rounds ks (sched_next w) (sha_round k (w ! 0) s)"

fun sha_add :: "sha_state \<Rightarrow> sha_state \<Rightarrow> sha_state" where
  "sha_add (a, b, c, d, e, f, g, h) (a', b', c', d', e', f', g', h') =
     (a + a', b + b', c + c', d + d', e + e', f + f', g + g', h + h')"

definition sha_block :: "u32 list \<Rightarrow> sha_state \<Rightarrow> sha_state" where
  "sha_block w s = sha_add s (sha_rounds sha_k w s)"

function sha_blocks :: "u32 list \<Rightarrow> sha_state \<Rightarrow> sha_state" where
  "sha_blocks ws s = (if length ws < 16 then s else sha_blocks (drop 16 ws) (sha_block (take 16 ws) s))"
  by pat_completeness auto
termination
  by (relation "measure (\<lambda>(ws, s). length ws)") auto

declare sha_blocks.simps [simp del]

fun sha_out :: "sha_state \<Rightarrow> bytes" where
  "sha_out (a, b, c, d, e, f, g, h) =
     concat (map bytes_of_word [a, b, c, d, e, f, g, h])"

definition sha256 :: "bytes \<Rightarrow> bytes" where
  "sha256 m = sha_out (sha_blocks (words_of_bytes (sha_pad m)) sha_iv)"

lemma length_sha_out: "length (sha_out s) = 32"
  by (cases s rule: sha_out.cases) (simp add: bytes_of_word_def)

lemma length_sha256 [simp]: "length (sha256 m) = 32"
  by (simp add: sha256_def length_sha_out)

text \<open>\<^verbatim>\<open>hashlib.sha256(s.encode("utf-8")).hexdigest()\<close> on an ASCII string.\<close>

definition byte_of_char :: "char \<Rightarrow> byte" where
  "byte_of_char c = word_of_nat (of_char c)"

definition hexdigit :: "nat \<Rightarrow> char" where
  "hexdigit n = ''0123456789abcdef'' ! n"

lemma hexdigit_inject: "m < 16 \<Longrightarrow> n < 16 \<Longrightarrow> hexdigit m = hexdigit n \<longleftrightarrow> m = n"
  unfolding hexdigit_def by (rule nth_eq_iff_index_eq) simp_all

definition hex_of_byte :: "byte \<Rightarrow> string" where
  "hex_of_byte b = [hexdigit (unat b div 16), hexdigit (unat b mod 16)]"

definition hexdigest :: "bytes \<Rightarrow> string" where
  "hexdigest bs = concat (map hex_of_byte bs)"

definition sha256_hex :: "string \<Rightarrow> string" where
  "sha256_hex s = hexdigest (sha256 (map byte_of_char s))"

lemma length_hexdigest: "length (hexdigest bs) = 2 * length bs"
  by (induction bs) (simp_all add: hexdigest_def hex_of_byte_def)

lemma length_sha256_hex [simp]: "length (sha256_hex s) = 64"
  by (simp add: sha256_hex_def length_hexdigest)

lemma sha256_hex_nonempty [simp]: "sha256_hex s \<noteq> []"
  using length_sha256_hex [of s] by (metis list.size(3) zero_neq_numeral)

end
