(* ===== verification/Merkle.thy ===== *)
theory Merkle
  imports Sha256
begin

text \<open>
  The RFC 6962 Merkle tree of \<^verbatim>\<open>server/merkle.py\<close> (the agent and the conformance suite carry
  byte-identical copies). Indices and sizes are Python ints, so the verifier's bit tricks
  (\<^verbatim>\<open>& 1\<close>, \<^verbatim>\<open>>>= 1\<close>) are floor division and remainder by two on \<^typ>\<open>int\<close>, for negative
  arguments too. Shown here: every inclusion proof and every consistency proof the builder
  makes is accepted, an accepted inclusion proof under an honest root names the leaf at that
  index or exhibits a SHA-256 collision, and the verifier accepts an index of minus one.
\<close>

subsection \<open>Hashing and the tree\<close>

definition leaf_hash :: "bytes \<Rightarrow> bytes" where
  "leaf_hash data = sha256 (0x00 # data)"

definition node_hash :: "bytes \<Rightarrow> bytes \<Rightarrow> bytes" where
  "node_hash left right = sha256 (0x01 # left @ right)"

text \<open>The \<^verbatim>\<open>while k * 2 < n\<close> loop, from its current \<open>k\<close>. The guard \<open>0 < k\<close> only serves
  termination: the loop starts at one.\<close>

function pow2_loop :: "nat \<Rightarrow> nat \<Rightarrow> nat" where
  "pow2_loop n k = (if 0 < k \<and> k * 2 < n then pow2_loop n (k * 2) else k)"
  by pat_completeness auto
termination
  by (relation "measure (\<lambda>(n, k). n - k)") auto

declare pow2_loop.simps [simp del]

definition largest_pow2_lt :: "nat \<Rightarrow> nat" where
  "largest_pow2_lt n = pow2_loop n 1"

lemma pow2_loop_spec:
  assumes "1 < n" "k < n" "k = 2 ^ j"
  shows "\<exists>i. pow2_loop n k = 2 ^ i \<and> 2 ^ i < n \<and> n \<le> 2 * 2 ^ i"
  using assms
proof (induction n k arbitrary: j rule: pow2_loop.induct)
  case (1 n k)
  show ?case
  proof (cases "k * 2 < n")
    case True
    have "k * 2 = 2 ^ Suc j" using "1.prems" by simp
    with "1.IH" [of "Suc j"] True "1.prems"
    have "\<exists>i. pow2_loop n (k * 2) = 2 ^ i \<and> 2 ^ i < n \<and> n \<le> 2 * 2 ^ i"
      by simp
    with True "1.prems" show ?thesis by (subst pow2_loop.simps) simp
  next
    case False
    with "1.prems" show ?thesis
      by (subst pow2_loop.simps) (auto simp: mult.commute)
  qed
qed

lemma largest_pow2_lt_spec:
  assumes "1 < n"
  obtains i where "largest_pow2_lt n = 2 ^ i" "2 ^ i < n" "n \<le> 2 * 2 ^ i"
  using pow2_loop_spec [of n 1 0] assms by (auto simp: largest_pow2_lt_def)

lemma largest_pow2_lt_bounds:
  "1 < n \<Longrightarrow> 0 < largest_pow2_lt n \<and> largest_pow2_lt n < n"
  by (metis largest_pow2_lt_spec zero_less_numeral zero_less_power)

function merkle_root :: "bytes list \<Rightarrow> bytes" where
  "merkle_root leaves =
     (if leaves = [] then sha256 []
      else if length leaves = 1 then leaf_hash (leaves ! 0)
      else let k = largest_pow2_lt (length leaves)
           in node_hash (merkle_root (take k leaves)) (merkle_root (drop k leaves)))"
  by pat_completeness auto
termination
proof (relation "measure length", goal_cases)
  case (2 leaves k)
  then have "1 < length leaves" by (cases leaves) auto
  with 2 show ?case by (simp add: largest_pow2_lt_bounds)
next
  case (3 leaves k)
  then have "1 < length leaves" by (cases leaves) auto
  with 3 show ?case using largest_pow2_lt_bounds [of "length leaves"] by simp
qed simp

declare merkle_root.simps [simp del]

lemma merkle_root_single: "merkle_root [x] = leaf_hash x"
  by (subst merkle_root.simps) simp

lemma merkle_root_split:
  "1 < length ls \<Longrightarrow> k = largest_pow2_lt (length ls) \<Longrightarrow>
   merkle_root ls = node_hash (merkle_root (take k ls)) (merkle_root (drop k ls))"
  by (subst merkle_root.simps) (auto simp: Let_def)

lemma length_merkle_root [simp]: "length (merkle_root ls) = 32"
  by (subst merkle_root.simps) (simp add: leaf_hash_def node_hash_def Let_def)

subsection \<open>Inclusion proofs\<close>

text \<open>The index check happens at every level of the Python recursion; below the top it always
  passes, so the recursion is written once without it and \<open>inclusion_proof\<close> adds it.\<close>

function audit_path :: "bytes list \<Rightarrow> nat \<Rightarrow> bytes list" where
  "audit_path leaves m =
     (if length leaves \<le> 1 then []
      else let k = largest_pow2_lt (length leaves)
           in if m < k then audit_path (take k leaves) m @ [merkle_root (drop k leaves)]
              else audit_path (drop k leaves) (m - k) @ [merkle_root (take k leaves)])"
  by pat_completeness auto
termination
  by (relation "measure (\<lambda>(ls, m). length ls)")
    (use largest_pow2_lt_bounds in \<open>auto simp: not_le min_def intro!: diff_less\<close>)

declare audit_path.simps [simp del]

definition inclusion_proof :: "bytes list \<Rightarrow> int \<Rightarrow> bytes list result" where
  "inclusion_proof leaves m =
     (if \<not> (0 \<le> m \<and> m < int (length leaves)) then Inl (IndexError ''leaf index out of range'')
      else Inr (audit_path leaves (nat m)))"

text \<open>\<^verbatim>\<open>while fn != 0 and (fn & 1) == 0: fn >>= 1; sn >>= 1\<close>\<close>

function strip_even :: "int \<Rightarrow> int \<Rightarrow> int \<times> int" where
  "strip_even fn sn =
     (if fn \<noteq> 0 \<and> fn mod 2 = 0 then strip_even (fn div 2) (sn div 2) else (fn, sn))"
  by pat_completeness auto
termination
  by (relation "measure (\<lambda>(fn, sn). nat \<bar>fn\<bar>)") (auto simp: zmod_eq_0_iff)

declare strip_even.simps [simp del]

fun inclusion_loop :: "int \<Rightarrow> int \<Rightarrow> bytes \<Rightarrow> bytes list \<Rightarrow> int \<times> bytes" where
  "inclusion_loop fn sn r [] = (sn, r)"
| "inclusion_loop fn sn r (p # ps) =
     (if fn = sn \<or> fn mod 2 = 1
      then (case strip_even fn sn of
              (fn', sn') \<Rightarrow> inclusion_loop (fn' div 2) (sn' div 2) (node_hash p r) ps)
      else inclusion_loop (fn div 2) (sn div 2) (node_hash r p) ps)"

definition verify_inclusion :: "bytes \<Rightarrow> int \<Rightarrow> int \<Rightarrow> bytes list \<Rightarrow> bytes \<Rightarrow> bool" where
  "verify_inclusion leaf leaf_index tree_size path root =
     (if leaf_index \<ge> tree_size then False
      else case inclusion_loop leaf_index (tree_size - 1) (leaf_hash leaf) path of
             (sn, r) \<Rightarrow> sn = 0 \<and> r = root)"

text \<open>The loop separates into a walk of the two indices, which depends only on the number of
  path elements and fixes on which side each one goes, and a climb that hashes.\<close>

fun walk :: "int \<Rightarrow> int \<Rightarrow> nat \<Rightarrow> bool list \<times> int \<times> int" where
  "walk fn sn 0 = ([], fn, sn)"
| "walk fn sn (Suc j) =
     (if fn = sn \<or> fn mod 2 = 1
      then (case strip_even fn sn of (f, s) \<Rightarrow>
              case walk (f div 2) (s div 2) j of (bs, r) \<Rightarrow> (True # bs, r))
      else (case walk (fn div 2) (sn div 2) j of (bs, r) \<Rightarrow> (False # bs, r)))"

fun climb :: "bytes \<Rightarrow> (bool \<times> bytes) list \<Rightarrow> bytes" where
  "climb r [] = r"
| "climb r ((b, p) # xs) = climb (if b then node_hash p r else node_hash r p) xs"

lemma inclusion_loop_walk:
  "inclusion_loop fn sn r ps =
     (case walk fn sn (length ps) of (bs, fn', sn') \<Rightarrow> (sn', climb r (zip bs ps)))"
  by (induction fn sn r ps rule: inclusion_loop.induct) (auto split: prod.splits)

lemma walk_append:
  "walk fn sn i = (bs, f, s) \<Longrightarrow>
   walk fn sn (i + j) = (case walk f s j of (cs, r) \<Rightarrow> (bs @ cs, r))"
  by (induction fn sn i arbitrary: bs rule: walk.induct) (auto split: prod.splits if_splits)

lemma length_walk: "walk fn sn i = (bs, f, s) \<Longrightarrow> length bs = i"
  by (induction fn sn i arbitrary: bs rule: walk.induct) (auto split: prod.splits if_splits)

lemma climb_append: "climb r (xs @ ys) = climb (climb r xs) ys"
  by (induction r xs rule: climb.induct) auto

lemma length_climb [simp]: "length (climb r xs) = (if xs = [] then length r else 32)"
  by (induction r xs rule: climb.induct) (auto simp: node_hash_def)

lemma strip_even_odd: "a mod 2 = (1::int) \<Longrightarrow> strip_even (a * 2 ^ d) (b * 2 ^ d) = (a, b)"
proof (induction d)
  case 0
  then show ?case by (subst strip_even.simps) simp
next
  case (Suc d)
  from Suc.prems have "a \<noteq> 0" by auto
  with Suc show ?case by (subst strip_even.simps) (simp add: mult.assoc [symmetric] mult.commute [of _ 2])
qed

lemma strip_even_at_odd: "a mod 2 = (1::int) \<Longrightarrow> strip_even a b = (a, b)"
  using strip_even_odd [of a 0 b] by simp

lemma walk_snoc:
  "walk a b i = (bs, f, s) \<Longrightarrow> walk f s 1 = ([c], f', s') \<Longrightarrow> walk a b (Suc i) = (bs @ [c], f', s')"
  using walk_append [of a b i bs f s 1] by (simp del: walk.simps)

lemma walk1:
  "2 * F \<noteq> 2 * S + q \<Longrightarrow> 0 \<le> q \<Longrightarrow> q < 2 \<Longrightarrow> walk (2 * F) (2 * S + q) 1 = ([False], F, S)"
  "0 \<le> q \<Longrightarrow> q < 2 \<Longrightarrow> walk (2 * F + 1) (2 * S + q) 1 = ([True], F, S)"
  "walk ((2 * F + 1) * 2 ^ d) ((2 * F + 1) * 2 ^ d) 1 = ([True], F, F)"
  by (simp_all add: strip_even_at_odd strip_even_odd)

lemma largest_pow2_lt_eq:
  assumes "2 ^ i < n" "n \<le> 2 * 2 ^ i"
  shows "largest_pow2_lt n = 2 ^ i"
proof -
  have "(1::nat) \<le> 2 ^ i" by simp
  with assms(1) have "1 < n" by linarith
  then obtain j where j: "largest_pow2_lt n = 2 ^ j" "2 ^ j < n" "n \<le> 2 * 2 ^ j"
    by (rule largest_pow2_lt_spec)
  from assms(2) j(2) have "(2::nat) ^ j < 2 ^ Suc i" by simp
  then have "j < Suc i" by (rule power_less_imp_less_exp [rotated]) simp
  moreover from assms(1) j(3) have "(2::nat) ^ i < 2 ^ Suc j" by simp
  then have "i < Suc j" by (rule power_less_imp_less_exp [rotated]) simp
  ultimately have "i = j" by simp
  with j show ?thesis by simp
qed

text \<open>The sides along the path from leaf \<open>m\<close> up to the root of a tree of \<open>n\<close> leaves.\<close>

function path_dirs :: "nat \<Rightarrow> nat \<Rightarrow> bool list" where
  "path_dirs n m =
     (if n \<le> 1 then []
      else let k = largest_pow2_lt n
           in if m < k then path_dirs k m @ [False] else path_dirs (n - k) (m - k) @ [True])"
  by pat_completeness auto
termination
  by (relation "measure fst") (use largest_pow2_lt_bounds in \<open>auto simp: not_le intro!: diff_less\<close>)

declare path_dirs.simps [simp del]

lemma path_dirs_1 [simp]: "path_dirs (Suc 0) m = []"
  by (subst path_dirs.simps) simp

lemma path_dirs_left:
  "2 ^ i < n \<Longrightarrow> n \<le> 2 * 2 ^ i \<Longrightarrow> m < 2 ^ i \<Longrightarrow> path_dirs n m = path_dirs (2 ^ i) m @ [False]"
  by (subst path_dirs.simps)
    (auto simp: Let_def largest_pow2_lt_eq dest: less_le_trans [of "2 ^ i" n 1])

lemma path_dirs_right:
  "2 ^ i < n \<Longrightarrow> n \<le> 2 * 2 ^ i \<Longrightarrow> \<not> m < 2 ^ i \<Longrightarrow> path_dirs n m = path_dirs (n - 2 ^ i) (m - 2 ^ i) @ [True]"
  by (subst path_dirs.simps)
    (auto simp: Let_def largest_pow2_lt_eq dest: less_le_trans [of "2 ^ i" n 1])

lemma path_dirs_Suc:
  "m < 2 ^ h \<Longrightarrow> path_dirs (2 ^ Suc h) m = path_dirs (2 ^ h) m @ [False]"
  "\<not> m < 2 ^ h \<Longrightarrow> path_dirs (2 ^ Suc h) m = path_dirs (2 ^ h) (m - 2 ^ h) @ [True]"
  by (simp_all add: path_dirs_left [of h] path_dirs_right [of h])

lemma length_path_dirs_complete: "m < 2 ^ h \<Longrightarrow> length (path_dirs (2 ^ h) m) = h"
proof (induction h arbitrary: m)
  case (Suc h)
  then have "m - 2 ^ h < 2 ^ h" by auto
  with Suc show ?case
    by (cases "m < 2 ^ h") (simp_all add: path_dirs_Suc del: power_Suc)
qed simp

text \<open>Inside a complete subtree of height \<open>h\<close> that is not at the right edge of the whole tree
  the verifier climbs exactly \<open>h\<close> levels.\<close>

lemma walk_complete:
  assumes "m < 2 ^ h" "F < S" "0 \<le> s" "s < 2 ^ h"
  shows "walk (F * 2 ^ h + int m) (S * 2 ^ h + s) h = (path_dirs (2 ^ h) m, F, S)"
  using assms
proof (induction h arbitrary: m F S s)
  case (Suc h)
  let ?k = "2 ^ h :: nat"
  define q where "q = s div 2 ^ h"
  define t where "t = s mod 2 ^ h"
  have s: "s = q * 2 ^ h + t" unfolding q_def t_def by (rule div_mult_mod_eq [symmetric])
  have t: "0 \<le> t" "t < 2 ^ h" by (simp_all add: t_def)
  have q0: "0 \<le> q" using Suc.prems(3) by (simp add: q_def pos_imp_zdiv_nonneg_iff)
  have "q < 2"
  proof (rule ccontr)
    assume "\<not> q < 2"
    then have "2 * 2 ^ h \<le> q * 2 ^ h" by (intro mult_right_mono) auto
    with s t Suc.prems(4) show False by simp
  qed
  note q = q0 this
  have sn: "S * 2 ^ Suc h + s = (2 * S + q) * 2 ^ h + t" by (simp add: s algebra_simps)
  show ?case
  proof (cases "m < ?k")
    case True
    have fn: "F * 2 ^ Suc h + int m = (2 * F) * 2 ^ h + int m" by simp
    have "walk ((2 * F) * 2 ^ h + int m) ((2 * S + q) * 2 ^ h + t) h = (path_dirs ?k m, 2 * F, 2 * S + q)"
      by (rule Suc.IH) (use True Suc.prems q t in auto)
    then show ?thesis unfolding sn fn path_dirs_Suc(1) [OF True]
      by (rule walk_snoc) (rule walk1, use Suc.prems q in auto)
  next
    case False
    have fn: "F * 2 ^ Suc h + int m = (2 * F + 1) * 2 ^ h + int (m - ?k)"
      using False by (simp add: algebra_simps of_nat_diff)
    have "walk ((2 * F + 1) * 2 ^ h + int (m - ?k)) ((2 * S + q) * 2 ^ h + t) h
          = (path_dirs ?k (m - ?k), 2 * F + 1, 2 * S + q)"
      by (rule Suc.IH) (use False Suc.prems q t in auto)
    then show ?thesis unfolding sn fn path_dirs_Suc(2) [OF False]
      by (rule walk_snoc) (rule walk1, use q in auto)
  qed
qed simp

lemma tree_height:
  "1 \<le> n \<Longrightarrow> n \<le> 2 ^ g \<Longrightarrow> \<exists>h \<le> g. n \<le> 2 ^ h \<and> (h = 0 \<or> (2::nat) ^ (h - 1) < n)"
proof (induction g)
  case (Suc g)
  show ?case
  proof (cases "n \<le> 2 ^ g")
    case True
    with Suc show ?thesis by (meson le_Suc_eq)
  next
    case False
    with Suc.prems show ?thesis by (intro exI [of _ "Suc g"]) auto
  qed
qed auto

text \<open>At the right edge the tree may be ragged: the verifier skips the missing levels.\<close>

lemma walk_edge:
  assumes "m < n" "n \<le> 2 ^ h" "h = 0 \<or> 2 ^ (h - 1) < n" "0 \<le> F"
  shows "walk (F * 2 ^ h + int m) (F * 2 ^ h + int (n - 1)) (length (path_dirs n m))
           = (path_dirs n m, F, F)
         \<and> (\<forall>j. length (path_dirs n m) = Suc j \<longrightarrow>
              snd (snd (walk (F * 2 ^ h + int m) (F * 2 ^ h + int (n - 1)) j)) \<noteq> 0)"
  using assms
proof (induction n arbitrary: m h F rule: less_induct)
  case (less n)
  show ?case
  proof (cases "h = 0")
    case True
    with less.prems show ?thesis by (simp add: le_Suc_eq)
  next
    case False
    then obtain g where h: "h = Suc g" by (cases h) auto
    let ?k = "2 ^ g :: nat"
    have kn: "?k < n" "n \<le> 2 * ?k" using less.prems h by auto
    have sn: "F * 2 ^ h + int (n - 1) = (2 * F + 1) * 2 ^ g + int (n - 1 - ?k)"
      using kn h by (simp add: algebra_simps of_nat_diff)
    show ?thesis
    proof (cases "m < ?k")
      case True
      have fn: "F * 2 ^ h + int m = (2 * F) * 2 ^ g + int m" by (simp add: h)
      have "n - 1 - ?k < ?k" using kn by arith
      then have "int (n - 1 - ?k) < int ?k" by (simp only: of_nat_less_iff)
      then have w: "walk (F * 2 ^ h + int m) (F * 2 ^ h + int (n - 1)) g = (path_dirs ?k m, 2 * F, 2 * F + 1)"
        unfolding sn fn by (intro walk_complete) (use True in auto)
      have "walk (2 * F) (2 * F + 1) 1 = ([False], F, F)" by (rule walk1) (simp, presburger, simp_all)
      from walk_snoc [OF w this] w less.prems(4) show ?thesis
        by (simp add: path_dirs_left [OF kn True] length_path_dirs_complete [OF True] del: walk.simps)
    next
      case False
      from kn have "1 \<le> n - ?k" "n - ?k \<le> 2 ^ g" by auto
      then obtain h' where h': "h' \<le> g" "n - ?k \<le> 2 ^ h'" "h' = 0 \<or> 2 ^ (h' - 1) < n - ?k"
        using tree_height by blast
      let ?F = "(2 * F + 1) * 2 ^ (g - h')"
      have e: "(2 * F + 1) * 2 ^ g = ?F * 2 ^ h'"
        using h'(1) by (simp add: mult.assoc power_add [symmetric])
      have fn: "F * 2 ^ h + int m = (2 * F + 1) * 2 ^ g + int (m - ?k)"
        using False h by (simp add: algebra_simps of_nat_diff)
      have w: "walk (F * 2 ^ h + int m) (F * 2 ^ h + int (n - 1)) (length (path_dirs (n - ?k) (m - ?k)))
               = (path_dirs (n - ?k) (m - ?k), ?F, ?F)"
        unfolding sn fn e
        using less.IH [of "n - ?k" "m - ?k" h' ?F] h' less.prems kn False by simp
      have "?F \<noteq> 0" by (simp, presburger)
      with walk_snoc [OF w walk1(3)] w show ?thesis
        by (simp add: path_dirs_right [OF kn False] del: walk.simps)
    qed
  qed
qed

corollary walk_tree:
  assumes "m < n"
  shows "walk (int m) (int n - 1) (length (path_dirs n m)) = (path_dirs n m, 0, 0)"
    and "length (path_dirs n m) = Suc j \<Longrightarrow> snd (snd (walk (int m) (int n - 1) j)) \<noteq> 0"
proof -
  obtain h where "n \<le> 2 ^ h" "h = 0 \<or> 2 ^ (h - 1) < n"
    using tree_height [of n n] assms less_exp [of n] by auto
  moreover have "int (n - 1) = int n - 1" using assms by simp
  ultimately show "walk (int m) (int n - 1) (length (path_dirs n m)) = (path_dirs n m, 0, 0)"
    and "length (path_dirs n m) = Suc j \<Longrightarrow> snd (snd (walk (int m) (int n - 1) j)) \<noteq> 0"
    using walk_edge [of m n h 0] assms by auto
qed

lemma climb_audit_path:
  "m < length ls \<Longrightarrow>
   length (audit_path ls m) = length (path_dirs (length ls) m) \<and>
   climb (leaf_hash (ls ! m)) (zip (path_dirs (length ls) m) (audit_path ls m)) = merkle_root ls"
proof (induction ls m rule: audit_path.induct)
  case (1 ls m)
  show ?case
  proof (cases "length ls \<le> 1")
    case True
    with "1.prems" obtain x where "ls = [x]" "m = 0" by (cases ls) auto
    then show ?thesis by (subst (1 2) audit_path.simps) (simp add: merkle_root_single)
  next
    case False
    define k where "k = largest_pow2_lt (length ls)"
    have k: "0 < k" "k < length ls" using largest_pow2_lt_bounds [of "length ls"] False by (auto simp: k_def)
    have root: "merkle_root ls = node_hash (merkle_root (take k ls)) (merkle_root (drop k ls))"
      using False by (intro merkle_root_split) (auto simp: k_def)
    show ?thesis
    proof (cases "m < k")
      case True
      with "1.IH"(1) [OF False k_def True] k "1.prems" False show ?thesis
        by (subst (1 2) audit_path.simps, subst (1 2) path_dirs.simps)
          (simp add: Let_def k_def [symmetric] climb_append root)
    next
      case m: False
      with "1.IH"(2) [OF False k_def m] k "1.prems" False show ?thesis
        by (subst (1 2) audit_path.simps, subst (1 2) path_dirs.simps)
          (simp add: Let_def k_def [symmetric] climb_append root)
    qed
  qed
qed

subsection \<open>What an accepted proof shows\<close>

text \<open>Following sides down from the root of the tree over \<open>ls\<close>; None when a leaf comes too early.\<close>

fun descend :: "bytes list \<Rightarrow> bool list \<Rightarrow> bytes list option" where
  "descend ls [] = Some ls"
| "descend ls (b # bs) =
     (if length ls \<le> 1 then None
      else let k = largest_pow2_lt (length ls) in descend (if b then drop k ls else take k ls) bs)"

text \<open>The byte strings hashed while the root of a tree is computed, and while a path is climbed.\<close>

function tree_inputs :: "bytes list \<Rightarrow> bytes set" where
  "tree_inputs leaves =
     (if leaves = [] then {[]}
      else if length leaves = 1 then {0x00 # leaves ! 0}
      else let k = largest_pow2_lt (length leaves)
           in {0x01 # merkle_root (take k leaves) @ merkle_root (drop k leaves)}
              \<union> tree_inputs (take k leaves) \<union> tree_inputs (drop k leaves))"
  by pat_completeness auto
termination
proof (relation "measure length", goal_cases)
  case (2 leaves k)
  then have "1 < length leaves" by (cases leaves) auto
  with 2 show ?case by (simp add: largest_pow2_lt_bounds)
next
  case (3 leaves k)
  then have "1 < length leaves" by (cases leaves) auto
  with 3 show ?case using largest_pow2_lt_bounds [of "length leaves"] by simp
qed simp

declare tree_inputs.simps [simp del]

fun climb_inputs :: "bytes \<Rightarrow> (bool \<times> bytes) list \<Rightarrow> bytes set" where
  "climb_inputs r [] = {}"
| "climb_inputs r ((b, p) # xs) =
     insert (0x01 # (if b then p @ r else r @ p))
       (climb_inputs (if b then node_hash p r else node_hash r p) xs)"

lemma climb_inputs_append:
  "climb_inputs r (xs @ ys) = climb_inputs r xs \<union> climb_inputs (climb r xs) ys"
  by (induction r xs rule: climb.induct) auto

text \<open>The input hashed at the root of a tree.\<close>

definition root_input :: "bytes list \<Rightarrow> bytes" where
  "root_input ls =
     (if ls = [] then [] else if length ls = 1 then 0x00 # ls ! 0
      else let k = largest_pow2_lt (length ls) in 0x01 # merkle_root (take k ls) @ merkle_root (drop k ls))"

lemma merkle_root_input: "merkle_root ls = sha256 (root_input ls)"
  by (subst merkle_root.simps) (simp add: root_input_def leaf_hash_def node_hash_def Let_def)

lemma root_input_in_tree: "root_input ls \<in> tree_inputs ls"
  by (subst tree_inputs.simps) (simp add: root_input_def Let_def)

lemma tree_inputs_sub:
  assumes "1 < length ls" "k = largest_pow2_lt (length ls)"
  shows "tree_inputs (take k ls) \<subseteq> tree_inputs ls" "tree_inputs (drop k ls) \<subseteq> tree_inputs ls"
proof -
  from assms have "tree_inputs ls = {0x01 # merkle_root (take k ls) @ merkle_root (drop k ls)}
      \<union> tree_inputs (take k ls) \<union> tree_inputs (drop k ls)"
    by (subst tree_inputs.simps) (auto simp: Let_def)
  then show "tree_inputs (take k ls) \<subseteq> tree_inputs ls" "tree_inputs (drop k ls) \<subseteq> tree_inputs ls"
    by auto
qed

text \<open>A path that climbs to the root of a tree either follows the tree, or some string hashed on
  the way collides with a different string hashed in the tree.\<close>

lemma climb_follows_tree:
  assumes "climb r xs = merkle_root ls" "length r = 32"
  shows "(\<exists>sub. descend ls (rev (map fst xs)) = Some sub \<and> r = merkle_root sub \<and> tree_inputs sub \<subseteq> tree_inputs ls)
         \<or> collision_between sha256 (tree_inputs ls) (climb_inputs r xs)"
  using assms(1)
proof (induction xs arbitrary: ls rule: rev_induct)
  case Nil
  then show ?case by auto
next
  case (snoc x xs)
  obtain b p where x: "x = (b, p)" by (cases x)
  let ?r = "climb r xs"
  let ?in = "0x01 # (if b then p @ ?r else ?r @ p)"
  have eq: "sha256 (root_input ls) = sha256 ?in"
    using snoc.prems by (simp add: x climb_append node_hash_def merkle_root_input split: if_splits)
  have in_y: "?in \<in> climb_inputs r (xs @ [x])" by (simp add: x climb_inputs_append)
  show ?case
  proof (cases "root_input ls = ?in")
    case False
    with eq in_y show ?thesis by (blast intro: collision_betweenI root_input_in_tree)
  next
    case True
    have n: "1 < length ls"
    proof (rule ccontr)
      assume "\<not> 1 < length ls"
      then have "ls = [] \<or> length ls = 1" by (cases ls) auto
      with True show False by (cases ls) (simp_all add: root_input_def)
    qed
    define k where "k = largest_pow2_lt (length ls)"
    from n have "ls \<noteq> []" "length ls \<noteq> 1" by auto
    with True have cat: "merkle_root (take k ls) @ merkle_root (drop k ls) = (if b then p @ ?r else ?r @ p)"
      by (simp add: root_input_def Let_def k_def)
    let ?sub = "if b then drop k ls else take k ls"
    have len: "length ?r = 32" using assms(2) by simp
    have "?r = merkle_root ?sub"
    proof (cases b)
      case True
      from cat True have "merkle_root (take k ls) @ merkle_root (drop k ls) = p @ ?r" by simp
      then show ?thesis using len True by (auto simp: append_eq_append_conv)
    next
      case False
      from cat False have "merkle_root (take k ls) @ merkle_root (drop k ls) = ?r @ p" by simp
      then show ?thesis using len False by (auto simp: append_eq_append_conv)
    qed
    from snoc.IH [OF this] show ?thesis
    proof
      assume "\<exists>sub. descend ?sub (rev (map fst xs)) = Some sub \<and> r = merkle_root sub \<and> tree_inputs sub \<subseteq> tree_inputs ?sub"
      then show ?thesis using n tree_inputs_sub [OF n k_def] by (auto simp: x k_def Let_def split: if_splits)
    next
      assume "collision_between sha256 (tree_inputs ?sub) (climb_inputs r xs)"
      then have "collision_between sha256 (tree_inputs ls) (climb_inputs r (xs @ [x]))"
        by (rule collision_between_mono)
          (use tree_inputs_sub [OF n k_def] in \<open>auto simp: climb_inputs_append\<close>)
      then show ?thesis ..
    qed
  qed
qed

lemma leaf_hash_is_root:
  assumes "leaf_hash x = merkle_root sub"
  shows "sub = [x] \<or> collision_between sha256 (tree_inputs sub) {0x00 # x}"
proof (cases "root_input sub = 0x00 # x")
  case True
  then have "sub = [x]" by (cases sub) (auto simp: root_input_def Let_def split: if_splits)
  then show ?thesis ..
next
  case False
  with assms show ?thesis
    by (auto simp: merkle_root_input leaf_hash_def intro: collision_betweenI root_input_in_tree)
qed

lemma descend_depth: "length ls \<le> 2 ^ i \<Longrightarrow> descend ls bs = Some sub \<Longrightarrow> length bs \<le> i"
proof (induction ls bs arbitrary: i rule: descend.induct)
  case (2 ls b bs)
  from "2.prems"(2) have n: "1 < length ls" by (auto split: if_splits)
  then obtain j where j: "largest_pow2_lt (length ls) = 2 ^ j" "2 ^ j < length ls" "length ls \<le> 2 * 2 ^ j"
    by (rule largest_pow2_lt_spec)
  from j(2) "2.prems"(1) have "(2::nat) ^ j < 2 ^ i" by (rule less_le_trans)
  then have "j < i" by (rule power_less_imp_less_exp [rotated]) simp
  moreover from "2.IH" [of "2 ^ j" j] n j "2.prems"(2) have "length bs \<le> j"
    by (auto simp: Let_def split: if_splits)
  ultimately show ?case by simp
qed simp

lemma descend_path_dirs:
  "m < length ls \<Longrightarrow> descend ls (rev (path_dirs (length ls) m)) = Some [ls ! m]"
proof (induction ls m rule: audit_path.induct)
  case (1 ls m)
  show ?case
  proof (cases "length ls \<le> 1")
    case True
    with "1.prems" show ?thesis by (cases ls) auto
  next
    case False
    define k where "k = largest_pow2_lt (length ls)"
    have k: "0 < k" "k < length ls" using largest_pow2_lt_bounds [of "length ls"] False by (auto simp: k_def)
    with "1.IH"(1) [OF False k_def] "1.IH"(2) [OF False k_def] False "1.prems" show ?thesis
      by (subst path_dirs.simps) (auto simp: Let_def k_def [symmetric])
  qed
qed

text \<open>Extra path elements always enter on the right spine; the tree is never deep enough for them.\<close>

lemma descend_overlong:
  "m < length ls \<Longrightarrow> 0 < e \<Longrightarrow> descend ls (replicate e True @ rev (path_dirs (length ls) m)) = None"
proof (induction "length ls" arbitrary: ls m rule: less_induct)
  case less
  obtain e' where e: "e = Suc e'" using less.prems(2) by (cases e) auto
  show ?case
  proof (cases "length ls \<le> 1")
    case True
    with e show ?thesis by simp
  next
    case False
    then have "1 < length ls" by simp
    then obtain i where i: "largest_pow2_lt (length ls) = 2 ^ i" "2 ^ i < length ls" "length ls \<le> 2 * 2 ^ i"
      by (rule largest_pow2_lt_spec)
    let ?right = "drop (2 ^ i) ls"
    have step: "descend ls (True # bs) = descend ?right bs" for bs
      using False i by (simp add: Let_def)
    show ?thesis
    proof (cases "m < 2 ^ i")
      case True
      let ?bs = "replicate e' True @ rev (path_dirs (length ls) m)"
      have "\<not> length ?bs \<le> i"
        using path_dirs_left [OF i(2,3) True] length_path_dirs_complete [OF True] by simp
      moreover have "length ?right \<le> 2 ^ i" using i by simp
      ultimately have "descend ?right ?bs = None" using descend_depth by (cases "descend ?right ?bs") blast+
      then show ?thesis using step [of ?bs] e by simp
    next
      case m: False
      have "replicate e True @ rev (path_dirs (length ls) m)
            = True # (replicate e True @ rev (path_dirs (length ?right) (m - 2 ^ i)))"
        by (simp add: path_dirs_right [OF i(2,3) m] replicate_append_same [symmetric])
      moreover have "descend ?right (replicate e True @ rev (path_dirs (length ?right) (m - 2 ^ i))) = None"
        by (rule less.hyps) (use m less.prems i in auto)
      ultimately show ?thesis using step by simp
    qed
  qed
qed

lemma strip_even_snd_0: "snd (strip_even f 0) = 0"
proof (induction f "0::int" rule: strip_even.induct)
  case (1 f)
  then show ?case by (subst strip_even.simps) auto
qed

lemma walk_snd_0: "snd (snd (walk f 0 j)) = 0"
proof (induction f "0::int" j rule: walk.induct)
  case (2 f j)
  obtain a b where "strip_even f 0 = (a, b)" by (cases "strip_even f 0")
  moreover from this strip_even_snd_0 [of f] have "b = 0" by simp
  ultimately show ?case using 2 by (auto split: prod.splits) 
qed simp

lemma walk_00: "walk 0 0 j = (replicate j True, 0, 0)"
proof (induction j)
  case (Suc j)
  moreover have "strip_even 0 0 = (0, 0)" by (subst strip_even.simps) simp
  ultimately show ?case by simp
qed simp

lemma walk_accepting:
  assumes "m < n" "walk (int m) (int n - 1) L = (bs, f, 0)"
  shows "\<exists>e. bs = path_dirs n m @ replicate e True"
proof -
  let ?d = "length (path_dirs n m)"
  have "?d \<le> L"
  proof (rule ccontr)
    assume "\<not> ?d \<le> L"
    then obtain j where d: "?d = Suc (L + j)" by (metis add_Suc less_iff_Suc_add not_le)
    have "snd (snd (walk (int m) (int n - 1) (L + j))) = 0"
      using walk_append [OF assms(2), of j] walk_snd_0 [of f j] by (auto split: prod.splits)
    with walk_tree(2) [OF assms(1) d] show False by simp
  qed
  then obtain e where "L = ?d + e" by (auto simp: le_iff_add)
  with walk_append [OF walk_tree(1) [OF assms(1)], of e] assms(2) show ?thesis
    by (auto simp: walk_00)
qed

definition path_inputs :: "bytes \<Rightarrow> int \<Rightarrow> int \<Rightarrow> bytes list \<Rightarrow> bytes set" where
  "path_inputs leaf m n path =
     insert (0x00 # leaf) (climb_inputs (leaf_hash leaf) (zip (fst (walk m (n - 1) (length path))) path))"

text \<open>Every inclusion proof the builder makes is accepted by the verifier, for every tree
  and every index in range; outside the range the builder raises IndexError.\<close>

theorem inclusion_proof_accepted:
  "case inclusion_proof leaves m of
     Inl e \<Rightarrow> e = IndexError ''leaf index out of range'' \<and> (m < 0 \<or> int (length leaves) \<le> m)
   | Inr path \<Rightarrow> verify_inclusion (leaves ! nat m) m (int (length leaves)) path (merkle_root leaves)"
proof (cases "0 \<le> m \<and> m < int (length leaves)")
  case True
  then have m: "nat m < length leaves" "int (nat m) = m" by auto
  with climb_audit_path [OF m(1)] walk_tree(1) [OF m(1)] True show ?thesis
    by (auto simp: inclusion_proof_def verify_inclusion_def inclusion_loop_walk)
qed (auto simp: inclusion_proof_def)

text \<open>C2: an accepted inclusion proof against an honest root, of whatever length and content, is for
  the leaf at that index, unless a string hashed by the verifier collides under SHA-256 with a
  different string hashed when the tree was built.\<close>

theorem verify_inclusion_sound:
  assumes "verify_inclusion leaf m (int (length leaves)) path (merkle_root leaves)" and "0 \<le> m"
  shows "leaf = leaves ! nat m
         \<or> collision_between sha256 (tree_inputs leaves) (path_inputs leaf m (int (length leaves)) path)"
proof -
  let ?n = "int (length leaves)"
  have m: "nat m < length leaves" "m = int (nat m)"
    using assms by (auto simp: verify_inclusion_def split: if_splits)
  obtain bs f sn where w: "walk m (?n - 1) (length path) = (bs, f, sn)" by (cases "walk m (?n - 1) (length path)") auto
  have sn: "sn = 0" and c: "climb (leaf_hash leaf) (zip bs path) = merkle_root leaves"
    using assms w by (auto simp: verify_inclusion_def inclusion_loop_walk split: if_splits)
  have "walk (int (nat m)) (?n - 1) (length path) = (bs, f, 0)" using w sn m(2) by simp
  from walk_accepting [OF m(1) this] obtain e where
    bs: "bs = path_dirs (length leaves) (nat m) @ replicate e True" by blast
  have len: "length bs = length path" using length_walk [OF w] .
  have inp: "path_inputs leaf m ?n path = insert (0x00 # leaf) (climb_inputs (leaf_hash leaf) (zip bs path))"
    by (simp add: path_inputs_def w)
  have "length (leaf_hash leaf) = 32" by (simp add: leaf_hash_def)
  from climb_follows_tree [OF c this] show ?thesis
  proof (elim disjE exE conjE)
    fix sub
    assume sub: "descend leaves (rev (map fst (zip bs path))) = Some sub" "leaf_hash leaf = merkle_root sub"
      "tree_inputs sub \<subseteq> tree_inputs leaves"
    then have d: "descend leaves (rev bs) = Some sub" using len by simp
    have "e = 0" using d descend_overlong [OF m(1), of e] by (cases "e = 0") (auto simp: bs)
    then have "sub = [leaves ! nat m]" using d descend_path_dirs [OF m(1)] by (simp add: bs)
    with leaf_hash_is_root [OF sub(2)] sub(3) show ?thesis
      by (auto simp: inp intro: collision_between_mono)
  next
    assume "collision_between sha256 (tree_inputs leaves) (climb_inputs (leaf_hash leaf) (zip bs path))"
    then show ?thesis by (auto simp: inp intro: collision_between_mono)
  qed
qed

lemma merkle_root_pair: "merkle_root [x, y] = node_hash (leaf_hash x) (leaf_hash y)"
  using merkle_root_split [of "[x, y]" 1] largest_pow2_lt_eq [of 0 2]
  by (simp add: merkle_root_single numeral_2_eq_2)

theorem verify_inclusion_sound_witness:
  "verify_inclusion [7] 1 2 [leaf_hash [5]] (merkle_root [[5], [7]])
   \<and> ([7] = [[5], [7]] ! nat 1
      \<or> collision_between sha256 (tree_inputs [[5], [7]]) (path_inputs [7] 1 2 [leaf_hash [5]]))"
proof -
  have v: "verify_inclusion [7] 1 (int (length [[5], [7 :: byte]])) [leaf_hash [5]] (merkle_root [[5], [7]])"
    by (simp add: verify_inclusion_def merkle_root_pair strip_even_at_odd)
  from verify_inclusion_sound [OF v] v show ?thesis by simp
qed

text \<open>The verifier does not check the sign of the index: it accepts the only leaf of a
  one-leaf tree at index minus one, an index for which the builder raises.\<close>

theorem verify_inclusion_accepts_negative_index:
  "verify_inclusion leaf (- 1) 1 [] (merkle_root [leaf]) \<and> (\<exists>e. inclusion_proof [leaf] (- 1) = Inl e)"
  by (simp add: verify_inclusion_def merkle_root_single inclusion_proof_def)

subsection \<open>Consistency proofs\<close>

text \<open>The case of at most one leaf and \<open>m \<noteq> length leaves\<close> is out of reach from
  \<open>consistency_proof\<close>, which asks for \<open>0 < m < length leaves\<close>.\<close>

function subproof :: "nat \<Rightarrow> bytes list \<Rightarrow> bool \<Rightarrow> bytes list" where
  "subproof m leaves b =
     (if m = length leaves then (if b then [] else [merkle_root leaves])
      else if length leaves \<le> 1 then []
      else let k = largest_pow2_lt (length leaves)
           in if m \<le> k then subproof m (take k leaves) b @ [merkle_root (drop k leaves)]
              else subproof (m - k) (drop k leaves) False @ [merkle_root (take k leaves)])"
  by pat_completeness auto
termination
  by (relation "measure (\<lambda>(m, ls, b). length ls)")
    (use largest_pow2_lt_bounds in \<open>auto simp: not_le min_def intro!: diff_less\<close>)

declare subproof.simps [simp del]

definition consistency_proof :: "bytes list \<Rightarrow> int \<Rightarrow> bytes list result" where
  "consistency_proof leaves m =
     (if \<not> (0 < m \<and> m \<le> int (length leaves)) then Inl (ValueError ''need 0 < m <= n'')
      else if m = int (length leaves) then Inr []
      else Inr (subproof (nat m) leaves True))"

text \<open>\<^verbatim>\<open>while fn & 1: fn >>= 1; sn >>= 1\<close>. Minus one is the only start from which the loop would
  not end, and it would come from an old size of zero, which the caller has already answered.\<close>

function strip_odd :: "int \<Rightarrow> int \<Rightarrow> int \<times> int" where
  "strip_odd fn sn = (if fn mod 2 = 1 \<and> fn \<noteq> - 1 then strip_odd (fn div 2) (sn div 2) else (fn, sn))"
  by pat_completeness auto
termination
  by (relation "measure (\<lambda>(fn, sn). nat \<bar>fn\<bar>)") (auto simp: zmod_eq_0_iff, presburger)

declare strip_odd.simps [simp del]

text \<open>None is the \<^verbatim>\<open>return False\<close> inside the loop.\<close>

fun consistency_loop :: "int \<Rightarrow> int \<Rightarrow> bytes \<Rightarrow> bytes \<Rightarrow> bytes list \<Rightarrow> (bytes \<times> bytes \<times> int) option" where
  "consistency_loop fn sn fr sr [] = Some (fr, sr, sn)"
| "consistency_loop fn sn fr sr (c # cs) =
     (if sn = 0 then None
      else if fn mod 2 = 1 \<or> fn = sn
      then (case strip_even fn sn of (fn', sn') \<Rightarrow>
              consistency_loop (fn' div 2) (sn' div 2) (node_hash c fr) (node_hash c sr) cs)
      else consistency_loop (fn div 2) (sn div 2) fr (node_hash sr c) cs)"

unbundle bit_operations_syntax

definition verify_consistency :: "int \<Rightarrow> int \<Rightarrow> bytes \<Rightarrow> bytes \<Rightarrow> bytes list \<Rightarrow> bool" where
  "verify_consistency old_size new_size old_root new_root path =
     (if old_size > new_size then False
      else if old_size = new_size then path = [] \<and> old_root = new_root
      else if old_size = 0 then path = []
      else case (if old_size AND (old_size - 1) = 0 then old_root # path else path) of
             [] \<Rightarrow> False
           | node # rest \<Rightarrow>
               (case strip_odd (old_size - 1) (new_size - 1) of (fn, sn) \<Rightarrow>
                  case consistency_loop fn sn node node rest of
                    None \<Rightarrow> False
                  | Some (fr, sr, sn') \<Rightarrow> fr = old_root \<and> sr = new_root \<and> sn' = 0))"

lemma subproof_left:
  "2 ^ g < length ls \<Longrightarrow> length ls \<le> 2 * 2 ^ g \<Longrightarrow> m \<le> 2 ^ g \<Longrightarrow>
   subproof m ls b = subproof m (take (2 ^ g) ls) b @ [merkle_root (drop (2 ^ g) ls)]"
  by (subst subproof.simps) (auto simp: Let_def largest_pow2_lt_eq dest: less_le_trans [of "2 ^ g" _ 1])

lemma subproof_right:
  assumes "2 ^ g < length ls" "length ls \<le> 2 * 2 ^ g" "\<not> m \<le> 2 ^ g" "m < length ls"
  shows "subproof m ls b = subproof (m - 2 ^ g) (drop (2 ^ g) ls) False @ [merkle_root (take (2 ^ g) ls)]"
proof -
  have k: "largest_pow2_lt (length ls) = 2 ^ g" using assms by (simp add: largest_pow2_lt_eq)
  have "(1::nat) \<le> 2 ^ g" by simp
  with assms have "\<not> length ls \<le> 1" "m \<noteq> length ls" by linarith+
  with assms(3) show ?thesis by (subst subproof.simps) (simp add: Let_def k)
qed

lemma subproof_whole: "subproof (length ls) ls False = [merkle_root ls]"
  by (subst subproof.simps) simp

lemma merkle_root_at:
  assumes "2 ^ g < length ls" "length ls \<le> 2 * 2 ^ g"
  shows "merkle_root ls = node_hash (merkle_root (take (2 ^ g) ls)) (merkle_root (drop (2 ^ g) ls))"
proof (rule merkle_root_split)
  have "(1::nat) \<le> 2 ^ g" by simp
  with assms(1) show "1 < length ls" by linarith
  show "2 ^ g = largest_pow2_lt (length ls)" using assms by (simp add: largest_pow2_lt_eq)
qed

lemma merkle_root_prefix:
  assumes "2 ^ g < length ls" "length ls \<le> 2 * 2 ^ g" "\<not> m \<le> 2 ^ g" "m \<le> length ls"
  shows "merkle_root (take m ls)
         = node_hash (merkle_root (take (2 ^ g) ls)) (merkle_root (take (m - 2 ^ g) (drop (2 ^ g) ls)))"
  using merkle_root_at [of g "take m ls"] assms by (simp add: min_def drop_take)

lemma strip_odd_step: "0 \<le> x \<Longrightarrow> strip_odd (2 * x + 1) y = strip_odd x (y div 2)"
  by (subst strip_odd.simps) simp

lemma strip_odd_ones:
  assumes "F mod 2 = 0" "0 \<le> F" "0 \<le> s" "s < 2 ^ h"
  shows "strip_odd (F * 2 ^ h + 2 ^ h - 1) (S * 2 ^ h + s) = (F, S)"
  using assms
proof (induction h arbitrary: s)
  case 0
  then show ?case by (subst strip_odd.simps) simp
next
  case (Suc h)
  have a: "F * 2 ^ Suc h + 2 ^ Suc h - 1 = 2 * (F * 2 ^ h + 2 ^ h - 1) + 1" by simp
  have "0 \<le> F * 2 ^ h" using Suc.prems by simp
  then have "0 \<le> F * 2 ^ h + 2 ^ h - 1" by (smt (verit) zero_less_power)
  moreover have "(S * 2 ^ Suc h + s) div 2 = S * 2 ^ h + s div 2" by simp
  moreover have "0 \<le> s div 2" "s div 2 < 2 ^ h" using Suc.prems by auto
  ultimately show ?case
    using Suc.IH [of "s div 2"] Suc.prems unfolding a by (simp only: strip_odd_step)
qed

text \<open>The state of the consistency verifier after the path of a block: the side list \<open>bs\<close> brings
  the first node up to both roots.\<close>

definition joins :: "bytes list \<Rightarrow> bool list \<Rightarrow> bytes \<Rightarrow> bytes \<Rightarrow> bool" where
  "joins ps bs old new \<longleftrightarrow>
     (\<exists>x xs. ps = x # xs \<and> length bs = length xs
       \<and> climb x (filter fst (zip bs xs)) = old \<and> climb x (zip bs xs) = new)"

lemma joins_left:
  "joins ps bs old new \<Longrightarrow> joins (ps @ [c]) (bs @ [False]) old (node_hash new c)"
  by (auto simp: joins_def climb_append)

lemma joins_right:
  "joins ps bs old new \<Longrightarrow> joins (ps @ [c]) (bs @ [True]) (node_hash c old) (node_hash c new)"
  by (auto simp: joins_def climb_append)

lemma half_split:
  assumes "0 \<le> s" "s < (2::int) * 2 ^ h"
  obtains q t where "s = q * 2 ^ h + t" "0 \<le> t" "t < 2 ^ h" "0 \<le> q" "q < 2"
proof
  show "s = (s div 2 ^ h) * 2 ^ h + s mod 2 ^ h" by (rule div_mult_mod_eq [symmetric])
  show "0 \<le> s mod 2 ^ h" "s mod 2 ^ h < 2 ^ h" by simp_all
  show "0 \<le> s div 2 ^ h" using assms by (simp add: pos_imp_zdiv_nonneg_iff)
  show "s div 2 ^ h < 2"
  proof (rule ccontr)
    assume "\<not> s div 2 ^ h < 2"
    then have "2 * 2 ^ h \<le> (s div 2 ^ h) * 2 ^ h" by (intro mult_right_mono) auto
    moreover have "(s div 2 ^ h) * 2 ^ h \<le> s"
      using div_mult_mod_eq [of s "2 ^ h"] pos_mod_sign [of "2 ^ h" s]
      by (metis le_add_same_cancel1 zero_less_numeral zero_less_power)
    ultimately show False using assms by linarith
  qed
qed

text \<open>A complete block of height \<open>h\<close>, away from the right edge of the new tree.\<close>

lemma consistency_block:
  assumes "length ls = 2 ^ h" "1 \<le> m" "m \<le> 2 ^ h" "m = 2 ^ h \<longrightarrow> F mod 2 = 0"
    and "0 \<le> F" "F < S" "0 \<le> s" "s < 2 ^ h"
  shows "\<exists>bs f t. strip_odd (F * 2 ^ h + int m - 1) (S * 2 ^ h + s) = (f, t)
           \<and> walk f t (length bs) = (bs, F, S)
           \<and> joins (subproof m ls False) bs (merkle_root (take m ls)) (merkle_root ls)"
  using assms
proof (induction h arbitrary: ls m F S s)
  case 0
  then have "m = length ls" by simp
  with 0 strip_odd_ones [of F s 0 S] subproof_whole [of ls] show ?case
    by (intro exI [of _ "[]"]) (auto simp: joins_def)
next
  case (Suc g)
  let ?k = "2 ^ g :: nat"
  have len: "?k < length ls" "length ls \<le> 2 * ?k" using Suc.prems by auto
  from Suc.prems obtain q t where s: "s = q * 2 ^ g + t" "0 \<le> t" "t < 2 ^ g" and q: "0 \<le> q" "q < 2"
    using half_split [of s g] by auto
  have sn: "S * 2 ^ Suc g + s = (2 * S + q) * 2 ^ g + t" by (simp add: s algebra_simps)
  consider "m = length ls" | "m \<le> ?k" | "m < length ls" "\<not> m \<le> ?k" using Suc.prems by linarith
  then show ?case
  proof cases
    case 1
    with Suc.prems strip_odd_ones [of F s "Suc g" S] subproof_whole [of ls] show ?thesis
      by (intro exI [of _ "[]"]) (auto simp: joins_def)
  next
    case 2
    have fn: "F * 2 ^ Suc g + int m - 1 = (2 * F) * 2 ^ g + int m - 1" by simp
    have "\<exists>bs f u. strip_odd ((2 * F) * 2 ^ g + int m - 1) ((2 * S + q) * 2 ^ g + t) = (f, u)
           \<and> walk f u (length bs) = (bs, 2 * F, 2 * S + q)
           \<and> joins (subproof m (take ?k ls) False) bs (merkle_root (take m (take ?k ls))) (merkle_root (take ?k ls))"
      by (rule Suc.IH) (use 2 Suc.prems s q in auto)
    then obtain bs f u where w: "strip_odd (F * 2 ^ Suc g + int m - 1) (S * 2 ^ Suc g + s) = (f, u)"
      "walk f u (length bs) = (bs, 2 * F, 2 * S + q)"
      and j: "joins (subproof m (take ?k ls) False) bs (merkle_root (take m ls)) (merkle_root (take ?k ls))"
      using 2 unfolding sn fn by (auto simp: min_def)
    have "walk (2 * F) (2 * S + q) 1 = ([False], F, S)" by (rule walk1) (use Suc.prems q in auto)
    from walk_snoc [OF w(2) this] w(1) joins_left [OF j] show ?thesis
      by (intro exI [of _ "bs @ [False]"]) (auto simp: subproof_left [OF len 2] merkle_root_at [OF len] simp del: walk.simps)
  next
    case 3
    have fn: "F * 2 ^ Suc g + int m - 1 = (2 * F + 1) * 2 ^ g + int (m - ?k) - 1"
      using 3 by (simp add: algebra_simps of_nat_diff)
    have "\<exists>bs f u. strip_odd ((2 * F + 1) * 2 ^ g + int (m - ?k) - 1) ((2 * S + q) * 2 ^ g + t) = (f, u)
           \<and> walk f u (length bs) = (bs, 2 * F + 1, 2 * S + q)
           \<and> joins (subproof (m - ?k) (drop ?k ls) False) bs
                (merkle_root (take (m - ?k) (drop ?k ls))) (merkle_root (drop ?k ls))"
      by (rule Suc.IH) (use 3 Suc.prems s q in auto)
    then obtain bs f u where w: "strip_odd (F * 2 ^ Suc g + int m - 1) (S * 2 ^ Suc g + s) = (f, u)"
      "walk f u (length bs) = (bs, 2 * F + 1, 2 * S + q)"
      and j: "joins (subproof (m - ?k) (drop ?k ls) False) bs
                (merkle_root (take (m - ?k) (drop ?k ls))) (merkle_root (drop ?k ls))"
      unfolding sn fn by auto
    have "walk (2 * F + 1) (2 * S + q) 1 = ([True], F, S)" by (rule walk1) (use q in auto)
    from walk_snoc [OF w(2) this] w(1) joins_right [OF j] show ?thesis
      using merkle_root_prefix [OF len 3(2) less_imp_le [OF 3(1)]]
      by (intro exI [of _ "bs @ [True]"])
        (auto simp: subproof_right [OF len 3(2,1)] merkle_root_at [OF len] simp del: walk.simps)
  qed
qed

text \<open>The right edge: both indices reach the same ancestor, and not before the last step.\<close>

lemma consistency_edge:
  assumes "1 \<le> m" "m < length ls" "length ls \<le> 2 ^ h" "h = 0 \<or> 2 ^ (h - 1) < length ls" "0 \<le> F"
  shows "\<exists>bs f t j. strip_odd (F * 2 ^ h + int m - 1) (F * 2 ^ h + int (length ls) - 1) = (f, t)
           \<and> walk f t (length bs) = (bs, F, F)
           \<and> joins (subproof m ls False) bs (merkle_root (take m ls)) (merkle_root ls)
           \<and> length bs = Suc j \<and> snd (snd (walk f t j)) \<noteq> 0"
  using assms
proof (induction "length ls" arbitrary: ls m h F rule: less_induct)
  case less
  let ?n = "length ls"
  from less.prems have "h \<noteq> 0" by (cases "h = 0") auto
  then obtain g where h: "h = Suc g" by (cases h) auto
  let ?k = "2 ^ g :: nat"
  have len: "?k < ?n" "?n \<le> 2 * ?k" using less.prems h by auto
  have sn: "F * 2 ^ h + int ?n - 1 = (2 * F + 1) * 2 ^ g + int (?n - 1 - ?k)"
    using len h by (simp add: algebra_simps of_nat_diff)
  show ?case
  proof (cases "m \<le> ?k")
    case True
    have "?n - 1 - ?k < ?k" using len by arith
    then have lt: "int (?n - 1 - ?k) < 2 ^ g" by (simp flip: of_nat_less_iff)
    have fn: "F * 2 ^ h + int m - 1 = (2 * F) * 2 ^ g + int m - 1" by (simp add: h)
    have "\<exists>bs f u. strip_odd ((2 * F) * 2 ^ g + int m - 1) ((2 * F + 1) * 2 ^ g + int (?n - 1 - ?k)) = (f, u)
           \<and> walk f u (length bs) = (bs, 2 * F, 2 * F + 1)
           \<and> joins (subproof m (take ?k ls) False) bs (merkle_root (take m (take ?k ls))) (merkle_root (take ?k ls))"
      by (rule consistency_block) (use True less.prems(1,5) len(1) lt in \<open>simp_all only: of_nat_0_le_iff\<close>, use len(1) in simp_all)
    then obtain bs f u where w: "strip_odd (F * 2 ^ h + int m - 1) (F * 2 ^ h + int ?n - 1) = (f, u)"
      "walk f u (length bs) = (bs, 2 * F, 2 * F + 1)"
      and j: "joins (subproof m (take ?k ls) False) bs (merkle_root (take m ls)) (merkle_root (take ?k ls))"
      unfolding sn fn using True by (auto simp: min_def)
    have "walk (2 * F) (2 * F + 1) 1 = ([False], F, F)" by (rule walk1) (simp, presburger, simp_all)
    from walk_snoc [OF w(2) this] w less.prems(5) joins_left [OF j] show ?thesis
      by (intro exI [of _ "bs @ [False]"] exI [of _ f] exI [of _ u] exI [of _ "length bs"])
        (simp add: subproof_left [OF len True] merkle_root_at [OF len] del: walk.simps)
  next
    case False
    from len have "1 \<le> ?n - ?k" "?n - ?k \<le> 2 ^ g" by auto
    then obtain h' where h': "h' \<le> g" "?n - ?k \<le> 2 ^ h'" "h' = 0 \<or> 2 ^ (h' - 1) < ?n - ?k"
      using tree_height by blast
    let ?F = "(2 * F + 1) * 2 ^ (g - h')"
    have e: "(2 * F + 1) * 2 ^ g = ?F * 2 ^ h'" using h'(1) by (simp add: mult.assoc power_add [symmetric])
    have fn: "F * 2 ^ h + int m - 1 = ?F * 2 ^ h' + int (m - ?k) - 1"
      unfolding e [symmetric] using False h by (simp add: algebra_simps of_nat_diff)
    have sn': "F * 2 ^ h + int ?n - 1 = ?F * 2 ^ h' + int (length (drop ?k ls)) - 1"
      unfolding e [symmetric] using len h by (simp add: algebra_simps of_nat_diff)
    have "\<exists>bs f t j. strip_odd (F * 2 ^ h + int m - 1) (F * 2 ^ h + int ?n - 1) = (f, t)
           \<and> walk f t (length bs) = (bs, ?F, ?F)
           \<and> joins (subproof (m - ?k) (drop ?k ls) False) bs
                (merkle_root (take (m - ?k) (drop ?k ls))) (merkle_root (drop ?k ls))
           \<and> length bs = Suc j \<and> snd (snd (walk f t j)) \<noteq> 0"
      unfolding fn sn' by (rule less.hyps) (use h' less.prems len False in auto)
    then obtain bs f t where w: "strip_odd (F * 2 ^ h + int m - 1) (F * 2 ^ h + int ?n - 1) = (f, t)"
      "walk f t (length bs) = (bs, ?F, ?F)"
      and j: "joins (subproof (m - ?k) (drop ?k ls) False) bs
                (merkle_root (take (m - ?k) (drop ?k ls))) (merkle_root (drop ?k ls))"
      by blast
    have "?F \<noteq> 0" by (simp, presburger)
    with walk_snoc [OF w(2) walk1(3)] w joins_right [OF j] show ?thesis
      using merkle_root_prefix [OF len False less_imp_le [OF less.prems(2)]]
      by (intro exI [of _ "bs @ [True]"] exI [of _ f] exI [of _ t] exI [of _ "length bs"])
        (simp add: subproof_right [OF len False less.prems(2)] merkle_root_at [OF len] del: walk.simps)
  qed
qed

lemma consistency_loop_walk:
  assumes "walk f s (length ps) = (bs, f', s')" "\<forall>j < length ps. snd (snd (walk f s j)) \<noteq> 0"
  shows "consistency_loop f s fr sr ps = Some (climb fr (filter fst (zip bs ps)), climb sr (zip bs ps), s')"
  using assms
proof (induction f s fr sr ps arbitrary: bs rule: consistency_loop.induct)
  case (2 f s fr sr c cs)
  note nz = 2(4)
  from nz have s: "s \<noteq> 0" by (auto dest: spec [of _ 0])
  have nz': "snd (snd (walk f s (Suc j))) \<noteq> 0" if "j < length cs" for j
    using nz that by (simp del: walk.simps)
  show ?case
  proof (cases "f = s \<or> f mod 2 = 1")
    case True
    obtain f1 s1 where st: "strip_even f s = (f1, s1)" by (cases "strip_even f s")
    have "\<forall>j < length cs. snd (snd (walk (f1 div 2) (s1 div 2) j)) \<noteq> 0"
      using nz' True st by (fastforce split: prod.splits)
    with 2(1) [OF s _ st [symmetric]] 2(3) True s st show ?thesis
      by (auto split: prod.splits)
  next
    case False
    have "\<forall>j < length cs. snd (snd (walk (f div 2) (s div 2) j)) \<noteq> 0"
      using nz' False by (fastforce split: prod.splits)
    with 2(2) [OF s] 2(3) False s show ?thesis by (auto split: prod.splits)
  qed
qed simp

lemma walk_nonzero_before:
  assumes "snd (snd (walk f s j)) \<noteq> 0" "i \<le> j"
  shows "snd (snd (walk f s i)) \<noteq> 0"
proof
  assume z: "snd (snd (walk f s i)) = 0"
  obtain bs f' where "walk f s i = (bs, f', 0)" using z by (cases "walk f s i") auto
  with walk_append [of f s i bs f' 0 "j - i"] walk_snd_0 [of f' "j - i"] assms show False
    by (auto split: prod.splits)
qed

lemma pow2_test: "0 < m \<Longrightarrow> int m AND (int m - 1) = 0 \<longleftrightarrow> (\<exists>i. m = 2 ^ i)"
proof (induction m rule: less_induct)
  case (less m)
  show ?case
  proof (cases "even m")
    case True
    then obtain x where m: "m = 2 * x" by (rule evenE)
    with less.prems have x: "0 < x" "x < m" by auto
    have "(2 * int x - 1) div 2 = int x - 1" by presburger
    then have "int m AND (int m - 1) = 2 * (int x AND (int x - 1))"
      by (subst and_rec) (simp add: m)
    moreover have "(\<exists>i. m = 2 ^ i) \<longleftrightarrow> (\<exists>i. x = 2 ^ i)"
    proof
      assume "\<exists>i. m = 2 ^ i"
      then obtain i where "m = 2 ^ i" by blast
      with True m show "\<exists>i. x = 2 ^ i" by (cases i) auto
    next
      assume "\<exists>i. x = 2 ^ i"
      then show "\<exists>i. m = 2 ^ i" by (auto simp: m intro: exI [of _ "Suc _"])
    qed
    ultimately show ?thesis using less.IH [OF x(2,1)] by simp
  next
    case False
    then obtain x where m: "m = 2 * x + 1" by (rule oddE)
    have "int m AND (int m - 1) = 2 * int x"
      by (subst and_rec) (simp add: m)
    moreover have "(\<exists>i. m = 2 ^ i) \<longleftrightarrow> x = 0"
    proof
      assume "\<exists>i. m = 2 ^ i"
      then obtain i where "m = 2 ^ i" by blast
      with m show "x = 0" by (cases i) (auto, presburger)
    next
      assume "x = 0"
      then show "\<exists>i. m = 2 ^ i" by (auto simp: m intro: exI [of _ 0])
    qed
    ultimately show ?thesis by simp
  qed
qed

text \<open>The builder leaves out the old root exactly when the verifier puts it back.\<close>

lemma subproof_omits_root:
  assumes "1 \<le> m" "m \<le> length ls" "m < length ls \<or> (\<exists>i. m = 2 ^ i)"
  shows "subproof m ls False
         = (if \<exists>i. m = 2 ^ i then merkle_root (take m ls) # subproof m ls True else subproof m ls True)"
  using assms
proof (induction "length ls" arbitrary: ls rule: less_induct)
  case less
  show ?case
  proof (cases "m = length ls")
    case True
    have "subproof (length ls) ls True = []" by (subst subproof.simps) simp
    with True less.prems subproof_whole [of ls] show ?thesis by auto
  next
    case False
    with less.prems have mn: "m < length ls" "1 < length ls" by auto
    obtain g where g: "2 ^ g < length ls" "length ls \<le> 2 * 2 ^ g"
      using largest_pow2_lt_spec [OF mn(2)] by metis
    show ?thesis
    proof (cases "m \<le> 2 ^ g")
      case True
      have "subproof m (take (2 ^ g) ls) False
            = (if \<exists>i. m = 2 ^ i then merkle_root (take m (take (2 ^ g) ls)) # subproof m (take (2 ^ g) ls) True
               else subproof m (take (2 ^ g) ls) True)"
        by (rule less.hyps) (use True g less.prems in \<open>auto simp: le_less\<close>)
      with True show ?thesis by (simp add: subproof_left [OF g True] min_def)
    next
      case right: False
      have "\<not> (\<exists>i. m = 2 ^ i)"
      proof
        assume "\<exists>i. m = 2 ^ i"
        then obtain i where i: "m = 2 ^ i" by blast
        with right mn(1) g have "(2::nat) ^ g < 2 ^ i" "(2::nat) ^ i < 2 ^ Suc g" by auto
        then have "g < i" "i < Suc g" by (simp_all only: power_strict_increasing_iff one_less_numeral_iff semiring_norm)
        then show False by simp
      qed
      then show ?thesis by (simp add: subproof_right [OF g right mn(1)])
    qed
  qed
qed

lemma verify_consistency_nodes:
  assumes "0 < m" "m < length ls"
    and nodes: "(if int m AND (int m - 1) = 0 then merkle_root (take m ls) # path else path) = subproof m ls False"
  shows "verify_consistency (int m) (int (length ls)) (merkle_root (take m ls)) (merkle_root ls) path"
proof -
  obtain h where h: "length ls \<le> 2 ^ h" "h = 0 \<or> 2 ^ (h - 1) < length ls"
    using tree_height [of "length ls" "length ls"] assms less_exp [of "length ls"] by (auto simp: less_imp_le)
  from assms(1) have "1 \<le> m" by simp
  from consistency_edge [OF this assms(2) h, of 0] obtain bs f t j where
    e: "strip_odd (int m - 1) (int (length ls) - 1) = (f, t)" "walk f t (length bs) = (bs, 0, 0)"
    "joins (subproof m ls False) bs (merkle_root (take m ls)) (merkle_root ls)"
    "length bs = Suc j" "snd (snd (walk f t j)) \<noteq> 0"
    by auto
  from e(3) obtain x xs where x: "subproof m ls False = x # xs" "length bs = length xs"
    "climb x (filter fst (zip bs xs)) = merkle_root (take m ls)" "climb x (zip bs xs) = merkle_root ls"
    by (auto simp: joins_def)
  have "\<forall>i < length xs. snd (snd (walk f t i)) \<noteq> 0"
    using walk_nonzero_before [OF e(5)] e(4) x(2) by simp
  from consistency_loop_walk [OF _ this, of bs 0 0 x x] e(2) x
  have "consistency_loop f t x x xs = Some (merkle_root (take m ls), merkle_root ls, 0)" by simp
  with assms(1,2) e(1) nodes x(1) show ?thesis
    by (auto simp: verify_consistency_def)
qed

text \<open>Every consistency proof the builder makes is accepted: for every list of leaves and
  every old size from one to the length, the verifier accepts the proof for the root of the prefix and the
  root of the whole; the builder raises ValueError exactly outside that range.\<close>

theorem consistency_proof_accepted:
  "case consistency_proof leaves m of
     Inl e \<Rightarrow> e = ValueError ''need 0 < m <= n'' \<and> (m \<le> 0 \<or> int (length leaves) < m)
   | Inr path \<Rightarrow> verify_consistency m (int (length leaves)) (merkle_root (take (nat m) leaves))
                   (merkle_root leaves) path"
proof (cases "0 < m \<and> m < int (length leaves)")
  case True
  then obtain k where k: "m = int k" "0 < k" "k < length leaves" by (metis of_nat_0_less_iff of_nat_less_iff zero_less_imp_eq_int)
  have "(if int k AND (int k - 1) = 0 then merkle_root (take k leaves) # subproof k leaves True
         else subproof k leaves True) = subproof k leaves False"
    using subproof_omits_root [of k leaves] k by (simp add: pow2_test)
  from verify_consistency_nodes [OF k(2,3) this] k show ?thesis
    by (simp add: consistency_proof_def)
qed (auto simp: consistency_proof_def verify_consistency_def)

end
