(* ===== verification/Py_Str.thy ===== *)
theory Py_Str
  imports Prelude
begin

text \<open>
  The Python string methods the modelled code calls, on code points below 256: \<^verbatim>\<open>str(int)\<close>,
  \<^verbatim>\<open>strip\<close>, \<^verbatim>\<open>lower\<close>, \<^verbatim>\<open>split(sep)\<close>, \<^verbatim>\<open>startswith\<close>, \<^verbatim>\<open>endswith\<close>. The lemmas
  are the ones serialisation and matching need: decimal numerals determine the number, and a
  split is undone by a join.
\<close>

subsection \<open>Decimal numerals\<close>

definition digit :: "nat \<Rightarrow> char" where
  "digit n = char_of (48 + n)"

definition is_digit :: "char \<Rightarrow> bool" where
  "is_digit c \<longleftrightarrow> 48 \<le> (of_char c :: nat) \<and> (of_char c :: nat) \<le> 57"

definition digit_val :: "char \<Rightarrow> nat" where
  "digit_val c = of_char c - 48"

lemma digit_facts [simp]: "n < 10 \<Longrightarrow> is_digit (digit n)" "n < 10 \<Longrightarrow> digit_val (digit n) = n"
  by (simp_all add: digit_def is_digit_def digit_val_def)

lemma digit_val_less: "is_digit c \<Longrightarrow> digit_val c < 10"
  unfolding is_digit_def digit_val_def by linarith

lemma not_digit [simp]:
  "\<not> is_digit (CHR ''-'')" "\<not> is_digit (CHR ''.'')" "\<not> is_digit (CHR '','')" "\<not> is_digit (CHR '']'')"
  "\<not> is_digit (CHR ''}'')" "\<not> is_digit (CHR ''['')" "\<not> is_digit (CHR ''{'')" "\<not> is_digit (CHR ''n'')"
  "\<not> is_digit (CHR ''t'')" "\<not> is_digit (CHR ''f'')" "\<not> is_digit (CHR 0x22)" "\<not> is_digit (CHR '':'')"
  by (simp_all add: is_digit_def)

fun str_nat :: "nat \<Rightarrow> string" where
  "str_nat n = (if n < 10 then [digit n] else str_nat (n div 10) @ [digit (n mod 10)])"

declare str_nat.simps [simp del]

definition nat_val :: "string \<Rightarrow> nat" where
  "nat_val s = foldl (\<lambda>a c. a * 10 + digit_val c) 0 s"

lemma nat_val_str_nat [simp]: "nat_val (str_nat n) = n"
proof (induction n rule: str_nat.induct)
  case (1 n)
  show ?case
  proof (cases "n < 10")
    case True
    then show ?thesis by (subst str_nat.simps) (simp add: nat_val_def)
  next
    case False
    with 1 show ?thesis by (subst str_nat.simps) (simp add: nat_val_def)
  qed
qed

lemma str_nat_digits: "\<forall>c \<in> set (str_nat n). is_digit c"
proof (induction n rule: str_nat.induct)
  case (1 n)
  then show ?case by (subst str_nat.simps) auto
qed

lemma str_nat_nonempty [simp]: "str_nat n \<noteq> []"
  by (subst str_nat.simps) simp

lemma str_nat_inject [simp]: "str_nat m = str_nat n \<longleftrightarrow> m = n"
  by (metis nat_val_str_nat)

definition str_int :: "int \<Rightarrow> string" where
  "str_int i = (if i < 0 then CHR ''-'' # str_nat (nat (- i)) else str_nat (nat i))"

lemma str_nat_hd: "\<exists>c cs. str_nat n = c # cs \<and> is_digit c"
  using str_nat_digits [of n] by (cases "str_nat n") auto

lemma str_nat_not_minus [simp]: "str_nat n \<noteq> CHR ''-'' # s" "CHR ''-'' # s \<noteq> str_nat n"
  using str_nat_digits [of n] by (metis not_digit(1) list.set_intros(1))+

lemma str_int_inject [simp]: "str_int i = str_int j \<longleftrightarrow> i = j"
  by (auto simp: str_int_def split: if_splits)

lemma str_int_chars: "\<forall>c \<in> set (str_int i). is_digit c \<or> c = CHR ''-''"
  using str_nat_digits by (auto simp: str_int_def)

lemma str_int_hd: "\<exists>c cs. str_int i = c # cs \<and> (is_digit c \<or> c = CHR ''-'')"
  using str_nat_hd [of "nat i"] by (auto simp: str_int_def)

text \<open>Fixed-width numerals, \<^verbatim>\<open>f"{n:04d}"\<close> for \<open>n < 10 ^ w\<close>.\<close>

fun pad_nat :: "nat \<Rightarrow> nat \<Rightarrow> string" where
  "pad_nat 0 n = []"
| "pad_nat (Suc w) n = pad_nat w (n div 10) @ [digit (n mod 10)]"

lemma length_pad_nat [simp]: "length (pad_nat w n) = w"
  by (induction w arbitrary: n) auto

lemma pad_nat_digits: "\<forall>c \<in> set (pad_nat w n). is_digit c"
  by (induction w arbitrary: n) auto

lemma list_all_pad_nat [simp]: "list_all is_digit (pad_nat w n)"
  using pad_nat_digits by (simp add: list_all_iff)

lemma nat_val_pad_nat: "n < 10 ^ w \<Longrightarrow> nat_val (pad_nat w n) = n"
proof (induction w arbitrary: n)
  case 0
  then show ?case by (simp add: nat_val_def)
next
  case (Suc w)
  then have "n div 10 < 10 ^ w" by auto
  from Suc.IH [OF this] show ?case by (simp add: nat_val_def)
qed

subsection \<open>Case, whitespace, splitting\<close>

definition is_space :: "char \<Rightarrow> bool" where
  "is_space c \<longleftrightarrow> (let n = (of_char c :: nat) in (9 \<le> n \<and> n \<le> 13) \<or> (28 \<le> n \<and> n \<le> 32) \<or> n = 133 \<or> n = 160)"

definition lstrip :: "string \<Rightarrow> string" where
  "lstrip s = dropWhile is_space s"

definition strip :: "string \<Rightarrow> string" where
  "strip s = rev (lstrip (rev (lstrip s)))"

lemma strip_set: "set (strip s) \<subseteq> set s"
  by (auto simp: strip_def lstrip_def dest!: set_dropWhileD)

text \<open>A string is its own \<open>strip\<close> exactly when no blank is at either end.\<close>

lemma strip_eq_iff: "strip s = s \<longleftrightarrow> s = [] \<or> \<not> is_space (hd s) \<and> \<not> is_space (last s)"
proof (cases s)
  case (Cons c cs)
  show ?thesis
  proof (cases "is_space c")
    case True
    have "length (strip s) \<le> length cs" using Cons True length_dropWhile_le [of is_space "rev (dropWhile is_space cs)"]
        length_dropWhile_le [of is_space cs] by (simp add: strip_def lstrip_def)
    with Cons True show ?thesis by auto
  next
    case False
    then have l: "lstrip s = s" using Cons by (simp add: lstrip_def)
    have "dropWhile is_space (rev s) = rev s \<longleftrightarrow> \<not> is_space (last s)"
      using Cons dropWhile_eq_self_iff [of is_space "rev s"] by (simp add: hd_rev)
    with l False Cons show ?thesis by (simp add: strip_def lstrip_def)
  qed
qed (simp add: strip_def lstrip_def)

lemma strip_ends: "strip s = [] \<or> \<not> is_space (hd (strip s)) \<and> \<not> is_space (last (strip s))"
proof -
  let ?u = "lstrip s" and ?v = "strip s"
  obtain w where w: "?u = ?v @ w" unfolding strip_def by (metis lstrip_def rev_append rev_rev_ident takeWhile_dropWhile_id)
  have "?v \<noteq> [] \<Longrightarrow> \<not> is_space (hd ?v)"
    using w hd_dropWhile [of is_space s] by (metis append_is_Nil_conv hd_append2 lstrip_def)
  moreover have "?v \<noteq> [] \<Longrightarrow> \<not> is_space (last ?v)"
    using hd_dropWhile [of is_space "rev ?u"] by (simp add: strip_def lstrip_def last_rev)
  ultimately show ?thesis by blast
qed

lemma strip_idem [simp]: "strip (strip s) = strip s"
  using strip_ends [of s] by (simp add: strip_eq_iff)

definition lower_char :: "char \<Rightarrow> char" where
  "lower_char c = (let n = (of_char c :: nat) in
     if (65 \<le> n \<and> n \<le> 90) \<or> (192 \<le> n \<and> n \<le> 222 \<and> n \<noteq> 215) then char_of (n + 32) else c)"

definition lower :: "string \<Rightarrow> string" where
  "lower s = map lower_char s"

lemma lower_append [simp]: "lower (s @ t) = lower s @ lower t"
  by (simp add: lower_def)

lemma length_lower [simp]: "length (lower s) = length s"
  by (simp add: lower_def)

lemma lower_char_idem [simp]: "lower_char (lower_char c) = lower_char c"
  by (simp add: lower_char_def Let_def)

lemma lower_idem [simp]: "lower (lower s) = lower s"
  by (simp add: lower_def)

definition startswith :: "string \<Rightarrow> string \<Rightarrow> bool" where
  "startswith s p \<longleftrightarrow> take (length p) s = p"

definition endswith :: "string \<Rightarrow> string \<Rightarrow> bool" where
  "endswith s p \<longleftrightarrow> length p \<le> length s \<and> drop (length s - length p) s = p"

lemma startswith_iff: "startswith s p \<longleftrightarrow> (\<exists>t. s = p @ t)"
  by (auto simp: startswith_def) (metis append_take_drop_id)

lemma endswith_iff: "endswith s p \<longleftrightarrow> (\<exists>t. s = t @ p)"
  by (auto simp: endswith_def) (metis append_take_drop_id)

text \<open>\<^verbatim>\<open>s.split(sep)\<close> for a one-character separator.\<close>

fun split_on :: "char \<Rightarrow> string \<Rightarrow> string list" where
  "split_on c [] = [[]]"
| "split_on c (x # xs) =
     (if x = c then [] # split_on c xs
      else case split_on c xs of p # ps \<Rightarrow> (x # p) # ps | [] \<Rightarrow> [[x]])"

fun join_with :: "char \<Rightarrow> string list \<Rightarrow> string" where
  "join_with c [] = []"
| "join_with c [p] = p"
| "join_with c (p # q # ps) = p @ c # join_with c (q # ps)"

lemma split_on_nonempty [simp]: "split_on c s \<noteq> []"
  by (induction s) (auto split: list.splits)

lemma join_split [simp]: "join_with c (split_on c s) = s"
proof (induction s)
  case (Cons x xs)
  obtain p ps where "split_on c xs = p # ps" by (cases "split_on c xs") auto
  with Cons show ?case by (cases ps) auto
qed simp

lemma split_on_single: "c \<notin> set s \<Longrightarrow> split_on c s = [s]"
  by (induction s) auto

lemma split_on_append: "c \<notin> set p \<Longrightarrow> split_on c (p @ c # s) = p # split_on c s"
  by (induction p) auto

lemma split_join: "\<forall>x \<in> set xs. c \<notin> set x \<Longrightarrow> xs \<noteq> [] \<Longrightarrow> split_on c (join_with c xs) = xs"
  by (induction c xs rule: join_with.induct) (simp_all add: split_on_single split_on_append)

lemma set_join_with: "set (join_with c xs) \<subseteq> insert c (\<Union> (set ` set xs))"
  by (induction c xs rule: join_with.induct) auto

lemma set_split_on: "p \<in> set (split_on c s) \<Longrightarrow> set p \<subseteq> set s"
  by (induction s arbitrary: p) (force split: list.splits if_splits)+

lemma split_on_parts: "p \<in> set (split_on c s) \<Longrightarrow> c \<notin> set p"
  by (induction s arbitrary: p) (auto split: list.splits if_splits)

text \<open>\<^verbatim>\<open>s.partition(sep)\<close> on a one-character separator: the part before, whether it was found, the
  part after.\<close>

definition partition_on :: "char \<Rightarrow> string \<Rightarrow> string \<times> bool \<times> string" where
  "partition_on c s = (takeWhile (\<lambda>x. x \<noteq> c) s, c \<in> set s, drop 1 (dropWhile (\<lambda>x. x \<noteq> c) s))"

text \<open>\<^verbatim>\<open>int(s)\<close>: blanks around, a sign, digits with single underscores between them, at most 4300 of them.\<close>

fun digit_groups :: "bool \<Rightarrow> string \<Rightarrow> bool" where
  "digit_groups seen [] = seen"
| "digit_groups seen (c # cs) = (if is_digit c then digit_groups True cs else seen \<and> c = CHR ''_'' \<and> digit_groups False cs)"

definition parse_nat :: "string \<Rightarrow> nat option" where
  "parse_nat s = (if digit_groups False s \<and> length (filter is_digit s) \<le> 4300 then Some (nat_val (filter is_digit s)) else None)"

definition parse_int :: "string \<Rightarrow> int option" where
  "parse_int s0 = (case strip s0 of
     [] \<Rightarrow> None
   | c # cs \<Rightarrow> if c = CHR ''-'' then map_option (\<lambda>n. - int n) (parse_nat cs)
               else if c = CHR ''+'' then map_option int (parse_nat cs)
               else map_option int (parse_nat (c # cs)))"

text \<open>\<^verbatim>\<open>repr(s)\<close>, used by f-strings with \<^verbatim>\<open>!r\<close>.\<close>

definition hex_digit :: "nat \<Rightarrow> char" where
  "hex_digit n = (if n < 10 then digit n else char_of (87 + n))"

definition repr_char :: "char \<Rightarrow> char \<Rightarrow> string" where
  "repr_char q c = (let n = (of_char c :: nat) in
     if c = q \<or> n = 92 then [CHR 0x5C, c]
     else if n = 9 then [CHR 0x5C, CHR ''t''] else if n = 10 then [CHR 0x5C, CHR ''n''] else if n = 13 then [CHR 0x5C, CHR ''r'']
     else if n < 32 \<or> (127 \<le> n \<and> n \<le> 160) \<or> n = 173 then [CHR 0x5C, CHR ''x'', hex_digit (n div 16), hex_digit (n mod 16)]
     else [c])"

definition py_repr :: "string \<Rightarrow> string" where
  "py_repr s = (let q = (if CHR 0x27 \<in> set s \<and> CHR 0x22 \<notin> set s then CHR 0x22 else CHR 0x27)
     in q # concat (map (repr_char q) s) @ [q])"

end
