(* ===== verification/Py_Path.thy ===== *)
theory Py_Path
  imports Py_Str
begin

text \<open>
  The path and pattern functions of the standard library that the sandbox policy is built on, on POSIX:
  \<^verbatim>\<open>os.path.expanduser\<close>, \<^verbatim>\<open>os.path.basename\<close>, the string form of \<^verbatim>\<open>pathlib.Path\<close>,
  \<^verbatim>\<open>str.splitlines\<close> and \<^verbatim>\<open>fnmatch.fnmatchcase\<close>. The home directories and the working directory are the fields of
  \<open>os_env\<close>. The lemmas state what a pattern without metacharacters matches, and how normalised paths split.
\<close>

subsection \<open>Paths\<close>

record os_env =
  env_home :: "string option"
  pwd_home :: "string option"
  user_home :: "string \<Rightarrow> string option"
  working_dir :: string

abbreviation slash :: char where "slash \<equiv> CHR ''/''"

definition rstrip_slash :: "string \<Rightarrow> string" where
  "rstrip_slash s = rev (dropWhile (\<lambda>c. c = slash) (rev s))"

definition expanduser :: "os_env \<Rightarrow> string \<Rightarrow> string" where
  "expanduser E p =
     (if \<not> startswith p ''~'' then p
      else
        let name = takeWhile (\<lambda>c. c \<noteq> slash) (tl p);
            rest = dropWhile (\<lambda>c. c \<noteq> slash) (tl p);
            found = (if name \<noteq> [] then user_home E name else if env_home E \<noteq> None then env_home E else pwd_home E)
        in case found of
             None \<Rightarrow> p
           | Some h \<Rightarrow> (let q = rstrip_slash h @ rest in if q = [] then ''/'' else q))"

definition basename :: "string \<Rightarrow> string" where
  "basename p = rev (takeWhile (\<lambda>c. c \<noteq> slash) (rev p))"

definition path_root :: "string \<Rightarrow> string" where
  "path_root p = (if startswith p ''//'' \<and> \<not> startswith p ''///'' then ''//'' else if startswith p ''/'' then ''/'' else [])"

definition path_parts :: "string \<Rightarrow> string list" where
  "path_parts p = filter (\<lambda>x. x \<noteq> [] \<and> x \<noteq> ''.'') (split_on slash p)"

text \<open>\<^verbatim>\<open>str(Path(p))\<close>: empty and single-dot components are dropped, two leading slashes are kept, double dots too.\<close>

definition path_str :: "string \<Rightarrow> string" where
  "path_str p = (let s = path_root p @ join_with slash (path_parts p) in if s = [] then ''.'' else s)"

definition path_join :: "string \<Rightarrow> string \<Rightarrow> string" where
  "path_join a b = path_str (if startswith b ''/'' then b else if a = [] \<or> endswith a ''/'' then a @ b else a @ ''/'' @ b)"

lemma startswith_char: "startswith s [c] \<longleftrightarrow> s \<noteq> [] \<and> hd s = c"
  by (cases s) (auto simp: startswith_def)

subsection \<open>Lines\<close>

definition line_break :: "char \<Rightarrow> bool" where
  "line_break c \<longleftrightarrow> (let n = (of_char c :: nat) in (10 \<le> n \<and> n \<le> 13) \<or> (28 \<le> n \<and> n \<le> 30) \<or> n = 133)"

fun splitlines_from :: "string \<Rightarrow> string \<Rightarrow> string list" where
  "splitlines_from acc [] = (if acc = [] then [] else [rev acc])"
| "splitlines_from acc (c # cs) =
     (if line_break c
      then rev acc # (case cs of d # ds \<Rightarrow> if c = CHR 0x0D \<and> d = CHR 0x0A then splitlines_from [] ds else splitlines_from [] cs | [] \<Rightarrow> [])
      else splitlines_from (c # acc) cs)"

definition splitlines :: "string \<Rightarrow> string list" where
  "splitlines s = splitlines_from [] s"

lemma splitlines_from_line:
  "\<forall>c \<in> set s. \<not> line_break c \<Longrightarrow> splitlines_from acc (s @ CHR 0x0A # t) = (rev acc @ s) # splitlines t"
proof (induction s arbitrary: acc)
  case Nil
  then show ?case by (cases t) (simp_all add: line_break_def splitlines_def)
qed simp

lemma splitlines_line: "\<forall>c \<in> set s. \<not> line_break c \<Longrightarrow> splitlines (s @ CHR 0x0A # t) = s # splitlines t"
  using splitlines_from_line [of s "[]" t] by (simp add: splitlines_def)

lemma splitlines_single:
  assumes "\<forall>c \<in> set s. \<not> line_break c" "s \<noteq> []"
  shows "splitlines s = [s]"
proof -
  have "splitlines_from acc s = (if rev acc @ s = [] then [] else [rev acc @ s])" for acc
    using assms(1) by (induction s arbitrary: acc) auto
  with assms(2) show ?thesis by (simp add: splitlines_def)
qed

lemma splitlines_no_break:
  "x \<in> set (splitlines_from acc s) \<Longrightarrow> \<forall>c \<in> set acc. \<not> line_break c \<Longrightarrow> \<forall>c \<in> set x. \<not> line_break c"
proof (induction acc s arbitrary: x rule: splitlines_from.induct)
  case (2 acc c cs)
  show ?case
  proof (cases "line_break c")
    case True
    note IH = "2.IH"(1,2) [OF True]
    show ?thesis
    proof (cases cs)
      case (Cons d ds)
      have "splitlines_from acc (c # cs) = rev acc # (if c = CHR 0x0D \<and> d = CHR 0x0A then splitlines_from [] ds else splitlines_from [] cs)"
        by (subst splitlines_from.simps(2)) (simp only: True Cons list.case if_True)
      with "2.prems"(1) consider "x = rev acc" | "c = CHR 0x0D \<and> d = CHR 0x0A" "x \<in> set (splitlines_from [] ds)"
        | "\<not> (c = CHR 0x0D \<and> d = CHR 0x0A)" "x \<in> set (splitlines_from [] cs)"
        by (auto simp del: splitlines_from.simps split: if_splits)
      then show ?thesis
      proof cases
        case 2
        from IH(1) [OF Cons 2] show ?thesis by simp
      next
        case 3
        from IH(2) [OF Cons 3] show ?thesis by simp
      qed (use "2.prems"(2) in simp)
    qed (use True "2.prems" in auto)
  next
    case False
    with "2.IH"(3) [OF False] "2.prems" show ?thesis by auto
  qed
qed (auto split: if_splits)

subsection \<open>Shell patterns\<close>

datatype fn_item = Any_Seq | Any_Char | Literal char | Char_Class bool "(char \<times> char) list"

text \<open>The body of a bracket expression as ranges; a range whose ends are in the wrong order matches nothing.\<close>

fun class_items :: "string \<Rightarrow> (char \<times> char) list" where
  "class_items [] = []"
| "class_items [a] = [(a, a)]"
| "class_items [a, b] = [(a, a), (b, b)]"
| "class_items (a # b # c # s) = (if b = CHR ''-'' then (a, c) # class_items s else (a, a) # class_items (b # c # s))"

text \<open>What follows an opening bracket: whether it is negated, its body, and the rest of the pattern; None when it is never closed.\<close>

definition split_class :: "string \<Rightarrow> (bool \<times> string \<times> string) option" where
  "split_class s =
     (let neg = startswith s ''!''; r = (if neg then tl s else s);
          first = (if startswith r '']'' then '']'' else []); r2 = drop (length first) r
      in case dropWhile (\<lambda>c. c \<noteq> CHR '']'') r2 of
           [] \<Rightarrow> None
         | _ # rest \<Rightarrow> Some (neg, first @ takeWhile (\<lambda>c. c \<noteq> CHR '']'') r2, rest))"

lemma dropWhile_drop_length: "dropWhile P (drop n xs) = y # ys \<Longrightarrow> length ys < length xs"
  using length_dropWhile_le [of P "drop n xs"] by simp

lemma split_class_length: "split_class s = Some (neg, body, rest) \<Longrightarrow> length rest < length s"
  using dropWhile_drop_length [of _ 0 s] dropWhile_drop_length [of _ 1 s] dropWhile_drop_length [of _ 2 s]
  by (auto simp: split_class_def Let_def drop_Suc numeral_2_eq_2 split: list.splits if_splits)

function fn_translate :: "string \<Rightarrow> fn_item list" where
  "fn_translate [] = []"
| "fn_translate (c # s) =
     (if c = CHR ''*'' then Any_Seq # fn_translate s
      else if c = CHR ''?'' then Any_Char # fn_translate s
      else if c = CHR ''['' then
        (case split_class s of
           None \<Rightarrow> Literal c # fn_translate s
         | Some (neg, body, rest) \<Rightarrow> Char_Class neg (class_items body) # fn_translate rest)
      else Literal c # fn_translate s)"
  by pat_completeness auto
termination
  by (relation "measure length") (auto dest!: split_class_length)

definition in_class :: "bool \<Rightarrow> (char \<times> char) list \<Rightarrow> char \<Rightarrow> bool" where
  "in_class neg rs c \<longleftrightarrow> (list_ex (\<lambda>(lo, hi). lo \<le> c \<and> c \<le> hi) rs \<noteq> neg)"

fun fn_match :: "fn_item list \<Rightarrow> string \<Rightarrow> bool" where
  "fn_match [] s = (s = [])"
| "fn_match (Any_Seq # ps) [] = fn_match ps []"
| "fn_match (Any_Seq # ps) (c # s) = (fn_match ps (c # s) \<or> fn_match (Any_Seq # ps) s)"
| "fn_match (p # ps) [] = False"
| "fn_match (Any_Char # ps) (c # s) = fn_match ps s"
| "fn_match (Literal d # ps) (c # s) = (c = d \<and> fn_match ps s)"
| "fn_match (Char_Class neg rs # ps) (c # s) = (in_class neg rs c \<and> fn_match ps s)"

definition fnmatchcase :: "string \<Rightarrow> string \<Rightarrow> bool" where
  "fnmatchcase s pat = fn_match (fn_translate pat) s"

definition plain_pattern :: "string \<Rightarrow> bool" where
  "plain_pattern p \<longleftrightarrow> CHR ''*'' \<notin> set p \<and> CHR ''?'' \<notin> set p \<and> CHR ''['' \<notin> set p"

lemma plain_pattern_parts [simp]: "plain_pattern []" "plain_pattern (c # p) \<longleftrightarrow> c \<notin> {CHR ''*'', CHR ''?'', CHR ''[''} \<and> plain_pattern p"
  "plain_pattern (p @ q) \<longleftrightarrow> plain_pattern p \<and> plain_pattern q"
  by (auto simp: plain_pattern_def)

lemma fnmatch_plain: "plain_pattern p \<Longrightarrow> fnmatchcase s p \<longleftrightarrow> s = p"
proof (induction p arbitrary: s)
  case (Cons c p)
  then show ?case by (cases s) (auto simp: fnmatchcase_def)
qed (simp add: fnmatchcase_def)

lemma fn_match_seq: "fn_match (Any_Seq # ps) s \<longleftrightarrow> (\<exists>u v. s = u @ v \<and> fn_match ps v)"
proof (induction s)
  case (Cons c s)
  have "(\<exists>u v. c # s = u @ v \<and> fn_match ps v) \<longleftrightarrow> fn_match ps (c # s) \<or> (\<exists>u v. s = u @ v \<and> fn_match ps v)"
    by (metis append_Cons append_Nil list.exhaust list.inject)
  with Cons show ?case by simp
qed simp

end
