(* ===== verification/Sandbox_Policy.thy ===== *)
theory Sandbox_Policy
  imports Py_Path
begin

text \<open>
  The capability policy of \<^verbatim>\<open>sandbox/policy.py\<close> and its file reader \<^verbatim>\<open>sandbox/grants.py\<close>: the grant DSL and its
  parser, the five matchers (paths, hosts, origins, desktop targets, binaries), the narrowing of shell arguments, and the linter.
  The home and working directories are the \<open>os_env\<close> argument; the file system, which only the narrowing of arguments looks at, is
  the argument \<open>resolve\<close>. A lint line is kept as the values the code formats.

  The locale \<open>capability_matcher\<close> is the contract the five matchers share; the executors rely on it and on nothing else.
\<close>

subsection \<open>Grants and policies\<close>

record capability_grant =
  grant_capability :: string
  grant_patterns :: "string list"

record policy =
  grants :: "capability_grant list"

definition grants_for :: "policy \<Rightarrow> string \<Rightarrow> capability_grant list" where
  "grants_for P c = filter (\<lambda>g. grant_capability g = c) (grants P)"

subsection \<open>Parsing\<close>

definition DEFAULT_PORTS :: "(string \<times> int) list" where
  "DEFAULT_PORTS = [(''http'', 80), (''https'', 443)]"

text \<open>\<^verbatim>\<open>s.partition("://")\<close>, None when the separator is missing.\<close>

fun partition_scheme :: "string \<Rightarrow> (string \<times> string) option" where
  "partition_scheme [] = None"
| "partition_scheme (c # s) =
     (if startswith (c # s) ''://'' then Some ([], drop 3 (c # s))
      else map_option (\<lambda>(a, b). (c # a, b)) (partition_scheme s))"

definition split_origin :: "string \<Rightarrow> (string \<times> string \<times> int) option" where
  "split_origin v =
     (case partition_scheme (lower (strip v)) of
        None \<Rightarrow> None
      | Some (scheme, rest) \<Rightarrow>
          if scheme = [] \<or> rest = [] then None
          else
            let (host, colon, port_raw) = partition_on (CHR '':'') rest
            in if host = [] \<or> slash \<in> set rest then None
               else if colon then map_option (\<lambda>port. (scheme, host, port)) (parse_int port_raw)
               else map_option (\<lambda>port. (scheme, host, port)) (map_of DEFAULT_PORTS scheme))"

definition parse_grant :: "string \<Rightarrow> capability_grant result" where
  "parse_grant s =
     (if s = [] then Inl (PolicyParseError ''grant must be a non-empty string'')
      else if CHR '':'' \<notin> set s then Inl (PolicyParseError ''missing colon'')
      else
        let (cap_raw, _, payload) = partition_on (CHR '':'') s;
            cap = strip cap_raw;
            patterns = map strip (filter (\<lambda>p. strip p \<noteq> []) (split_on (CHR '','') payload))
        in if cap = [] then Inl (PolicyParseError ''empty capability'')
           else if CHR ''.'' \<notin> set cap then Inl (PolicyParseError ''capability must be dotted'')
           else if patterns = [] then Inl (PolicyParseError ''no patterns'')
           else if startswith cap ''browser.'' \<and> list_ex (\<lambda>p. split_origin p = None) patterns
           then Inl (PolicyParseError ''must be an origin with a scheme'')
           else Inr \<lparr>grant_capability = cap, grant_patterns = patterns\<rparr>)"

definition policy_lines :: "string list \<Rightarrow> string list" where
  "policy_lines chunks =
     concat (map (\<lambda>chunk. concat (map (\<lambda>line.
       filter (\<lambda>x. x \<noteq> []) (map strip (split_on (CHR '';'') (takeWhile (\<lambda>c. c \<noteq> CHR ''#'') line))))
       (splitlines chunk))) chunks)"

definition parse_policy :: "string list \<Rightarrow> policy result" where
  "parse_policy chunks = bind_res (map_res parse_grant (policy_lines chunks)) (\<lambda>gs. Inr \<lparr>grants = gs\<rparr>)"

subsection \<open>Matching: paths\<close>

definition resolve_path :: "os_env \<Rightarrow> string \<Rightarrow> string" where
  "resolve_path E path = (let p = path_str (expanduser E path) in if startswith p ''/'' then p else path_join (working_dir E) p)"

fun match_parts :: "string list \<Rightarrow> string list \<Rightarrow> bool" where
  "match_parts [] path = (path = [])"
| "match_parts (p # pat) path =
     (if p = ''**'' then list_ex (\<lambda>i. match_parts pat (drop i path)) [0..<length path + 1]
      else case path of [] \<Rightarrow> False | x # xs \<Rightarrow> if fnmatchcase x p then match_parts pat xs else False)"

definition glob_match :: "os_env \<Rightarrow> string \<Rightarrow> string \<Rightarrow> bool" where
  "glob_match E pattern path = match_parts (split_on slash (resolve_path E pattern)) (split_on slash path)"

definition match_path :: "os_env \<Rightarrow> capability_grant \<Rightarrow> string \<Rightarrow> bool" where
  "match_path E g path \<longleftrightarrow> startswith (grant_capability g) ''fs.''
     \<and> list_ex (\<lambda>pattern. glob_match E pattern (resolve_path E path)) (grant_patterns g)"

subsection \<open>Matching: hostnames and origins\<close>

definition host_pattern_matches :: "string \<Rightarrow> string \<Rightarrow> bool" where
  "host_pattern_matches pattern hostname =
     (let hn = lower hostname; pat = lower pattern
      in if startswith pat ''*.'' then (let suffix = drop 1 pat in endswith hn suffix \<and> length suffix < length hn)
         else pat = hn)"

definition match_host :: "capability_grant \<Rightarrow> string \<Rightarrow> bool" where
  "match_host g hostname \<longleftrightarrow> startswith (grant_capability g) ''net.''
     \<and> list_ex (\<lambda>p. host_pattern_matches p hostname) (grant_patterns g)"

definition match_origin :: "capability_grant \<Rightarrow> string \<Rightarrow> bool" where
  "match_origin g origin =
     (if \<not> startswith (grant_capability g) ''browser.'' then False
      else case split_origin origin of
        None \<Rightarrow> False
      | Some (t_scheme, t_host, t_port) \<Rightarrow>
          list_ex (\<lambda>pattern. case split_origin pattern of
              None \<Rightarrow> False
            | Some (p_scheme, p_host, p_port) \<Rightarrow> p_scheme = t_scheme \<and> p_port = t_port \<and> host_pattern_matches p_host t_host)
            (grant_patterns g))"

subsection \<open>Matching: desktop targets and shell binaries\<close>

definition match_target :: "capability_grant \<Rightarrow> string \<Rightarrow> bool" where
  "match_target g target \<longleftrightarrow> startswith (grant_capability g) ''desktop.'' \<and> target \<noteq> []
     \<and> list_ex (\<lambda>pattern. fnmatchcase (lower target) (lower pattern)) (grant_patterns g)"

definition match_binary :: "capability_grant \<Rightarrow> string \<Rightarrow> bool" where
  "match_binary g binary =
     (if \<not> startswith (grant_capability g) ''shell.'' then False
      else let base = basename (strip binary) in base \<noteq> [] \<and> list_ex (\<lambda>pattern. pattern = base) (grant_patterns g))"

definition allows_path :: "os_env \<Rightarrow> policy \<Rightarrow> string \<Rightarrow> string \<Rightarrow> bool" where
  "allows_path E P c path = list_ex (\<lambda>g. match_path E g path) (grants_for P c)"

definition allows_host :: "policy \<Rightarrow> string \<Rightarrow> string \<Rightarrow> bool" where
  "allows_host P c hostname = list_ex (\<lambda>g. match_host g hostname) (grants_for P c)"

definition allows_binary :: "policy \<Rightarrow> string \<Rightarrow> string \<Rightarrow> bool" where
  "allows_binary P c binary = list_ex (\<lambda>g. match_binary g binary) (grants_for P c)"

definition allows_target :: "policy \<Rightarrow> string \<Rightarrow> string \<Rightarrow> bool" where
  "allows_target P c target = list_ex (\<lambda>g. match_target g target) (grants_for P c)"

definition allows_origin :: "policy \<Rightarrow> string \<Rightarrow> string \<Rightarrow> bool" where
  "allows_origin P c origin = list_ex (\<lambda>g. match_origin g origin) (grants_for P c)"

subsection \<open>Shell grants that subsume other capabilities\<close>

definition SUBSUMING_BINARIES :: "(string \<times> string list \<times> string) list" where
  "SUBSUMING_BINARIES =
     [(''cat'', [''fs.read''], ''prints any file given as an argument''),
      (''grep'', [''fs.read''], ''reads any file it is pointed at, and -f takes a pattern file''),
      (''head'', [''fs.read''], ''reads any file it is pointed at, and -f takes a pattern file''),
      (''tail'', [''fs.read''], ''reads any file it is pointed at, and -f takes a pattern file''),
      (''less'', [''fs.read''], ''reads any file it is pointed at, and -f takes a pattern file''),
      (''jq'', [''fs.read''], ''reads any file it is pointed at, and -f takes a pattern file''),
      (''awk'', [''fs.read'', ''fs.write''], ''reads and writes any file given as an argument''),
      (''sed'', [''fs.read'', ''fs.write''], ''reads, and with -i rewrites, any file given as an argument''),
      (''cp'', [''fs.read'', ''fs.write''], ''copies any path to any path''),
      (''mv'', [''fs.read'', ''fs.write''], ''moves any path to any path''),
      (''tee'', [''fs.write''], ''writes any file given as an argument''),
      (''rm'', [''fs.write''], ''deletes any path given as an argument''),
      (''curl'', [''net.http'', ''fs.write''], ''fetches any URL, and writes the response to any path''),
      (''wget'', [''net.http'', ''fs.write''], ''fetches any URL, and writes the response to any path''),
      (''ssh'', [''net.http''], ''connects to any host given as an argument''),
      (''nc'', [''net.http''], ''connects to any host and port given as arguments''),
      (''sh'', [''fs.read'', ''fs.write'', ''net.http'', ''shell.exec''], ''runs any command, including binaries not granted''),
      (''bash'', [''fs.read'', ''fs.write'', ''net.http'', ''shell.exec''], ''runs any command, including binaries not granted''),
      (''zsh'', [''fs.read'', ''fs.write'', ''net.http'', ''shell.exec''], ''runs any command, including binaries not granted''),
      (''env'', [''shell.exec''], ''runs any binary given as an argument''),
      (''xargs'', [''shell.exec''], ''runs any binary given as an argument''),
      (''find'', [''fs.read'', ''shell.exec''], ''reads any directory, and -exec runs any binary''),
      (''python'', [''fs.read'', ''fs.write'', ''net.http'', ''shell.exec''], ''runs arbitrary code, so reads, writes and network calls are all unbounded''),
      (''python3'', [''fs.read'', ''fs.write'', ''net.http'', ''shell.exec''], ''runs arbitrary code, so reads, writes and network calls are all unbounded''),
      (''perl'', [''fs.read'', ''fs.write'', ''net.http'', ''shell.exec''], ''runs arbitrary code, so reads, writes and network calls are all unbounded''),
      (''ruby'', [''fs.read'', ''fs.write'', ''net.http'', ''shell.exec''], ''runs arbitrary code, so reads, writes and network calls are all unbounded''),
      (''node'', [''fs.read'', ''fs.write'', ''net.http'', ''shell.exec''], ''runs arbitrary code, so reads, writes and network calls are all unbounded''),
      (''git'', [''fs.read'', ''fs.write'', ''net.http'', ''shell.exec''], ''runs any command through a config alias, core.pager, core.sshCommand or a repository hook''),
      (''make'', [''fs.read'', ''fs.write'', ''shell.exec''], ''runs the commands in any makefile it is given''),
      (''tar'', [''fs.read'', ''fs.write''], ''reads and writes any path, and --to-command runs a program''),
      (''docker'', [''fs.read'', ''fs.write'', ''net.http'', ''shell.exec''], ''runs a container that can mount any path and reach any host''),
      (''sudo'', [''fs.read'', ''fs.write'', ''net.http'', ''shell.exec''], ''runs any command, with elevated rights''),
      (''su'', [''fs.read'', ''fs.write'', ''net.http'', ''shell.exec''], ''runs any command as another user''),
      (''busybox'', [''fs.read'', ''fs.write'', ''net.http'', ''shell.exec''], ''provides a shell and most of the coreutils under one binary name''),
      (''vi'', [''fs.read'', ''fs.write'', ''shell.exec''], ''edits any file, and its shell escape runs any command''),
      (''vim'', [''fs.read'', ''fs.write'', ''shell.exec''], ''edits any file, and its shell escape runs any command''),
      (''more'', [''fs.read'', ''shell.exec''], ''reads any file, and its shell escape runs any command''),
      (''php'', [''fs.read'', ''fs.write'', ''net.http'', ''shell.exec''], ''runs arbitrary code, so reads, writes and network calls are all unbounded''),
      (''lua'', [''fs.read'', ''fs.write'', ''net.http'', ''shell.exec''], ''runs arbitrary code, so reads, writes and network calls are all unbounded''),
      (''deno'', [''fs.read'', ''fs.write'', ''net.http'', ''shell.exec''], ''runs arbitrary code, so reads, writes and network calls are all unbounded''),
      (''bun'', [''fs.read'', ''fs.write'', ''net.http'', ''shell.exec''], ''runs arbitrary code, so reads, writes and network calls are all unbounded'')]"

record lint_line =
  lint_capability :: string
  lint_pattern :: string
  lint_reason :: string
  lint_wider :: bool
  lint_caps :: "string list"

definition lint_pattern_line :: "policy \<Rightarrow> capability_grant \<Rightarrow> string \<Rightarrow> lint_line list" where
  "lint_pattern_line P g pattern =
     (case map_of SUBSUMING_BINARIES (lower (basename (strip pattern))) of
        None \<Rightarrow> []
      | Some (subsumes, reason) \<Rightarrow>
          let narrowed = sort (filter (\<lambda>cap. cap \<noteq> grant_capability g \<and> list_ex (\<lambda>h. grant_capability h = cap) (grants P)) subsumes)
          in [\<lparr>lint_capability = grant_capability g, lint_pattern = pattern, lint_reason = reason,
               lint_wider = (narrowed \<noteq> []), lint_caps = (if narrowed \<noteq> [] then narrowed else sort subsumes)\<rparr>])"

definition lint_policy :: "policy \<Rightarrow> lint_line list" where
  "lint_policy P =
     concat (map (\<lambda>g. if \<not> startswith (grant_capability g) ''shell.'' then [] else concat (map (lint_pattern_line P g) (grant_patterns g)))
       (grants P))"

subsection \<open>Narrowing shell arguments\<close>

definition FS_GRANT_CAPABILITIES :: "string list" where
  "FS_GRANT_CAPABILITIES = [''fs.read'', ''fs.write'']"

text \<open>\<open>resolve p\<close> is the resolved path of an existing file, None when it does not exist or resolving it raises \<^verbatim>\<open>OSError\<close>.\<close>

definition unpermitted_path_arguments :: "os_env \<Rightarrow> (string \<Rightarrow> string option) \<Rightarrow> policy \<Rightarrow> string list \<Rightarrow> string \<Rightarrow> string list" where
  "unpermitted_path_arguments E resolve P args cwd =
     filter (\<lambda>text.
       if text = [] \<or> startswith text ''-'' then False
       else
         let c = path_str (expanduser E text); candidate = (if startswith c ''/'' then c else path_join cwd c)
         in case resolve candidate of
              None \<Rightarrow> False
            | Some r \<Rightarrow> \<not> list_ex (\<lambda>cap. allows_path E P cap r) FS_GRANT_CAPABILITIES) args"

subsection \<open>The grants file\<close>

datatype file_read = File_Missing | File_Error py_error | File_Text string

definition GRANTS_FILENAME :: string where "GRANTS_FILENAME = ''grants.policy''"

definition grants_path :: "string \<Rightarrow> string" where
  "grants_path config_dir = path_join (path_str config_dir) GRANTS_FILENAME"

definition load_policy :: "file_read \<Rightarrow> policy result" where
  "load_policy f = (case f of File_Missing \<Rightarrow> Inr \<lparr>grants = []\<rparr> | File_Error e \<Rightarrow> Inl e | File_Text s \<Rightarrow> parse_policy [s])"

definition grant_line_for :: "string \<Rightarrow> string \<Rightarrow> string" where
  "grant_line_for c target = c @ '':'' @ target"

definition refusal_remedy :: "string \<Rightarrow> string \<Rightarrow> string \<Rightarrow> (string \<times> string) list" where
  "refusal_remedy c target grants_file =
     [(''required_grant'', grant_line_for c target), (''remedy'', ''add '' @ grant_line_for c target @ '' to '' @ grants_file)]"

subsection \<open>The contract of a matcher\<close>

text \<open>What an executor may rely on, whichever matcher it calls: a grant speaks only for capabilities of its own family, by one of
  its patterns, and a policy allows what one of its grants for exactly that capability matches.\<close>

locale capability_matcher =
  fixes family :: string
    and matches :: "capability_grant \<Rightarrow> string \<Rightarrow> bool"
    and allows :: "policy \<Rightarrow> string \<Rightarrow> string \<Rightarrow> bool"
    and pattern_ok :: "string \<Rightarrow> string \<Rightarrow> bool"
  assumes matches_iff: "matches g t \<longleftrightarrow> startswith (grant_capability g) family \<and> (\<exists>p \<in> set (grant_patterns g). pattern_ok p t)"
    and allows_iff: "allows P c t \<longleftrightarrow> (\<exists>g \<in> set (grants P). grant_capability g = c \<and> matches g t)"
begin

lemma denies_without_grants: "\<not> allows \<lparr>grants = []\<rparr> c t"
  by (simp add: allows_iff)

lemma allows_only_family: "allows P c t \<Longrightarrow> startswith c family"
  by (auto simp: allows_iff matches_iff)

lemma allows_by_pattern: "allows P c t \<longleftrightarrow> startswith c family
    \<and> (\<exists>g \<in> set (grants P). grant_capability g = c \<and> (\<exists>p \<in> set (grant_patterns g). pattern_ok p t))"
  by (auto simp: allows_iff matches_iff)

lemma allows_union: "allows \<lparr>grants = gs @ hs\<rparr> c t \<longleftrightarrow> allows \<lparr>grants = gs\<rparr> c t \<or> allows \<lparr>grants = hs\<rparr> c t"
  by (auto simp: allows_iff)

lemma allows_mono: "allows P c t \<Longrightarrow> set (grants P) \<subseteq> set (grants Q) \<Longrightarrow> allows Q c t"
  by (auto simp: allows_iff)

lemma other_grants_irrelevant:
  "allows \<lparr>grants = filter (\<lambda>g. grant_capability g = c) (grants P)\<rparr> c t \<longleftrightarrow> allows P c t"
  by (auto simp: allows_iff)

end

definition origin_pattern_ok :: "string \<Rightarrow> string \<Rightarrow> bool" where
  "origin_pattern_ok p t \<longleftrightarrow> (\<exists>scheme port ph th. split_origin p = Some (scheme, ph, port) \<and> split_origin t = Some (scheme, th, port)
     \<and> host_pattern_matches ph th)"

lemma match_origin_iff:
  "match_origin g t \<longleftrightarrow> startswith (grant_capability g) ''browser.'' \<and> (\<exists>p \<in> set (grant_patterns g). origin_pattern_ok p t)"
  by (auto simp: match_origin_def origin_pattern_ok_def list_ex_iff split: option.splits) fastforce+

interpretation fs: capability_matcher "''fs.''" "match_path E" "allows_path E" "\<lambda>p t. glob_match E p (resolve_path E t)" for E
  by unfold_locales (auto simp: match_path_def allows_path_def grants_for_def list_ex_iff)

interpretation net: capability_matcher "''net.''" match_host allows_host host_pattern_matches
  by unfold_locales (auto simp: match_host_def allows_host_def grants_for_def list_ex_iff)

interpretation browser: capability_matcher "''browser.''" match_origin allows_origin origin_pattern_ok
  by unfold_locales (auto simp: match_origin_iff allows_origin_def grants_for_def list_ex_iff)

interpretation desktop: capability_matcher "''desktop.''" match_target allows_target "\<lambda>p t. t \<noteq> [] \<and> fnmatchcase (lower t) (lower p)"
  by unfold_locales (auto simp: match_target_def allows_target_def grants_for_def list_ex_iff)

interpretation shell: capability_matcher "''shell.''" match_binary allows_binary "\<lambda>p t. p \<noteq> [] \<and> p = basename (strip t)"
  by unfold_locales (auto simp: match_binary_def allows_binary_def grants_for_def list_ex_iff Let_def)

text \<open>A policy opens only what its grants write down. With no grant of exactly the requested capability every path, host,
  origin, target and binary is refused; and the grants of one capability never open another family.\<close>

theorem policy_denies_by_default:
  assumes "c \<notin> grant_capability ` set (grants P) \<or> \<not> (\<exists>f \<in> {''fs.'', ''net.'', ''browser.'', ''desktop.'', ''shell.''}. startswith c f)"
  shows "\<not> allows_path E P c t \<and> \<not> allows_host P c t \<and> \<not> allows_origin P c t \<and> \<not> allows_target P c t \<and> \<not> allows_binary P c t"
proof (intro conjI)
  show "\<not> allows_path E P c t" using assms unfolding fs.allows_by_pattern by auto
  show "\<not> allows_host P c t" using assms unfolding net.allows_by_pattern by auto
  show "\<not> allows_origin P c t" using assms unfolding browser.allows_by_pattern by auto
  show "\<not> allows_target P c t" using assms unfolding desktop.allows_by_pattern by auto
  show "\<not> allows_binary P c t" using assms unfolding shell.allows_by_pattern by auto
qed

definition plain_os :: os_env where
  "plain_os = \<lparr>env_home = Some ''/home/ann'', pwd_home = None, user_home = (\<lambda>u. None), working_dir = ''/''\<rparr>"

theorem policy_denies_by_default_witness:
  "\<not> allows_path plain_os \<lparr>grants = [\<lparr>grant_capability = ''fs.read'', grant_patterns = [''/**'']\<rparr>]\<rparr> ''fs.write'' ''/etc/passwd''"
  using policy_denies_by_default [of "''fs.write''" "\<lparr>grants = [\<lparr>grant_capability = ''fs.read'', grant_patterns = [''/**'']\<rparr>]\<rparr>"] by simp

subsection \<open>Path patterns against a reference relation\<close>

inductive glob_rel :: "string list \<Rightarrow> string list \<Rightarrow> bool" where
  nothing: "glob_rel [] []"
| deep: "glob_rel pat ys \<Longrightarrow> glob_rel (''**'' # pat) (xs @ ys)"
| segment: "p \<noteq> ''**'' \<Longrightarrow> fnmatchcase x p \<Longrightarrow> glob_rel pat xs \<Longrightarrow> glob_rel (p # pat) (x # xs)"

inductive_cases glob_nilE: "glob_rel [] path"
inductive_cases glob_consE: "glob_rel (p # pat) path"

lemma list_ex_drops: "list_ex (\<lambda>i. Q (drop i path)) [0..<length path + 1] \<longleftrightarrow> (\<exists>xs ys. path = xs @ ys \<and> Q ys)"
proof
  assume "list_ex (\<lambda>i. Q (drop i path)) [0..<length path + 1]"
  then obtain i where "Q (drop i path)" by (auto simp: list_ex_iff simp del: upt_Suc)
  then show "\<exists>xs ys. path = xs @ ys \<and> Q ys" by (metis append_take_drop_id)
next
  assume "\<exists>xs ys. path = xs @ ys \<and> Q ys"
  then obtain xs ys where "path = xs @ ys" "Q ys" by blast
  then show "list_ex (\<lambda>i. Q (drop i path)) [0..<length path + 1]"
    by (auto simp: list_ex_iff simp del: upt_Suc intro!: bexI [of _ "length xs"])
qed

lemma match_parts_deep: "match_parts (''**'' # pat) path \<longleftrightarrow> (\<exists>xs ys. path = xs @ ys \<and> match_parts pat ys)"
  using list_ex_drops [of "match_parts pat" path] by simp

lemma match_parts_segment:
  "p \<noteq> ''**'' \<Longrightarrow> match_parts (p # pat) path \<longleftrightarrow> (\<exists>x xs. path = x # xs \<and> fnmatchcase x p \<and> match_parts pat xs)"
  by (auto split: list.splits)

declare match_parts.simps(2) [simp del]

text \<open>C9: the recursive matcher decides the intended relation: a double star stands for any number of path segments, zero
  included, every other pattern segment for exactly one, and nothing is left over.\<close>

theorem match_parts_is_glob: "match_parts pat path \<longleftrightarrow> glob_rel pat path"
proof
  show "match_parts pat path \<Longrightarrow> glob_rel pat path"
  proof (induction pat arbitrary: path)
    case (Cons p pat)
    then show ?case
      by (cases "p = ''**''") (auto simp: match_parts_deep match_parts_segment intro: glob_rel.intros)
  qed (simp add: glob_rel.nothing)
  show "glob_rel pat path \<Longrightarrow> match_parts pat path"
    by (induction rule: glob_rel.induct) (auto simp: match_parts_deep match_parts_segment)
qed

lemma match_parts_prefix:
  "list_all plain_pattern segs \<Longrightarrow> match_parts (segs @ pat) path \<longleftrightarrow> take (length segs) path = segs \<and> match_parts pat (drop (length segs) path)"
proof (induction segs arbitrary: path)
  case (Cons s segs)
  then have "s \<noteq> ''**''" "plain_pattern s" by auto
  with Cons show ?case by (cases path) (auto simp: match_parts_segment fnmatch_plain)
qed simp

lemma match_parts_all: "match_parts [''**''] path"
  by (auto simp: match_parts_deep)

text \<open>A directory name that \<^verbatim>\<open>Path\<close> leaves as it is.\<close>

definition clean_segments :: "string list \<Rightarrow> bool" where
  "clean_segments segs \<longleftrightarrow> segs \<noteq> [] \<and> list_all (\<lambda>s. s \<noteq> [] \<and> s \<noteq> ''.'' \<and> slash \<notin> set s \<and> plain_pattern s) segs"

lemma path_str_clean:
  assumes "segs \<noteq> []" "\<forall>s \<in> set segs. s \<noteq> [] \<and> s \<noteq> ''.'' \<and> slash \<notin> set s"
  shows "path_str (slash # join_with slash segs) = slash # join_with slash segs"
    "split_on slash (slash # join_with slash segs) = [] # segs"
proof -
  have sp: "split_on slash (join_with slash segs) = segs" using assms by (intro split_join) auto
  then show "split_on slash (slash # join_with slash segs) = [] # segs" by simp
  have "filter (\<lambda>x. x \<noteq> [] \<and> x \<noteq> ''.'') segs = segs" using assms(2) by (simp add: filter_id_conv)
  moreover obtain c cs where c: "hd segs = c # cs" "c \<noteq> slash"
    using assms by (cases segs; cases "hd segs") auto
  then have "\<exists>r. join_with slash segs = c # r" using assms(1) by (cases "(slash, segs)" rule: join_with.cases) auto
  then have "path_root (slash # join_with slash segs) = ''/''" using c(2) by (auto simp: path_root_def startswith_def)
  ultimately show "path_str (slash # join_with slash segs) = slash # join_with slash segs"
    using sp by (simp add: path_str_def path_parts_def)
qed

lemma join_with_snoc: "segs \<noteq> [] \<Longrightarrow> join_with c (segs @ [x]) = join_with c segs @ c # x"
proof (induction c segs rule: join_with.induct)
  case (3 c p q ps)
  then show ?case by simp
qed simp_all

text \<open>A grant of everything under a directory grants exactly that: the directory itself and the paths whose segments
  begin with its segments, and no path beside it, however the names are chosen.\<close>

theorem directory_grant_exact:
  assumes "clean_segments segs" "startswith c ''fs.''"
  shows "allows_path E \<lparr>grants = [\<lparr>grant_capability = c, grant_patterns = [slash # join_with slash segs @ ''/**'']\<rparr>]\<rparr> c path
    \<longleftrightarrow> take (length segs + 1) (split_on slash (resolve_path E path)) = [] # segs"
proof -
  let ?all = "segs @ [''**'']"
  have segs: "segs \<noteq> []" "\<forall>s \<in> set ?all. s \<noteq> [] \<and> s \<noteq> ''.'' \<and> slash \<notin> set s" and pl: "list_all plain_pattern ([] # segs)"
    using assms(1) by (auto simp: clean_segments_def list_all_iff)
  note clean = path_str_clean [OF _ segs(2)]
  have "resolve_path E (slash # join_with slash ?all) = slash # join_with slash ?all"
    using clean(1) by (simp add: resolve_path_def expanduser_def startswith_def)
  then have "glob_match E (slash # join_with slash ?all) q \<longleftrightarrow> take (length segs + 1) (split_on slash q) = [] # segs" for q
    using clean(2) match_parts_prefix [OF pl, of "[''**'']" "split_on slash q"] match_parts_all by (simp add: glob_match_def)
  with assms(2) segs(1) show ?thesis
    by (simp add: allows_path_def grants_for_def match_path_def join_with_snoc)
qed

theorem directory_grant_exact_witness:
  "allows_path plain_os \<lparr>grants = [\<lparr>grant_capability = ''fs.read'', grant_patterns = [''/home/ann/**'']\<rparr>]\<rparr> ''fs.read'' ''/home/ann/a/b''
   \<and> \<not> allows_path plain_os \<lparr>grants = [\<lparr>grant_capability = ''fs.read'', grant_patterns = [''/home/ann/**'']\<rparr>]\<rparr> ''fs.read'' ''/home/anna/b''"
  using directory_grant_exact [of "[''home'', ''ann'']" "''fs.read''" plain_os "''/home/ann/a/b''"]
    directory_grant_exact [of "[''home'', ''ann'']" "''fs.read''" plain_os "''/home/anna/b''"]
  by (simp add: clean_segments_def startswith_def resolve_path_def expanduser_def path_str_def path_root_def path_parts_def)

subsection \<open>Host wildcards\<close>

lemma lower_char_eq_iff: "of_char d < (65 :: nat) \<Longrightarrow> lower_char c = d \<longleftrightarrow> c = d"
proof -
  assume d: "of_char d < (65 :: nat)"
  show ?thesis
  proof (cases "lower_char c = c")
    case False
    then have n: "65 \<le> (of_char c :: nat)" "(of_char c :: nat) \<le> 222" and l: "lower_char c = char_of (of_char c + 32 :: nat)"
      by (auto simp: lower_char_def Let_def split: if_splits)
    then have "of_char (lower_char c) = (of_char c + 32 :: nat)" by simp
    with d n(1) show ?thesis by auto
  qed simp
qed

lemma lower_cons [simp]: "lower [] = []" "lower (c # s) = lower_char c # lower s"
  by (simp_all add: lower_def)

text \<open>A wildcard host pattern covers exactly the proper subdomains, at any depth and in any letter case, and never the domain
  itself; a pattern without a wildcard covers exactly its own name.\<close>

theorem wildcard_hosts_exact:
  "(host_pattern_matches (''*.'' @ d) h \<longleftrightarrow> (\<exists>sub. sub \<noteq> [] \<and> lower h = sub @ ''.'' @ lower d))
   \<and> \<not> host_pattern_matches (''*.'' @ d) d
   \<and> (startswith p ''*.'' \<or> (host_pattern_matches p h \<longleftrightarrow> lower h = lower p))"
proof -
  have l: "lower_char (CHR ''*'') = CHR ''*''" "lower_char (CHR ''.'') = CHR ''.''" by (simp_all add: lower_char_def)
  have star: "lower_char c = CHR ''*'' \<longleftrightarrow> c = CHR ''*''" "lower_char c = CHR ''.'' \<longleftrightarrow> c = CHR ''.''" for c
    by (simp_all add: lower_char_eq_iff)
  have "startswith (lower p) ''*.'' \<longleftrightarrow> startswith p ''*.''" for p
    by (cases p; cases "tl p") (auto simp: startswith_def star)
  note st = this
  have suffix: "endswith s t \<and> length t < length s \<longleftrightarrow> (\<exists>u. u \<noteq> [] \<and> s = u @ t)" for s t :: string
    by (auto simp: endswith_iff)
  have wild: "host_pattern_matches (''*.'' @ d) h \<longleftrightarrow> (\<exists>sub. sub \<noteq> [] \<and> lower h = sub @ ''.'' @ lower d)" for h
    using suffix [of "lower h" "CHR ''.'' # lower d"] by (simp add: host_pattern_matches_def Let_def l startswith_def)
  moreover have "\<not> host_pattern_matches (''*.'' @ d) d"
  proof
    assume "host_pattern_matches (''*.'' @ d) d"
    then obtain sub where "lower d = sub @ ''.'' @ lower d" using wild by blast
    then have "length (lower d) = length sub + 1 + length (lower d)" by (metis append_assoc length_append length_append_singleton add.commute Suc_eq_plus1)
    then show False by simp
  qed
  moreover have "startswith p ''*.'' \<or> (host_pattern_matches p h \<longleftrightarrow> lower h = lower p)"
    using st [of p] by (auto simp: host_pattern_matches_def Let_def)
  ultimately show ?thesis by blast
qed

subsection \<open>Printing and parsing\<close>

definition wf_grant :: "capability_grant \<Rightarrow> bool" where
  "wf_grant g \<longleftrightarrow> strip (grant_capability g) = grant_capability g \<and> CHR ''.'' \<in> set (grant_capability g)
     \<and> CHR '':'' \<notin> set (grant_capability g) \<and> grant_patterns g \<noteq> []
     \<and> (\<forall>p \<in> set (grant_patterns g). p \<noteq> [] \<and> strip p = p \<and> CHR '','' \<notin> set p
          \<and> (startswith (grant_capability g) ''browser.'' \<longrightarrow> split_origin p \<noteq> None))"

definition print_grant :: "capability_grant \<Rightarrow> string" where
  "print_grant g = grant_line_for (grant_capability g) (join_with (CHR '','') (grant_patterns g))"

definition print_policy :: "policy \<Rightarrow> string" where
  "print_policy P = concat (map (\<lambda>g. print_grant g @ [CHR 0x0A]) (grants P))"

lemma partition_on_first: "c \<notin> set s \<Longrightarrow> partition_on c (s @ c # t) = (s, True, t)"
  by (induction s) (auto simp: partition_on_def)

lemma parse_grant_wf:
  assumes "parse_grant s = Inr g"
  shows "wf_grant g \<and> set (grant_capability g) \<subseteq> set s \<and> (\<forall>p \<in> set (grant_patterns g). set p \<subseteq> set s)"
proof -
  let ?raw = "takeWhile (\<lambda>x. x \<noteq> CHR '':'') s" and ?load = "drop 1 (dropWhile (\<lambda>x. x \<noteq> CHR '':'') s)"
  from assms have cap: "grant_capability g = strip ?raw" and pats: "grant_patterns g = map strip (filter (\<lambda>p. strip p \<noteq> []) (split_on (CHR '','') ?load))"
    and ok: "CHR ''.'' \<in> set (grant_capability g)" "grant_patterns g \<noteq> []"
      "startswith (grant_capability g) ''browser.'' \<Longrightarrow> \<not> list_ex (\<lambda>p. split_origin p = None) (grant_patterns g)"
    by (auto simp: parse_grant_def partition_on_def Let_def split: if_splits)
  have raw: "set ?raw \<subseteq> set s" "CHR '':'' \<notin> set ?raw" and load: "set ?load \<subseteq> set s"
    by (auto dest: set_takeWhileD set_dropWhileD in_set_dropD)
  have p: "p \<noteq> [] \<and> strip p = p \<and> CHR '','' \<notin> set p \<and> set p \<subseteq> set s" if p: "p \<in> set (grant_patterns g)" for p
  proof -
    from p pats obtain q where q: "q \<in> set (split_on (CHR '','') ?load)" "strip q \<noteq> []" "p = strip q" by auto
    then show ?thesis using split_on_parts [OF q(1)] set_split_on [OF q(1)] strip_set [of q] load by auto
  qed
  moreover have "startswith (grant_capability g) ''browser.'' \<longrightarrow> (\<forall>p \<in> set (grant_patterns g). split_origin p \<noteq> None)"
    using ok(3) by (auto simp: list_ex_iff)
  ultimately show ?thesis using raw cap ok(1,2) strip_set [of ?raw] unfolding wf_grant_def by auto
qed

lemma parse_print_grant:
  assumes "wf_grant g"
  shows "parse_grant (print_grant g) = Inr g"
proof -
  let ?c = "grant_capability g" and ?ps = "grant_patterns g"
  have pr: "print_grant g = ?c @ CHR '':'' # join_with (CHR '','') ?ps" by (simp add: print_grant_def grant_line_for_def)
  have "split_on (CHR '','') (join_with (CHR '','') ?ps) = ?ps" using assms by (intro split_join) (auto simp: wf_grant_def)
  moreover have "filter (\<lambda>p. strip p \<noteq> []) ?ps = ?ps" "map strip ?ps = ?ps"
    using assms by (auto simp: wf_grant_def filter_id_conv intro!: map_idI)
  moreover have "partition_on (CHR '':'') (print_grant g) = (?c, True, join_with (CHR '','') ?ps)"
    unfolding pr by (rule partition_on_first) (use assms in \<open>simp add: wf_grant_def\<close>)
  moreover have "\<not> (startswith ?c ''browser.'' \<and> list_ex (\<lambda>p. split_origin p = None) ?ps)"
    using assms by (auto simp: wf_grant_def list_ex_iff)
  moreover have "?c \<noteq> []" "CHR ''.'' \<in> set ?c" "strip ?c = ?c" "?ps \<noteq> []" using assms by (auto simp: wf_grant_def)
  ultimately show ?thesis by (simp add: parse_grant_def Let_def) (simp add: pr)
qed

text \<open>Characters a grant line may contain.\<close>

definition line_char :: "char \<Rightarrow> bool" where
  "line_char c \<longleftrightarrow> \<not> line_break c \<and> c \<noteq> CHR ''#'' \<and> c \<noteq> CHR '';''"

lemma policy_lines_chars:
  assumes "l \<in> set (policy_lines chunks)"
  shows "\<forall>c \<in> set l. line_char c"
proof -
  from assms obtain chunk line part where l: "line \<in> set (splitlines chunk)"
    "part \<in> set (split_on (CHR '';'') (takeWhile (\<lambda>c. c \<noteq> CHR ''#'') line))" "l = strip part"
    by (auto simp: policy_lines_def)
  have "\<forall>c \<in> set line. \<not> line_break c" using splitlines_no_break [of line "[]" chunk] l(1) by (simp add: splitlines_def)
  moreover have "set l \<subseteq> set (takeWhile (\<lambda>c. c \<noteq> CHR ''#'') line)" using strip_set [of part] set_split_on [OF l(2)] l(3) by auto
  moreover have "CHR '';'' \<notin> set l" using split_on_parts [OF l(2)] strip_set [of part] l(3) by auto
  ultimately show ?thesis by (auto simp: line_char_def dest!: set_takeWhileD subsetD)
qed

lemma last_join_with: "xs \<noteq> [] \<Longrightarrow> last xs \<noteq> [] \<Longrightarrow> last (join_with c xs) = last (last xs) \<and> join_with c xs \<noteq> []"
  by (induction c xs rule: join_with.induct) (auto simp: last_append)

lemma print_grant_line:
  assumes "wf_grant g" "\<forall>c \<in> set (grant_capability g). line_char c" "\<forall>p \<in> set (grant_patterns g). \<forall>c \<in> set p. line_char c"
  shows "strip (print_grant g) = print_grant g" "print_grant g \<noteq> []" "\<forall>c \<in> set (print_grant g). line_char c"
proof -
  let ?c = "grant_capability g" and ?ps = "grant_patterns g"
  have pr: "print_grant g = ?c @ CHR '':'' # join_with (CHR '','') ?ps" by (simp add: print_grant_def grant_line_for_def)
  then show "print_grant g \<noteq> []" by simp
  have "strip ?c = ?c" "CHR ''.'' \<in> set ?c" using assms(1) unfolding wf_grant_def by blast+
  then have c: "?c \<noteq> []" "\<not> is_space (hd ?c)" unfolding strip_eq_iff by auto
  have "last ?ps \<in> set ?ps" using assms(1) by (simp add: wf_grant_def)
  then have "strip (last ?ps) = last ?ps" "last ?ps \<noteq> []" using assms(1) unfolding wf_grant_def by blast+
  then have p: "last ?ps \<noteq> []" "\<not> is_space (last (last ?ps))" unfolding strip_eq_iff by auto
  with assms(1) last_join_with [of ?ps "CHR '',''"] have "last (join_with (CHR '','') ?ps) = last (last ?ps)" "join_with (CHR '','') ?ps \<noteq> []"
    by (auto simp: wf_grant_def)
  with c p show "strip (print_grant g) = print_grant g" by (simp add: strip_eq_iff pr)
  have "line_char (CHR '':'')" "line_char (CHR '','')" by (simp_all add: line_char_def line_break_def)
  then show "\<forall>c \<in> set (print_grant g). line_char c"
    using assms(2,3) set_join_with [of "CHR '',''" ?ps] by (auto simp: pr)
qed

lemma policy_lines_line:
  assumes "\<forall>c \<in> set l. line_char c" "strip l = l" "l \<noteq> []"
  shows "policy_lines [l @ CHR 0x0A # t] = l # policy_lines [t]" "policy_lines [l] = [l]"
proof -
  have one: "takeWhile (\<lambda>c. c \<noteq> CHR ''#'') l = l" "split_on (CHR '';'') l = [l]"
    using assms(1) by (auto simp: takeWhile_eq_all_conv line_char_def intro!: split_on_single)
  have "\<forall>c \<in> set l. \<not> line_break c" using assms(1) by (simp add: line_char_def)
  then show "policy_lines [l @ CHR 0x0A # t] = l # policy_lines [t]" "policy_lines [l] = [l]"
    using assms(2,3) by (simp_all add: policy_lines_def splitlines_line splitlines_single one)
qed

definition file_grant :: "capability_grant \<Rightarrow> bool" where
  "file_grant g \<longleftrightarrow> wf_grant g \<and> (\<forall>c \<in> set (grant_capability g). line_char c) \<and> (\<forall>p \<in> set (grant_patterns g). \<forall>c \<in> set p. line_char c)"

lemma parse_policy_file_grants:
  assumes "parse_policy chunks = Inr P"
  shows "\<forall>g \<in> set (grants P). file_grant g"
proof
  fix g
  assume "g \<in> set (grants P)"
  with assms obtain l where l: "l \<in> set (policy_lines chunks)" "parse_grant l = Inr g"
    by (auto simp: parse_policy_def dest!: map_res_mem)
  from parse_grant_wf [OF l(2)] policy_lines_chars [OF l(1)] show "file_grant g" by (auto simp: file_grant_def)
qed

lemma policy_lines_print:
  "\<forall>g \<in> set gs. file_grant g \<Longrightarrow> policy_lines [concat (map (\<lambda>g. print_grant g @ [CHR 0x0A]) gs) @ t] = map print_grant gs @ policy_lines [t]"
proof (induction gs)
  case (Cons g gs)
  then have "file_grant g" by simp
  note line = policy_lines_line(1) [OF print_grant_line(3,1,2)]
  from line [of g "concat (map (\<lambda>g. print_grant g @ [CHR 0x0A]) gs) @ t"] \<open>file_grant g\<close> Cons show ?case
    unfolding file_grant_def by auto
qed simp

lemma map_res_print: "\<forall>g \<in> set gs. file_grant g \<Longrightarrow> map_res parse_grant (map print_grant gs) = Inr gs"
  by (induction gs) (simp_all add: parse_print_grant file_grant_def)

text \<open>What was read can be written and read back: every policy that parses, from any text with comments and separators,
  prints to a text that parses to the same policy, and all its grants are well formed.\<close>

theorem policy_roundtrip:
  assumes "parse_policy chunks = Inr P"
  shows "parse_policy [print_policy P] = Inr P \<and> list_all wf_grant (grants P)"
  using parse_policy_file_grants [OF assms] policy_lines_print [of "grants P" "[]"] map_res_print [of "grants P"]
  by (auto simp: parse_policy_def print_policy_def policy_lines_def splitlines_def file_grant_def list_all_iff)

theorem policy_roundtrip_witness:
  "parse_policy [''net.http: a.org , *.b.org # hosts''] = Inr \<lparr>grants = [\<lparr>grant_capability = ''net.http'', grant_patterns = [''a.org'', ''*.b.org'']\<rparr>]\<rparr>
   \<and> parse_policy [print_policy \<lparr>grants = [\<lparr>grant_capability = ''net.http'', grant_patterns = [''a.org'', ''*.b.org'']\<rparr>]\<rparr>]
       = Inr \<lparr>grants = [\<lparr>grant_capability = ''net.http'', grant_patterns = [''a.org'', ''*.b.org'']\<rparr>]\<rparr>"
proof -
  have "parse_policy [''net.http: a.org , *.b.org # hosts''] = Inr \<lparr>grants = [\<lparr>grant_capability = ''net.http'', grant_patterns = [''a.org'', ''*.b.org'']\<rparr>]\<rparr>"
    by code_simp
  from policy_roundtrip [OF this] this show ?thesis by blast
qed

subsection \<open>Refusals name their remedy\<close>

lemma host_pattern_refl: "host_pattern_matches t t"
proof (cases "startswith (lower t) ''*.''")
  case True
  then obtain r where "lower t = ''*.'' @ r" by (auto simp: startswith_iff)
  then show ?thesis by (simp add: host_pattern_matches_def Let_def startswith_def endswith_iff)
qed (simp add: host_pattern_matches_def Let_def)

text \<open>A host or binary name that can be written in a grant.\<close>

definition nameable :: "string \<Rightarrow> bool" where
  "nameable t \<longleftrightarrow> t \<noteq> [] \<and> strip t = t \<and> CHR '','' \<notin> set t \<and> (\<forall>c \<in> set t. line_char c)"

text \<open>The remedy a refusal names works: appending the required grant line to the operator's file gives a policy that parses,
  keeps every grant it had, and allows the refused host or binary.\<close>

theorem remedy_permits:
  assumes "parse_policy chunks = Inr P" "nameable t" "c = ''net.http'' \<or> c = ''shell.exec'' \<and> basename t = t"
  shows "\<exists>Q. parse_policy [print_policy P @ grant_line_for c t] = Inr Q \<and> set (grants P) \<subseteq> set (grants Q)
     \<and> (if c = ''net.http'' then allows_host Q c t else allows_binary Q c t)"
proof -
  let ?g = "\<lparr>grant_capability = c, grant_patterns = [t]\<rparr>"
  have "strip c = c" "CHR ''.'' \<in> set c" "CHR '':'' \<notin> set c" "\<not> startswith c ''browser.''" "list_all line_char c"
    using assms(3) by (elim disjE conjE; simp; code_simp)+
  with assms(2) have "file_grant ?g" by (simp add: nameable_def file_grant_def wf_grant_def list_all_iff)
  then have g: "wf_grant ?g" "policy_lines [print_grant ?g] = [print_grant ?g]"
    using policy_lines_line(2) [OF print_grant_line(3,1,2)] by (auto simp: file_grant_def)
  have "print_grant ?g = grant_line_for c t" by (simp add: print_grant_def)
  then have "policy_lines [print_policy P @ grant_line_for c t] = map print_grant (grants P @ [?g])"
    using policy_lines_print [OF parse_policy_file_grants [OF assms(1)], of "grant_line_for c t"] g(2) by (simp add: print_policy_def)
  then have "parse_policy [print_policy P @ grant_line_for c t] = Inr \<lparr>grants = grants P @ [?g]\<rparr>"
    using map_res_print [of "grants P @ [?g]"] parse_policy_file_grants [OF assms(1)] \<open>file_grant ?g\<close> by (simp add: parse_policy_def)
  moreover have "if c = ''net.http'' then allows_host \<lparr>grants = grants P @ [?g]\<rparr> c t else allows_binary \<lparr>grants = grants P @ [?g]\<rparr> c t"
    using assms(2,3) host_pattern_refl [of t] unfolding net.allows_by_pattern shell.allows_by_pattern
    by (auto simp: nameable_def startswith_def)
  ultimately show ?thesis by auto
qed

theorem remedy_permits_witness:
  "\<exists>Q. parse_policy [print_policy \<lparr>grants = []\<rparr> @ grant_line_for ''shell.exec'' ''jq''] = Inr Q \<and> allows_binary Q ''shell.exec'' ''jq''"
proof -
  have "parse_policy [] = Inr \<lparr>grants = []\<rparr>" "nameable ''jq''" "basename ''jq'' = ''jq''" by code_simp+
  with remedy_permits [of "[]" "\<lparr>grants = []\<rparr>" "''jq''" "''shell.exec''"] show ?thesis by auto
qed

subsection \<open>Shell arguments and lint lines\<close>

text \<open>The narrowing of shell arguments is exact in what it looks at: it reports, in order, just the arguments that are not
  flags, that resolve against the working directory to an existing path, and that no file grant covers; more file grants report less.\<close>

theorem unpermitted_arguments_exact:
  "(arg \<in> set (unpermitted_path_arguments E resolve P args cwd) \<longleftrightarrow>
      arg \<in> set args \<and> arg \<noteq> [] \<and> hd arg \<noteq> CHR ''-''
      \<and> (\<exists>r. resolve (let c = path_str (expanduser E arg) in if startswith c ''/'' then c else path_join cwd c) = Some r
            \<and> \<not> allows_path E P ''fs.read'' r \<and> \<not> allows_path E P ''fs.write'' r))
   \<and> set (unpermitted_path_arguments E resolve \<lparr>grants = grants P @ gs\<rparr> args cwd) \<subseteq> set (unpermitted_path_arguments E resolve P args cwd)"
proof -
  have mem: "arg \<in> set (unpermitted_path_arguments E resolve Q args cwd) \<longleftrightarrow> arg \<in> set args \<and> arg \<noteq> [] \<and> hd arg \<noteq> CHR ''-''
      \<and> (\<exists>r. resolve (let c = path_str (expanduser E arg) in if startswith c ''/'' then c else path_join cwd c) = Some r
            \<and> \<not> allows_path E Q ''fs.read'' r \<and> \<not> allows_path E Q ''fs.write'' r)" for arg Q
    by (cases "resolve (let c = path_str (expanduser E arg) in if startswith c ''/'' then c else path_join cwd c)")
      (auto simp: unpermitted_path_arguments_def FS_GRANT_CAPABILITIES_def startswith_char Let_def)
  have "allows_path E P c r \<Longrightarrow> allows_path E \<lparr>grants = grants P @ gs\<rparr> c r" for c r
    by (rule fs.allows_mono) auto
  then have "set (unpermitted_path_arguments E resolve \<lparr>grants = grants P @ gs\<rparr> args cwd) \<subseteq> set (unpermitted_path_arguments E resolve P args cwd)"
    unfolding subset_iff mem by blast
  with mem [of arg P] show ?thesis by blast
qed

end
