(* ===== verification/Json.thy ===== *)
theory Json
  imports Py_Str Sha256
begin

text \<open>
  \<^verbatim>\<open>json.dumps\<close> as the logs use it: sorted keys, compact separators, non-ASCII and control
  characters escaped. Values are those the modelled code records: null, booleans, integers,
  decimals with four fractional digits, strings, lists and string-keyed objects (an
  association list in insertion order, since a Python dict keeps it). Shown: the text determines the
  value, so a digest of it commits to every field.
\<close>

datatype json =
    JNull
  | JBool bool
  | JInt int
  | JDec int
  | JStr string
  | JList "json list"
  | JObj "(string \<times> json) list"

text \<open>\<^verbatim>\<open>ensure_ascii\<close>: printable ASCII but the quote and the backslash goes through.\<close>

definition esc_char :: "char \<Rightarrow> string" where
  "esc_char c =
     (if c = CHR 0x22 then [CHR 0x5C, CHR 0x22]
      else if c = CHR 0x5C then [CHR 0x5C, CHR 0x5C]
      else if c = CHR 0x0A then [CHR 0x5C, CHR ''n'']
      else if c = CHR 0x0D then [CHR 0x5C, CHR ''r'']
      else if c = CHR 0x09 then [CHR 0x5C, CHR ''t'']
      else if c = CHR 0x0C then [CHR 0x5C, CHR ''f'']
      else if c = CHR 0x08 then [CHR 0x5C, CHR ''b'']
      else if 32 \<le> (of_char c :: nat) \<and> (of_char c :: nat) \<le> 126 then [c]
      else [CHR 0x5C, CHR ''u'', CHR ''0'', CHR ''0'',
            hexdigit (of_char c div 16), hexdigit (of_char c mod 16)])"

definition dump_str :: "string \<Rightarrow> string" where
  "dump_str s = CHR 0x22 # concat (map esc_char s) @ [CHR 0x22]"

text \<open>The float \<open>n / 10 ^ 4\<close>: at least one fractional digit, no trailing zeros after it.\<close>

definition frac_digits :: "nat \<Rightarrow> string" where
  "frac_digits n = (case rev (dropWhile (\<lambda>c. c = CHR ''0'') (rev (pad_nat 4 n))) of [] \<Rightarrow> ''0'' | s \<Rightarrow> s)"

definition dump_dec :: "int \<Rightarrow> string" where
  "dump_dec n = (if n < 0 then ''-'' else []) @ str_nat (nat \<bar>n\<bar> div 10000) @ CHR ''.'' # frac_digits (nat \<bar>n\<bar> mod 10000)"

fun dumps :: "json \<Rightarrow> string"
  and dumps_list :: "json list \<Rightarrow> string"
  and dumps_obj :: "(string \<times> json) list \<Rightarrow> string" where
  "dumps JNull = ''null''"
| "dumps (JBool True) = ''true''"
| "dumps (JBool False) = ''false''"
| "dumps (JInt i) = str_int i"
| "dumps (JDec n) = dump_dec n"
| "dumps (JStr s) = dump_str s"
| "dumps (JList xs) = CHR ''['' # dumps_list xs"
| "dumps (JObj kvs) = CHR ''{'' # dumps_obj kvs"
| "dumps_list [] = '']''"
| "dumps_list [x] = dumps x @ '']''"
| "dumps_list (x # y # ys) = dumps x @ CHR '','' # dumps_list (y # ys)"
| "dumps_obj [] = ''}''"
| "dumps_obj [kv] = dump_str (fst kv) @ CHR '':'' # dumps (snd kv) @ ''}''"
| "dumps_obj (kv # kw # kvs) = dump_str (fst kv) @ CHR '':'' # dumps (snd kv) @ CHR '','' # dumps_obj (kw # kvs)"

text \<open>\<^verbatim>\<open>sort_keys=True\<close>, at every depth.\<close>

fun sort_keys :: "json \<Rightarrow> json" where
  "sort_keys (JList xs) = JList (map sort_keys xs)"
| "sort_keys (JObj kvs) = JObj (sort_key fst (map (\<lambda>kv. (fst kv, sort_keys (snd kv))) kvs))"
| "sort_keys j = j"

text \<open>\<^verbatim>\<open>d.get(k)\<close> on a dict; a JSON value that is not an object has no \<^verbatim>\<open>get\<close>.\<close>

fun obj_get :: "(string \<times> json) list \<Rightarrow> string \<Rightarrow> json" where
  "obj_get kvs k = (case map_of kvs k of None \<Rightarrow> JNull | Some v \<Rightarrow> v)"

text \<open>Truth value in a Python condition.\<close>

fun truthy :: "json \<Rightarrow> bool" where
  "truthy JNull = False"
| "truthy (JBool b) = b"
| "truthy (JInt i) = (i \<noteq> 0)"
| "truthy (JDec n) = (n \<noteq> 0)"
| "truthy (JStr s) = (s \<noteq> [])"
| "truthy (JList xs) = (xs \<noteq> [])"
| "truthy (JObj kvs) = (kvs \<noteq> [])"

text \<open>\<^verbatim>\<open>int(raw)\<close> of a JSON value; None is TypeError or ValueError.\<close>

fun json_int :: "json \<Rightarrow> int option" where
  "json_int (JInt i) = Some i"
| "json_int (JBool b) = Some (if b then 1 else 0)"
| "json_int (JDec n) = Some (if n < 0 then - ((- n) div 10000) else n div 10000)"
| "json_int (JStr s) = parse_int s"
| "json_int j = None"

definition jstr_opt :: "string option \<Rightarrow> json" where
  "jstr_opt s = (case s of None \<Rightarrow> JNull | Some x \<Rightarrow> JStr x)"

lemma jstr_opt_inject [simp]: "jstr_opt a = jstr_opt b \<longleftrightarrow> a = b"
  by (auto simp: jstr_opt_def split: option.splits)

subsection \<open>The text determines the value\<close>

lemma esc_char_hex_inject:
  assumes "hexdigit (of_char c div 16) = hexdigit (of_char d div 16)"
    and "hexdigit (of_char c mod 16) = hexdigit (of_char d mod 16)"
  shows "c = d"
proof -
  have b: "of_char x div 16 < (16::nat)" "of_char x mod 16 < (16::nat)" for x :: char
    using nat_of_char_less_256 [of x] by (auto simp: less_mult_imp_div_less)
  from assms have "of_char c div 16 = (of_char d div 16 :: nat)" "of_char c mod 16 = (of_char d mod 16 :: nat)"
    using b by (simp_all add: hexdigit_inject)
  then have "(of_char c :: nat) = of_char d" by (metis div_mult_mod_eq)
  then show "c = d" by simp
qed

lemma esc_char_prefix_free: "esc_char c @ r = esc_char d @ s \<Longrightarrow> c = d \<and> r = s"
  unfolding esc_char_def by (auto split: if_splits dest: esc_char_hex_inject)

lemma esc_char_hd: "esc_char c \<noteq> [] \<and> hd (esc_char c) \<noteq> CHR 0x22"
  by (auto simp: esc_char_def)

lemma dump_chars_prefix_free:
  "concat (map esc_char s) @ CHR 0x22 # r = concat (map esc_char t) @ CHR 0x22 # u \<Longrightarrow> s = t \<and> r = u"
proof (induction s arbitrary: t)
  case Nil
  then show ?case using esc_char_hd by (cases t) (auto, metis append_Cons list.exhaust_sel list.sel(1))
next
  case (Cons c s)
  show ?case
  proof (cases t)
    case Nil
    with Cons.prems esc_char_hd [of c] show ?thesis by (cases "esc_char c") auto
  next
    case (Cons d t')
    with Cons.prems have "esc_char c @ (concat (map esc_char s) @ CHR 0x22 # r)
        = esc_char d @ (concat (map esc_char t') @ CHR 0x22 # u)" by simp
    from esc_char_prefix_free [OF this] Cons.IH [of t'] Cons show ?thesis by simp
  qed
qed

lemma dump_str_prefix_free: "dump_str s @ r = dump_str t @ u \<Longrightarrow> s = t \<and> r = u"
  using dump_chars_prefix_free [of s r t u] by (simp add: dump_str_def)

lemma pad_after_trim:
  fixes s :: string
  shows "length s = n \<Longrightarrow>
   (let d = rev (dropWhile (\<lambda>c. c = CHR ''0'') (rev s)) in d @ replicate (n - length d) (CHR ''0'')) = s"
proof (induction s arbitrary: n rule: rev_induct)
  case (snoc x xs)
  show ?case
  proof (cases "x = CHR ''0''")
    case True
    let ?d = "rev (dropWhile (\<lambda>c. c = CHR ''0'') (rev xs))"
    have le: "length ?d \<le> length xs" using length_dropWhile_le [of _ "rev xs"] by simp
    have "?d @ replicate (length xs - length ?d) (CHR ''0'') = xs" using snoc.IH [OF refl] by (simp add: Let_def)
    moreover have "replicate (Suc (length xs) - length ?d) (CHR ''0'')
        = replicate (length xs - length ?d) (CHR ''0'') @ [CHR ''0'']"
      using le by (simp add: Suc_diff_le replicate_append_same)
    ultimately show ?thesis using True snoc.prems by (simp add: Let_def)
  qed (use snoc.prems in simp)
qed simp

lemma frac_digits_pad: "frac_digits n @ replicate (4 - length (frac_digits n)) (CHR ''0'') = pad_nat 4 n"
proof -
  define d where "d = rev (dropWhile (\<lambda>c. c = CHR ''0'') (rev (pad_nat 4 n)))"
  have d: "d @ replicate (4 - length d) (CHR ''0'') = pad_nat 4 n"
    unfolding d_def using pad_after_trim [of "pad_nat 4 n" 4] by (simp add: Let_def)
  have f: "frac_digits n = (case d of [] \<Rightarrow> ''0'' | s \<Rightarrow> s)" by (simp add: frac_digits_def d_def)
  show ?thesis
  proof (cases d)
    case Nil
    have "''0'' @ replicate (4 - length ''0'') (CHR ''0'') = replicate 4 (CHR ''0'')"
      by (simp add: eval_nat_numeral)
    with Nil d f show ?thesis by simp
  next
    case Cons
    with f have "frac_digits n = d" by simp
    with d show ?thesis by simp
  qed
qed

lemma frac_digits_inject:
  "m < 10000 \<Longrightarrow> n < 10000 \<Longrightarrow> frac_digits m = frac_digits n \<Longrightarrow> m = n"
  using frac_digits_pad [of m] frac_digits_pad [of n] nat_val_pad_nat [of m 4] nat_val_pad_nat [of n 4] by simp

lemma frac_digits_digits: "\<forall>c \<in> set (frac_digits n). is_digit c"
proof -
  have "set (rev (dropWhile (\<lambda>c. c = CHR ''0'') (rev (pad_nat 4 n)))) \<subseteq> set (pad_nat 4 n)"
    by (auto dest: set_dropWhileD)
  moreover have "is_digit (CHR ''0'')" by (simp add: is_digit_def)
  ultimately show ?thesis using pad_nat_digits [of 4 n]
    unfolding frac_digits_def by (auto split: list.splits)
qed


text \<open>Scalars hold no delimiter, and no scalar starts like a string, a list or an object.\<close>

definition delim :: "char \<Rightarrow> bool" where
  "delim c \<longleftrightarrow> c = CHR '','' \<or> c = CHR '']'' \<or> c = CHR ''}''"

definition at_delim :: "string \<Rightarrow> bool" where
  "at_delim r \<longleftrightarrow> r = [] \<or> delim (hd r)"

lemma at_delim_simps [simp]:
  "at_delim []" "at_delim (CHR '','' # r)" "at_delim (CHR '']'' # r)" "at_delim (CHR ''}'' # r)"
  by (simp_all add: at_delim_def delim_def)

lemma delim_split:
  assumes "a @ r = b @ s" "\<forall>c \<in> set a. \<not> delim c" "\<forall>c \<in> set b. \<not> delim c" "at_delim r" "at_delim s"
  shows "a = b \<and> r = s"
proof -
  have t: "takeWhile (\<lambda>c. \<not> delim c) (x @ y) = x" if "\<forall>c \<in> set x. \<not> delim c" "at_delim y" for x y
    using that by (cases y) (auto simp: at_delim_def)
  from t [OF assms(2,4)] t [OF assms(3,5)] assms(1) show ?thesis by simp
qed

fun scalar :: "json \<Rightarrow> bool" where
  "scalar (JStr s) = False"
| "scalar (JList xs) = False"
| "scalar (JObj kvs) = False"
| "scalar _ = True"

lemma is_digit_not_delim: "is_digit c \<Longrightarrow> \<not> delim c"
  by (auto simp: delim_def)

lemma minus_dot_not_delim [simp]: "\<not> delim (CHR ''-'')" "\<not> delim (CHR ''.'')"
  by (simp_all add: delim_def)

lemma dump_dec_digits: "\<forall>c \<in> set (dump_dec n). is_digit c \<or> c = CHR ''-'' \<or> c = CHR ''.''"
  using str_nat_digits frac_digits_digits by (auto simp: dump_dec_def)

lemma dump_dec_hd: "\<exists>c cs. dump_dec n = c # cs \<and> (is_digit c \<or> c = CHR ''-'')"
  using str_nat_hd [of "nat \<bar>n\<bar> div 10000"] by (auto simp: dump_dec_def)

lemma dump_dec_not_int: "dump_dec n \<noteq> str_int i" "str_int i \<noteq> dump_dec n"
proof -
  have "CHR ''.'' \<in> set (dump_dec n)" by (simp add: dump_dec_def)
  moreover have "CHR ''.'' \<notin> set (str_int i)" using str_int_chars [of i] by fastforce
  ultimately show "dump_dec n \<noteq> str_int i" "str_int i \<noteq> dump_dec n" by auto
qed

lemma dot_split:
  assumes "a @ CHR ''.'' # r = b @ CHR ''.'' # s" "\<forall>c \<in> set a. is_digit c" "\<forall>c \<in> set b. is_digit c"
  shows "a = b \<and> r = s"
proof -
  have t: "takeWhile is_digit (x @ CHR ''.'' # y) = x" if "\<forall>c \<in> set x. is_digit c" for x y
    using that by simp
  from t [OF assms(2), of r] t [OF assms(3), of s] assms(1) show ?thesis by simp
qed

lemma dump_dec_inject [simp]: "dump_dec m = dump_dec n \<longleftrightarrow> m = n"
proof
  assume e: "dump_dec m = dump_dec n"
  obtain c cs d ds where h: "str_nat (nat \<bar>m\<bar> div 10000) = c # cs" "is_digit c"
    "str_nat (nat \<bar>n\<bar> div 10000) = d # ds" "is_digit d"
    using str_nat_hd by metis
  have sg: "m < 0 \<longleftrightarrow> n < 0" using e h by (auto simp: dump_dec_def split: if_splits)
  with e have "str_nat (nat \<bar>m\<bar> div 10000) @ CHR ''.'' # frac_digits (nat \<bar>m\<bar> mod 10000)
      = str_nat (nat \<bar>n\<bar> div 10000) @ CHR ''.'' # frac_digits (nat \<bar>n\<bar> mod 10000)"
    by (auto simp: dump_dec_def split: if_splits)
  from dot_split [OF this str_nat_digits str_nat_digits]
  have "nat \<bar>m\<bar> div 10000 = nat \<bar>n\<bar> div 10000" "frac_digits (nat \<bar>m\<bar> mod 10000) = frac_digits (nat \<bar>n\<bar> mod 10000)"
    by auto
  moreover from frac_digits_inject [OF _ _ this(2)] have "nat \<bar>m\<bar> mod 10000 = nat \<bar>n\<bar> mod 10000" by simp
  ultimately have "nat \<bar>m\<bar> = nat \<bar>n\<bar>" by (metis div_mult_mod_eq)
  with sg show "m = n" by linarith
qed simp

lemma scalar_no_delim: "scalar j \<Longrightarrow> \<forall>c \<in> set (dumps j). \<not> delim c"
proof (cases j)
  case (JBool b)
  then show ?thesis by (cases b) (simp_all add: delim_def)
next
  case (JInt i)
  with str_int_chars [of i] show ?thesis using is_digit_not_delim by fastforce
next
  case (JDec n)
  with dump_dec_digits [of n] show ?thesis using is_digit_not_delim by fastforce
qed (simp_all add: delim_def)

definition number_start :: "char \<Rightarrow> bool" where
  "number_start c \<longleftrightarrow> is_digit c \<or> c = CHR ''-''"

lemma not_number_start [simp]:
  "\<not> number_start (CHR ''n'')" "\<not> number_start (CHR ''t'')" "\<not> number_start (CHR ''f'')"
  "\<not> number_start (CHR 0x22)" "\<not> number_start (CHR ''['')" "\<not> number_start (CHR ''{'')"
  "\<not> number_start (CHR '']'')"
  by (simp_all add: number_start_def)

lemma number_hd:
  "\<exists>c cs. str_int i = c # cs \<and> number_start c" "\<exists>c cs. dump_dec n = c # cs \<and> number_start c"
  using str_int_hd [of i] dump_dec_hd [of n] by (auto simp: number_start_def)

definition opener :: "char \<Rightarrow> bool" where
  "opener c \<longleftrightarrow> c = CHR 0x22 \<or> c = CHR ''['' \<or> c = CHR ''{'' \<or> c = CHR '']''"

lemma scalar_hd: "scalar j \<Longrightarrow> \<exists>c cs. dumps j = c # cs \<and> \<not> opener c"
proof (cases j)
  case (JBool b)
  then show ?thesis by (cases b) (simp_all add: opener_def)
next
  case (JInt i)
  with number_hd(1) [of i] show ?thesis by (auto simp: opener_def)
next
  case (JDec n)
  with number_hd(2) [of n] show ?thesis by (auto simp: opener_def)
qed (simp_all add: opener_def)

lemma number_not_word [simp]:
  "str_int i \<noteq> CHR ''n'' # s" "str_int i \<noteq> CHR ''t'' # s" "str_int i \<noteq> CHR ''f'' # s"
  "dump_dec n \<noteq> CHR ''n'' # s" "dump_dec n \<noteq> CHR ''t'' # s" "dump_dec n \<noteq> CHR ''f'' # s"
  using number_hd(1) [of i] number_hd(2) [of n] by auto

lemma dumps_JBool: "dumps (JBool b) = (if b then ''true'' else ''false'')"
  by (cases b) simp_all

lemmas number_not_word_sym [simp] = number_not_word [THEN not_sym]

lemma scalar_inject: "scalar j \<Longrightarrow> scalar k \<Longrightarrow> dumps j = dumps k \<Longrightarrow> j = k"
  by (cases j; cases k) (auto simp: dump_dec_not_int dumps_JBool split: if_splits)

lemma scalar_prefix_free:
  "scalar j \<Longrightarrow> scalar k \<Longrightarrow> dumps j @ r = dumps k @ s \<Longrightarrow> at_delim r \<Longrightarrow> at_delim s \<Longrightarrow> j = k \<and> r = s"
  using delim_split [of "dumps j" r "dumps k" s] scalar_no_delim scalar_inject by blast

lemma scalar_not_compound:
  assumes "scalar j" "\<not> scalar k"
  shows "dumps j @ r \<noteq> dumps k @ s" "dumps k @ s \<noteq> dumps j @ r"
proof -
  obtain c cs where c: "dumps j = c # cs" "\<not> opener c" using scalar_hd [OF assms(1)] by blast
  have "\<exists>d ds. dumps k = d # ds \<and> opener d"
    using assms(2) by (cases k) (auto simp: dump_str_def opener_def)
  with c show "dumps j @ r \<noteq> dumps k @ s" "dumps k @ s \<noteq> dumps j @ r" by auto
qed

lemma dumps_not_close: "dumps j @ r \<noteq> CHR '']'' # s" "CHR '']'' # s \<noteq> dumps j @ r"
proof -
  have "\<exists>d ds. dumps j = d # ds \<and> d \<noteq> CHR '']''"
  proof (cases "scalar j")
    case True
    from scalar_hd [OF True] show ?thesis by (auto simp: opener_def)
  next
    case False
    then show ?thesis by (cases j) (auto simp: dump_str_def)
  qed
  then show "dumps j @ r \<noteq> CHR '']'' # s" "CHR '']'' # s \<noteq> dumps j @ r" by auto
qed

lemma dumps_list_Cons:
  "dumps_list (x # xs) = dumps x @ (if xs = [] then '']'' else CHR '','' # dumps_list xs)"
  by (cases xs) simp_all

lemma dumps_obj_Cons:
  "dumps_obj (kv # kvs)
   = dump_str (fst kv) @ CHR '':'' # dumps (snd kv) @ (if kvs = [] then ''}'' else CHR '','' # dumps_obj kvs)"
  by (cases kvs) simp_all

lemma dumps_prefix_free:
  "dumps j @ r = dumps k @ s \<Longrightarrow> at_delim r \<Longrightarrow> at_delim s \<Longrightarrow> j = k \<and> r = s"
proof (induction j arbitrary: k r s)
  case (JStr x)
  show ?case
  proof (cases "scalar k")
    case True
    with scalar_not_compound(2) [of k "JStr x"] JStr show ?thesis by fastforce
  next
    case False
    with JStr show ?thesis by (cases k) (auto dest: dump_chars_prefix_free simp: dump_str_def)
  qed
next
  case (JList xs)
  have list: "dumps_list us @ r' = dumps_list vs @ s' \<Longrightarrow> us = vs \<and> r' = s'"
    if "set us \<subseteq> set xs" for us vs r' s'
    using that
  proof (induction us arbitrary: vs)
    case Nil
    then show ?case using dumps_not_close by (cases vs) (auto simp: dumps_list_Cons)
  next
    case (Cons u us)
    show ?case
    proof (cases vs)
      case Nil
      with Cons.prems show ?thesis using dumps_not_close by (auto simp: dumps_list_Cons)
    next
      case v: (Cons v vs')
      let ?t = "\<lambda>zs. if zs = [] then '']'' else CHR '','' # dumps_list zs"
      have e: "dumps u @ (?t us @ r') = dumps v @ (?t vs' @ s')"
        using Cons.prems(1) by (simp only: v dumps_list_Cons append_assoc)
      have "u \<in> set xs" using Cons.prems(2) by simp
      from JList.IH [OF this e] have "u = v" "?t us @ r' = ?t vs' @ s'" by (auto split: if_splits)
      with Cons.IH [of vs'] Cons.prems(2) v show ?thesis by (auto split: if_splits)
    qed
  qed
  show ?case
  proof (cases "scalar k")
    case True
    with scalar_not_compound(2) [of k "JList xs"] JList show ?thesis by fastforce
  next
    case False
    with JList.prems list show ?thesis by (cases k) (auto simp: dump_str_def)
  qed
next
  case (JObj kvs)
  have obj: "dumps_obj us @ r' = dumps_obj vs @ s' \<Longrightarrow> us = vs \<and> r' = s'"
    if "set us \<subseteq> set kvs" for us vs r' s'
    using that
  proof (induction us arbitrary: vs)
    case Nil
    then show ?case by (cases vs) (auto simp: dumps_obj_Cons dump_str_def)
  next
    case (Cons u us)
    show ?case
    proof (cases vs)
      case Nil
      with Cons.prems show ?thesis by (auto simp: dumps_obj_Cons dump_str_def)
    next
      case v: (Cons v vs')
      let ?t = "\<lambda>zs. if zs = [] then ''}'' else CHR '','' # dumps_obj zs"
      have e: "dump_str (fst u) @ (CHR '':'' # dumps (snd u) @ (?t us @ r'))
            = dump_str (fst v) @ (CHR '':'' # dumps (snd v) @ (?t vs' @ s'))"
        using Cons.prems(1) by (simp only: v dumps_obj_Cons append_assoc append_Cons)
      from dump_str_prefix_free [OF e] have k: "fst u = fst v"
        and d: "dumps (snd u) @ (?t us @ r') = dumps (snd v) @ (?t vs' @ s')" by auto
      have "u \<in> set kvs" "snd u \<in> Basic_BNFs.snds u"
        using Cons.prems(2) by (auto simp: snds.simps)
      from JObj.IH [OF this d] have "snd u = snd v" "?t us @ r' = ?t vs' @ s'" by (auto split: if_splits)
      with k Cons.IH [of vs'] Cons.prems(2) v show ?thesis by (auto split: if_splits intro: prod_eqI)
    qed
  qed
  show ?case
  proof (cases "scalar k")
    case True
    with scalar_not_compound(2) [of k "JObj kvs"] JObj show ?thesis by fastforce
  next
    case False
    with JObj.prems obj show ?thesis by (cases k) (auto simp: dump_str_def)
  qed
next
  case (JBool b)
  with scalar_prefix_free [of "JBool b" k r s] scalar_not_compound(1) [of "JBool b" k r s] show ?case by auto
next
  case (JInt b)
  with scalar_prefix_free [of "JInt b" k r s] scalar_not_compound(1) [of "JInt b" k r s] show ?case by auto
next
  case (JDec b)
  with scalar_prefix_free [of "JDec b" k r s] scalar_not_compound(1) [of "JDec b" k r s] show ?case by auto
next
  case JNull
  with scalar_prefix_free [of JNull k r s] scalar_not_compound(1) [of JNull k r s] show ?case by auto
qed

lemma dumps_inject [simp]: "dumps j = dumps k \<longleftrightarrow> j = k"
  using dumps_prefix_free [of j "[]" k "[]"] by auto

lemma sort_keys_idem [simp]: "sort_keys (sort_keys j) = sort_keys j"
proof (induction j)
  case (JObj kvs)
  have "map (\<lambda>kv. (fst kv, sort_keys (snd kv))) (sort_key fst (map (\<lambda>kv. (fst kv, sort_keys (snd kv))) kvs))
      = sort_key fst (map (\<lambda>kv. (fst kv, sort_keys (snd kv))) kvs)"
    by (rule map_idI) (use JObj in \<open>auto simp: snds.simps\<close>)
  then show ?case by (simp add: sorted_sort_id sort_key_id_if_sorted)
qed auto

lemma map_of_insort_key: "map_of (insort_key fst kv kvs) = (map_of kvs)(fst kv \<mapsto> snd kv)"
  by (induction kvs) (auto simp: fun_eq_iff)

lemma map_of_sort_key [simp]: "map_of (sort_key fst kvs) = map_of kvs"
proof (induction kvs)
  case (Cons kv kvs)
  then show ?case by (cases kv) (simp add: map_of_insort_key)
qed simp

lemma map_of_sorted_values:
  "map_of (sort_key fst (map (\<lambda>kv. (fst kv, sort_keys (snd kv))) kvs)) k = map_option sort_keys (map_of kvs k)"
  by (induction kvs) (auto simp: map_of_sort_key simp del: sort_key_simps)

text \<open>A lookup sees through the key order of what was stored.\<close>

lemma obj_get_sorted:
  "sort_keys (JObj kvs) = JObj kvs' \<Longrightarrow> obj_get kvs' k = sort_keys (obj_get kvs k)"
  using map_of_sorted_values [of kvs k] by (auto simp del: map_of_sort_key split: option.splits)

lemma length_esc_char: "length (esc_char c) \<le> 6"
  by (simp add: esc_char_def)

lemma length_dump_str: "length (dump_str s) \<le> 6 * length s + 2"
proof -
  have "length (concat (map esc_char s)) \<le> 6 * length s"
    by (induction s) (auto intro: order_trans [OF add_mono [OF length_esc_char]])
  then show ?thesis by (simp add: dump_str_def)
qed

end
