(* ===== verification/Retry_Policy.thy ===== *)
theory Retry_Policy
  imports Prelude Py_Str
begin

text \<open>
  The retry discipline of \<^verbatim>\<open>server/retry_policy.py\<close>, vendored byte for byte from \<^verbatim>\<open>agent/community_member/retry_policy.py\<close>: which failures waiting
  can cure, and how long to wait. An exception is the attributes the module reads: its type name, the integer \<^verbatim>\<open>status_code\<close> and \<^verbatim>\<open>status\<close>
  attributes and the \<^verbatim>\<open>status_code\<close> of its \<^verbatim>\<open>response\<close> where they are integers, whether it is a timeout or connection error, and its text.

  Shown: every status of the 4xx range but four is terminal and every 5xx status is retryable; the waiting times double from ten seconds and
  stop at ten minutes.
\<close>

definition BACKOFF_BASE_SEC :: nat where "BACKOFF_BASE_SEC = 10"
definition BACKOFF_CAP_SEC :: nat where "BACKOFF_CAP_SEC = 600"
definition MAX_DOUBLINGS :: nat where "MAX_DOUBLINGS = 8"

datatype retry_decision = RETRYABLE | TERMINAL

definition RETRYABLE_STATUSES :: "int list" where
  "RETRYABLE_STATUSES = [408, 409, 425, 429, 500, 502, 503, 504]"

definition TERMINAL_STATUSES :: "int list" where
  "TERMINAL_STATUSES = [400, 401, 402, 403, 404, 413, 422]"

definition RETRYABLE_EXC_NAMES :: "string list" where
  "RETRYABLE_EXC_NAMES = [''APIConnectionError'', ''APITimeoutError'', ''InternalServerError'', ''RateLimitError'', ''ConnectionError'',
     ''ConnectionResetError'', ''ConnectTimeout'', ''ReadTimeout'', ''TimeoutError'', ''socket.timeout'', ''RemoteProtocolError'']"

definition TERMINAL_EXC_NAMES :: "string list" where
  "TERMINAL_EXC_NAMES = [''AuthenticationError'', ''PermissionDeniedError'', ''BadRequestError'', ''NotFoundError'', ''UnprocessableEntityError'']"

record exc =
  exc_name :: string
  exc_status_code :: "int option"
  exc_status :: "int option"
  exc_response :: "int option"
  exc_transport :: bool
  exc_text :: string

definition status_of :: "exc \<Rightarrow> int option" where
  "status_of e = (case exc_status_code e of Some s \<Rightarrow> Some s | None \<Rightarrow>
     (case exc_status e of Some s \<Rightarrow> Some s | None \<Rightarrow> exc_response e))"

definition classify_name :: "exc \<Rightarrow> retry_decision" where
  "classify_name e =
     (if exc_name e \<in> set RETRYABLE_EXC_NAMES then RETRYABLE
      else if exc_name e \<in> set TERMINAL_EXC_NAMES then TERMINAL
      else if exc_transport e then RETRYABLE
      else TERMINAL)"

definition classify :: "exc \<Rightarrow> retry_decision" where
  "classify e =
     (case status_of e of
        None \<Rightarrow> classify_name e
      | Some s \<Rightarrow>
          if s \<in> set RETRYABLE_STATUSES then RETRYABLE
          else if s \<in> set TERMINAL_STATUSES then TERMINAL
          else if 500 \<le> s \<and> s \<le> 599 then RETRYABLE
          else if 400 \<le> s \<and> s \<le> 499 then TERMINAL
          else classify_name e)"

definition backoff_seconds :: "int \<Rightarrow> nat" where
  "backoff_seconds consecutive_failures =
     (let n = nat (max 1 consecutive_failures) in min (BACKOFF_BASE_SEC * 2 ^ min (n - 1) MAX_DOUBLINGS) BACKOFF_CAP_SEC)"

definition describe :: "exc \<Rightarrow> retry_decision \<Rightarrow> string" where
  "describe e d =
     (case status_of e of Some s \<Rightarrow> ''HTTP '' @ str_int s | None \<Rightarrow> exc_name e) @ '': ''
     @ (if d = RETRYABLE then ''will retry'' else ''STOPPING -- retrying cannot help'') @ ''. '' @ take 200 (exc_text e)"

subsection \<open>The table\<close>

lemma classify_http:
  assumes "status_of e = Some s" "400 \<le> s" "s \<le> 599"
  shows "classify e = (if s \<ge> 500 \<or> s \<in> {408, 409, 425, 429} then RETRYABLE else TERMINAL)"
  using assms by (auto simp: classify_def RETRYABLE_STATUSES_def TERMINAL_STATUSES_def)

lemma classify_unknown:
  assumes "status_of e = None" "exc_name e \<notin> set RETRYABLE_EXC_NAMES" "\<not> exc_transport e"
  shows "classify e = TERMINAL"
  using assms by (simp add: classify_def classify_name_def)

subsection \<open>The curve\<close>

lemma backoff_table:
  "map backoff_seconds [0, 1, 2, 3, 4, 5, 6, 7, 8, 9] = [10, 10, 20, 40, 80, 160, 320, 600, 600, 600]"
  by code_simp

lemma backoff_bounds: "10 \<le> backoff_seconds n \<and> backoff_seconds n \<le> 600"
proof -
  have "(1::nat) \<le> 2 ^ k" for k :: nat by simp
  then show ?thesis by (simp add: backoff_seconds_def BACKOFF_BASE_SEC_def BACKOFF_CAP_SEC_def Let_def)
qed

lemma backoff_mono: "m \<le> n \<Longrightarrow> backoff_seconds m \<le> backoff_seconds n"
proof -
  assume "m \<le> n"
  then have "min (nat (max 1 m) - 1) MAX_DOUBLINGS \<le> min (nat (max 1 n) - 1) MAX_DOUBLINGS" by (simp add: min_def max_def) linarith
  then have "(2::nat) ^ min (nat (max 1 m) - 1) MAX_DOUBLINGS \<le> 2 ^ min (nat (max 1 n) - 1) MAX_DOUBLINGS" by (rule power_increasing) simp
  then show ?thesis unfolding backoff_seconds_def Let_def by (intro min.mono mult_le_mono) simp_all
qed

lemma backoff_doubles: "1 \<le> n \<Longrightarrow> n \<le> 6 \<Longrightarrow> backoff_seconds n = 10 * 2 ^ (nat n - 1)"
proof -
  assume n: "1 \<le> n" "n \<le> 6"
  then have "n \<in> {1, 2, 3, 4, 5, 6}" by auto
  then show ?thesis by (auto simp: backoff_seconds_def BACKOFF_BASE_SEC_def BACKOFF_CAP_SEC_def MAX_DOUBLINGS_def)
qed

subsection \<open>What a client may rely on\<close>

text \<open>
  The contract of a waiting curve, as the outbox and the loops of the agent and the server use it: no wait is shorter than the base or longer
  than the cap, and failures never shorten it. A client that waits this long after each failure makes at most one attempt per base interval.
\<close>

locale backoff_curve =
  fixes wait :: "nat \<Rightarrow> nat"
  assumes base: "BACKOFF_BASE_SEC \<le> wait n"
    and cap: "wait n \<le> BACKOFF_CAP_SEC"
    and mono: "m \<le> n \<Longrightarrow> wait m \<le> wait n"
begin

lemma total_wait: "BACKOFF_BASE_SEC * k \<le> (\<Sum>i<k. wait (Suc i))"
proof (induction k)
  case (Suc k)
  then show ?case using base [of "Suc k"] by simp
qed simp

lemma attempts_bounded: "(\<Sum>i<k. wait (Suc i)) \<le> t \<Longrightarrow> k \<le> t div BACKOFF_BASE_SEC"
  using total_wait [of k] by (simp add: BACKOFF_BASE_SEC_def)

lemma total_wait_cap: "(\<Sum>i<k. wait (Suc i)) \<le> BACKOFF_CAP_SEC * k"
proof (induction k)
  case (Suc k)
  then show ?case using cap [of "Suc k"] by simp
qed simp

end

interpretation loop_backoff: backoff_curve "\<lambda>n. backoff_seconds (int n)"
  by unfold_locales (simp_all add: backoff_bounds backoff_mono BACKOFF_BASE_SEC_def BACKOFF_CAP_SEC_def)

end
