(* ===== verification/Outbox.thy ===== *)
theory Outbox
  imports Json Retry_Policy
begin

text \<open>
  The durable queue of the member agent, \<^verbatim>\<open>agent/community_member/outbox.py\<close>. The table is a list of entries in the order of their sequence
  numbers, with the counter of \<^verbatim>\<open>AUTOINCREMENT\<close>. Times are whole seconds, and one instant stands for the clock of a call. The handler registry
  is a finite map; a handler acts on a world \<open>'w\<close> (the client and what it reaches) and returns, asks for deferral, or raises. A patch is stored
  as the \<open>json\<close> value its text parses back to. Faults of the local database, the schema migration and the file mode are left out.

  Shown: a drain accounts for every entry it pulled and changes nothing else; an entry leaves the queue only when its handler returned or
  when it is purged; the waiting curve is the one of \<open>Retry_Policy\<close>. Deferred entries at the head starve the rest, a purge drops an entry
  that only waited for an approval, and an earlier patch that failed is replayed over a later one.
\<close>

subsection \<open>State\<close>

record outbox_entry =
  entry_seq :: nat
  entry_agent :: string
  entry_patch :: json
  entry_created :: nat
  entry_attempts :: nat
  entry_last_attempt :: "nat option"
  entry_last_error :: "string option"
  entry_next_retry :: nat
  entry_kind :: string

record outbox =
  entries :: "outbox_entry list"
  last_seq :: nat

datatype handler_result = Handled | Deferred | Raised string

type_synonym 'w handler = "string \<Rightarrow> outbox_entry \<Rightarrow> 'w \<Rightarrow> handler_result \<times> 'w"

type_synonym 'w handlers = "(string \<times> 'w handler) list"

definition PURGE_AFTER_DAYS :: nat where "PURGE_AFTER_DAYS = 14"

subsection \<open>Operations\<close>

definition is_dict :: "json \<Rightarrow> bool" where
  "is_dict j = (case j of JObj kvs \<Rightarrow> True | _ \<Rightarrow> False)"

definition enqueue :: "'w handlers \<Rightarrow> string \<Rightarrow> json \<Rightarrow> string \<Rightarrow> nat \<Rightarrow> outbox \<Rightarrow> nat result \<times> outbox" where
  "enqueue H agent patch kind now st =
     (if agent = [] \<or> \<not> is_dict patch then (Inl (ValueError ''enqueue requires agent_id + dict patch''), st)
      else if kind \<notin> fst ` set H then (Inl (ValueError ''unknown outbox kind''), st)
      else (let seq = last_seq st + 1;
                e = \<lparr>entry_seq = seq, entry_agent = agent, entry_patch = sort_keys patch, entry_created = now, entry_attempts = 0, entry_last_attempt = None,
                     entry_last_error = None, entry_next_retry = now, entry_kind = kind\<rparr>
            in (Inr seq, st\<lparr>entries := entries st @ [e], last_seq := seq\<rparr>)))"

definition pending_count :: "string option \<Rightarrow> outbox \<Rightarrow> nat" where
  "pending_count agent st =
     (if truthy_str agent then length (filter (\<lambda>e. Some (entry_agent e) = agent) (entries st)) else length (entries st))"

definition due :: "string \<Rightarrow> nat \<Rightarrow> outbox_entry \<Rightarrow> bool" where
  "due agent now e \<longleftrightarrow> entry_agent e = agent \<and> entry_next_retry e \<le> now"

definition peek :: "string \<Rightarrow> nat \<Rightarrow> nat \<Rightarrow> outbox \<Rightarrow> outbox_entry list" where
  "peek agent limit now st = take limit (filter (due agent now) (entries st))"

definition mark_success :: "nat \<Rightarrow> outbox \<Rightarrow> outbox" where
  "mark_success seq st = st\<lparr>entries := filter (\<lambda>e. entry_seq e \<noteq> seq) (entries st)\<rparr>"

definition entry_backoff :: "nat \<Rightarrow> nat" where
  "entry_backoff attempts = min (10 * 2 ^ min (attempts - 1) 8) 600"

definition failed_entry :: "string \<Rightarrow> nat \<Rightarrow> outbox_entry \<Rightarrow> outbox_entry" where
  "failed_entry error now e =
     (let attempts = entry_attempts e + 1
      in e\<lparr>entry_attempts := attempts, entry_last_attempt := Some now, entry_last_error := Some (take 200 error),
           entry_next_retry := now + entry_backoff attempts\<rparr>)"

definition mark_failure :: "nat \<Rightarrow> string \<Rightarrow> nat \<Rightarrow> outbox \<Rightarrow> outbox" where
  "mark_failure seq error now st = st\<lparr>entries := map (\<lambda>e. if entry_seq e = seq then failed_entry error now e else e) (entries st)\<rparr>"

definition purge_expired :: "nat \<Rightarrow> outbox \<Rightarrow> nat \<times> outbox" where
  "purge_expired now st =
     (let old = (\<lambda>e. int (entry_created e) < int now - int (PURGE_AFTER_DAYS * 86400))
      in (length (filter old (entries st)), st\<lparr>entries := filter (\<lambda>e. \<not> old e) (entries st)\<rparr>))"

definition register_drain_handler :: "string \<Rightarrow> 'w handler \<Rightarrow> 'w handlers \<Rightarrow> 'w handlers" where
  "register_drain_handler kind h H = (kind, h) # filter (\<lambda>kh. fst kh \<noteq> kind) H"

text \<open>One entry of the loop: the handler of its kind (\<^verbatim>\<open>KeyError\<close> when there is none), then the bookkeeping.\<close>

definition dispatch :: "'w handlers \<Rightarrow> string \<Rightarrow> outbox_entry \<Rightarrow> 'w \<Rightarrow> handler_result \<times> 'w" where
  "dispatch H agent e w =
     (case map_of H (if entry_kind e = [] then ''settings_patch'' else entry_kind e) of
        None \<Rightarrow> (Raised ''KeyError'', w)
      | Some h \<Rightarrow> h agent e w)"

definition settle :: "nat \<Rightarrow> outbox_entry \<Rightarrow> handler_result \<Rightarrow> outbox \<Rightarrow> outbox" where
  "settle now e r st = (case r of Handled \<Rightarrow> mark_success (entry_seq e) st | Deferred \<Rightarrow> st | Raised why \<Rightarrow> mark_failure (entry_seq e) why now st)"

fun drain_loop :: "'w handlers \<Rightarrow> string \<Rightarrow> nat \<Rightarrow> outbox_entry list \<Rightarrow> 'w \<Rightarrow> outbox \<Rightarrow> handler_result list \<times> 'w \<times> outbox" where
  "drain_loop H agent now [] w st = ([], w, st)"
| "drain_loop H agent now (e # es) w st =
     (case dispatch H agent e w of
        (r, w1) \<Rightarrow> (case drain_loop H agent now es w1 (settle now e r st) of (rs, w2, st2) \<Rightarrow> (r # rs, w2, st2)))"

record drain_stats =
  attempted :: nat
  succeeded :: nat
  deferred :: nat
  failed :: nat
  remaining :: nat

definition is_raised :: "handler_result \<Rightarrow> bool" where
  "is_raised r = (case r of Raised why \<Rightarrow> True | _ \<Rightarrow> False)"

definition drain :: "'w handlers \<Rightarrow> string \<Rightarrow> nat \<Rightarrow> nat \<Rightarrow> 'w \<Rightarrow> outbox \<Rightarrow> drain_stats \<times> 'w \<times> outbox" where
  "drain H agent max_to_drain now w st =
     (case drain_loop H agent now (peek agent max_to_drain now st) w st of
        (rs, w1, st1) \<Rightarrow>
          (\<lparr>attempted = length rs, succeeded = count_list rs Handled, deferred = count_list rs Deferred, failed = length (filter is_raised rs),
            remaining = pending_count (Some agent) st1\<rparr>, w1, st1))"

text \<open>The handler of settings patches; the client answers a value, \<^verbatim>\<open>None\<close>, or raises.\<close>

definition drain_settings_patch :: "(string \<Rightarrow> json \<Rightarrow> 'w \<Rightarrow> json option result \<times> 'w) \<Rightarrow> 'w handler" where
  "drain_settings_patch update_settings agent e w =
     (case update_settings agent (entry_patch e) w of
        (Inl x, w1) \<Rightarrow> (Raised ''Exception'', w1)
      | (Inr None, w1) \<Rightarrow> (Raised ''RuntimeError: client returned None'', w1)
      | (Inr (Some v), w1) \<Rightarrow> (Handled, w1))"

subsection \<open>The waiting curve\<close>

text \<open>C: The queue waits exactly as long as the retry policy the loops of the agent and the server share: the two definitions of the curve agree on
  every number of attempts.\<close>

theorem one_backoff_curve: "entry_backoff (Suc n) = backoff_seconds (int (Suc n))"
  by (simp add: entry_backoff_def backoff_seconds_def BACKOFF_BASE_SEC_def BACKOFF_CAP_SEC_def MAX_DOUBLINGS_def nat_add_distrib)

lemma entry_backoff_eq: "entry_backoff n = backoff_seconds (int n)"
proof (cases n)
  case 0
  then show ?thesis by (simp add: entry_backoff_def backoff_seconds_def BACKOFF_BASE_SEC_def BACKOFF_CAP_SEC_def)
next
  case (Suc k)
  then show ?thesis by (simp add: entry_backoff_def backoff_seconds_def BACKOFF_BASE_SEC_def BACKOFF_CAP_SEC_def MAX_DOUBLINGS_def nat_add_distrib)
qed

interpretation queue_backoff: backoff_curve entry_backoff
  using loop_backoff.base loop_backoff.cap loop_backoff.mono by unfold_locales (simp_all add: entry_backoff_eq)

subsection \<open>Well-formed queues\<close>

definition outbox_ok :: "outbox \<Rightarrow> bool" where
  "outbox_ok st \<longleftrightarrow> sorted_wrt (\<lambda>a b. entry_seq a < entry_seq b) (entries st) \<and> (\<forall>e \<in> set (entries st). entry_seq e \<le> last_seq st)"

lemma failed_entry_seq [simp]: "entry_seq (failed_entry err now e) = entry_seq e"
  by (simp add: failed_entry_def Let_def)

lemma enqueue_ok: "outbox_ok st \<Longrightarrow> enqueue H agent patch kind now st = (r, st1) \<Longrightarrow> outbox_ok st1"
  by (auto simp: outbox_ok_def enqueue_def Let_def sorted_wrt_append less_Suc_eq_le le_SucI split: if_splits)

lemma mark_success_ok: "outbox_ok st \<Longrightarrow> outbox_ok (mark_success seq st)"
  by (auto simp: outbox_ok_def mark_success_def sorted_wrt_filter)

lemma mark_failure_ok: "outbox_ok st \<Longrightarrow> outbox_ok (mark_failure seq err now st)"
  by (auto simp: outbox_ok_def mark_failure_def sorted_wrt_map elim!: sorted_wrt_mono_rel [rotated])

lemma purge_ok: "outbox_ok st \<Longrightarrow> outbox_ok (snd (purge_expired now st))"
  by (auto simp: outbox_ok_def purge_expired_def Let_def sorted_wrt_filter)

lemma settle_ok: "outbox_ok st \<Longrightarrow> outbox_ok (settle now e r st)"
  by (cases r) (simp_all add: settle_def mark_success_ok mark_failure_ok)

lemma drain_loop_ok: "outbox_ok st \<Longrightarrow> drain_loop H agent now es w st = (rs, w1, st1) \<Longrightarrow> outbox_ok st1"
proof (induction es arbitrary: w st rs)
  case (Cons e es)
  then show ?case using settle_ok by (fastforce split: prod.splits)
qed simp

lemma outbox_distinct: "outbox_ok st \<Longrightarrow> distinct (map entry_seq (entries st))"
proof -
  have "sorted_wrt (\<lambda>a b. entry_seq a < entry_seq b) xs \<Longrightarrow> distinct (map entry_seq xs)" for xs :: "outbox_entry list" by (induction xs) auto
  from this [of "entries st"] show "outbox_ok st \<Longrightarrow> distinct (map entry_seq (entries st))" by (simp add: outbox_ok_def)
qed

subsection \<open>What a drain does\<close>

definition settled :: "nat \<Rightarrow> (nat \<rightharpoonup> handler_result) \<Rightarrow> outbox_entry \<Rightarrow> outbox_entry option" where
  "settled now out e = (case out (entry_seq e) of
     None \<Rightarrow> Some e | Some Handled \<Rightarrow> None | Some Deferred \<Rightarrow> Some e | Some (Raised why) \<Rightarrow> Some (failed_entry why now e))"

lemma map_filter_Some [simp]: "List.map_filter (\<lambda>x. Some (f x)) xs = map f xs"
  by (induction xs) simp_all

lemma map_filter_same: "(\<And>x. x \<in> set xs \<Longrightarrow> f x = Some x) \<Longrightarrow> List.map_filter f xs = xs"
  by (induction xs) simp_all

lemma map_filter_guard: "List.map_filter (\<lambda>x. if P x then Some x else None) xs = filter P xs"
  by (induction xs) simp_all

lemma map_filter_compose: "List.map_filter f (List.map_filter g xs) = List.map_filter (\<lambda>x. Option.bind (g x) f) xs"
  by (induction xs) (auto split: option.splits)

lemma settle_entries: "entries (settle now e r st) = List.map_filter (settled now [entry_seq e \<mapsto> r]) (entries st)"
proof (cases r)
  case Handled
  then have "settled now [entry_seq e \<mapsto> r] = (\<lambda>x. if entry_seq x \<noteq> entry_seq e then Some x else None)" by (auto simp: settled_def)
  with Handled show ?thesis by (simp add: settle_def mark_success_def map_filter_guard)
next
  case Deferred
  then have "settled now [entry_seq e \<mapsto> r] x = Some x" for x by (simp add: settled_def)
  then show ?thesis using Deferred by (simp add: settle_def map_filter_same)
next
  case (Raised why)
  then have "settled now [entry_seq e \<mapsto> r] = (\<lambda>x. Some (if entry_seq x = entry_seq e then failed_entry why now x else x))" by (auto simp: settled_def)
  with Raised show ?thesis by (simp add: settle_def mark_failure_def)
qed

lemma settled_bind:
  assumes "seq \<notin> dom out"
  shows "Option.bind (settled now [seq \<mapsto> r] x) (settled now out) = settled now (out(seq \<mapsto> r)) x"
  using assms by (cases "entry_seq x = seq"; cases r) (auto simp: settled_def domIff split: option.splits)

lemma drain_loop_length: "drain_loop H agent now es w st = (rs, w1, st1) \<Longrightarrow> length rs = length es"
  by (induction es arbitrary: w st rs) (auto split: prod.splits)

lemma drain_loop_entries:
  assumes "distinct (map entry_seq es)" "drain_loop H agent now es w st = (rs, w1, st1)"
  shows "entries st1 = List.map_filter (settled now (map_of (zip (map entry_seq es) rs))) (entries st)"
  using assms
proof (induction es arbitrary: w st rs)
  case Nil
  then show ?case by (simp add: settled_def map_filter_same)
next
  case (Cons e es)
  obtain r v where d: "dispatch H agent e w = (r, v)" by fastforce
  with Cons.prems(2) obtain rs' where l: "drain_loop H agent now es v (settle now e r st) = (rs', w1, st1)" "rs = r # rs'" by (auto split: prod.splits)
  have len: "length rs' = length es" by (rule drain_loop_length [OF l(1)])
  have "entry_seq e \<notin> dom (map_of (zip (map entry_seq es) rs'))" using Cons.prems(1) len by (auto simp: dom_map_of_zip)
  then have "(\<lambda>x. Option.bind (settled now [entry_seq e \<mapsto> r] x) (settled now (map_of (zip (map entry_seq es) rs'))))
      = settled now (map_of (zip (map entry_seq (e # es)) rs))"
    by (intro ext) (simp add: settled_bind l(2))
  then show ?case using Cons.IH [OF _ l(1)] Cons.prems(1) by (simp add: settle_entries map_filter_compose)
qed

lemma peek_distinct: "outbox_ok st \<Longrightarrow> distinct (map entry_seq (peek agent limit now st))"
  using outbox_distinct [of st] by (auto simp: peek_def take_map [symmetric] distinct_map_filter)

lemma results_partition: "length rs = count_list rs Handled + count_list rs Deferred + length (filter is_raised rs)"
proof (induction rs)
  case (Cons r rs)
  then show ?case by (cases r) (simp_all add: is_raised_def)
qed simp

text \<open>C20: C: A drain accounts for every entry it pulled and touches no other: an entry whose handler returned is gone, a deferred one stands as it was,
  a failed one has one more attempt and a later retry, everything else is untouched, in the same order; the figures add up.\<close>

theorem drain_settles_each_entry:
  assumes "outbox_ok st" "drain_loop H agent now (peek agent limit now st) w st = (rs, w1, st1)" "drain H agent limit now w st = (stats, w2, st2)"
  shows "st2 = st1 \<and> w2 = w1 \<and> length rs = length (peek agent limit now st)
    \<and> entries st2 = List.map_filter (settled now (map_of (zip (map entry_seq (peek agent limit now st)) rs))) (entries st)
    \<and> attempted stats = succeeded stats + deferred stats + failed stats \<and> attempted stats = length (peek agent limit now st)
    \<and> remaining stats = pending_count (Some agent) st2"
  using assms drain_loop_length [OF assms(2)] drain_loop_entries [OF peek_distinct [OF assms(1)] assms(2)] results_partition [of rs]
  by (auto simp: drain_def)

subsection \<open>What a drain does not promise\<close>

lemma settled_deferred: "set rs \<subseteq> {Deferred} \<Longrightarrow> settled now (map_of (zip ks rs)) e = Some e"
  by (auto simp: settled_def split: option.splits handler_result.splits dest!: map_of_SomeD set_zip_rightD)

text \<open>C: Deferred entries at the head of the queue starve the rest: when the entries a drain pulls all defer, nothing in the queue changes, so
  the next drain pulls the same entries and an entry behind them is never tried.\<close>

theorem deferred_head_starves:
  assumes "outbox_ok st" "drain_loop H agent now (peek agent limit now st) w st = (rs, w1, st1)" "set rs \<subseteq> {Deferred}"
  shows "entries st1 = entries st \<and> peek agent limit now st1 = peek agent limit now st"
proof -
  have "entries st1 = entries st"
    unfolding drain_loop_entries [OF peek_distinct [OF assms(1)] assms(2)] by (rule map_filter_same) (rule settled_deferred [OF assms(3)])
  then show ?thesis by (simp add: peek_def)
qed

text \<open>A purge drops an entry by age alone, whatever its state.\<close>

lemma purge_drops_waiting:
  assumes "e \<in> set (entries st)" "entry_created e + 14 * 86400 < now"
  shows "e \<notin> set (entries (snd (purge_expired now st)))"
  using assms by (simp add: purge_expired_def PURGE_AFTER_DAYS_def Let_def)

definition demo_wait :: "unit handlers" where "demo_wait = [(''external_send'', \<lambda>agent e w. (Deferred, w))]"

definition demo_box :: outbox where
  "demo_box = snd (enqueue demo_wait ''bot'' (JObj [(''to'', JStr ''b'')]) ''external_send'' 6 (snd (enqueue demo_wait ''bot'' (JObj [(''to'', JStr ''a'')]) ''external_send'' 5 \<lparr>entries = [], last_seq = 0\<rparr>)))"

lemma demo_box_ok: "outbox_ok demo_box"
  unfolding demo_box_def by (intro enqueue_ok [OF enqueue_ok [OF _ surjective_pairing] surjective_pairing]) (simp add: outbox_ok_def)

lemma demo_box_peek: "length (peek ''bot'' 1 9 demo_box) = 1" "length (entries demo_box) = 2"
  by code_simp+

lemma demo_box_drain: "fst (drain_loop demo_wait ''bot'' 9 (peek ''bot'' 1 9 demo_box) () demo_box) = [Deferred]"
  by code_simp

theorem deferred_head_starves_witness:
  "entries (snd (snd (drain_loop demo_wait ''bot'' 9 (peek ''bot'' 1 9 demo_box) () demo_box))) = entries demo_box
   \<and> length (peek ''bot'' 1 9 demo_box) < length (entries demo_box)"
proof -
  obtain rs w st where d: "drain_loop demo_wait ''bot'' 9 (peek ''bot'' 1 9 demo_box) () demo_box = (rs, w, st)" by (metis prod_cases3)
  with demo_box_drain have "set rs \<subseteq> {Deferred}" by simp
  from deferred_head_starves [OF demo_box_ok d this] d demo_box_peek show ?thesis by simp
qed

theorem drain_settles_each_entry_witness:
  "attempted (fst (drain demo_wait ''bot'' 1 9 () demo_box)) = 1 \<and> attempted (fst (drain demo_wait ''bot'' 1 9 () demo_box))
     = succeeded (fst (drain demo_wait ''bot'' 1 9 () demo_box)) + deferred (fst (drain demo_wait ''bot'' 1 9 () demo_box)) + failed (fst (drain demo_wait ''bot'' 1 9 () demo_box))"
proof -
  obtain rs w st where d: "drain_loop demo_wait ''bot'' 9 (peek ''bot'' 1 9 demo_box) () demo_box = (rs, w, st)" by (metis prod_cases3)
  obtain stats v st2 where e: "drain demo_wait ''bot'' 1 9 () demo_box = (stats, v, st2)" by (metis prod_cases3)
  from drain_settles_each_entry [OF demo_box_ok d e] e demo_box_peek show ?thesis by simp
qed

text \<open>A client whose first request is lost: the world is what is still to fail and what the chapter received.\<close>

definition flaky_update :: "string \<Rightarrow> json \<Rightarrow> bool list \<times> json list \<Rightarrow> json option result \<times> (bool list \<times> json list)" where
  "flaky_update agent patch w =
     (case fst w of
        True # fs \<Rightarrow> (Inl (RuntimeError ''offline''), (fs, snd w))
      | _ \<Rightarrow> (Inr (Some (JObj [])), (tl (fst w), snd w @ [patch])))"

text \<open>C: The last writer does not win: of two queued patches, the earlier fails once, the later is delivered, and the next drain delivers the
  earlier over it.\<close>

theorem failed_patch_replayed_last:
  assumes "H = [(''settings_patch'', drain_settings_patch flaky_update)]" "agent \<noteq> []" "is_dict p1" "is_dict p2"
    "enqueue H agent p1 ''settings_patch'' t \<lparr>entries = [], last_seq = 0\<rparr> = (r1, st1)" "enqueue H agent p2 ''settings_patch'' t st1 = (r2, st2)"
    "drain H agent 100 t ([True], []) st2 = (s3, w3, st3)" "drain H agent 100 (t + 10) w3 st3 = (s4, w4, st4)"
  shows "snd w4 = [sort_keys p2, sort_keys p1] \<and> entries st4 = []"
  using assms(5-8) unfolding assms(1)
  by (auto simp: assms(2-4) enqueue_def Let_def drain_def peek_def due_def dispatch_def drain_settings_patch_def flaky_update_def settle_def
      mark_success_def mark_failure_def failed_entry_def entry_backoff_def split: prod.splits)

theorem failed_patch_replayed_last_witness:
  "\<exists>w st. snd w = [JObj [(''llm'', JInt 2)], JObj [(''llm'', JInt 1)]] \<and> entries st = []
    \<and> (\<exists>H s2 w2 s. drain H ''bot'' 100 17 w2 s2 = (s, w, st) \<and> H = [(''settings_patch'', drain_settings_patch flaky_update)])"
proof -
  define H where "H = [(''settings_patch'', drain_settings_patch flaky_update)]"
  obtain r1 st1 where e1: "enqueue H ''bot'' (JObj [(''llm'', JInt 1)]) ''settings_patch'' 7 \<lparr>entries = [], last_seq = 0\<rparr> = (r1, st1)" by fastforce
  obtain r2 st2 where e2: "enqueue H ''bot'' (JObj [(''llm'', JInt 2)]) ''settings_patch'' 7 st1 = (r2, st2)" by fastforce
  obtain s3 w3 st3 where d3: "drain H ''bot'' 100 7 ([True], []) st2 = (s3, w3, st3)" by (metis prod_cases3)
  obtain s4 w4 st4 where d4: "drain H ''bot'' 100 (7 + 10) w3 st3 = (s4, w4, st4)" by (metis prod_cases3)
  have "snd w4 = [JObj [(''llm'', JInt 2)], JObj [(''llm'', JInt 1)]] \<and> entries st4 = []"
    using failed_patch_replayed_last [OF H_def _ _ _ e1 e2 d3 d4] by (simp add: is_dict_def)
  then show ?thesis using d4 H_def
    by (intro exI [of _ w4] exI [of _ st4] conjI exI [of _ H] exI [of _ st3] exI [of _ w3] exI [of _ s4]) simp_all
qed

end
