(* ===== verification/Datetime.thy ===== *)
theory Datetime
  imports Py_Str
begin

text \<open>
  UTC instants and their ISO 8601 text. An instant is the number of microseconds since
  0001-01-01T00:00:00 UTC, the origin and resolution of Python's \<^verbatim>\<open>datetime\<close>.
  \<open>isoformat\<close> is \<^verbatim>\<open>datetime.isoformat\<close> of an aware UTC value (the microseconds are left out when they
  are zero); \<open>fromisoformat\<close> reads that format back and refuses anything else, out-of-range
  fields included. The code only ever parses text written by \<open>isoformat\<close>, so the other
  spellings the library accepts are not modelled. Shown: the round trip.
\<close>

type_synonym instant = nat

definition usec_per_day :: nat where "usec_per_day = 86400 * 1000000"
definition minutes_us :: "nat \<Rightarrow> nat" where "minutes_us n = n * 60 * 1000000"
definition hours_us :: "nat \<Rightarrow> nat" where "hours_us n = n * 3600 * 1000000"

definition leap :: "nat \<Rightarrow> bool" where
  "leap y \<longleftrightarrow> y mod 4 = 0 \<and> (y mod 100 \<noteq> 0 \<or> y mod 400 = 0)"

text \<open>Days in the \<open>z\<close> years from year one.\<close>

definition days_of_years :: "nat \<Rightarrow> nat" where
  "days_of_years z = 365 * z + z div 4 - z div 100 + z div 400"

definition days_before_month :: "bool \<Rightarrow> nat \<Rightarrow> nat" where
  "days_before_month lp k =
     (let d = [0, 31, 59, 90, 120, 151, 181, 212, 243, 273, 304, 334, 365] ! k
      in if lp \<and> 2 \<le> k then d + 1 else d)"

text \<open>\<^verbatim>\<open>datetime.max\<close> is the last microsecond of year 9999.\<close>

definition max_instant :: instant where
  "max_instant = days_of_years 9999 * usec_per_day"

definition year_index :: "nat \<Rightarrow> nat" where
  "year_index n = (case find (\<lambda>z. n < days_of_years (z + 1)) [n div 366 ..< n div 365 + 1] of
                     Some z \<Rightarrow> z | None \<Rightarrow> n div 365)"

definition month_index :: "bool \<Rightarrow> nat \<Rightarrow> nat" where
  "month_index lp d = (case find (\<lambda>k. d < days_before_month lp (k + 1)) [0..<12] of
                         Some k \<Rightarrow> k | None \<Rightarrow> 11)"

definition date_text :: "nat \<Rightarrow> string" where
  "date_text n =
     (let z = year_index n; lp = leap (z + 1); d = n - days_of_years z; k = month_index lp d
      in pad_nat 4 (z + 1) @ ''-'' @ pad_nat 2 (k + 1) @ ''-'' @ pad_nat 2 (d - days_before_month lp k + 1))"

definition time_text :: "nat \<Rightarrow> string" where
  "time_text u =
     (let s = u div 1000000; us = u mod 1000000
      in pad_nat 2 (s div 3600) @ '':'' @ pad_nat 2 (s div 60 mod 60) @ '':'' @ pad_nat 2 (s mod 60)
         @ (if us = 0 then [] else ''.'' @ pad_nat 6 us))"

definition isoformat :: "instant \<Rightarrow> string" where
  "isoformat t = date_text (t div usec_per_day) @ ''T'' @ time_text (t mod usec_per_day) @ ''+00:00''"

text \<open>Numeral fields of a fixed width.\<close>

definition num_field :: "nat \<Rightarrow> nat \<Rightarrow> string \<Rightarrow> nat option" where
  "num_field i w s = (let f = take w (drop i s) in if length f = w \<and> list_all is_digit f then Some (nat_val f) else None)"

definition lit_field :: "nat \<Rightarrow> string \<Rightarrow> string \<Rightarrow> bool" where
  "lit_field i l s \<longleftrightarrow> take (length l) (drop i s) = l"

definition parse_date :: "string \<Rightarrow> nat option" where
  "parse_date s =
     (case (num_field 0 4 s, num_field 5 2 s, num_field 8 2 s) of
        (Some y, Some m, Some d) \<Rightarrow>
          (let lp = leap y in
           if length s = 10 \<and> lit_field 4 ''-'' s \<and> lit_field 7 ''-'' s \<and> 1 \<le> y \<and> 1 \<le> m \<and> m \<le> 12 \<and> 1 \<le> d
              \<and> days_before_month lp (m - 1) + d \<le> days_before_month lp m
           then Some (days_of_years (y - 1) + days_before_month lp (m - 1) + (d - 1)) else None)
      | _ \<Rightarrow> None)"

definition parse_time :: "string \<Rightarrow> nat option" where
  "parse_time s =
     (case (num_field 0 2 s, num_field 3 2 s, num_field 6 2 s,
            if length s = 8 then Some 0 else if length s = 15 \<and> lit_field 8 ''.'' s then num_field 9 6 s else None) of
        (Some h, Some mi, Some se, Some us) \<Rightarrow>
          (if lit_field 2 '':'' s \<and> lit_field 5 '':'' s \<and> h < 24 \<and> mi < 60 \<and> se < 60
           then Some ((h * 3600 + mi * 60 + se) * 1000000 + us) else None)
      | _ \<Rightarrow> None)"

definition fromisoformat :: "string \<Rightarrow> instant option" where
  "fromisoformat s =
     (if endswith s ''+00:00'' \<and> lit_field 10 ''T'' s
      then (case (parse_date (take 10 s), parse_time (take (length s - 17) (drop 11 s))) of
              (Some n, Some u) \<Rightarrow> Some (n * usec_per_day + u)
            | _ \<Rightarrow> None)
      else None)"

lemma days_of_years_Suc: "days_of_years (Suc z) = days_of_years z + 365 + (if leap (Suc z) then 1 else 0)"
proof -
  define a b c where "a = z div 4" and "b = z div 100" and "c = z div 400"
  define p q r where "p \<longleftrightarrow> Suc z mod 4 = 0" and "q \<longleftrightarrow> Suc z mod 100 = 0" and "r \<longleftrightarrow> Suc z mod 400 = 0"
  have "(4::nat) dvd 100" "(100::nat) dvd 400" by simp_all
  then have qp: "q \<Longrightarrow> p" and rq: "r \<Longrightarrow> q"
    unfolding p_def q_def r_def mod_eq_0_iff_dvd by (blast intro: dvd_trans)+
  have le: "b \<le> a" by (simp add: a_def b_def div_le_mono2)
  have "Suc z div 4 = (if p then Suc a else a)" "Suc z div 100 = (if q then Suc b else b)"
    "Suc z div 400 = (if r then Suc c else c)"
    by (simp_all add: a_def b_def c_def p_def q_def r_def div_Suc)
  then have "days_of_years (Suc z) = 365 * Suc z + (if p then Suc a else a) - (if q then Suc b else b) + (if r then Suc c else c)"
    by (simp only: days_of_years_def)
  moreover have "days_of_years z = 365 * z + a - b + c" by (simp only: days_of_years_def a_def b_def c_def)
  moreover have "leap (Suc z) \<longleftrightarrow> p \<and> (\<not> q \<or> r)" by (simp only: leap_def p_def q_def r_def)
  ultimately show ?thesis using qp rq le by (cases p; cases q; cases r) simp_all
qed

lemma days_of_years_bounds: "365 * z \<le> days_of_years z" "days_of_years z \<le> 366 * z"
  by (induction z) (auto simp: days_of_years_Suc, simp_all add: days_of_years_def)

lemma year_index_spec: "days_of_years (year_index n) \<le> n \<and> n < days_of_years (Suc (year_index n))"
proof -
  have none: "n < days_of_years (n div 365 + 1)"
    using days_of_years_bounds(1) [of "n div 365 + 1"] by (simp add: algebra_simps)
  have lo: "days_of_years (n div 366) \<le> n"
    using days_of_years_bounds(2) [of "n div 366"] by linarith
  have le: "n div 366 \<le> n div 365" by (simp add: div_le_mono2)
  obtain z where f: "find (\<lambda>z. n < days_of_years (z + 1)) [n div 366 ..< n div 365 + 1] = Some z"
    using none le by (cases "find (\<lambda>z. n < days_of_years (z + 1)) [n div 366 ..< n div 365 + 1]")
      (auto simp: find_None_iff)
  then obtain i where i: "n div 366 + i = z" "n < days_of_years (z + 1)"
    "\<And>j. j < i \<Longrightarrow> \<not> n < days_of_years (n div 366 + j + 1)" "z < n div 365 + 1"
    unfolding find_Some_iff by (auto simp del: upt_Suc)
  have "days_of_years z \<le> n"
  proof (cases i)
    case 0
    with lo i(1) show ?thesis by simp
  next
    case (Suc j)
    with i(1) i(3) [of j] show ?thesis by (auto simp: not_less)
  qed
  moreover have "year_index n = z" unfolding year_index_def f by simp
  ultimately show ?thesis using i(2) by simp
qed

lemma month_index_spec:
  assumes "d < 365 + (if lp then 1 else 0)"
  shows "month_index lp d < 12 \<and> days_before_month lp (month_index lp d) \<le> d
         \<and> d < days_before_month lp (month_index lp d + 1)"
proof -
  have "d < days_before_month lp (11 + 1)" using assms by (auto simp: days_before_month_def split: if_splits)
  then obtain k where f: "find (\<lambda>k. d < days_before_month lp (k + 1)) [0..<12] = Some k"
    by (cases "find (\<lambda>k. d < days_before_month lp (k + 1)) [0..<12]") (auto simp: find_None_iff simp del: upt_rec_numeral dest: spec [of _ 11])
  then have k: "k < 12" "d < days_before_month lp (k + 1)"
    "\<And>j. j < k \<Longrightarrow> \<not> d < days_before_month lp (j + 1)"
    unfolding find_Some_iff by (auto simp del: upt_rec_numeral)
  have "days_before_month lp k \<le> d"
  proof (cases k)
    case 0
    then show ?thesis by (simp add: days_before_month_def)
  next
    case (Suc j)
    with k(3) [of j] show ?thesis by (auto simp: not_less)
  qed
  moreover have "month_index lp d = k" unfolding month_index_def f by simp
  ultimately show ?thesis using k by simp
qed

lemma month_length: "k < 12 \<Longrightarrow> days_before_month lp (k + 1) \<le> days_before_month lp k + 31"
  by (auto simp: days_before_month_def less_Suc_eq numeral_eq_Suc)

lemma num_field_pad:
  "i = length a \<Longrightarrow> n < 10 ^ w \<Longrightarrow> num_field i w (a @ pad_nat w n @ b) = Some n"
  by (simp add: num_field_def nat_val_pad_nat)

lemma parse_date_fields:
  assumes "1 \<le> y" "y < 10000" "1 \<le> m" "m \<le> 12" "1 \<le> d"
    and "days_before_month (leap y) (m - 1) + d \<le> days_before_month (leap y) m"
  shows "parse_date (pad_nat 4 y @ ''-'' @ pad_nat 2 m @ ''-'' @ pad_nat 2 d)
         = Some (days_of_years (y - 1) + days_before_month (leap y) (m - 1) + (d - 1))"
proof -
  let ?s = "pad_nat 4 y @ ''-'' @ pad_nat 2 m @ ''-'' @ pad_nat 2 d"
  have m: "m - 1 < 12" "m - 1 + 1 = m" using assms by linarith+
  have "d \<le> 31" using assms(6) month_length [OF m(1), of "leap y"] unfolding m(2) by linarith
  then have "num_field 0 4 ?s = Some y" "num_field 5 2 ?s = Some m" "num_field 8 2 ?s = Some d"
    using num_field_pad [of 0 "[]" y 4 "''-'' @ pad_nat 2 m @ ''-'' @ pad_nat 2 d"]
      num_field_pad [of 5 "pad_nat 4 y @ ''-''" m 2 "''-'' @ pad_nat 2 d"]
      num_field_pad [of 8 "pad_nat 4 y @ ''-'' @ pad_nat 2 m @ ''-''" d 2 "[]"] assms
    by simp_all
  moreover have "lit_field 4 ''-'' ?s" "lit_field 7 ''-'' ?s" by (simp_all add: lit_field_def)
  ultimately show ?thesis using assms by (simp add: parse_date_def Let_def)
qed

lemma days_of_years_mono: "y \<le> z \<Longrightarrow> days_of_years y \<le> days_of_years z"
  by (rule lift_Suc_mono_le [of days_of_years]) (simp add: days_of_years_Suc)

lemma parse_date_text:
  assumes "n < days_of_years 9999"
  shows "parse_date (date_text n) = Some n \<and> length (date_text n) = 10"
proof -
  define z where "z = year_index n"
  define lp where "lp = leap (z + 1)"
  define d where "d = n - days_of_years z"
  define k where "k = month_index lp d"
  have z: "days_of_years z \<le> n" "n < days_of_years (Suc z)" using year_index_spec by (simp_all add: z_def)
  then have "d < 365 + (if lp then 1 else 0)" unfolding d_def lp_def by (auto simp: days_of_years_Suc)
  from month_index_spec [OF this] have k: "k < 12" "days_before_month lp k \<le> d" "d < days_before_month lp (k + 1)"
    by (auto simp: k_def)
  have "z < 9999"
  proof (rule ccontr)
    assume "\<not> z < 9999"
    then have "days_of_years 9999 \<le> days_of_years z" by (intro days_of_years_mono) simp
    with z(1) assms show False by simp
  qed
  then have "parse_date (pad_nat 4 (z + 1) @ ''-'' @ pad_nat 2 (k + 1) @ ''-'' @ pad_nat 2 (d - days_before_month lp k + 1))
      = Some (days_of_years (z + 1 - 1) + days_before_month (leap (z + 1)) (k + 1 - 1) + (d - days_before_month lp k + 1 - 1))"
    by (intro parse_date_fields) (use k in \<open>auto simp: lp_def\<close>)
  moreover have "date_text n = pad_nat 4 (z + 1) @ ''-'' @ pad_nat 2 (k + 1) @ ''-'' @ pad_nat 2 (d - days_before_month lp k + 1)"
    by (simp add: date_text_def Let_def z_def lp_def d_def k_def)
  moreover have "days_of_years z + days_before_month lp k + (d - days_before_month lp k) = n"
    using k(2) z(1) unfolding d_def by simp
  ultimately show ?thesis by (simp add: lp_def)
qed

lemma parse_time_text:
  assumes "u < usec_per_day"
  shows "parse_time (time_text u) = Some u"
proof -
  define s where "s = u div 1000000"
  define us where "us = u mod 1000000"
  have u: "u = s * 1000000 + us" "us < 1000000" by (simp_all add: s_def us_def)
  then have "s < 86400" using assms by (simp add: usec_per_day_def)
  then have h: "s div 3600 < 24" by (simp add: less_mult_imp_div_less)
  let ?f = "if us = 0 then [] else ''.'' @ pad_nat 6 us"
  let ?s = "pad_nat 2 (s div 3600) @ '':'' @ pad_nat 2 (s div 60 mod 60) @ '':'' @ pad_nat 2 (s mod 60) @ ?f"
  have t: "time_text u = ?s" by (simp add: time_text_def Let_def s_def us_def)
  have "num_field 0 2 ?s = Some (s div 3600)" "num_field 3 2 ?s = Some (s div 60 mod 60)" "num_field 6 2 ?s = Some (s mod 60)"
    using num_field_pad [of 0 "[]" "s div 3600" 2 "'':'' @ pad_nat 2 (s div 60 mod 60) @ '':'' @ pad_nat 2 (s mod 60) @ ?f"]
      num_field_pad [of 3 "pad_nat 2 (s div 3600) @ '':''" "s div 60 mod 60" 2 "'':'' @ pad_nat 2 (s mod 60) @ ?f"]
      num_field_pad [of 6 "pad_nat 2 (s div 3600) @ '':'' @ pad_nat 2 (s div 60 mod 60) @ '':''" "s mod 60" 2 ?f]
      h less_trans [OF mod_less_divisor [of 60 s], of 100] less_trans [OF mod_less_divisor [of 60 "s div 60"], of 100]
    by simp_all
  moreover have "(if length ?s = 8 then Some 0 else if length ?s = 15 \<and> lit_field 8 ''.'' ?s then num_field 9 6 ?s else None) = Some us"
    using num_field_pad [of 9 "pad_nat 2 (s div 3600) @ '':'' @ pad_nat 2 (s div 60 mod 60) @ '':'' @ pad_nat 2 (s mod 60) @ ''.''" us 6 "[]"] u(2)
    by (simp add: lit_field_def)
  moreover have "lit_field 2 '':'' ?s" "lit_field 5 '':'' ?s" by (simp_all add: lit_field_def)
  moreover have "s div 3600 * 3600 + s div 60 mod 60 * 60 + s mod 60 = s"
  proof -
    have "s div 3600 = s div 60 div 60" by (simp add: div_mult2_eq [symmetric])
    then have "s div 3600 * 60 + s div 60 mod 60 = s div 60" by (simp only: div_mult_mod_eq)
    then have "s div 3600 * 3600 + s div 60 mod 60 * 60 = s div 60 * 60" by simp
    then show ?thesis by (simp only: div_mult_mod_eq)
  qed
  ultimately show ?thesis using h u unfolding t parse_time_def by (simp add: algebra_simps)
qed

lemma isoformat_roundtrip: "t < max_instant \<Longrightarrow> fromisoformat (isoformat t) = Some t"
proof -
  assume "t < max_instant"
  then have d: "t div usec_per_day < days_of_years 9999" by (simp add: max_instant_def less_mult_imp_div_less)
  let ?d = "date_text (t div usec_per_day)" and ?u = "time_text (t mod usec_per_day)"
  have len: "length ?d = 10" using parse_date_text [OF d] by simp
  have "t mod usec_per_day < usec_per_day" by (simp add: usec_per_day_def)
  from parse_time_text [OF this] parse_date_text [OF d] len
  show ?thesis by (simp add: fromisoformat_def isoformat_def endswith_iff lit_field_def)
qed

end
