(* ===== verification/Pg_Request.thy ===== *)
theory Pg_Request
  imports Datetime
begin

text \<open>
  The database seen through \<^verbatim>\<open>pg_request\<close> (\<^verbatim>\<open>server/pg_store.py\<close>), shared by the server components that keep their state in Postgres: a
  request succeeds, returns \<^verbatim>\<open>None\<close> (what \<^verbatim>\<open>pg_request\<close> makes of every failure of a configured database) or raises. The outcomes of the
  requests of a run are a list consumed in order; past its end every request succeeds. \<open>no_faults\<close> is the run in which all succeed.
\<close>

datatype request_outcome = Req_Ok | Req_None | Req_Raise

type_synonym outcomes = "request_outcome list"

abbreviation no_faults :: outcomes where "no_faults \<equiv> []"

definition first_outcome :: "outcomes \<Rightarrow> request_outcome" where
  "first_outcome os = (case os of [] \<Rightarrow> Req_Ok | r # _ \<Rightarrow> r)"

lemma first_outcome_simps [simp]: "first_outcome [] = Req_Ok" "first_outcome (r # os) = r"
  by (simp_all add: first_outcome_def)

text \<open>\<^verbatim>\<open>ORDER BY key ASC\<close> and \<^verbatim>\<open>LIMIT 1\<close>: among equal keys the earlier row of the table comes first.\<close>

definition oldest_by :: "('r \<Rightarrow> 'k::linorder) \<Rightarrow> ('r \<Rightarrow> bool) \<Rightarrow> 'r list \<Rightarrow> 'r option" where
  "oldest_by key P rows = (case sort_key key (filter P rows) of [] \<Rightarrow> None | r # _ \<Rightarrow> Some r)"

lemma oldest_by_SomeD: "oldest_by key P rows = Some r \<Longrightarrow> r \<in> set rows \<and> P r \<and> (\<forall>x \<in> set rows. P x \<longrightarrow> key r \<le> key x)"
proof -
  assume a: "oldest_by key P rows = Some r"
  then obtain rest where s: "sort_key key (filter P rows) = r # rest"
    by (auto simp: oldest_by_def split: list.splits)
  then have m: "set (r # rest) = {x \<in> set rows. P x}" by (metis set_filter set_sort)
  have "sorted (map key (r # rest))" by (metis s sorted_sort_key)
  with m show ?thesis by auto
qed

lemma oldest_by_None [simp]: "oldest_by key P rows = None \<longleftrightarrow> (\<forall>x \<in> set rows. \<not> P x)"
proof -
  have "sort_key key (filter P rows) = [] \<longleftrightarrow> filter P rows = []" by (metis set_empty set_sort)
  then show ?thesis by (auto simp: oldest_by_def filter_empty_conv split: list.splits)
qed

end
