(* ===== verification/Bounded_Grants.thy ===== *)
theory Bounded_Grants
  imports Json Pg_Request
begin

text \<open>
  Bounded operational grants (\<^verbatim>\<open>server/bounded_grants.py\<close>) with the Postgres function that spends them
  (\<^verbatim>\<open>infra/migrations/0004_bounded_operational_grants.sql\<close>). A grant row and a consumption row are records, the two tables are lists, and the
  requests of the module take their outcomes from \<open>store_requests\<close>. The uuid of a new grant is an argument of \<open>issue\<close>. The loosely typed
  arguments of \<open>issue\<close> are a \<open>grant_arg\<close>. The function of the database is split at its statements, so that transactions can interleave:
  \<open>select_grant\<close> and \<open>already_charged\<close> are its two reads, \<open>finish_consumption\<close> is the rest (the conditional update locks its row until
  the transaction ends). The audit columns \<^verbatim>\<open>id\<close>, \<^verbatim>\<open>created_at\<close> and \<^verbatim>\<open>consumed_at\<close> are the order of the rows.

  Shown: under every interleaving a grant is charged once per distinct action and never past its cap; what is authorised was covered by a
  grant that is live; the scopes of the database and of \<open>matches\<close> agree on scopes without pattern characters. A retry is not free once the
  last unit is spent, and an underscore in a scope matches any character.
\<close>

subsection \<open>State\<close>

record grant_row =
  grant_id :: string
  grant_chapter :: string
  grant_kind :: string
  grant_scope :: string
  grant_cap :: int
  grant_consumed :: int
  grant_expires :: instant
  grant_revoked :: "instant option"
  grant_creator :: string

record consumption_row =
  used_grant :: string
  used_chapter :: string
  used_kind :: string
  used_key :: string
  used_actor :: string
  used_charged :: bool
  used_remaining :: int

record grants_store =
  store_ready :: bool
  store_chapter :: string
  grants :: "grant_row list"
  consumed_rows :: "consumption_row list"
  store_requests :: outcomes

definition store_after :: "grants_store \<Rightarrow> grants_store" where
  "store_after st = st\<lparr>store_requests := tl (store_requests st)\<rparr>"

abbreviation store_outcome :: "grants_store \<Rightarrow> request_outcome" where
  "store_outcome st \<equiv> first_outcome (store_requests st)"

definition OPERATIONAL_KINDS :: "string list" where
  "OPERATIONAL_KINDS = [''send_external'', ''record_write'', ''external_fetch'']"

subsection \<open>Scopes\<close>

datatype grant_refused =
    Not_Operational string
  | Scope_Required
  | Scope_Matches_All
  | Scope_Invalid string
  | Cap_Required
  | Cap_Not_Positive int
  | Expiry_Required
  | Expiry_Naive
  | Expiry_Not_Future instant
  | Creator_Required
  | Store_Unavailable
  | Not_Persisted
  | Store_Raised

datatype grant_arg = Arg_None | Arg_Str string | Arg_Int int | Arg_Bool bool | Arg_Aware instant | Arg_Naive instant | Arg_Other

definition scope_stem :: "string \<Rightarrow> string" where
  "scope_stem s = (if endswith s ''*'' then butlast s else s)"

definition validate_scope :: "grant_arg \<Rightarrow> grant_refused + string" where
  "validate_scope arg =
     (case arg of
        Arg_Str s0 \<Rightarrow>
          (let s = strip s0 in
           if s = [] then Inl Scope_Required
           else if s = ''*'' then Inl Scope_Matches_All
           else if scope_stem s = [] \<or> CHR ''*'' \<in> set (scope_stem s) then Inl (Scope_Invalid s)
           else Inr s)
      | _ \<Rightarrow> Inl Scope_Required)"

definition matches :: "string \<Rightarrow> string \<Rightarrow> bool" where
  "matches scope action_key = (if endswith scope ''*'' then startswith action_key (butlast scope) else scope = action_key)"

text \<open>\<^verbatim>\<open>text LIKE pattern\<close>: a percent sign is any sequence, an underscore any character, a backslash takes the next character literally.\<close>

fun sql_like :: "string \<Rightarrow> string \<Rightarrow> bool" where
  "sql_like t [] = (t = [])"
| "sql_like t (p # ps) =
     (if p = CHR ''%'' then list_ex (\<lambda>i. sql_like (drop i t) ps) [0..<length t + 1]
      else if p = CHR 0x5C
      then (case ps of [] \<Rightarrow> False | q # qs \<Rightarrow> (case t of [] \<Rightarrow> False | c # cs \<Rightarrow> c = q \<and> sql_like cs qs))
      else (case t of [] \<Rightarrow> False | c # cs \<Rightarrow> (p = CHR ''_'' \<or> c = p) \<and> sql_like cs ps))"

definition scope_covers :: "string \<Rightarrow> string \<Rightarrow> bool" where
  "scope_covers scope action_key \<longleftrightarrow> endswith scope ''*'' \<and> sql_like action_key (butlast scope @ ''%'') \<or> scope = action_key"

subsection \<open>Issuing and revoking\<close>

text \<open>The insert is an upsert on the primary key; \<^verbatim>\<open>revoked_at\<close> is not among its columns.\<close>

definition upsert_grant :: "grant_row \<Rightarrow> grant_row list \<Rightarrow> grant_row list" where
  "upsert_grant row rows =
     (if grant_id row \<in> grant_id ` set rows
      then map (\<lambda>g. if grant_id g = grant_id row then row\<lparr>grant_revoked := grant_revoked g\<rparr> else g) rows
      else rows @ [row])"

definition issue :: "string \<Rightarrow> string \<Rightarrow> grant_arg \<Rightarrow> grant_arg \<Rightarrow> grant_arg \<Rightarrow> string \<Rightarrow> instant \<Rightarrow> grants_store
    \<Rightarrow> (grant_refused + grant_row) \<times> grants_store" where
  "issue uuid kind scope cap expires_at created_by now st =
     (if kind \<notin> set OPERATIONAL_KINDS then (Inl (Not_Operational kind), st)
      else case validate_scope scope of Inl e \<Rightarrow> (Inl e, st) | Inr s \<Rightarrow>
      (case cap of
         Arg_Int n \<Rightarrow>
           if n \<le> 0 then (Inl (Cap_Not_Positive n), st)
           else (case expires_at of
             Arg_Naive t \<Rightarrow> (Inl Expiry_Naive, st)
           | Arg_Aware t \<Rightarrow>
               if t \<le> now then (Inl (Expiry_Not_Future t), st)
               else if created_by = [] then (Inl Creator_Required, st)
               else if \<not> store_ready st then (Inl Store_Unavailable, st)
               else (let row = \<lparr>grant_id = ''grant_'' @ take 16 uuid, grant_chapter = store_chapter st, grant_kind = kind, grant_scope = s,
                                grant_cap = n, grant_consumed = 0, grant_expires = t, grant_revoked = None, grant_creator = created_by\<rparr>;
                         st1 = store_after st
                     in case store_outcome st of
                          Req_Raise \<Rightarrow> (Inl Store_Raised, st1)
                        | Req_None \<Rightarrow> (Inl Not_Persisted, st1)
                        | Req_Ok \<Rightarrow> if n > 2147483647 then (Inl Not_Persisted, st1)
                                    else (Inr row, st1\<lparr>grants := upsert_grant row (grants st)\<rparr>))
           | _ \<Rightarrow> (Inl Expiry_Required, st))
       | _ \<Rightarrow> (Inl Cap_Required, st)))"

definition revoke :: "string \<Rightarrow> instant \<Rightarrow> grants_store \<Rightarrow> bool result \<times> grants_store" where
  "revoke gid now st =
     (if \<not> store_ready st then (Inr False, st)
      else case store_outcome st of
        Req_Raise \<Rightarrow> (Inl (RuntimeError ''revoke''), store_after st)
      | Req_None \<Rightarrow> (Inr False, store_after st)
      | Req_Ok \<Rightarrow> (Inr True, (store_after st)\<lparr>grants :=
            map (\<lambda>g. if grant_id g = gid \<and> grant_revoked g = None then g\<lparr>grant_revoked := Some now\<rparr> else g) (grants st)\<rparr>))"

definition list_live :: "instant \<Rightarrow> grants_store \<Rightarrow> grant_row list \<times> grants_store" where
  "list_live now st =
     (if \<not> store_ready st then ([], st)
      else (if store_outcome st = Req_Ok
            then sort_key grant_expires (filter (\<lambda>g. grant_chapter g = store_chapter st \<and> grant_revoked g = None \<and> now < grant_expires g) (grants st))
            else [], store_after st))"

definition consumptions :: "string \<Rightarrow> nat \<Rightarrow> grants_store \<Rightarrow> consumption_row list \<times> grants_store" where
  "consumptions gid limit st =
     (if \<not> store_ready st then ([], st)
      else (if store_outcome st = Req_Ok then take limit (rev (filter (\<lambda>u. used_grant u = gid) (consumed_rows st))) else [], store_after st))"

subsection \<open>Spending\<close>

record grant_call =
  call_chapter :: string
  call_kind :: string
  call_key :: string
  call_actor :: string
  call_now :: instant

datatype grant_reply =
    No_Matching_Grant
  | Exhausted_Or_Revoked
  | Retry_Of_Charged string int
  | Charged string int
  | Txn_Aborted

definition spendable :: "instant \<Rightarrow> grant_row \<Rightarrow> bool" where
  "spendable now g \<longleftrightarrow> grant_revoked g = None \<and> now < grant_expires g \<and> grant_consumed g < grant_cap g"

definition grant_covers :: "grant_call \<Rightarrow> grant_row \<Rightarrow> bool" where
  "grant_covers c g \<longleftrightarrow> grant_chapter g = call_chapter c \<and> grant_kind g = call_kind c \<and> scope_covers (grant_scope g) (call_key c)"

definition select_grant :: "grant_call \<Rightarrow> grants_store \<Rightarrow> grant_row option" where
  "select_grant c st = oldest_by grant_expires (\<lambda>g. grant_covers c g \<and> spendable (call_now c) g) (grants st)"

definition already_charged :: "string \<Rightarrow> string \<Rightarrow> grants_store \<Rightarrow> bool" where
  "already_charged gid key st = list_ex (\<lambda>u. used_grant u = gid \<and> used_key u = key \<and> used_charged u) (consumed_rows st)"

definition use_row :: "grant_call \<Rightarrow> grant_row \<Rightarrow> bool \<Rightarrow> int \<Rightarrow> consumption_row" where
  "use_row c g charged remaining = \<lparr>used_grant = grant_id g, used_chapter = call_chapter c, used_kind = call_kind c, used_key = call_key c,
     used_actor = call_actor c, used_charged = charged, used_remaining = remaining\<rparr>"

text \<open>The unique index on charged rows refuses a second one; that aborts the transaction and undoes its update.\<close>

definition finish_consumption :: "grant_call \<Rightarrow> grant_row \<Rightarrow> bool \<Rightarrow> grants_store \<Rightarrow> grant_reply \<times> grants_store" where
  "finish_consumption c g already st =
     (if already
      then (let left = grant_cap g - grant_consumed g
            in (Retry_Of_Charged (grant_id g) left, st\<lparr>consumed_rows := consumed_rows st @ [use_row c g False left]\<rparr>))
      else case find (\<lambda>u. grant_id u = grant_id g \<and> spendable (call_now c) u) (grants st) of
        None \<Rightarrow> (Exhausted_Or_Revoked, st)
      | Some u \<Rightarrow>
          if already_charged (grant_id g) (call_key c) st then (Txn_Aborted, st)
          else (let left = grant_cap u - (grant_consumed u + 1)
                in (Charged (grant_id u) left,
                    st\<lparr>grants := map (\<lambda>x. if grant_id x = grant_id g \<and> spendable (call_now c) x then x\<lparr>grant_consumed := grant_consumed x + 1\<rparr> else x) (grants st),
                       consumed_rows := consumed_rows st @ [use_row c u True left]\<rparr>)))"

definition consume_operational_grant :: "grant_call \<Rightarrow> grants_store \<Rightarrow> grant_reply \<times> grants_store" where
  "consume_operational_grant c st =
     (case select_grant c st of
        None \<Rightarrow> (No_Matching_Grant, st)
      | Some g \<Rightarrow> finish_consumption c g (already_charged (grant_id g) (call_key c) st) st)"

record Consumption =
  authorized :: bool
  cons_reason :: string
  cons_grant :: "string option"
  cons_charged :: bool
  cons_remaining :: "int option"

definition not_spent :: "string \<Rightarrow> Consumption" where
  "not_spent why = \<lparr>authorized = False, cons_reason = why, cons_grant = None, cons_charged = False, cons_remaining = None\<rparr>"

fun consumption_of :: "grant_reply \<Rightarrow> Consumption" where
  "consumption_of No_Matching_Grant = not_spent ''no_matching_grant''"
| "consumption_of Exhausted_Or_Revoked = not_spent ''grant_exhausted_or_revoked''"
| "consumption_of Txn_Aborted = not_spent ''no_matching_grant''"
| "consumption_of (Retry_Of_Charged gid left) =
     \<lparr>authorized = True, cons_reason = ''retry_of_charged_action'', cons_grant = Some gid, cons_charged = False, cons_remaining = Some left\<rparr>"
| "consumption_of (Charged gid left) =
     \<lparr>authorized = True, cons_reason = ''authorized'', cons_grant = Some gid, cons_charged = True, cons_remaining = Some left\<rparr>"

definition consume :: "string \<Rightarrow> string \<Rightarrow> string \<Rightarrow> instant \<Rightarrow> grants_store \<Rightarrow> Consumption \<times> grants_store" where
  "consume kind action_key actor now st =
     (if \<not> store_ready st then (not_spent ''governance store unavailable'', st)
      else case store_outcome st of
        Req_Raise \<Rightarrow> (not_spent ''grant lookup failed'', store_after st)
      | Req_None \<Rightarrow> (not_spent ''no_matching_grant'', store_after st)
      | Req_Ok \<Rightarrow>
          (case consume_operational_grant \<lparr>call_chapter = store_chapter st, call_kind = kind, call_key = action_key, call_actor = actor, call_now = now\<rparr>
                  (store_after st) of
             (r, st1) \<Rightarrow> (consumption_of r, st1)))"

subsection \<open>Issued grants are bounded\<close>

lemma validate_scope_ok:
  "validate_scope arg = Inr s \<Longrightarrow> s \<noteq> [] \<and> scope_stem s \<noteq> [] \<and> CHR ''*'' \<notin> set (scope_stem s)"
  by (auto simp: validate_scope_def Let_def split: grant_arg.splits if_splits)

lemma issue_bounds:
  assumes "issue uuid kind scope cap expires_at created_by now st = (Inr row, st1)"
  shows "kind \<in> set OPERATIONAL_KINDS \<and> validate_scope scope = Inr (grant_scope row) \<and> cap = Arg_Int (grant_cap row) \<and> 0 < grant_cap row
    \<and> grant_cap row \<le> 2147483647 \<and> expires_at = Arg_Aware (grant_expires row) \<and> now < grant_expires row \<and> created_by = grant_creator row \<and> created_by \<noteq> []
    \<and> grant_consumed row = 0 \<and> grant_revoked row = None \<and> grants st1 = upsert_grant row (grants st) \<and> consumed_rows st1 = consumed_rows st"
  using assms unfolding issue_def
  by (auto simp: Let_def store_after_def split: if_splits sum.splits grant_arg.splits request_outcome.splits)

lemma issue_refused_keeps: "issue uuid kind scope cap expires_at created_by now st = (Inl e, st1) \<Longrightarrow> grants st1 = grants st \<and> consumed_rows st1 = consumed_rows st"
  unfolding issue_def
  by (auto simp: Let_def store_after_def split: if_splits sum.splits grant_arg.splits request_outcome.splits)

subsection \<open>The two scope matchers\<close>

definition pattern_char :: "char \<Rightarrow> bool" where
  "pattern_char c \<longleftrightarrow> c = CHR ''%'' \<or> c = CHR ''_'' \<or> c = CHR 0x5C"

lemma like_rest: "sql_like t ''%''"
  by (auto simp: list_ex_iff intro!: bexI [of _ "length t"])

lemma like_plain_prefix: "list_all (\<lambda>c. \<not> pattern_char c) p \<Longrightarrow> sql_like t (p @ ''%'') \<longleftrightarrow> startswith t p"
proof (induction p arbitrary: t)
  case Nil
  show ?case using like_rest [of t] by (simp add: startswith_def)
next
  case (Cons a p)
  then show ?case by (cases t) (auto simp: startswith_def pattern_char_def)
qed

lemma like_wild_prefix: "CHR 0x5C \<notin> set p \<Longrightarrow> startswith t p \<Longrightarrow> sql_like t (p @ ''%'')"
proof (induction p arbitrary: t)
  case Nil
  show ?case using like_rest [of t] by simp
next
  case (Cons a p)
  then obtain c cs where t: "t = c # cs" "c = a" "startswith cs p" by (cases t) (auto simp: startswith_def)
  with Cons have r: "sql_like cs (p @ ''%'')" by simp
  show ?case
  proof (cases "a = CHR ''%''")
    case True
    with r t have "\<exists>i \<in> set [0..<length t + 1]. sql_like (drop i t) (p @ ''%'')" by (intro bexI [of _ 1]) (auto simp del: upt_Suc)
    with True show ?thesis by (simp only: append_Cons sql_like.simps(2) list_ex_iff simp_thms if_True)
  next
    case False
    with r t Cons.prems show ?thesis by auto
  qed
qed

subsection \<open>The counter is the number of distinct actions charged\<close>

definition charged_keys :: "string \<Rightarrow> grants_store \<Rightarrow> string list" where
  "charged_keys gid st = map used_key (filter (\<lambda>u. used_grant u = gid \<and> used_charged u) (consumed_rows st))"

definition counted :: "grants_store \<Rightarrow> grant_row \<Rightarrow> bool" where
  "counted st g \<longleftrightarrow> grant_consumed g = int (length (charged_keys (grant_id g) st)) \<and> grant_consumed g \<le> grant_cap g"

definition grants_ok :: "grants_store \<Rightarrow> bool" where
  "grants_ok st \<longleftrightarrow> distinct (map grant_id (grants st)) \<and> (\<forall>g \<in> set (grants st). counted st g) \<and> (\<forall>gid. distinct (charged_keys gid st))
     \<and> (\<forall>u \<in> set (consumed_rows st). used_grant u \<in> grant_id ` set (grants st))"

lemma grants_okI [intro?]:
  assumes "distinct (map grant_id (grants st))" "\<And>g. g \<in> set (grants st) \<Longrightarrow> counted st g" "\<And>gid. distinct (charged_keys gid st)"
    "\<And>u. u \<in> set (consumed_rows st) \<Longrightarrow> used_grant u \<in> grant_id ` set (grants st)"
  shows "grants_ok st"
  using assms by (auto simp: grants_ok_def)

lemma grants_okD:
  assumes "grants_ok st"
  shows "distinct (map grant_id (grants st))" "g \<in> set (grants st) \<Longrightarrow> counted st g" "distinct (charged_keys gid st)"
    "u \<in> set (consumed_rows st) \<Longrightarrow> used_grant u \<in> grant_id ` set (grants st)"
  using assms by (auto simp: grants_ok_def)

lemma grants_ok_cong: "grants st1 = grants st \<Longrightarrow> consumed_rows st1 = consumed_rows st \<Longrightarrow> grants_ok st1 = grants_ok st"
  by (simp add: grants_ok_def counted_def charged_keys_def)

lemma store_after_ok [simp]: "grants_ok (store_after st) = grants_ok st"
  by (rule grants_ok_cong) (simp_all add: store_after_def)

lemma already_charged_iff: "already_charged gid key st \<longleftrightarrow> key \<in> set (charged_keys gid st)"
  by (auto simp: already_charged_def charged_keys_def list_ex_iff)

lemma charged_keys_none: "grants_ok st \<Longrightarrow> gid \<notin> grant_id ` set (grants st) \<Longrightarrow> charged_keys gid st = []"
  by (auto simp: charged_keys_def filter_empty_conv dest: grants_okD(4))

lemma charged_keys_snoc:
  "charged_keys gid (st\<lparr>grants := gs, consumed_rows := consumed_rows st @ [u]\<rparr>) =
     charged_keys gid st @ (if used_grant u = gid \<and> used_charged u then [used_key u] else [])"
  "charged_keys gid (st\<lparr>consumed_rows := consumed_rows st @ [u]\<rparr>) =
     charged_keys gid st @ (if used_grant u = gid \<and> used_charged u then [used_key u] else [])"
  by (simp_all add: charged_keys_def)

lemma use_row_sel [simp]:
  "used_grant (use_row c g b n) = grant_id g" "used_key (use_row c g b n) = call_key c" "used_charged (use_row c g b n) = b"
  by (simp_all add: use_row_def)

lemma issue_ok:
  assumes "grants_ok st" "issue uuid kind scope cap expires_at created_by now st = (r, st1)"
    "''grant_'' @ take 16 uuid \<notin> grant_id ` set (grants st)"
  shows "grants_ok st1"
proof (cases r)
  case (Inl e)
  with assms(2) have "grants st1 = grants st" "consumed_rows st1 = consumed_rows st" using issue_refused_keeps by blast+
  with assms(1) grants_ok_cong show ?thesis by blast
next
  case (Inr row)
  with assms(2) have i: "issue uuid kind scope cap expires_at created_by now st = (Inr row, st1)" by simp
  note b = issue_bounds [OF i]
  have id: "grant_id row = ''grant_'' @ take 16 uuid"
    using i unfolding issue_def by (auto simp: Let_def split: if_splits sum.splits grant_arg.splits request_outcome.splits)
  with assms(3) have new: "grant_id row \<notin> grant_id ` set (grants st)" by simp
  with b have g: "grants st1 = grants st @ [row]" "consumed_rows st1 = consumed_rows st" by (auto simp: upsert_grant_def)
  have k: "charged_keys gid st1 = charged_keys gid st" for gid by (simp add: charged_keys_def g)
  have row: "counted st row" using charged_keys_none [OF assms(1) new] b by (simp add: counted_def)
  show ?thesis
  proof
    show "distinct (map grant_id (grants st1))" using grants_okD(1) [OF assms(1)] new by (simp add: g)
    show "counted st1 x" if "x \<in> set (grants st1)" for x
      using that row grants_okD(2) [OF assms(1)] by (auto simp: g counted_def k)
    show "distinct (charged_keys gid st1)" for gid using grants_okD(3) [OF assms(1)] by (simp add: k)
    show "used_grant u \<in> grant_id ` set (grants st1)" if "u \<in> set (consumed_rows st1)" for u
      using that grants_okD(4) [OF assms(1)] by (auto simp: g)
  qed
qed

lemma map_grants_ok:
  assumes "grants_ok st" "\<And>g. grant_id (f g) = grant_id g" "\<And>g. grant_consumed (f g) = grant_consumed g" "\<And>g. grant_cap (f g) = grant_cap g"
  shows "grants_ok (st\<lparr>grants := map f (grants st)\<rparr>)"
proof -
  have k: "charged_keys gid (st\<lparr>grants := map f (grants st)\<rparr>) = charged_keys gid st" for gid by (simp add: charged_keys_def)
  have ids: "map grant_id (map f (grants st)) = map grant_id (grants st)" using assms(2) by simp
  then have "grant_id ` set (map f (grants st)) = grant_id ` set (grants st)" by (metis set_map)
  moreover have "counted (st\<lparr>grants := map f (grants st)\<rparr>) (f x) \<longleftrightarrow> counted st x" for x by (simp add: counted_def k assms(2-4))
  ultimately show ?thesis using grants_okD [OF assms(1)] ids by (intro grants_okI) (auto simp: k simp del: map_map)
qed

lemma revoke_ok: "grants_ok st \<Longrightarrow> grants_ok (snd (revoke gid now st))"
proof (cases "store_ready st \<and> store_outcome st = Req_Ok")
  case True
  assume "grants_ok st"
  then have "grants_ok ((store_after st)\<lparr>grants :=
      map (\<lambda>g. if grant_id g = gid \<and> grant_revoked g = None then g\<lparr>grant_revoked := Some now\<rparr> else g) (grants (store_after st))\<rparr>)"
    by (intro map_grants_ok) simp_all
  with True show ?thesis by (simp add: revoke_def store_after_def)
next
  case False
  assume "grants_ok st"
  with False show ?thesis by (auto simp: revoke_def split: request_outcome.split)
qed

lemma finish_retry_ok:
  assumes "grants_ok st" "grant_id g \<in> grant_id ` set (grants st)"
  shows "grants_ok (snd (finish_consumption c g True st))"
proof -
  have k: "charged_keys gid (snd (finish_consumption c g True st)) = charged_keys gid st" for gid
    by (simp add: finish_consumption_def Let_def charged_keys_snoc)
  with assms show ?thesis by (auto simp: grants_ok_def counted_def finish_consumption_def Let_def charged_keys_snoc)
qed

lemma finish_charge_ok:
  assumes ok: "grants_ok st"
  shows "grants_ok (snd (finish_consumption c g False st))"
proof (cases "find (\<lambda>u. grant_id u = grant_id g \<and> spendable (call_now c) u) (grants st)")
  case None
  with ok show ?thesis by (simp add: finish_consumption_def)
next
  case (Some u)
  show ?thesis
  proof (cases "already_charged (grant_id g) (call_key c) st")
    case True
    with ok Some show ?thesis by (simp add: finish_consumption_def)
  next
    case False
    let ?f = "\<lambda>x. if grant_id x = grant_id g \<and> spendable (call_now c) x then x\<lparr>grant_consumed := grant_consumed x + 1\<rparr> else x"
    define st1 where "st1 = snd (finish_consumption c g False st)"
    have u: "u \<in> set (grants st)" "grant_id u = grant_id g" "spendable (call_now c) u" using find_SomeD [OF Some] by auto
    have st1: "st1 = st\<lparr>grants := map ?f (grants st), consumed_rows := consumed_rows st @ [use_row c u True (grant_cap u - (grant_consumed u + 1))]\<rparr>"
      using Some False by (simp add: st1_def finish_consumption_def Let_def)
    have k: "charged_keys gid st1 = charged_keys gid st @ (if gid = grant_id g then [call_key c] else [])" for gid
      using u by (auto simp: st1 charged_keys_snoc)
    have ids: "map grant_id (grants st1) = map grant_id (grants st)" by (auto simp: st1)
    have only: "x = u" if "x \<in> set (grants st)" "grant_id x = grant_id g" for x
      using that u grants_okD(1) [OF ok] by (metis distinct_map inj_onD)
    have "grants_ok st1"
    proof
      show "distinct (map grant_id (grants st1))" using ids grants_okD(1) [OF ok] by simp
      show "distinct (charged_keys gid st1)" for gid using grants_okD(3) [OF ok] False by (auto simp: k already_charged_iff)
      show "used_grant v \<in> grant_id ` set (grants st1)" if "v \<in> set (consumed_rows st1)" for v
      proof -
        have "used_grant v \<in> grant_id ` set (grants st)"
          using that u(1) u(2) [symmetric] grants_okD(4) [OF ok, of v] by (auto simp: st1)
        then show ?thesis by (metis ids set_map)
      qed
      show "counted st1 y" if "y \<in> set (grants st1)" for y
      proof -
        from that obtain x where x: "x \<in> set (grants st)" "y = ?f x" by (auto simp: st1)
        have c: "counted st x" by (rule grants_okD(2) [OF ok x(1)])
        show ?thesis
        proof (cases "grant_id x = grant_id g")
          case True
          with only x u have "x = u" by blast
          with x u c show ?thesis by (auto simp: counted_def k spendable_def)
        next
          case False
          with x c show ?thesis by (simp add: counted_def k)
        qed
      qed
    qed
    then show ?thesis by (simp add: st1_def)
  qed
qed

lemma finish_ok: "grants_ok st \<Longrightarrow> grant_id g \<in> grant_id ` set (grants st) \<Longrightarrow> grants_ok (snd (finish_consumption c g a st))"
  by (cases a) (simp_all add: finish_retry_ok finish_charge_ok)

subsection \<open>Interleaved transactions\<close>

text \<open>
  Any number of calls of the database function run at once, each between its statements, while grants are issued under new ids and
  revoked. \<open>Selected\<close> holds the row the first statement read, \<open>Checked\<close> also the answer of the second.
\<close>

datatype txn = Selected grant_call grant_row | Checked grant_call grant_row bool

type_synonym txns = "nat \<rightharpoonup> txn"

inductive grant_step :: "grants_store \<times> txns \<Rightarrow> grants_store \<times> txns \<Rightarrow> bool" where
  Issue: "issue uuid kind scope cap expires_at created_by now st = (r, st1) \<Longrightarrow> ''grant_'' @ take 16 uuid \<notin> grant_id ` set (grants st)
    \<Longrightarrow> grant_step (st, ts) (st1, ts)"
| Revoke: "revoke gid now st = (b, st1) \<Longrightarrow> grant_step (st, ts) (st1, ts)"
| Select: "ts t = None \<Longrightarrow> select_grant c st = Some g \<Longrightarrow> grant_step (st, ts) (st, ts(t \<mapsto> Selected c g))"
| Check: "ts t = Some (Selected c g) \<Longrightarrow> grant_step (st, ts) (st, ts(t \<mapsto> Checked c g (already_charged (grant_id g) (call_key c) st)))"
| Finish: "ts t = Some (Checked c g a) \<Longrightarrow> finish_consumption c g a st = (r, st1) \<Longrightarrow> grant_step (st, ts) (st1, ts(t := None))"

inductive grant_run :: "grants_store \<times> txns \<Rightarrow> bool" where
  Start: "grants st = [] \<Longrightarrow> consumed_rows st = [] \<Longrightarrow> grant_run (st, Map.empty)"
| Step: "grant_run s \<Longrightarrow> grant_step s s' \<Longrightarrow> grant_run s'"

inductive_cases grant_stepE: "grant_step s s'"

fun txn_grant :: "txn \<Rightarrow> string" where
  "txn_grant (Selected c g) = grant_id g"
| "txn_grant (Checked c g a) = grant_id g"

definition run_ok :: "grants_store \<times> txns \<Rightarrow> bool" where
  "run_ok s \<longleftrightarrow> grants_ok (fst s) \<and> (\<forall>t x. snd s t = Some x \<longrightarrow> txn_grant x \<in> grant_id ` set (grants (fst s)))"

lemma select_grant_mem: "select_grant c st = Some g \<Longrightarrow> g \<in> set (grants st) \<and> grant_covers c g \<and> spendable (call_now c) g"
  by (auto simp: select_grant_def dest: oldest_by_SomeD)

lemma map_keeps_ids: "(\<And>x. h (f x) = h x) \<Longrightarrow> h ` set (map f xs) = h ` set xs"
  by (simp add: image_image)

lemma finish_ids: "finish_consumption c g a st = (r, st1) \<Longrightarrow> grant_id ` set (grants st1) = grant_id ` set (grants st)"
  unfolding finish_consumption_def Let_def
  by (split if_splits option.splits; clarsimp simp del: set_map split: if_splits option.splits; rule map_keeps_ids; simp)

lemma revoke_ids: "revoke gid now st = (b, st1) \<Longrightarrow> grant_id ` set (grants st1) = grant_id ` set (grants st)"
  unfolding revoke_def store_after_def
  by (clarsimp simp del: set_map split: if_splits request_outcome.splits; rule map_keeps_ids; simp)

lemma issue_ids: "issue uuid kind scope cap expires_at created_by now st = (r, st1) \<Longrightarrow> grant_id ` set (grants st) \<subseteq> grant_id ` set (grants st1)"
proof (cases r)
  case (Inr row)
  moreover assume "issue uuid kind scope cap expires_at created_by now st = (r, st1)"
  ultimately have "grants st1 = upsert_grant row (grants st)" using issue_bounds by blast
  moreover have "grant_id ` set (map (\<lambda>g. if grant_id g = grant_id row then row\<lparr>grant_revoked := grant_revoked g\<rparr> else g) (grants st)) = grant_id ` set (grants st)"
    by (rule map_keeps_ids) simp
  ultimately show ?thesis by (auto simp: upsert_grant_def simp del: set_map split: if_splits)
qed (auto dest!: issue_refused_keeps)

lemma grant_step_ok: "grant_step s s' \<Longrightarrow> run_ok s \<Longrightarrow> run_ok s'"
proof (induction rule: grant_step.induct)
  case (Issue uuid kind scope cap expires_at created_by now st r st1 ts)
  then show ?case using issue_ok issue_ids by (fastforce simp: run_ok_def)
next
  case (Revoke gid now st b st1 ts)
  then show ?case using revoke_ok [of st gid now] revoke_ids [OF Revoke(1)] by (simp add: run_ok_def)
next
  case (Select ts t c st g)
  then show ?case using select_grant_mem by (fastforce simp: run_ok_def)
next
  case (Check ts t c g st)
  then show ?case by (force simp: run_ok_def)
next
  case (Finish ts t c g a st r st1)
  then show ?case using finish_ok [of st g c a] finish_ids [OF Finish(2)] by (fastforce simp: run_ok_def)
qed

lemma grant_run_ok: "grant_run s \<Longrightarrow> run_ok s"
proof (induction rule: grant_run.induct)
  case (Start st)
  then show ?case by (simp add: run_ok_def grants_ok_def charged_keys_def)
next
  case (Step s s')
  then show ?case using grant_step_ok by blast
qed

text \<open>C13: C: Under every interleaving of issues, revocations and concurrent consumptions, the counter of a grant is the number of distinct actions
  charged to it, and it never passes the cap the operator set.\<close>

theorem grants_stay_bounded:
  assumes "grant_run (st, ts)" "g \<in> set (grants st)"
  shows "grant_consumed g = int (card (set (charged_keys (grant_id g) st))) \<and> grant_consumed g \<le> grant_cap g"
proof -
  have ok: "grants_ok st" using grant_run_ok [OF assms(1)] by (simp add: run_ok_def)
  from grants_okD(2) [OF ok assms(2)] distinct_card [OF grants_okD(3) [OF ok]] show ?thesis by (simp add: counted_def)
qed

definition demo_store :: grants_store where
  "demo_store = \<lparr>store_ready = True, store_chapter = ''acme'', grants = [], consumed_rows = [], store_requests = []\<rparr>"

definition demo_issued :: grants_store where
  "demo_issued = snd (issue ''00'' ''send_external'' (Arg_Str ''mail:*'') (Arg_Int 1) (Arg_Aware 20) ''op'' 10 demo_store)"

definition demo_call :: grant_call where
  "demo_call = \<lparr>call_chapter = ''acme'', call_kind = ''send_external'', call_key = ''mail:a'', call_actor = ''bot'', call_now = 11\<rparr>"

definition demo_grant :: grant_row where
  "demo_grant = \<lparr>grant_id = ''grant_00'', grant_chapter = ''acme'', grant_kind = ''send_external'', grant_scope = ''mail:*'', grant_cap = 1,
     grant_consumed = 0, grant_expires = 20, grant_revoked = None, grant_creator = ''op''\<rparr>"

lemma demo_issued_eq: "demo_issued = demo_store\<lparr>grants := [demo_grant]\<rparr>"
  by code_simp

lemma demo_charged: "finish_consumption demo_call demo_grant False demo_issued =
    (Charged ''grant_00'' 0, demo_store\<lparr>grants := [demo_grant\<lparr>grant_consumed := 1\<rparr>], consumed_rows := [use_row demo_call demo_grant True 0]\<rparr>)"
  by code_simp

lemma demo_grant_run: "grant_run (demo_store\<lparr>grants := [demo_grant\<lparr>grant_consumed := 1\<rparr>], consumed_rows := [use_row demo_call demo_grant True 0]\<rparr>, Map.empty)"
proof -
  have "grant_run (demo_store, Map.empty)" by (rule Start) (simp_all add: demo_store_def)
  then have "grant_run (demo_issued, Map.empty)"
    by (rule Step) (unfold demo_issued_def, rule Issue [OF surjective_pairing], simp add: demo_store_def)
  then have "grant_run (demo_issued, [0 \<mapsto> Selected demo_call demo_grant])"
    by (rule Step) (rule Select, simp, code_simp)
  then have "grant_run (demo_issued, [0 \<mapsto> Selected demo_call demo_grant, 0 \<mapsto> Checked demo_call demo_grant (already_charged (grant_id demo_grant) (call_key demo_call) demo_issued)])"
    by (rule Step) (rule Check, simp)
  moreover have "already_charged (grant_id demo_grant) (call_key demo_call) demo_issued = False" by code_simp
  ultimately have "grant_run (demo_issued, [0 \<mapsto> Checked demo_call demo_grant False])" by simp
  then have "grant_run (demo_store\<lparr>grants := [demo_grant\<lparr>grant_consumed := 1\<rparr>], consumed_rows := [use_row demo_call demo_grant True 0]\<rparr>,
      [0 \<mapsto> Checked demo_call demo_grant False](0 := None))"
    by (rule Step) (rule Finish [OF _ demo_charged], simp)
  then show ?thesis by simp
qed

theorem grants_stay_bounded_witness: "grant_consumed (demo_grant\<lparr>grant_consumed := 1\<rparr>) \<le> grant_cap (demo_grant\<lparr>grant_consumed := 1\<rparr>)"
  using grants_stay_bounded [OF demo_grant_run, of "demo_grant\<lparr>grant_consumed := 1\<rparr>"] by simp

subsection \<open>What is authorised, and what is not\<close>

lemma revoke_grants:
  assumes "revoke gid t st = (Inr True, st1)"
  shows "grants st1 = map (\<lambda>g. if grant_id g = gid \<and> grant_revoked g = None then g\<lparr>grant_revoked := Some t\<rparr> else g) (grants st)"
proof -
  have "store_ready st \<and> store_outcome st = Req_Ok" using assms by (simp add: revoke_def split: if_splits request_outcome.splits)
  with assms show ?thesis by (auto simp: revoke_def)
qed

lemma finish_charges:
  assumes "finish_consumption c g a st = (r, st1)" "a \<longrightarrow> already_charged (grant_id g) (call_key c) st" "authorized (consumption_of r)"
  shows "cons_grant (consumption_of r) = Some (grant_id g) \<and> call_key c \<in> set (charged_keys (grant_id g) st1)"
  using assms
  by (auto simp: finish_consumption_def Let_def not_spent_def charged_keys_snoc already_charged_iff dest!: find_SomeD split: if_splits option.splits)

lemma consume_authorised:
  assumes "consume kind key actor now st = (c, st1)" "authorized c \<or> cons_grant c \<noteq> None"
  obtains g where "g \<in> set (grants st)" "cons_grant c = Some (grant_id g)" "grant_chapter g = store_chapter st" "grant_kind g = kind"
    "scope_covers (grant_scope g) key" "spendable now g" "key \<in> set (charged_keys (grant_id g) st1)" "authorized c"
proof -
  let ?c = "\<lparr>call_chapter = store_chapter st, call_kind = kind, call_key = key, call_actor = actor, call_now = now\<rparr>"
  obtain r where r: "consume_operational_grant ?c (store_after st) = (r, st1)" "c = consumption_of r"
    using assms by (auto simp: consume_def not_spent_def split: if_splits request_outcome.splits prod.splits)
  then obtain g where g: "select_grant ?c (store_after st) = Some g"
    "finish_consumption ?c g (already_charged (grant_id g) (call_key ?c) (store_after st)) (store_after st) = (r, st1)"
    using assms(2) by (auto simp: consume_operational_grant_def not_spent_def split: option.splits)
  have a: "authorized c" using assms(2) r(2) by (cases r) (auto simp: not_spent_def)
  have "g \<in> set (grants st)" "grant_covers ?c g" "spendable now g" using select_grant_mem [OF g(1)] by (auto simp: store_after_def)
  moreover have "cons_grant c = Some (grant_id g)" "key \<in> set (charged_keys (grant_id g) st1)"
    using finish_charges [OF g(2)] a r(2) by simp_all
  ultimately show thesis using that a by (simp add: grant_covers_def)
qed

text \<open>C14: C: An action is authorised only by a grant of this chapter and kind whose scope covers its key, which is neither revoked nor expired
  and has units left; afterwards the action stands charged to that grant.\<close>

theorem authorised_by_live_grant:
  assumes "consume kind key actor now st = (c, st1)" "authorized c"
  shows "\<exists>g \<in> set (grants st). cons_grant c = Some (grant_id g) \<and> grant_chapter g = store_chapter st \<and> grant_kind g = kind
    \<and> scope_covers (grant_scope g) key \<and> grant_revoked g = None \<and> now < grant_expires g \<and> grant_consumed g < grant_cap g
    \<and> key \<in> set (charged_keys (grant_id g) st1)"
  using assms by (metis consume_authorised spendable_def)

theorem authorised_by_live_grant_witness:
  "authorized (fst (consume ''send_external'' ''mail:a'' ''bot'' 11 demo_issued))
   \<and> cons_grant (fst (consume ''send_external'' ''mail:a'' ''bot'' 11 demo_issued)) = Some (grant_id demo_grant)"
proof -
  have a: "authorized (fst (consume ''send_external'' ''mail:a'' ''bot'' 11 demo_issued))" by code_simp
  from authorised_by_live_grant [OF surjective_pairing a] a show ?thesis by (auto simp: demo_issued_eq)
qed

text \<open>A covering grant with units left is spent.\<close>

lemma live_grant_authorises:
  assumes "store_ready st" "store_outcome st = Req_Ok" "g \<in> set (grants st)" "grant_chapter g = store_chapter st" "grant_kind g = kind"
    "scope_covers (grant_scope g) key" "spendable now g"
  shows "authorized (fst (consume kind key actor now st))"
proof -
  let ?c = "\<lparr>call_chapter = store_chapter st, call_kind = kind, call_key = key, call_actor = actor, call_now = now\<rparr>"
  let ?st = "store_after st"
  have "select_grant ?c ?st \<noteq> None" using assms by (auto simp: select_grant_def grant_covers_def store_after_def)
  then obtain s where s: "select_grant ?c ?st = Some s" by auto
  have "find (\<lambda>u. grant_id u = grant_id s \<and> spendable now u) (grants ?st) \<noteq> None"
    using select_grant_mem [OF s] by (auto simp: find_None_iff)
  then have "authorized (consumption_of (fst (consume_operational_grant ?c ?st)))"
    by (auto simp: consume_operational_grant_def s finish_consumption_def Let_def)
  then show ?thesis using assms by (simp add: consume_def case_prod_unfold)
qed

text \<open>An exhausted grant authorises nothing, not even the action it was charged for.\<close>

lemma exhausted_grant_unused:
  assumes "grants_ok st" "g \<in> set (grants st)" "grant_consumed g = grant_cap g" "consume kind key actor now st = (c, st1)"
  shows "cons_grant c \<noteq> Some (grant_id g)"
proof
  assume gid: "cons_grant c = Some (grant_id g)"
  then obtain x where "x \<in> set (grants st)" "cons_grant c = Some (grant_id x)" "spendable now x"
    using consume_authorised [OF assms(4)] by blast
  moreover from this gid have "x = g" using assms(2) grants_okD(1) [OF assms(1)] by (metis distinct_map inj_onD option.inject)
  ultimately show False using assms(3) by (simp add: spendable_def)
qed

text \<open>C: A revoked grant authorises nothing from then on: after a successful revocation no consumption names it.\<close>

theorem revoked_grant_authorises_nothing:
  assumes "revoke gid t st = (Inr True, st1)" "consume kind key actor now st1 = (c, st2)"
  shows "cons_grant c \<noteq> Some gid"
proof
  assume gid: "cons_grant c = Some gid"
  then obtain x where x: "x \<in> set (grants st1)" "cons_grant c = Some (grant_id x)" "spendable now x"
    using consume_authorised [OF assms(2)] by blast
  from x(1) obtain y where "x = (if grant_id y = gid \<and> grant_revoked y = None then y\<lparr>grant_revoked := Some t\<rparr> else y)"
    unfolding revoke_grants [OF assms(1)] set_map by (rule imageE)
  with x(2,3) gid show False by (cases "grant_id y = gid \<and> grant_revoked y = None") (auto simp: spendable_def)
qed

theorem revoked_grant_authorises_nothing_witness:
  "cons_grant (fst (consume ''send_external'' ''mail:a'' ''bot'' 11 (snd (revoke ''grant_00'' 11 demo_issued)))) \<noteq> Some ''grant_00''"
proof -
  have "revoke ''grant_00'' 11 demo_issued = (Inr True, snd (revoke ''grant_00'' 11 demo_issued))" by code_simp
  then show ?thesis using revoked_grant_authorises_nothing [OF _ surjective_pairing] by blast
qed

text \<open>C: On scopes without percent signs, underscores and backslashes the database matches exactly what the Python preview matches.\<close>

theorem scope_match_agrees:
  assumes "list_all (\<lambda>c. \<not> pattern_char c) scope"
  shows "scope_covers scope key \<longleftrightarrow> matches scope key"
proof (cases "endswith scope ''*''")
  case True
  have p: "list_all (\<lambda>c. \<not> pattern_char c) (butlast scope)" using assms by (auto simp: list_all_iff dest: in_set_butlastD)
  have "startswith scope (butlast scope)" by (simp add: startswith_def butlast_conv_take)
  with True like_plain_prefix [OF p, of key] show ?thesis by (auto simp: scope_covers_def matches_def)
next
  case False
  then show ?thesis by (simp add: scope_covers_def matches_def)
qed

theorem scope_match_agrees_witness: "scope_covers ''mail:*'' ''mail:a'' \<longleftrightarrow> matches ''mail:*'' ''mail:a''"
  by (rule scope_match_agrees) (simp add: pattern_char_def)

text \<open>An underscore of a scope is a wildcard for the database only.\<close>

lemma underscore_scope_diverges:
  "scope_covers ''send_external:klaviyo:jo_smith@acme.test:*'' ''send_external:klaviyo:joXsmith@acme.test:0f''
   \<and> \<not> matches ''send_external:klaviyo:jo_smith@acme.test:*'' ''send_external:klaviyo:joXsmith@acme.test:0f''"
  by code_simp

text \<open>A scope that matches the key as a text covers it, unless it has a backslash.\<close>

lemma matches_covered: "CHR 0x5C \<notin> set scope \<Longrightarrow> matches scope key \<Longrightarrow> scope_covers scope key"
  using like_wild_prefix [of "butlast scope" key] by (auto simp: matches_def scope_covers_def dest: in_set_butlastD split: if_splits)

text \<open>C: A retry is not free once the last unit is spent: the only covering grant, with one unit left, authorises an action it was not yet
  charged for, and then refuses the identical action.\<close>

theorem last_unit_retry_refused:
  assumes "store_ready st" "store_requests st = []" "grants st = [g]" "grant_chapter g = store_chapter st" "scope_covers (grant_scope g) key"
    "spendable now g" "grant_cap g = grant_consumed g + 1" "\<not> already_charged (grant_id g) key st"
    "consume (grant_kind g) key actor now st = (c, st1)"
  shows "authorized c \<and> \<not> authorized (fst (consume (grant_kind g) key actor now st1))"
proof
  show a: "authorized c" using live_grant_authorises [of st g "grant_kind g" key now actor] assms by simp
  let ?c = "\<lparr>call_chapter = store_chapter st, call_kind = grant_kind g, call_key = key, call_actor = actor, call_now = now\<rparr>"
  have st: "store_after st = st" using assms(2) by (simp add: store_after_def)
  have "select_grant ?c st = Some g" using assms by (simp add: select_grant_def oldest_by_def grant_covers_def)
  then have "grants st1 = [g\<lparr>grant_consumed := grant_cap g\<rparr>]"
    using assms st by (auto simp: consume_def consume_operational_grant_def finish_consumption_def Let_def split: prod.splits)
  then have full: "\<not> spendable now x" if "x \<in> set (grants st1)" for x using that by (simp add: spendable_def)
  show "\<not> authorized (fst (consume (grant_kind g) key actor now st1))"
    using consume_authorised [OF surjective_pairing] full by blast
qed

theorem last_unit_retry_refused_witness:
  "authorized (fst (consume ''send_external'' ''mail:a'' ''bot'' 11 demo_issued))
   \<and> \<not> authorized (fst (consume ''send_external'' ''mail:a'' ''bot'' 11 (snd (consume ''send_external'' ''mail:a'' ''bot'' 11 demo_issued))))"
  using last_unit_retry_refused [where st = demo_issued and g = demo_grant and key = "''mail:a''" and now = 11 and actor = "''bot''", OF _ _ _ _ _ _ _ _ surjective_pairing]
  by (simp add: demo_issued_eq demo_store_def demo_grant_def spendable_def already_charged_def scope_covers_def endswith_def)

end
