(* ===== verification/Governance.thy ===== *)
theory Governance
  imports Bounded_Grants "HOL-Library.AList"
begin

text \<open>
  The approval queue, the operational gate and the role nominations of \<^verbatim>\<open>server/governance.py\<close>. The tables \<^verbatim>\<open>pending_approvals\<close>,
  \<^verbatim>\<open>chapter_role_nominations\<close> and the role column of \<^verbatim>\<open>agents\<close> are lists of rows, the module's requests take their outcomes from
  \<open>gov_requests\<close>, and the bounded grants keep their own store. The id the database gives a new row is an argument, and so is the clock of a
  call. A confidence is in ten-thousandths. Receipts, printing, the dashboard view and the reserved trust score are left out; a missing
  approval time sorts last, as in Postgres.

  Shown: an approved or executed row was decided before it expired; as long as requests succeed an approval authorises one action, the one it
  names, and no history authorises more actions than there were approvals and grant units; a refused call files one request, not one per
  attempt. A failed write leaves an approval usable again, and a leader can take an admin's role away.
\<close>

subsection \<open>Kinds and roles\<close>

definition APPROVAL_KINDS :: "string list" where
  "APPROVAL_KINDS = [''introduction'', ''cross_chapter_intent'', ''cross_chapter_message'', ''event_proposal'', ''member_admission'',
     ''role_promotion'', ''call_cross_post'', ''broadcast''] @ OPERATIONAL_KINDS"

text \<open>The \<^verbatim>\<open>pending_approvals_kind_check\<close> constraint of the schema.\<close>

definition kind_check :: "string list" where
  "kind_check = [''introduction'', ''cross_chapter_intent'', ''cross_chapter_message'', ''event_proposal'', ''member_admission'', ''role_promotion'',
     ''call_cross_post'', ''broadcast'', ''send_external'', ''record_write'', ''external_fetch'']"

definition SERVICE_ROLES :: "string list" where "SERVICE_ROLES = [''service'']"
definition LEADER_ROLES :: "string list" where "LEADER_ROLES = [''leader'', ''admin'']"
definition APPROVER_ROLES :: "string list" where "APPROVER_ROLES = [''leader'', ''admin'']"
definition VISIBILITY_ROLES :: "string list" where "VISIBILITY_ROLES = [''leader'', ''advisor'', ''mentor'', ''admin'']"
definition OPERATIONAL_VISIBILITY_ROLES :: "string list" where "OPERATIONAL_VISIBILITY_ROLES = VISIBILITY_ROLES @ SERVICE_ROLES"

text \<open>\<open>None\<close> is every kind.\<close>

definition visible_kinds_for_role :: "string \<Rightarrow> string list option" where
  "visible_kinds_for_role role =
     (if role \<in> set VISIBILITY_ROLES then None else if role \<in> set SERVICE_ROLES then Some OPERATIONAL_KINDS else Some [])"

definition DEFAULT_APPROVAL_TTL :: nat where "DEFAULT_APPROVAL_TTL = hours_us 72"
definition DEFAULT_NOMINATION_TTL :: nat where "DEFAULT_NOMINATION_TTL = 30 * usec_per_day"

definition role_to_attest_tier :: "string \<Rightarrow> string option" where
  "role_to_attest_tier role =
     (if role \<in> set LEADER_ROLES then Some ''leader'' else if role \<in> {''advisor'', ''mentor''} then Some ''trusted'' else None)"

subsection \<open>State\<close>

record approval_row =
  ap_id :: string
  ap_kind :: string
  ap_proposer :: string
  ap_target :: "string option"
  ap_chapter :: string
  ap_peer :: "string option"
  ap_payload :: "(string \<times> json) list"
  ap_status :: string
  ap_by :: "string option"
  ap_at :: "instant option"
  ap_rejection :: "string option"
  ap_created :: instant
  ap_expires :: instant
  ap_executed :: "instant option"
  ap_confidence :: int

record endorsement =
  en_endorser :: string
  en_signal :: string
  en_note :: string
  en_at :: instant

record nomination_row =
  nom_id :: string
  nom_nominee :: string
  nom_nominator :: string
  nom_chapter :: string
  nom_target_role :: string
  nom_reason :: string
  nom_status :: string
  nom_resolved_by :: "string option"
  nom_resolved_at :: "instant option"
  nom_note :: "string option"
  nom_endorsements :: "endorsement list"
  nom_created :: instant
  nom_expires :: instant

record governance_state =
  gov_ready :: bool
  gov_agent :: string
  approvals_table :: "approval_row list"
  nominations_table :: "nomination_row list"
  role_table :: "(string \<times> string option) list"
  gov_requests :: outcomes
  gov_grants :: grants_store

definition gov_after :: "governance_state \<Rightarrow> governance_state" where
  "gov_after st = st\<lparr>gov_requests := tl (gov_requests st)\<rparr>"

abbreviation gov_outcome :: "governance_state \<Rightarrow> request_outcome" where
  "gov_outcome st \<equiv> first_outcome (gov_requests st)"

subsection \<open>Role lookup\<close>

definition get_chapter_role :: "string \<Rightarrow> governance_state \<Rightarrow> string \<times> governance_state" where
  "get_chapter_role agent st =
     (if \<not> gov_ready st \<or> agent = [] then (''member'', st)
      else (if gov_outcome st = Req_Ok
            then (case map_of (role_table st) agent of Some (Some r) \<Rightarrow> if r = [] then ''member'' else r | _ \<Rightarrow> ''member'')
            else ''member'', gov_after st))"

definition is_leader :: "string \<Rightarrow> governance_state \<Rightarrow> bool \<times> governance_state" where
  "is_leader agent st = (case get_chapter_role agent st of (r, st1) \<Rightarrow> (r \<in> set LEADER_ROLES, st1))"

definition can_approve :: "string \<Rightarrow> governance_state \<Rightarrow> bool \<times> governance_state" where
  "can_approve agent st = (case get_chapter_role agent st of (r, st1) \<Rightarrow> (r \<in> set APPROVER_ROLES, st1))"

definition can_see_queue :: "string \<Rightarrow> governance_state \<Rightarrow> bool \<times> governance_state" where
  "can_see_queue agent st = (case get_chapter_role agent st of (r, st1) \<Rightarrow> (r \<in> set OPERATIONAL_VISIBILITY_ROLES, st1))"

datatype tier_answer = Missing_Agent | Cannot_Attest string | Eligible string

definition require_trusted_tier :: "string \<Rightarrow> governance_state \<Rightarrow> tier_answer \<times> governance_state" where
  "require_trusted_tier agent st =
     (if agent = [] then (Missing_Agent, st)
      else case get_chapter_role agent st of (r, st1) \<Rightarrow>
        (case role_to_attest_tier r of None \<Rightarrow> (Cannot_Attest r, st1) | Some t \<Rightarrow> (Eligible t, st1)))"

subsection \<open>Proposals\<close>

datatype proposal_failed = Unregistered_Kind string | Store_Missing | Insert_Raised | Insert_Lost

definition propose :: "string \<Rightarrow> string \<Rightarrow> (string \<times> json) list \<Rightarrow> string option \<Rightarrow> string option \<Rightarrow> int \<Rightarrow> nat option \<Rightarrow> string \<Rightarrow> instant
    \<Rightarrow> governance_state \<Rightarrow> (proposal_failed + approval_row) \<times> governance_state" where
  "propose kind proposer payload target peer confidence ttl new_id now st =
     (if kind \<notin> set APPROVAL_KINDS then (Inl (Unregistered_Kind kind), st)
      else if \<not> gov_ready st then (Inl Store_Missing, st)
      else (let row = \<lparr>ap_id = new_id, ap_kind = kind, ap_proposer = proposer, ap_target = target, ap_chapter = gov_agent st, ap_peer = peer,
                       ap_payload = payload, ap_status = ''pending'', ap_by = None, ap_at = None, ap_rejection = None, ap_created = now,
                       ap_expires = now + (case ttl of Some t \<Rightarrow> if t = 0 then DEFAULT_APPROVAL_TTL else t | None \<Rightarrow> DEFAULT_APPROVAL_TTL),
                       ap_executed = None, ap_confidence = max 0 (min 10000 confidence)\<rparr>;
                st1 = gov_after st
            in case gov_outcome st of
                 Req_Raise \<Rightarrow> (Inl Insert_Raised, st1)
               | Req_None \<Rightarrow> (Inl Insert_Lost, st1)
               | Req_Ok \<Rightarrow>
                   if kind \<notin> set kind_check \<or> new_id \<in> ap_id ` set (approvals_table st) then (Inl Insert_Lost, st1)
                   else (Inr row, st1\<lparr>approvals_table := approvals_table st @ [row]\<rparr>)))"

definition propose_introduction :: "string \<Rightarrow> string \<Rightarrow> string \<Rightarrow> string \<Rightarrow> int \<Rightarrow> string \<Rightarrow> instant \<Rightarrow> governance_state
    \<Rightarrow> (proposal_failed + approval_row) \<times> governance_state" where
  "propose_introduction proposer a b reason similarity new_id now st =
     propose ''introduction'' proposer [(''pair'', JList [JStr a, JStr b]), (''reason'', JStr reason), (''similarity'', JDec similarity)]
       (Some a) None similarity None new_id now st"

text \<open>\<^verbatim>\<open>set(pl.get("pair") or [])\<close>; \<open>None\<close> when the value cannot be made a set, which ends the search.\<close>

definition hashable :: "json \<Rightarrow> bool" where
  "hashable j = (case j of JList xs \<Rightarrow> False | JObj kvs \<Rightarrow> False | _ \<Rightarrow> True)"

definition json_set :: "json \<Rightarrow> json set option" where
  "json_set j = (if \<not> truthy j then Some {}
     else case j of
       JList xs \<Rightarrow> if list_all hashable xs then Some (set xs) else None
     | JStr s \<Rightarrow> Some ((\<lambda>c. JStr [c]) ` set s)
     | JObj kvs \<Rightarrow> Some ((\<lambda>kv. JStr (fst kv)) ` set kvs)
     | _ \<Rightarrow> None)"

fun any_pair :: "json set \<Rightarrow> approval_row list \<Rightarrow> bool" where
  "any_pair pair [] = False"
| "any_pair pair (r # rs) =
     (case json_set (obj_get (ap_payload r) ''pair'') of None \<Rightarrow> False | Some s \<Rightarrow> s = pair \<or> any_pair pair rs)"

definition recent_introduction_exists :: "string \<Rightarrow> string \<Rightarrow> nat \<Rightarrow> instant \<Rightarrow> governance_state \<Rightarrow> bool \<times> governance_state" where
  "recent_introduction_exists a b window now st =
     (if \<not> gov_ready st then (False, st)
      else (gov_outcome st = Req_Ok
            \<and> any_pair {JStr a, JStr b}
                (filter (\<lambda>r. ap_chapter r = gov_agent st \<and> ap_kind r = ''introduction'' \<and> ap_status r \<in> {''pending'', ''approved'', ''executed''}
                    \<and> now - window \<le> ap_created r) (approvals_table st)), gov_after st))"

subsection \<open>Decisions\<close>

definition BREAK_GLASS_APPROVER :: string where "BREAK_GLASS_APPROVER = ''break-glass:unattributed''"

definition is_break_glass :: "string \<Rightarrow> bool" where
  "is_break_glass approver \<longleftrightarrow> approver = BREAK_GLASS_APPROVER"

datatype decision_reply = Not_Authorized | Nothing_Updated | Failed_Update | Updated approval_row

text \<open>The update both decisions send: rows of this id that are pending and not past their expiry.\<close>

definition decidable_row :: "string \<Rightarrow> instant \<Rightarrow> approval_row \<Rightarrow> bool" where
  "decidable_row aid now r \<longleftrightarrow> ap_id r = aid \<and> ap_status r = ''pending'' \<and> now < ap_expires r"

definition patch_decision :: "(approval_row \<Rightarrow> approval_row) \<Rightarrow> string \<Rightarrow> instant \<Rightarrow> governance_state \<Rightarrow> decision_reply \<times> governance_state" where
  "patch_decision body aid now st =
     (if \<not> gov_ready st then (Failed_Update, st)
      else if gov_outcome st \<noteq> Req_Ok then (Failed_Update, gov_after st)
      else ((case filter (decidable_row aid now) (approvals_table st) of [] \<Rightarrow> Nothing_Updated | r # _ \<Rightarrow> Updated (body r)),
            (gov_after st)\<lparr>approvals_table := map (\<lambda>r. if decidable_row aid now r then body r else r) (approvals_table st)\<rparr>))"

definition approved_body :: "string \<Rightarrow> instant \<Rightarrow> approval_row \<Rightarrow> approval_row" where
  "approved_body approver now r = r\<lparr>ap_status := ''approved'', ap_by := Some approver, ap_at := Some now\<rparr>"

definition rejected_body :: "string \<Rightarrow> string \<Rightarrow> instant \<Rightarrow> approval_row \<Rightarrow> approval_row" where
  "rejected_body approver reason now r =
     r\<lparr>ap_status := ''rejected'', ap_by := Some approver, ap_at := Some now, ap_rejection := Some (take 500 reason)\<rparr>"

definition approve :: "string \<Rightarrow> string \<Rightarrow> bool \<Rightarrow> instant \<Rightarrow> governance_state \<Rightarrow> decision_reply \<times> governance_state" where
  "approve aid approver pre_authorized now st =
     (case (if pre_authorized then (True, st) else can_approve approver st) of
        (False, st1) \<Rightarrow> (Not_Authorized, st1)
      | (True, st1) \<Rightarrow> patch_decision (approved_body approver now) aid now st1)"

definition reject :: "string \<Rightarrow> string \<Rightarrow> string \<Rightarrow> bool \<Rightarrow> instant \<Rightarrow> governance_state \<Rightarrow> decision_reply \<times> governance_state" where
  "reject aid approver reason pre_authorized now st =
     (case (if pre_authorized then (True, st) else can_approve approver st) of
        (False, st1) \<Rightarrow> (Not_Authorized, st1)
      | (True, st1) \<Rightarrow> patch_decision (rejected_body approver reason now) aid now st1)"

definition mark_executed :: "string \<Rightarrow> instant \<Rightarrow> governance_state \<Rightarrow> governance_state" where
  "mark_executed aid now st =
     (if \<not> gov_ready st then st
      else if gov_outcome st \<noteq> Req_Ok then gov_after st
      else (gov_after st)\<lparr>approvals_table :=
        map (\<lambda>r. if ap_id r = aid then r\<lparr>ap_status := ''executed'', ap_executed := Some now\<rparr> else r) (approvals_table st)\<rparr>)"

subsection \<open>The operational gate\<close>

datatype gate_refusal =
    Not_Operational_Kind
  | Ids_Required
  | Governance_Unavailable
  | Lookup_Failed
  | Awaiting approval_row
  | No_Approved_Grant approval_row
  | Not_Queued proposal_failed

datatype gate_grant = By_Approval approval_row | By_Bounded_Grant Consumption

definition names_action :: "string \<Rightarrow> approval_row \<Rightarrow> bool" where
  "names_action action_key r \<longleftrightarrow> obj_get (ap_payload r) ''action_key'' = JStr action_key"

definition queue_rows :: "string \<Rightarrow> string \<Rightarrow> governance_state \<Rightarrow> approval_row list" where
  "queue_rows kind status st = filter (\<lambda>r. ap_chapter r = gov_agent st \<and> ap_kind r = kind \<and> ap_status r = status) (approvals_table st)"

definition approved_order :: "approval_row \<Rightarrow> nat" where
  "approved_order r = (case ap_at r of Some t \<Rightarrow> t | None \<Rightarrow> max_instant + 1)"

definition approved_rows :: "string \<Rightarrow> governance_state \<Rightarrow> approval_row list" where
  "approved_rows kind st = take 50 (sort_key approved_order (queue_rows kind ''approved'' st))"

text \<open>\<^verbatim>\<open>{"action_key": action_key, **payload}\<close>: a key of the payload replaces the earlier value.\<close>

definition request_payload :: "string \<Rightarrow> (string \<times> json) list \<Rightarrow> (string \<times> json) list" where
  "request_payload action_key payload = foldl (\<lambda>d kv. AList.update (fst kv) (snd kv) d) [(''action_key'', JStr action_key)] payload"

definition file_request :: "string \<Rightarrow> string \<Rightarrow> string \<Rightarrow> (string \<times> json) list \<Rightarrow> nat option \<Rightarrow> string \<Rightarrow> instant \<Rightarrow> governance_state
    \<Rightarrow> (gate_refusal + gate_grant) \<times> governance_state" where
  "file_request kind actor action_key payload ttl new_id now st =
     (case find (names_action action_key) (if gov_outcome st = Req_Ok then take 100 (queue_rows kind ''pending'' st) else []) of
        Some r \<Rightarrow> (Inl (Awaiting r), gov_after st)
      | None \<Rightarrow>
          (case propose kind actor (request_payload action_key payload) None None 0 ttl new_id now (gov_after st) of
             (Inl e, st1) \<Rightarrow> (Inl (Not_Queued e), st1)
           | (Inr q, st1) \<Rightarrow> (Inl (No_Approved_Grant q), st1)))"

definition consume_operational_approval :: "string \<Rightarrow> string \<Rightarrow> string \<Rightarrow> (string \<times> json) list \<Rightarrow> nat option \<Rightarrow> string \<Rightarrow> instant \<Rightarrow> governance_state
    \<Rightarrow> (gate_refusal + gate_grant) \<times> governance_state" where
  "consume_operational_approval kind actor action_key payload ttl new_id now st =
     (if kind \<notin> set OPERATIONAL_KINDS then (Inl Not_Operational_Kind, st)
      else if actor = [] \<or> action_key = [] then (Inl Ids_Required, st)
      else if \<not> gov_ready st then (Inl Governance_Unavailable, st)
      else if gov_outcome st = Req_Raise then (Inl Lookup_Failed, gov_after st)
      else case find (names_action action_key) (if gov_outcome st = Req_Ok then approved_rows kind st else []) of
        Some r \<Rightarrow> (Inr (By_Approval r), mark_executed (ap_id r) now (gov_after st))
      | None \<Rightarrow>
          (case consume kind action_key actor now (gov_grants st) of (c, gs) \<Rightarrow>
             let st1 = (gov_after st)\<lparr>gov_grants := gs\<rparr> in
             if authorized c then (Inr (By_Bounded_Grant c), st1)
             else file_request kind actor action_key payload ttl new_id now st1))"

subsection \<open>Sweeping and listing\<close>

definition expire_approval :: "instant \<Rightarrow> approval_row \<Rightarrow> approval_row" where
  "expire_approval now r = (if ap_status r = ''pending'' \<and> ap_expires r < now then r\<lparr>ap_status := ''expired''\<rparr> else r)"

definition expire_nomination :: "instant \<Rightarrow> nomination_row \<Rightarrow> nomination_row" where
  "expire_nomination now n = (if nom_status n = ''pending'' \<and> nom_expires n < now then n\<lparr>nom_status := ''expired''\<rparr> else n)"

definition sweep_expired :: "instant \<Rightarrow> governance_state \<Rightarrow> nat \<times> governance_state" where
  "sweep_expired now st =
     (if \<not> gov_ready st then (0, st)
      else if gov_outcome st = Req_Raise then (0, gov_after st)
      else (let hit = filter (\<lambda>r. ap_status r = ''pending'' \<and> ap_expires r < now) (approvals_table st);
                st1 = (if gov_outcome st = Req_Ok then (gov_after st)\<lparr>approvals_table := map (expire_approval now) (approvals_table st)\<rparr> else gov_after st);
                n = (if gov_outcome st = Req_Ok then length hit else 0)
            in case gov_outcome st1 of
                 Req_Raise \<Rightarrow> (0, gov_after st1)
               | Req_None \<Rightarrow> (n, gov_after st1)
               | Req_Ok \<Rightarrow> (n, (gov_after st1)\<lparr>nominations_table := map (expire_nomination now) (nominations_table st1)\<rparr>)))"

definition list_pending :: "string option \<Rightarrow> nat \<Rightarrow> governance_state \<Rightarrow> approval_row list \<times> governance_state" where
  "list_pending kind limit st =
     (if \<not> gov_ready st then ([], st)
      else (if gov_outcome st = Req_Ok
            then take limit (sort_key (\<lambda>r. - ap_confidence r) (sort_key (\<lambda>r. - int (ap_created r))
                   (filter (\<lambda>r. ap_chapter r = gov_agent st \<and> ap_status r = ''pending'' \<and> (truthy_str kind \<longrightarrow> kind = Some (ap_kind r))) (approvals_table st))))
            else [], gov_after st))"

subsection \<open>Nominations\<close>

datatype nomination_reply =
    Invalid_Target_Role
  | Invalid_Signal
  | Invalid_Decision
  | Nom_Not_Authorized
  | Nom_Not_Found
  | Already_Resolved string
  | Only_Admin_Can_Promote
  | Nom_Failed
  | Nom_Row nomination_row

definition nominate :: "string \<Rightarrow> string \<Rightarrow> string \<Rightarrow> string \<Rightarrow> string \<Rightarrow> instant \<Rightarrow> governance_state \<Rightarrow> nomination_reply \<times> governance_state" where
  "nominate nominator nominee target_role reason new_id now st =
     (if target_role \<notin> {''advisor'', ''leader''} then (Invalid_Target_Role, st)
      else if \<not> gov_ready st then (Nom_Failed, st)
      else if gov_outcome st \<noteq> Req_Ok \<or> new_id \<in> nom_id ` set (nominations_table st) then (Nom_Failed, gov_after st)
      else (let n = \<lparr>nom_id = new_id, nom_nominee = nominee, nom_nominator = nominator, nom_chapter = gov_agent st, nom_target_role = target_role,
                     nom_reason = take 1000 reason, nom_status = ''pending'', nom_resolved_by = None, nom_resolved_at = None, nom_note = None,
                     nom_endorsements = [], nom_created = now, nom_expires = now + DEFAULT_NOMINATION_TTL\<rparr>
            in (Nom_Row n, (gov_after st)\<lparr>nominations_table := nominations_table st @ [n]\<rparr>)))"

definition patch_nomination :: "string \<Rightarrow> (nomination_row \<Rightarrow> nomination_row) \<Rightarrow> governance_state \<Rightarrow> governance_state" where
  "patch_nomination nid body st =
     (if gov_outcome st = Req_Ok
      then (gov_after st)\<lparr>nominations_table := map (\<lambda>n. if nom_id n = nid then body n else n) (nominations_table st)\<rparr>
      else gov_after st)"

definition endorse :: "string \<Rightarrow> string \<Rightarrow> string \<Rightarrow> string \<Rightarrow> instant \<Rightarrow> governance_state \<Rightarrow> nomination_reply \<times> governance_state" where
  "endorse nid endorser signal note now st =
     (if signal \<notin> {''up'', ''down''} then (Invalid_Signal, st)
      else case is_leader endorser st of
        (False, st1) \<Rightarrow> (Nom_Not_Authorized, st1)
      | (True, st1) \<Rightarrow>
          if gov_outcome st1 = Req_Raise then (Nom_Failed, gov_after st1)
          else (case (if gov_outcome st1 = Req_Ok then find (\<lambda>n. nom_id n = nid) (nominations_table st1) else None) of
            None \<Rightarrow> (Nom_Not_Found, gov_after st1)
          | Some n \<Rightarrow>
              (let es = filter (\<lambda>e. en_endorser e \<noteq> endorser) (nom_endorsements n)
                        @ [\<lparr>en_endorser = endorser, en_signal = signal, en_note = take 500 note, en_at = now\<rparr>];
                   st2 = gov_after st1
               in (if gov_outcome st2 = Req_Ok then Nom_Row (n\<lparr>nom_endorsements := es\<rparr>) else Nom_Failed,
                   patch_nomination nid (\<lambda>n. n\<lparr>nom_endorsements := es\<rparr>) st2))))"

definition patch_role :: "string \<Rightarrow> string \<Rightarrow> governance_state \<Rightarrow> governance_state" where
  "patch_role agent role st =
     (if gov_outcome st = Req_Ok
      then (gov_after st)\<lparr>role_table := map (\<lambda>ar. if fst ar = agent then (agent, Some role) else ar) (role_table st)\<rparr>
      else gov_after st)"

definition resolved_body :: "string \<Rightarrow> string \<Rightarrow> string \<Rightarrow> instant \<Rightarrow> nomination_row \<Rightarrow> nomination_row" where
  "resolved_body decision resolver note now n =
     n\<lparr>nom_status := decision, nom_resolved_by := Some resolver, nom_resolved_at := Some now, nom_note := Some (take 500 note)\<rparr>"

definition resolve_nomination :: "string \<Rightarrow> string \<Rightarrow> string \<Rightarrow> string \<Rightarrow> instant \<Rightarrow> governance_state \<Rightarrow> nomination_reply \<times> governance_state" where
  "resolve_nomination nid resolver decision note now st =
     (if decision \<notin> {''approved'', ''rejected''} then (Invalid_Decision, st)
      else case get_chapter_role resolver st of (role, st1) \<Rightarrow>
        if role \<notin> {''admin'', ''leader''} then (Nom_Not_Authorized, st1)
        else if gov_outcome st1 = Req_Raise then (Nom_Failed, gov_after st1)
        else (case (if gov_outcome st1 = Req_Ok then find (\<lambda>n. nom_id n = nid) (nominations_table st1) else None) of
          None \<Rightarrow> (Nom_Not_Found, gov_after st1)
        | Some n \<Rightarrow>
            (let st2 = gov_after st1 in
             if nom_status n \<noteq> ''pending'' then (Already_Resolved (nom_status n), st2)
             else if nom_target_role n = ''leader'' \<and> role \<noteq> ''admin'' then (Only_Admin_Can_Promote, st2)
             else if gov_outcome st2 = Req_Raise then (Nom_Failed, gov_after st2)
             else (let st3 = patch_nomination nid (resolved_body decision resolver note now) st2;
                       reply = Nom_Row (resolved_body decision resolver note now n)
                   in if decision \<noteq> ''approved'' then (reply, st3)
                      else if gov_outcome st3 = Req_Raise then (Nom_Failed, gov_after st3)
                      else (reply, patch_role (nom_nominee n) (nom_target_role n) st3)))))"

definition list_nominations :: "string \<Rightarrow> nat \<Rightarrow> governance_state \<Rightarrow> nomination_row list \<times> governance_state" where
  "list_nominations status limit st =
     (if \<not> gov_ready st then ([], st)
      else (if gov_outcome st = Req_Ok
            then take limit (sort_key (\<lambda>n. - int (nom_created n)) (filter (\<lambda>n. nom_chapter n = gov_agent st \<and> nom_status n = status) (nominations_table st)))
            else [], gov_after st))"

subsection \<open>Frames\<close>

lemma kinds_agree: "set kind_check = set APPROVAL_KINDS"
  by (auto simp: kind_check_def APPROVAL_KINDS_def OPERATIONAL_KINDS_def)

lemma gov_after_sel [simp]:
  "approvals_table (gov_after st) = approvals_table st" "nominations_table (gov_after st) = nominations_table st" "role_table (gov_after st) = role_table st"
  "gov_ready (gov_after st) = gov_ready st" "gov_agent (gov_after st) = gov_agent st" "gov_grants (gov_after st) = gov_grants st"
  "gov_requests (gov_after st) = tl (gov_requests st)"
  by (simp_all add: gov_after_def)

lemma queue_rows_after [simp]: "queue_rows kind status (gov_after st) = queue_rows kind status st"
  by (simp add: queue_rows_def)

lemma get_chapter_role_frame: "get_chapter_role a st = (r, st1) \<Longrightarrow> st1 = st \<or> st1 = gov_after st"
  by (auto simp: get_chapter_role_def split: if_splits)

lemma role_checks_frame:
  "can_approve a st = (b, st1) \<Longrightarrow> st1 = st \<or> st1 = gov_after st"
  "is_leader a st = (b, st1) \<Longrightarrow> st1 = st \<or> st1 = gov_after st"
  by (auto simp: can_approve_def is_leader_def split: prod.splits dest: get_chapter_role_frame)

lemma propose_shape:
  assumes "propose kind proposer payload target peer confidence ttl new_id now st = (r, st1)"
  shows "(\<exists>e. r = Inl e) \<and> approvals_table st1 = approvals_table st
    \<or> (\<exists>row. r = Inr row \<and> approvals_table st1 = approvals_table st @ [row] \<and> ap_status row = ''pending'' \<and> ap_by row = None \<and> ap_at row = None
        \<and> ap_id row = new_id \<and> new_id \<notin> ap_id ` set (approvals_table st) \<and> ap_kind row = kind \<and> ap_chapter row = gov_agent st \<and> ap_payload row = payload)"
  using assms by (auto simp: propose_def Let_def split: if_splits request_outcome.splits)

lemma propose_quiet:
  "gov_requests st = [] \<Longrightarrow> propose kind proposer payload target peer confidence ttl new_id now st = (Inr row, st1) \<Longrightarrow>
     st1 = st\<lparr>approvals_table := approvals_table st @ [row]\<rparr>"
  by (auto simp: propose_def Let_def gov_after_def split: if_splits)

lemma propose_frame:
  "propose kind proposer payload target peer confidence ttl new_id now st = (r, st1) \<Longrightarrow>
     gov_agent st1 = gov_agent st \<and> gov_ready st1 = gov_ready st \<and> gov_grants st1 = gov_grants st \<and> (gov_requests st = [] \<longrightarrow> gov_requests st1 = [])"
  by (auto simp: propose_def Let_def split: if_splits request_outcome.splits)

subsection \<open>Decisions are taken in time\<close>

definition decided :: "approval_row \<Rightarrow> bool" where
  "decided r \<longleftrightarrow> (\<exists>by t. ap_by r = Some by \<and> ap_at r = Some t \<and> t < ap_expires r)"

definition row_ok :: "approval_row \<Rightarrow> bool" where
  "row_ok r \<longleftrightarrow> (if ap_status r \<in> {''approved'', ''executed'', ''rejected''} then decided r else ap_status r \<in> {''pending'', ''expired''})"

definition queue_ok :: "governance_state \<Rightarrow> bool" where
  "queue_ok st \<longleftrightarrow> distinct (map ap_id (approvals_table st)) \<and> (\<forall>r \<in> set (approvals_table st). row_ok r)"

lemma queue_ok_after [simp]: "queue_ok (gov_after st) = queue_ok st"
  by (simp add: queue_ok_def)

lemma queue_ok_map:
  assumes "queue_ok st" "approvals_table st1 = map f (approvals_table st)" "\<And>r. ap_id (f r) = ap_id r"
    "\<And>r. r \<in> set (approvals_table st) \<Longrightarrow> row_ok r \<Longrightarrow> row_ok (f r)"
  shows "queue_ok st1"
proof -
  have "map ap_id (map f (approvals_table st)) = map ap_id (approvals_table st)" using assms(3) by simp
  with assms show ?thesis unfolding queue_ok_def by (metis (no_types, lifting) imageE set_map)
qed

lemma queue_ok_same: "queue_ok st \<Longrightarrow> approvals_table st1 = approvals_table st \<Longrightarrow> queue_ok st1"
  by (simp add: queue_ok_def)

lemma row_ok_open: "ap_status r \<in> {''pending'', ''expired''} \<Longrightarrow> row_ok r"
  by (auto simp: row_ok_def)

lemma propose_ok: "queue_ok st \<Longrightarrow> propose kind proposer payload target peer confidence ttl new_id now st = (r, st1) \<Longrightarrow> queue_ok st1"
  by (drule propose_shape) (auto simp: queue_ok_def row_ok_open)

lemma patch_decision_ok:
  assumes "queue_ok st" "patch_decision body aid now st = (r, st1)" "\<And>x. ap_id (body x) = ap_id x"
    "\<And>x. ap_status x = ''pending'' \<Longrightarrow> now < ap_expires x \<Longrightarrow> row_ok (body x)"
  shows "queue_ok st1"
proof (cases "gov_ready st \<and> gov_outcome st = Req_Ok")
  case True
  with assms(2) have "approvals_table st1 = map (\<lambda>r. if decidable_row aid now r then body r else r) (approvals_table st)"
    by (auto simp: patch_decision_def)
  then show ?thesis by (rule queue_ok_map [OF assms(1)]) (simp_all add: assms(3,4) decidable_row_def)
next
  case False
  with assms(1,2) show ?thesis by (auto simp: patch_decision_def split: if_splits)
qed

lemma bodies_ok:
  "now < ap_expires x \<Longrightarrow> row_ok (approved_body approver now x)" "now < ap_expires x \<Longrightarrow> row_ok (rejected_body approver reason now x)"
  "ap_id (approved_body approver now x) = ap_id x" "ap_id (rejected_body approver reason now x) = ap_id x"
  by (simp_all add: approved_body_def rejected_body_def row_ok_def decided_def)

lemma approve_ok: "queue_ok st \<Longrightarrow> approve aid approver pre now st = (r, st1) \<Longrightarrow> queue_ok st1"
  by (auto simp: approve_def bodies_ok split: prod.splits bool.splits if_splits dest!: role_checks_frame elim!: patch_decision_ok [rotated])

lemma reject_ok: "queue_ok st \<Longrightarrow> reject aid approver reason pre now st = (r, st1) \<Longrightarrow> queue_ok st1"
  by (auto simp: reject_def bodies_ok split: prod.splits bool.splits if_splits dest!: role_checks_frame elim!: patch_decision_ok [rotated])

lemma mark_executed_table:
  "approvals_table (mark_executed aid now st) =
     (if gov_ready st \<and> gov_outcome st = Req_Ok
      then map (\<lambda>r. if ap_id r = aid then r\<lparr>ap_status := ''executed'', ap_executed := Some now\<rparr> else r) (approvals_table st) else approvals_table st)"
  by (simp add: mark_executed_def)

lemma mark_executed_ok:
  assumes "queue_ok st" "\<forall>r \<in> set (approvals_table st). ap_id r = aid \<longrightarrow> ap_status r = ''approved''"
  shows "queue_ok (mark_executed aid now st)"
proof (cases "gov_ready st \<and> gov_outcome st = Req_Ok")
  case True
  then have "approvals_table (mark_executed aid now st) =
      map (\<lambda>r. if ap_id r = aid then r\<lparr>ap_status := ''executed'', ap_executed := Some now\<rparr> else r) (approvals_table st)"
    by (simp add: mark_executed_table)
  then show ?thesis
    by (rule queue_ok_map [OF assms(1)]) (use assms(2) in \<open>auto simp: row_ok_def decided_def\<close>)
next
  case False
  with assms(1) show ?thesis by (auto intro!: queue_ok_same [OF assms(1)] simp: mark_executed_table)
qed

lemma approved_rows_mem: "r \<in> set (approved_rows kind st) \<Longrightarrow> r \<in> set (queue_rows kind ''approved'' st)"
  by (auto simp: approved_rows_def dest: in_set_takeD)

lemma queue_rows_mem: "r \<in> set (queue_rows kind status st) \<longleftrightarrow>
    r \<in> set (approvals_table st) \<and> ap_chapter r = gov_agent st \<and> ap_kind r = kind \<and> ap_status r = status"
  by (auto simp: queue_rows_def)

lemma same_id: "queue_ok st \<Longrightarrow> x \<in> set (approvals_table st) \<Longrightarrow> y \<in> set (approvals_table st) \<Longrightarrow> ap_id x = ap_id y \<Longrightarrow> x = y"
  by (metis distinct_map inj_onD queue_ok_def)

text \<open>The three ways a call of the gate ends.\<close>

lemma gate_cases [consumes 1, case_names early approval bounded filed]:
  assumes "consume_operational_approval kind actor key payload ttl new_id now st = (r, st1)"
  obtains (early) e where "r = Inl e" "st1 = st \<or> st1 = gov_after st" "e \<in> {Not_Operational_Kind, Ids_Required, Governance_Unavailable, Lookup_Failed}"
  | (approval) row where "r = Inr (By_Approval row)" "row \<in> set (approved_rows kind st)" "names_action key row" "gov_ready st" "gov_outcome st = Req_Ok"
      "st1 = mark_executed (ap_id row) now (gov_after st)"
  | (bounded) c gs where "r = Inr (By_Bounded_Grant c)" "consume kind key actor now (gov_grants st) = (c, gs)" "authorized c" "st1 = (gov_after st)\<lparr>gov_grants := gs\<rparr>"
  | (filed) c gs where "consume kind key actor now (gov_grants st) = (c, gs)" "\<not> authorized c" "kind \<in> set OPERATIONAL_KINDS" "actor \<noteq> []" "key \<noteq> []" "gov_ready st"
      "find (names_action key) (if gov_outcome st = Req_Ok then approved_rows kind st else []) = None"
      "file_request kind actor key payload ttl new_id now ((gov_after st)\<lparr>gov_grants := gs\<rparr>) = (r, st1)"
proof (cases "kind \<notin> set OPERATIONAL_KINDS \<or> actor = [] \<or> key = [] \<or> \<not> gov_ready st \<or> gov_outcome st = Req_Raise")
  case True
  with assms have "(\<exists>e. r = Inl e \<and> e \<in> {Not_Operational_Kind, Ids_Required, Governance_Unavailable, Lookup_Failed}) \<and> (st1 = st \<or> st1 = gov_after st)"
    by (simp add: consume_operational_approval_def split: if_splits) blast+
  with early show thesis by blast
next
  case False
  obtain c gs where c: "consume kind key actor now (gov_grants st) = (c, gs)" by fastforce
  let ?rows = "if gov_outcome st = Req_Ok then approved_rows kind st else []"
  show thesis
  proof (cases "find (names_action key) ?rows")
    case None
    with False assms c bounded filed show thesis by (auto simp: consume_operational_approval_def Let_def split: if_splits)
  next
    case (Some row)
    note row = conjunct1 [OF find_SomeD [OF Some]] conjunct2 [OF find_SomeD [OF Some]]
    from row(1) have "gov_outcome st = Req_Ok" "row \<in> set (approved_rows kind st)" by (simp_all split: if_splits)
    moreover have "r = Inr (By_Approval row)" "st1 = mark_executed (ap_id row) now (gov_after st)"
      using False Some assms by (simp_all add: consume_operational_approval_def)
    ultimately show thesis using False row(2) approval by simp
  qed
qed

lemma file_request_shape:
  assumes "file_request kind actor key payload ttl new_id now st = (r, st1)"
  shows "(\<exists>e. r = Inl e) \<and> (approvals_table st1 = approvals_table st
    \<or> (\<exists>row. approvals_table st1 = approvals_table st @ [row] \<and> ap_status row = ''pending'' \<and> ap_id row \<notin> ap_id ` set (approvals_table st)))"
  using assms by (auto simp: file_request_def split: option.splits prod.splits sum.splits if_splits dest!: propose_shape)

lemma file_request_ok: "queue_ok st \<Longrightarrow> file_request kind actor key payload ttl new_id now st = (r, st1) \<Longrightarrow> queue_ok st1"
  by (drule file_request_shape) (auto simp: queue_ok_def row_ok_open)

lemma gate_ok:
  assumes "queue_ok st" "consume_operational_approval kind actor key payload ttl new_id now st = (r, st1)"
  shows "queue_ok st1"
  using assms(2)
proof (cases rule: gate_cases)
  case (early e)
  with assms(1) show ?thesis by auto
next
  case (approval row)
  have row: "row \<in> set (approvals_table st)" "ap_status row = ''approved''" using approved_rows_mem [OF approval(2)] by (auto simp: queue_rows_mem)
  have "\<forall>x \<in> set (approvals_table st). ap_id x = ap_id row \<longrightarrow> ap_status x = ''approved''"
    using same_id [OF assms(1) _ row(1)] row(2) by blast
  with approval(6) assms(1) show ?thesis by (simp add: mark_executed_ok)
next
  case (bounded c gs)
  with assms(1) show ?thesis by (auto intro: queue_ok_same)
next
  case (filed c gs)
  have "queue_ok ((gov_after st)\<lparr>gov_grants := gs\<rparr>)" using assms(1) by (rule queue_ok_same) simp
  with filed(8) show ?thesis using file_request_ok by blast
qed

lemma sweep_table: "sweep_expired now st = (n, st1) \<Longrightarrow>
    approvals_table st1 = approvals_table st \<or> approvals_table st1 = map (expire_approval now) (approvals_table st)"
  by (auto simp: sweep_expired_def Let_def split: if_splits request_outcome.splits)

lemma sweep_ok:
  assumes "queue_ok st" "sweep_expired now st = (n, st1)"
  shows "queue_ok st1"
  using sweep_table [OF assms(2)]
proof
  assume "approvals_table st1 = map (expire_approval now) (approvals_table st)"
  then show ?thesis by (rule queue_ok_map [OF assms(1)]) (simp_all add: expire_approval_def row_ok_open)
qed (rule queue_ok_same [OF assms(1)])

text \<open>The executor of the think cycle marks rows it read as approved.\<close>

inductive gov_step :: "governance_state \<Rightarrow> governance_state \<Rightarrow> bool" where
  Propose: "propose kind proposer payload target peer confidence ttl new_id now st = (r, st1) \<Longrightarrow> gov_step st st1"
| Approve: "approve aid approver pre now st = (d, st1) \<Longrightarrow> gov_step st st1"
| Reject: "reject aid approver reason pre now st = (d, st1) \<Longrightarrow> gov_step st st1"
| Gate: "consume_operational_approval kind actor key payload ttl new_id now st = (g, st1) \<Longrightarrow> gov_step st st1"
| Run_Approved: "r \<in> set (approvals_table st) \<Longrightarrow> ap_status r = ''approved'' \<Longrightarrow> gov_step st (mark_executed (ap_id r) now st)"
| Sweep: "sweep_expired now st = (n, st1) \<Longrightarrow> gov_step st st1"

inductive gov_run :: "governance_state \<Rightarrow> bool" where
  Start: "approvals_table st = [] \<Longrightarrow> gov_run st"
| Step: "gov_run st \<Longrightarrow> gov_step st st1 \<Longrightarrow> gov_run st1"

lemma gov_step_ok: "gov_step st st1 \<Longrightarrow> queue_ok st \<Longrightarrow> queue_ok st1"
proof (induction rule: gov_step.induct)
  case (Run_Approved r st now)
  then show ?case using same_id mark_executed_ok by metis
qed (blast intro: propose_ok approve_ok reject_ok gate_ok sweep_ok)+

lemma gov_run_ok: "gov_run st \<Longrightarrow> queue_ok st"
proof (induction rule: gov_run.induct)
  case (Start st)
  then show ?case by (simp add: queue_ok_def)
qed (rule gov_step_ok)


definition usable :: "string \<Rightarrow> string \<Rightarrow> governance_state \<Rightarrow> approval_row list" where
  "usable kind key st = filter (names_action key) (queue_rows kind ''approved'' st)"

definition demo_gov :: governance_state where
  "demo_gov = \<lparr>gov_ready = True, gov_agent = ''acme'', approvals_table = [], nominations_table = [], role_table = [(''ada'', Some ''leader''), (''root'', Some ''admin'')],
     gov_requests = [], gov_grants = demo_store\<rparr>"

definition demo_filed :: governance_state where
  "demo_filed = snd (consume_operational_approval ''send_external'' ''bot'' ''mail:a'' [] (Some 50) ''r1'' 10 demo_gov)"

definition demo_approved :: governance_state where
  "demo_approved = snd (approve ''r1'' ''ada'' False 11 demo_filed)"

lemma demo_approved_row:
  "length (approvals_table demo_approved) = 1" "ap_status (hd (approvals_table demo_approved)) = ''approved''"
  "length (usable ''send_external'' ''mail:a'' demo_approved) = 1" "gov_requests demo_approved = []"
  by code_simp+

lemma demo_approved_run: "gov_run demo_approved"
proof -
  have "gov_run demo_gov" by (rule Start) (simp add: demo_gov_def)
  then have "gov_run demo_filed" by (rule Step) (unfold demo_filed_def, rule Gate [OF surjective_pairing])
  then show ?thesis by (rule Step) (unfold demo_approved_def, rule Approve [OF surjective_pairing])
qed


subsection \<open>An approval authorises one action\<close>

lemma usable_cong: "approvals_table st1 = approvals_table st \<Longrightarrow> gov_agent st1 = gov_agent st \<Longrightarrow> usable kind key st1 = usable kind key st"
  by (simp add: usable_def queue_rows_def)

lemma usable_append:
  assumes "approvals_table st1 = approvals_table st @ [row]" "ap_status row = ''pending''" "gov_agent st1 = gov_agent st"
  shows "usable kind key st1 = usable kind key st"
  using assms by (simp add: usable_def queue_rows_def)

lemma file_request_frame:
  "file_request kind actor key payload ttl new_id now st = (r, st1) \<Longrightarrow>
     gov_agent st1 = gov_agent st \<and> gov_ready st1 = gov_ready st \<and> (gov_requests st = [] \<longrightarrow> gov_requests st1 = [])"
  by (auto simp: file_request_def split: option.splits prod.splits sum.splits if_splits dest!: propose_frame)

lemma file_request_usable: "file_request kind actor key payload ttl new_id now st = (r, st1) \<Longrightarrow> usable k' key' st1 = usable k' key' st"
  using file_request_shape [of kind actor key payload ttl new_id now st r st1] file_request_frame [of kind actor key payload ttl new_id now st r st1]
  by (metis usable_append usable_cong)

lemma mark_executed_usable:
  assumes "queue_ok st" "row \<in> set (usable kind key st)" "gov_ready st" "gov_outcome st = Req_Ok"
  shows "usable k' key' (mark_executed (ap_id row) now st) = filter (\<lambda>r. r \<noteq> row) (usable k' key' st)"
proof -
  let ?f = "\<lambda>r. if ap_id r = ap_id row then r\<lparr>ap_status := ''executed'', ap_executed := Some now\<rparr> else r"
  let ?P = "\<lambda>r. names_action key' r \<and> ap_chapter r = gov_agent st \<and> ap_kind r = k' \<and> ap_status r = ''approved''"
  have row: "row \<in> set (approvals_table st)" using assms(2) by (auto simp: usable_def queue_rows_mem)
  have "filter ?P (map ?f xs) = filter (\<lambda>r. r \<noteq> row) (filter ?P xs)" if "set xs \<subseteq> set (approvals_table st)" for xs
    using that
  proof (induction xs)
    case (Cons x xs)
    then have "ap_id x = ap_id row \<longleftrightarrow> x = row" using same_id [OF assms(1) _ row] by auto
    with Cons show ?case by auto
  qed simp
  moreover have "gov_agent (mark_executed (ap_id row) now st) = gov_agent st" by (simp add: mark_executed_def)
  ultimately show ?thesis using assms(3,4)
    by (simp add: usable_def queue_rows_def mark_executed_table conj_commute conj_left_commute)
qed

lemma length_filter_neq: "distinct xs \<Longrightarrow> x \<in> set xs \<Longrightarrow> length (filter (\<lambda>y. y \<noteq> x) xs) + 1 = length xs"
proof (induction xs)
  case (Cons a xs)
  then show ?case by (cases "a = x") (auto simp: filter_id_conv intro!: arg_cong [where f = length])
qed simp

lemma usable_distinct: "queue_ok st \<Longrightarrow> distinct (usable kind key st)"
  by (simp add: usable_def queue_rows_def queue_ok_def distinct_map)

lemma usable_names: "r \<in> set (usable kind key st) \<Longrightarrow> r \<in> set (usable k' key' st) \<Longrightarrow> kind = k' \<and> key = key'"
  by (auto simp: usable_def queue_rows_mem names_action_def)

definition spent_by :: "string \<Rightarrow> string \<Rightarrow> (gate_refusal + gate_grant) \<Rightarrow> nat" where
  "spent_by kind key r = (case r of Inr (By_Approval row) \<Rightarrow> if ap_kind row = kind \<and> names_action key row then 1 else 0 | _ \<Rightarrow> 0)"

lemma gate_spends:
  assumes "queue_ok st" "gov_requests st = []" "consume_operational_approval kind actor key payload ttl new_id now st = (r, st1)"
  shows "length (usable k' key' st1) + spent_by k' key' r = length (usable k' key' st) \<and> gov_requests st1 = []"
  using assms(3)
proof (cases rule: gate_cases)
  case (early e)
  then have "usable k' key' st1 = usable k' key' st" by (auto intro: usable_cong)
  with early assms(2) show ?thesis by (auto simp: spent_by_def)
next
  case (approval row)
  have row: "row \<in> set (usable kind key st)" using approved_rows_mem [OF approval(2)] approval(3) by (simp add: usable_def)
  have st: "gov_after st = st" using assms(2) by (simp add: gov_after_def)
  have u: "usable k' key' st1 = filter (\<lambda>x. x \<noteq> row) (usable k' key' st)"
    using mark_executed_usable [OF assms(1) row approval(4,5)] approval(6) st by simp
  have "gov_requests st1 = []" using approval(6) assms(2) by (simp add: mark_executed_def)
  moreover have "row \<in> set (usable k' key' st) \<longleftrightarrow> ap_kind row = k' \<and> names_action key' row"
    using row by (auto simp: usable_def queue_rows_mem)
  ultimately show ?thesis
    using u length_filter_neq [OF usable_distinct [OF assms(1), of k' key'], of row] approval(1)
    by (auto simp: spent_by_def filter_id_conv intro!: arg_cong [where f = length])
next
  case (bounded c gs)
  then have "usable k' key' st1 = usable k' key' st" by (auto intro: usable_cong)
  with bounded assms(2) show ?thesis by (simp add: spent_by_def)
next
  case (filed c gs)
  have "usable k' key' ((gov_after st)\<lparr>gov_grants := gs\<rparr>) = usable k' key' st" by (rule usable_cong) simp_all
  with filed(8) file_request_usable file_request_frame [OF filed(8)] file_request_shape [OF filed(8)] assms(2)
  show ?thesis by (auto simp: spent_by_def)
qed

record gate_call =
  gc_kind :: string
  gc_actor :: string
  gc_key :: string
  gc_payload :: "(string \<times> json) list"
  gc_ttl :: "nat option"
  gc_id :: string
  gc_now :: instant

fun gate_calls :: "gate_call list \<Rightarrow> governance_state \<Rightarrow> (gate_refusal + gate_grant) list \<times> governance_state" where
  "gate_calls [] st = ([], st)"
| "gate_calls (c # cs) st =
     (case consume_operational_approval (gc_kind c) (gc_actor c) (gc_key c) (gc_payload c) (gc_ttl c) (gc_id c) (gc_now c) st of
        (r, st1) \<Rightarrow> (case gate_calls cs st1 of (rs, st2) \<Rightarrow> (r # rs, st2)))"

text \<open>C16: C: Approvals are single use: however often the gate is called while requests succeed, the actions authorised by approvals under a kind
  and key, together with the approvals still open for it, are exactly the approvals there were.\<close>

theorem approvals_are_single_use:
  assumes "gov_run st" "gov_requests st = []" "gate_calls cs st = (rs, st1)"
  shows "length (usable kind key st1) + sum_list (map (spent_by kind key) rs) = length (usable kind key st)"
proof -
  have "length (usable kind key st1) + sum_list (map (spent_by kind key) rs) = length (usable kind key st)"
    if "queue_ok st" "gov_requests st = []" "gate_calls cs st = (rs, st1)" for st rs
    using that
  proof (induction cs arbitrary: st rs)
    case (Cons c cs)
    obtain r s where r: "consume_operational_approval (gc_kind c) (gc_actor c) (gc_key c) (gc_payload c) (gc_ttl c) (gc_id c) (gc_now c) st = (r, s)" by fastforce
    with Cons.prems(3) obtain rs' where rs: "gate_calls cs s = (rs', st1)" "rs = r # rs'" by (auto split: prod.splits)
    note g = gate_spends [OF Cons.prems(1,2) r, of kind key]
    with Cons.IH [OF gate_ok [OF Cons.prems(1) r] _ rs(1)] rs(2) show ?case by simp
  qed simp
  with assms gov_run_ok show ?thesis by blast
qed

definition demo_calls :: "gate_call list" where
  "demo_calls = replicate 3 \<lparr>gc_kind = ''send_external'', gc_actor = ''bot'', gc_key = ''mail:a'', gc_payload = [], gc_ttl = Some 50, gc_id = ''r2'', gc_now = 12\<rparr>"

theorem approvals_are_single_use_witness:
  "sum_list (map (spent_by ''send_external'' ''mail:a'') (fst (gate_calls demo_calls demo_approved))) = 1
   \<and> usable ''send_external'' ''mail:a'' (snd (gate_calls demo_calls demo_approved)) = []"
proof -
  have u: "length (usable ''send_external'' ''mail:a'' (snd (gate_calls demo_calls demo_approved))) = 0" by code_simp
  with approvals_are_single_use [OF demo_approved_run demo_approved_row(4) surjective_pairing, of "''send_external''" "''mail:a''" demo_calls] demo_approved_row(3)
  show ?thesis by simp
qed

lemma gate_granted:
  assumes "consume_operational_approval kind actor key payload ttl new_id now st = (Inr g, st1)"
  shows "case g of
      By_Approval row \<Rightarrow> row \<in> set (approvals_table st) \<and> ap_status row = ''approved'' \<and> ap_chapter row = gov_agent st \<and> ap_kind row = kind \<and> names_action key row
    | By_Bounded_Grant c \<Rightarrow> authorized c \<and> c = fst (consume kind key actor now (gov_grants st))"
  using assms
proof (cases rule: gate_cases)
  case (approval row)
  then show ?thesis using approved_rows_mem [OF approval(2)] by (simp add: queue_rows_mem)
next
  case (filed c gs)
  then show ?thesis using file_request_shape by blast
qed simp_all

lemma gate_refused:
  assumes "consume_operational_approval kind actor key payload ttl new_id now st = (Inl e, st1)"
  shows "usable k a st1 = usable k a st"
  using assms
proof (cases rule: gate_cases)
  case (filed c gs)
  have "usable k a ((gov_after st)\<lparr>gov_grants := gs\<rparr>) = usable k a st" by (rule usable_cong) simp_all
  with file_request_usable [OF filed(8)] show ?thesis by simp
qed (auto intro: usable_cong)

text \<open>C: The gate authorises an action only through an approved row of this chapter, kind and exact action key, or through a bounded grant that
  authorised it; every other end of the call is a refusal that opens nothing: it approves no row.\<close>

theorem gate_needs_a_grant:
  assumes "consume_operational_approval kind actor key payload ttl new_id now st = (r, st1)"
  shows "case r of
      Inr (By_Approval row) \<Rightarrow> row \<in> set (approvals_table st) \<and> ap_status row = ''approved'' \<and> ap_chapter row = gov_agent st \<and> ap_kind row = kind \<and> names_action key row
    | Inr (By_Bounded_Grant c) \<Rightarrow> authorized c \<and> c = fst (consume kind key actor now (gov_grants st))
    | Inl _ \<Rightarrow> \<forall>k a. usable k a st1 = usable k a st"
  using assms gate_granted [of kind actor key payload ttl new_id now st _ st1] gate_refused [of kind actor key payload ttl new_id now st _ st1]
  by (auto split: sum.splits gate_grant.splits)

theorem gate_needs_a_grant_witness:
  "case fst (consume_operational_approval ''send_external'' ''bot'' ''mail:a'' [] (Some 50) ''r1'' 10 demo_gov) of
      Inr (By_Approval row) \<Rightarrow> False | Inr (By_Bounded_Grant c) \<Rightarrow> False
    | Inl _ \<Rightarrow> usable ''send_external'' ''mail:a'' (snd (consume_operational_approval ''send_external'' ''bot'' ''mail:a'' [] (Some 50) ''r1'' 10 demo_gov)) = []"
proof -
  have r: "isl (fst (consume_operational_approval ''send_external'' ''bot'' ''mail:a'' [] (Some 50) ''r1'' 10 demo_gov))" by code_simp
  have "usable ''send_external'' ''mail:a'' demo_gov = []" by code_simp
  with r gate_needs_a_grant [OF surjective_pairing, of "''send_external''" "''bot''" "''mail:a''" "[]" "Some 50" "''r1''" 10 demo_gov]
  show ?thesis by (auto split: sum.splits gate_grant.splits)
qed

subsection \<open>Repeated requests\<close>

lemma request_payload_key: "''action_key'' \<notin> fst ` set payload \<Longrightarrow> obj_get (request_payload key payload) ''action_key'' = JStr key"
proof -
  have "''action_key'' \<notin> fst ` set payload \<Longrightarrow> obj_get (foldl (\<lambda>d kv. AList.update (fst kv) (snd kv) d) d payload) ''action_key'' = obj_get d ''action_key''" for d
    by (induction payload arbitrary: d) (auto simp: update_conv')
  then show "''action_key'' \<notin> fst ` set payload \<Longrightarrow> obj_get (request_payload key payload) ''action_key'' = JStr key"
    by (simp add: request_payload_def)
qed

lemma unauthorised_later:
  assumes "store_requests gs = []" "consume kind key actor now gs = (c, gs1)" "\<not> authorized c" "now \<le> now'"
  shows "gs1 = gs \<and> \<not> authorized (fst (consume kind key actor now' gs)) \<and> snd (consume kind key actor now' gs) = gs"
proof -
  have after: "store_after gs = gs" using assms(1) by (simp add: store_after_def)
  have no: "\<not> (grant_chapter g = store_chapter gs \<and> grant_kind g = kind \<and> scope_covers (grant_scope g) key \<and> spendable now g)"
    if "g \<in> set (grants gs)" "store_ready gs" for g
    using live_grant_authorises [OF that(2) _ that(1), of kind key now actor] assms(1-3) by auto
  have none: "select_grant \<lparr>call_chapter = store_chapter gs, call_kind = kind, call_key = key, call_actor = actor, call_now = t\<rparr> gs = None"
    if "store_ready gs" "now \<le> t" for t
    using no that by (auto simp: select_grant_def grant_covers_def spendable_def)
  have "consume kind key actor t gs = (if store_ready gs then not_spent ''no_matching_grant'' else not_spent ''governance store unavailable'', gs)"
    if "now \<le> t" for t
    using none [OF _ that] assms(1) by (simp add: consume_def after consume_operational_grant_def)
  from this [of now] this [of now'] assms(2,4) show ?thesis by (simp add: not_spent_def)
qed

text \<open>C: An agent that retries does not fill the queue: after a call filed a request, every later identical call while it is pending waits for
  that key and changes nothing, as long as fewer than a hundred requests of the kind are open.\<close>

theorem retry_files_nothing:
  assumes "gov_requests st = []" "store_requests (gov_grants st) = []" "length (queue_rows kind ''pending'' st) < 100"
    "''action_key'' \<notin> fst ` set payload" "now \<le> now'"
    "consume_operational_approval kind actor key payload ttl new_id now st = (Inl (No_Approved_Grant q), st1)"
  shows "\<exists>w. names_action key w \<and> consume_operational_approval kind actor key payload ttl' new_id' now' st1 = (Inl (Awaiting w), st1)"
  using assms(6)
proof (cases rule: gate_cases)
  case (filed c gs)
  have st: "gov_after st = st" using assms(1) by (simp add: gov_after_def)
  note later = unauthorised_later [OF assms(2) filed(1,2) assms(5)]
  then have f: "file_request kind actor key payload ttl new_id now st = (Inl (No_Approved_Grant q), st1)" using filed(8) st by simp
  let ?pl = "request_payload key payload"
  from f have p: "propose kind actor ?pl None None 0 ttl new_id now st = (Inr q, st1)"
    by (auto simp: file_request_def st split: option.splits prod.splits sum.splits)
  from propose_quiet [OF assms(1) p] propose_shape [OF p]
  have q: "st1 = st\<lparr>approvals_table := approvals_table st @ [q]\<rparr>" "ap_status q = ''pending''" "ap_kind q = kind" "ap_chapter q = gov_agent st" "ap_payload q = ?pl" by auto
  have nq: "names_action key q" using request_payload_key [OF assms(4)] q(5) by (simp add: names_action_def)
  have rows: "approved_rows kind st1 = approved_rows kind st" "queue_rows kind ''pending'' st1 = queue_rows kind ''pending'' st @ [q]"
    using q by (simp_all add: approved_rows_def queue_rows_def)
  have st1: "gov_after st1 = st1" "gov_requests st1 = []" "gov_ready st1 = gov_ready st" "gov_grants st1 = gov_grants st"
    using q(1) assms(1) by (simp_all add: gov_after_def)
  have same: "(gov_after st1)\<lparr>gov_grants := gov_grants st\<rparr> = st1" using q(1) assms(1) by (simp add: gov_after_def)
  obtain w where w: "find (names_action key) (take 100 (queue_rows kind ''pending'' st1)) = Some w"
    using nq rows(2) assms(3) by (cases "find (names_action key) (take 100 (queue_rows kind ''pending'' st1))") (auto simp: find_None_iff)
  have "consume_operational_approval kind actor key payload ttl' new_id' now' st1 = file_request kind actor key payload ttl' new_id' now' st1"
    using filed(3-7) assms(1) later st1(2-4) rows(1) by (simp add: same consume_operational_approval_def case_prod_unfold Let_def)
  also have "\<dots> = (Inl (Awaiting w), st1)" using w st1 by (simp add: file_request_def)
  finally show ?thesis using conjunct2 [OF find_SomeD [OF w]] by blast
qed simp_all

theorem retry_files_nothing_witness:
  "\<exists>w. names_action ''mail:a'' w
    \<and> consume_operational_approval ''send_external'' ''bot'' ''mail:a'' [] (Some 50) ''r2'' 12 demo_filed = (Inl (Awaiting w), demo_filed)"
proof -
  have "\<exists>q. consume_operational_approval ''send_external'' ''bot'' ''mail:a'' [] (Some 50) ''r1'' 10 demo_gov = (Inl (No_Approved_Grant q), demo_filed)"
    by (simp add: demo_filed_def consume_operational_approval_def demo_gov_def OPERATIONAL_KINDS_def approved_rows_def queue_rows_def consume_def demo_store_def
        consume_operational_grant_def select_grant_def oldest_by_def not_spent_def file_request_def propose_def APPROVAL_KINDS_def kind_check_def gov_after_def store_after_def Let_def)
  moreover have "length (queue_rows ''send_external'' ''pending'' demo_gov) < 100" "gov_requests demo_gov = []" "store_requests (gov_grants demo_gov) = []"
    by (simp_all add: demo_gov_def queue_rows_def demo_store_def)
  ultimately show ?thesis using retry_files_nothing [of demo_gov "''send_external''" "[]" 10 12 "''bot''" "''mail:a''" "Some 50" "''r1''" _ demo_filed "Some 50" "''r2''"] by auto
qed

text \<open>C37: C: Where single use fails: when the write that marks the approval as executed is lost, the call is authorised all the same and the next
  identical call is authorised by the same approval.\<close>

theorem lost_mark_reuses_approval:
  assumes "kind \<in> set OPERATIONAL_KINDS" "actor \<noteq> []" "key \<noteq> []" "gov_ready st" "gov_requests st = [Req_Ok, lost]" "lost \<noteq> Req_Ok"
    "find (names_action key) (approved_rows kind st) = Some row"
    "consume_operational_approval kind actor key payload ttl new_id now st = (r, st1)"
  shows "r = Inr (By_Approval row) \<and> fst (consume_operational_approval kind actor key payload ttl new_id' now' st1) = Inr (By_Approval row)"
proof -
  have r: "r = Inr (By_Approval row)" "st1 = mark_executed (ap_id row) now (gov_after st)"
    using assms by (auto simp: consume_operational_approval_def)
  then have "approvals_table st1 = approvals_table st" "gov_requests st1 = []" "gov_ready st1" "gov_agent st1 = gov_agent st"
    using assms(4-6) by (simp_all add: mark_executed_def)
  moreover from this have "approved_rows kind st1 = approved_rows kind st" by (simp add: approved_rows_def queue_rows_def)
  ultimately show ?thesis using r(1) assms by (simp add: consume_operational_approval_def)
qed

definition demo_lossy :: governance_state where
  "demo_lossy = demo_approved\<lparr>gov_requests := [Req_Ok, Req_None]\<rparr>"

definition is_approval :: "gate_refusal + gate_grant \<Rightarrow> bool" where
  "is_approval r = (case r of Inr (By_Approval row) \<Rightarrow> True | _ \<Rightarrow> False)"

theorem lost_mark_reuses_approval_witness:
  "is_approval (fst (consume_operational_approval ''send_external'' ''bot'' ''mail:a'' [] None ''r3'' 13
     (snd (consume_operational_approval ''send_external'' ''bot'' ''mail:a'' [] None ''r2'' 12 demo_lossy))))"
proof -
  obtain row where row: "approvals_table demo_approved = [row]" using demo_approved_row(1) by (auto simp: length_Suc_conv)
  have "gov_ready demo_lossy \<and> gov_requests demo_lossy = [Req_Ok, Req_None]" by (simp add: demo_lossy_def demo_approved_def) code_simp
  moreover have "length (usable ''send_external'' ''mail:a'' demo_lossy) = 1" by code_simp
  then have "find (names_action ''mail:a'') (approved_rows ''send_external'' demo_lossy) = Some row"
    using row by (simp add: usable_def queue_rows_def approved_rows_def demo_lossy_def split: if_splits)
  ultimately show ?thesis
    using lost_mark_reuses_approval [OF _ _ _ _ _ _ _ surjective_pairing, of "''send_external''" "''bot''" "''mail:a''" demo_lossy Req_None row "[]" None "''r2''" 12 "''r3''" 13]
    by (simp add: is_approval_def OPERATIONAL_KINDS_def)
qed

subsection \<open>Roles\<close>

lemma map_of_set_role:
  "map_of (map (\<lambda>ar. if fst ar = x then (x, v) else ar) t) a = (if a = x \<and> map_of t a \<noteq> None then Some v else map_of t a)"
  by (induction t) auto

lemma find_snoc_new: "\<not> list_ex P xs \<Longrightarrow> P n \<Longrightarrow> find P (xs @ [n]) = Some n"
  by (induction xs) auto

lemma patch_nomination_roles: "role_table (patch_nomination nid f st) = role_table st"
  by (simp add: patch_nomination_def)

text \<open>C: Resolving a nomination changes a role only when the decision is approval, the nomination was pending, and the resolver is an admin, or a
  leader and the new role is not leader; the only role that can change is the nominee's, to the role nominated.\<close>

theorem role_changes_are_authorised:
  assumes "resolve_nomination nid resolver decision note now st = (rep, st1)" "map_of (role_table st1) a \<noteq> map_of (role_table st) a"
  shows "decision = ''approved'' \<and> (\<exists>n \<in> set (nominations_table st). nom_id n = nid \<and> nom_status n = ''pending'' \<and> nom_nominee n = a
    \<and> map_of (role_table st1) a = Some (Some (nom_target_role n))
    \<and> (fst (get_chapter_role resolver st) = ''admin'' \<or> fst (get_chapter_role resolver st) = ''leader'' \<and> nom_target_role n \<noteq> ''leader''))"
proof -
  obtain role s1 where g: "get_chapter_role resolver st = (role, s1)" by fastforce
  have s1: "role_table s1 = role_table st" "nominations_table s1 = nominations_table st" using get_chapter_role_frame [OF g] by auto
  from assms s1 obtain n where n: "find (\<lambda>n. nom_id n = nid) (nominations_table st) = Some n" "nom_status n = ''pending''" "decision = ''approved''"
    "role \<in> {''admin'', ''leader''}" "nom_target_role n = ''leader'' \<longrightarrow> role = ''admin''"
    "st1 = patch_role (nom_nominee n) (nom_target_role n) (patch_nomination nid (resolved_body decision resolver note now) (gov_after s1))"
    by (auto simp: resolve_nomination_def g Let_def patch_nomination_roles split: if_splits option.splits)
  then have "map_of (role_table st1) a = (if a = nom_nominee n \<and> map_of (role_table st) a \<noteq> None then Some (Some (nom_target_role n)) else map_of (role_table st) a)
      \<or> map_of (role_table st1) a = map_of (role_table st) a"
    by (auto simp: patch_role_def patch_nomination_roles s1 map_of_set_role)
  with assms(2) have "a = nom_nominee n" "map_of (role_table st1) a = Some (Some (nom_target_role n))" by (auto split: if_splits)
  moreover have "n \<in> set (nominations_table st)" "nom_id n = nid" using find_SomeD [OF n(1)] by auto
  ultimately show ?thesis using n g by auto
qed

definition demo_nominated :: governance_state where
  "demo_nominated = snd (nominate ''bob'' ''root'' ''advisor'' [] ''n1'' 10 demo_gov)"

definition demo_demoted :: governance_state where
  "demo_demoted = snd (resolve_nomination ''n1'' ''ada'' ''approved'' [] 11 demo_nominated)"

theorem role_changes_are_authorised_witness:
  "\<exists>n \<in> set (nominations_table demo_nominated). nom_nominee n = ''root'' \<and> map_of (role_table demo_demoted) ''root'' = Some (Some (nom_target_role n))"
proof -
  have "map_of (role_table demo_demoted) ''root'' = Some (Some ''advisor'')" "map_of (role_table demo_nominated) ''root'' = Some (Some ''admin'')"
    by (simp_all add: demo_demoted_def demo_nominated_def nominate_def resolve_nomination_def get_chapter_role_def demo_gov_def Let_def patch_nomination_def
        patch_role_def resolved_body_def gov_after_def)
  with role_changes_are_authorised [OF surjective_pairing, of "''n1''" "''ada''" "''approved''" "[]" 11 demo_nominated "''root''"]
  show ?thesis by (auto simp: demo_demoted_def)
qed

text \<open>A promotion can take a role away: any member nominates an admin for advisor, a leader approves, and the admin is an advisor.\<close>

lemma leader_demotes_admin:
  assumes "map_of (role_table st) admin = Some (Some ''admin'')" "map_of (role_table st) leader = Some (Some ''leader'')" "gov_ready st" "gov_requests st = []"
    "leader \<noteq> []" "nid \<notin> nom_id ` set (nominations_table st)" "nominate nominator admin ''advisor'' reason nid now st = (a, st1)"
  shows "map_of (role_table (snd (resolve_nomination nid leader ''approved'' note now' st1))) admin = Some (Some ''advisor'')"
proof -
  have after: "gov_after st = st" using assms(4) by (simp add: gov_after_def)
  have "\<not> list_ex (\<lambda>n. nom_id n = nid) (nominations_table st)" using assms(6) by (auto simp: list_ex_iff)
  note find = find_snoc_new [OF this]
  show ?thesis using assms(1-5,6) assms(7)
    by (auto simp: nominate_def after Let_def resolve_nomination_def get_chapter_role_def find patch_nomination_def patch_role_def map_of_set_role)
qed

end
