(* ===== verification/Py_Crypto.thy ===== *)
theory Py_Crypto
  imports Sha256
begin

text \<open>
  The standard-library encodings and key derivation the passphrase store is built on: \<^verbatim>\<open>str.encode("utf-8")\<close> on code points
  below 256, \<^verbatim>\<open>base64.b64encode\<close> and the lenient \<^verbatim>\<open>base64.b64decode\<close>, \<^verbatim>\<open>hmac\<close> with SHA-256 and
  \<^verbatim>\<open>hashlib.pbkdf2_hmac\<close> with a 32-byte key (RFC 2104, RFC 8018). Decoding undoes encoding.
\<close>

definition utf8_char :: "char \<Rightarrow> bytes" where
  "utf8_char c = (let n = (of_char c :: nat) in
     if n < 128 then [word_of_nat n] else [word_of_nat (192 + n div 64), word_of_nat (128 + n mod 64)])"

definition utf8 :: "string \<Rightarrow> bytes" where
  "utf8 s = concat (map utf8_char s)"

subsection \<open>Base 64\<close>

definition b64_chars :: string where
  "b64_chars = ''ABCDEFGHIJKLMNOPQRSTUVWXYZabcdefghijklmnopqrstuvwxyz0123456789+/''"

definition b64_char :: "nat \<Rightarrow> char" where
  "b64_char n = b64_chars ! n"

definition b64_val :: "char \<Rightarrow> nat option" where
  "b64_val c = map_of (zip b64_chars [0..<64]) c"

fun b64encode :: "bytes \<Rightarrow> string" where
  "b64encode [] = []"
| "b64encode [a] = [b64_char (unat a div 4), b64_char (unat a mod 4 * 16), CHR ''='', CHR ''='']"
| "b64encode [a, b] = [b64_char (unat a div 4), b64_char (unat a mod 4 * 16 + unat b div 16), b64_char (unat b mod 16 * 4), CHR ''='']"
| "b64encode (a # b # c # r) =
     b64_char (unat a div 4) # b64_char (unat a mod 4 * 16 + unat b div 16) # b64_char (unat b mod 16 * 4 + unat c div 64)
     # b64_char (unat c mod 64) # b64encode r"

text \<open>The decoder's loop: position in the quad, bits left over, padding seen. Characters outside the alphabet are skipped; complete
  padding ends the input.\<close>

fun b64_scan :: "nat \<Rightarrow> nat \<Rightarrow> nat \<Rightarrow> string \<Rightarrow> bytes option" where
  "b64_scan q l p [] = (if q = 0 then Some [] else None)"
| "b64_scan q l p (c # s) =
     (if c = CHR ''='' then
        (if 2 \<le> q \<and> 4 \<le> q + (p + 1) then Some [] else b64_scan q l (if 2 \<le> q then p + 1 else p) s)
      else case b64_val c of
        None \<Rightarrow> b64_scan q l p s
      | Some v \<Rightarrow>
          if q = 0 then b64_scan 1 v 0 s
          else if q = 1 then map_option (Cons (word_of_nat (l * 4 + v div 16))) (b64_scan 2 (v mod 16) 0 s)
          else if q = 2 then map_option (Cons (word_of_nat (l * 16 + v div 4))) (b64_scan 3 (v mod 4) 0 s)
          else map_option (Cons (word_of_nat (l * 64 + v))) (b64_scan 0 0 0 s))"

definition is_ascii :: "string \<Rightarrow> bool" where
  "is_ascii s \<longleftrightarrow> list_all (\<lambda>c. of_char c < (128 :: nat)) s"

definition b64decode :: "string \<Rightarrow> bytes result" where
  "b64decode s =
     (if \<not> is_ascii s then Inl (ValueError ''string argument should contain only ASCII characters'')
      else case b64_scan 0 0 0 s of None \<Rightarrow> Inl (ValueError ''Incorrect padding'') | Some bs \<Rightarrow> Inr bs)"

lemma b64_chars_facts: "length b64_chars = 64" "distinct b64_chars" "CHR ''='' \<notin> set b64_chars" "is_ascii b64_chars"
  by (simp_all add: b64_chars_def is_ascii_def)

lemma b64_char_facts:
  assumes "n < 64"
  shows "b64_val (b64_char n) = Some n" "b64_char n \<noteq> CHR ''=''" "of_char (b64_char n) < (128 :: nat)"
proof -
  have mem: "b64_char n \<in> set b64_chars" using assms b64_chars_facts(1) by (simp add: b64_char_def)
  then show "b64_char n \<noteq> CHR ''=''" "of_char (b64_char n) < (128 :: nat)"
    using b64_chars_facts(3,4) by (auto simp: is_ascii_def list_all_iff)
  show "b64_val (b64_char n) = Some n"
    using assms b64_chars_facts(1,2) map_of_zip_nth [of b64_chars "[0..<64]" n] by (simp add: b64_val_def b64_char_def)
qed

lemma byte_less: "unat (a :: byte) < 256"
  using unsigned_less [of a, where ?'a = nat] by simp

lemma byte_bounds: "unat (a :: byte) div 4 < 64" "unat a mod 4 * 16 + unat (b :: byte) div 16 < 64"
    "unat b mod 16 * 4 + unat (c :: byte) div 64 < 64" "unat c mod 64 < 64" "unat a mod 4 * 16 < 64" "unat b mod 16 * 4 < 64"
  using byte_less [of a] byte_less [of b] byte_less [of c] by auto

lemma byte_join:
  "(word_of_nat (unat a div 4 * 4 + (unat a mod 4 * 16 + unat (b :: byte) div 16) div 16) :: byte) = a"
  "(word_of_nat (unat a div 4 * 4 + (unat a mod 4 * 16) div 16) :: byte) = a"
proof -
  have "unat b div 16 < 16" using byte_less [of b] by auto
  then have "(unat a mod 4 * 16 + unat b div 16) div 16 = unat a mod 4" by simp
  then show "(word_of_nat (unat a div 4 * 4 + (unat a mod 4 * 16 + unat b div 16) div 16) :: byte) = a"
    "(word_of_nat (unat a div 4 * 4 + (unat a mod 4 * 16) div 16) :: byte) = a" by simp_all
qed

lemma b64_scan_encode: "b64_scan 0 0 0 (b64encode bs) = Some bs"
proof (induction bs rule: b64encode.induct)
  case (2 a)
  then show ?case by (simp add: b64_char_facts byte_bounds byte_join)
next
  case (3 a b)
  have "unat b div 16 < 16" using byte_less [of b] by auto
  then show ?case by (simp add: b64_char_facts byte_bounds byte_join)
next
  case (4 a b c r)
  have "unat b div 16 < 16" "unat c div 64 < 4" using byte_less [of b] byte_less [of c] by auto
  with 4 show ?case by (simp add: b64_char_facts byte_bounds byte_join)
qed simp

lemma b64encode_ascii: "is_ascii (b64encode bs)"
  by (induction bs rule: b64encode.induct) (simp_all add: is_ascii_def b64_char_facts byte_bounds)

lemma b64_roundtrip [simp]: "b64decode (b64encode bs) = Inr bs"
  by (simp add: b64decode_def b64_scan_encode b64encode_ascii)

subsection \<open>HMAC and PBKDF2\<close>

definition xor_bytes :: "bytes \<Rightarrow> bytes \<Rightarrow> bytes" where
  "xor_bytes a b = map2 (\<lambda>x y. x XOR y) a b"

definition hmac_sha256 :: "bytes \<Rightarrow> bytes \<Rightarrow> bytes" where
  "hmac_sha256 key msg =
     (let k = (if length key > 64 then sha256 key else key);
          k = k @ replicate (64 - length k) 0
      in sha256 (map (\<lambda>x. x XOR 0x5c) k @ sha256 (map (\<lambda>x. x XOR 0x36) k @ msg)))"

fun pbkdf2_loop :: "nat \<Rightarrow> bytes \<Rightarrow> bytes \<Rightarrow> bytes \<Rightarrow> bytes" where
  "pbkdf2_loop 0 pw u t = t"
| "pbkdf2_loop (Suc n) pw u t = (let u' = hmac_sha256 pw u in pbkdf2_loop n pw u' (xor_bytes t u'))"

definition pbkdf2_sha256 :: "bytes \<Rightarrow> bytes \<Rightarrow> nat \<Rightarrow> bytes" where
  "pbkdf2_sha256 pw salt iters = (let u = hmac_sha256 pw (salt @ [0, 0, 0, 1]) in pbkdf2_loop (iters - 1) pw u u)"

lemma length_hmac [simp]: "length (hmac_sha256 k m) = 32"
  by (simp add: hmac_sha256_def Let_def)

lemma length_pbkdf2_loop: "length t = 32 \<Longrightarrow> length (pbkdf2_loop n pw u t) = 32"
  by (induction n arbitrary: u t) (simp_all add: xor_bytes_def Let_def)

lemma length_pbkdf2 [simp]: "length (pbkdf2_sha256 pw salt n) = 32"
  by (simp add: pbkdf2_sha256_def length_pbkdf2_loop Let_def)

end
