(* ===== verification/External_Send.thy ===== *)
theory External_Send
  imports Governance Py_Crypto
begin

text \<open>
  Outbound mail to a non-member: \<^verbatim>\<open>server/external_send.py\<close> with the flag parser of \<^verbatim>\<open>server/env_flags.py\<close>. The environment is a record of the
  two variables the module reads. A send goes to the sandbox log or, live, to the HTTP endpoint: \<open>sandbox_log\<close> and \<open>posted\<close> are what was
  handed to each, and the status the endpoint answers is an argument (a transport error is \<open>None\<close>). An untyped argument is a \<open>json\<close> value. The
  receipt after a send is left out: its failures are swallowed.

  Shown: a message leaves only through the operational gate, for the key of exactly that recipient and text; without both live conditions
  nothing is posted and every recipient recorded is at a reserved domain; the key binds the recipient, but not where the subject ends.
\<close>

subsection \<open>Flags and addresses\<close>

definition TRUE_VALUES :: "string list" where "TRUE_VALUES = [''1'', ''true'', ''yes'', ''on'']"
definition FALSE_VALUES :: "string list" where "FALSE_VALUES = [''0'', ''false'', ''no'', ''off'']"

definition security_flag :: "string option \<Rightarrow> bool \<Rightarrow> bool" where
  "security_flag var unset =
     (let raw = lower (strip (str_or_empty var)) in
      if raw \<in> set TRUE_VALUES then True else if raw \<in> set FALSE_VALUES then False else unset)"

record send_env =
  env_live :: "string option"
  env_api_key :: "string option"

definition live_sends_enabled :: "send_env \<Rightarrow> bool" where
  "live_sends_enabled E \<longleftrightarrow> security_flag (env_live E) False \<and> truthy_str (env_api_key E)"

definition RESERVED_DOMAINS :: "string list" where "RESERVED_DOMAINS = [''example.com'', ''example.net'', ''example.org'', ''localhost'']"
definition RESERVED_TLDS :: "string list" where "RESERVED_TLDS = [''*.test'', ''*.example'', ''*.invalid'', ''*.localhost'']"

definition reserved_names :: "string list" where
  "reserved_names = RESERVED_DOMAINS @ map (drop 2) RESERVED_TLDS"

text \<open>\<^verbatim>\<open>address.rsplit("@", 1)[-1].lower().rstrip(".")\<close>\<close>

definition domain_of :: "string \<Rightarrow> string" where
  "domain_of address = rev (dropWhile (\<lambda>c. c = CHR ''.'') (rev (lower (last (split_on (CHR ''@'') address)))))"

definition is_reserved :: "string \<Rightarrow> bool" where
  "is_reserved address = list_ex (\<lambda>r. domain_of address = r \<or> endswith (domain_of address) (''.'' @ r)) reserved_names"

definition word_text :: "string \<Rightarrow> bool" where
  "word_text s \<longleftrightarrow> s \<noteq> [] \<and> \<not> list_ex is_space s"

text \<open>\<^verbatim>\<open>_EMAIL_RE\<close>: a local part, one at sign, and a domain with an inner dot, or \<^verbatim>\<open>localhost\<close>.\<close>

definition email_re :: "string \<Rightarrow> bool" where
  "email_re s = (case split_on (CHR ''@'') s of
     [l, d] \<Rightarrow> word_text l \<and> word_text d
       \<and> (list_ex (\<lambda>i. 0 < i \<and> i + 1 < length d \<and> d ! i = CHR ''.'') [0..<length d] \<or> d = ''localhost'')
   | _ \<Rightarrow> False)"

datatype send_refused =
    Recipient_Invalid
  | Recipient_Not_Reserved string
  | Text_Required string
  | Text_Too_Long string
  | Pending_Approval gate_refusal
  | No_Api_Key
  | Live_Sends_Disabled
  | Upstream_Error int
  | Upstream_Raised
  | Proposal_Error proposal_failed

definition require_recipient :: "send_env \<Rightarrow> json \<Rightarrow> send_refused + string" where
  "require_recipient E to =
     (case to of
        JStr s \<Rightarrow>
          if \<not> email_re (strip s) then Inl Recipient_Invalid
          else if \<not> live_sends_enabled E \<and> \<not> is_reserved (strip s) then Inl (Recipient_Not_Reserved (strip s))
          else Inr (strip s)
      | _ \<Rightarrow> Inl Recipient_Invalid)"

definition require_text :: "json \<Rightarrow> string \<Rightarrow> nat \<Rightarrow> send_refused + string" where
  "require_text v field maxlen =
     (case v of
        JStr s \<Rightarrow>
          if strip s = [] then Inl (Text_Required field)
          else if length (strip s) > maxlen then Inl (Text_Too_Long field)
          else Inr (strip s)
      | _ \<Rightarrow> Inl (Text_Required field))"

definition newline :: char where "newline = CHR 0x0A"

definition action_key :: "string \<Rightarrow> string \<Rightarrow> string \<Rightarrow> string" where
  "action_key to subject body = ''send_external:klaviyo:'' @ to @ '':'' @ take 16 (hexdigest (sha256 (utf8 (subject @ [newline] @ body))))"

subsection \<open>Sending\<close>

record message =
  msg_to :: string
  msg_subject :: string
  msg_body :: string
  msg_metric :: string

record send_state =
  send_gov :: governance_state
  sandbox_log :: "message list"
  posted :: "message list"

datatype send_result = Sandboxed | Delivered int

text \<open>\<^verbatim>\<open>_transport()\<close> and its \<^verbatim>\<open>send\<close>; the constructor of the live transport checks its conditions again.\<close>

definition klaviyo_init :: "send_env \<Rightarrow> send_refused + string" where
  "klaviyo_init E =
     (if \<not> security_flag (env_live E) False then Inl Live_Sends_Disabled
      else if str_or_empty (env_api_key E) = [] then Inl No_Api_Key
      else Inr (str_or_empty (env_api_key E)))"

definition transport_send :: "send_env \<Rightarrow> int option \<Rightarrow> message \<Rightarrow> send_state \<Rightarrow> (send_refused + send_result) \<times> send_state" where
  "transport_send E upstream m st =
     (if \<not> live_sends_enabled E then (Inr Sandboxed, st\<lparr>sandbox_log := sandbox_log st @ [m]\<rparr>)
      else case klaviyo_init E of
        Inl e \<Rightarrow> (Inl e, st)
      | Inr api_key \<Rightarrow>
          (let st1 = st\<lparr>posted := posted st @ [m]\<rparr> in
           case upstream of
             None \<Rightarrow> (Inl Upstream_Raised, st1)
           | Some code \<Rightarrow> if code \<ge> 400 then (Inl (Upstream_Error code), st1) else (Inr (Delivered code), st1)))"

definition send_external :: "send_env \<Rightarrow> int option \<Rightarrow> string \<Rightarrow> json \<Rightarrow> json \<Rightarrow> json \<Rightarrow> string \<Rightarrow> string \<Rightarrow> instant \<Rightarrow> send_state
    \<Rightarrow> (send_refused + send_result) \<times> send_state" where
  "send_external E upstream actor to subject body metric new_id now st =
     (case require_recipient E to of Inl e \<Rightarrow> (Inl e, st) | Inr address \<Rightarrow>
      case require_text subject ''subject'' 300 of Inl e \<Rightarrow> (Inl e, st) | Inr subject_text \<Rightarrow>
      case require_text body ''body'' 20000 of Inl e \<Rightarrow> (Inl e, st) | Inr body_text \<Rightarrow>
      (case consume_operational_approval ''send_external'' actor (action_key address subject_text body_text)
              [(''to'', JStr address), (''subject'', JStr subject_text), (''channel'', JStr ''klaviyo'')] None new_id now (send_gov st) of
         (Inl (Not_Queued e), g) \<Rightarrow> (Inl (Proposal_Error e), st\<lparr>send_gov := g\<rparr>)
       | (Inl e, g) \<Rightarrow> (Inl (Pending_Approval e), st\<lparr>send_gov := g\<rparr>)
       | (Inr grant, g) \<Rightarrow>
           transport_send E upstream \<lparr>msg_to = address, msg_subject = subject_text, msg_body = body_text, msg_metric = metric\<rparr> (st\<lparr>send_gov := g\<rparr>)))"

subsection \<open>Nothing leaves without a grant for it\<close>

lemma transport_out:
  "transport_send E upstream m st = (r, st1) \<Longrightarrow>
     send_gov st1 = send_gov st \<and>
     (if live_sends_enabled E then sandbox_log st1 = sandbox_log st \<and> posted st1 = posted st @ [m]
      else posted st1 = posted st \<and> sandbox_log st1 = sandbox_log st @ [m])"
  by (auto simp: transport_send_def klaviyo_init_def live_sends_enabled_def Let_def str_or_empty_def split: if_splits option.splits)

text \<open>What a call can do to what left the organisation: nothing, or hand over one message that was validated and authorised.\<close>

lemma send_external_cases [consumes 1, case_names refused sent]:
  assumes "send_external E upstream actor to subject body metric new_id now st = (r, st1)"
  obtains (refused) e where "r = Inl e" "sandbox_log st1 = sandbox_log st" "posted st1 = posted st"
  | (sent) address s b grant g where "require_recipient E to = Inr address" "require_text subject ''subject'' 300 = Inr s" "require_text body ''body'' 20000 = Inr b"
      "consume_operational_approval ''send_external'' actor (action_key address s b)
         [(''to'', JStr address), (''subject'', JStr s), (''channel'', JStr ''klaviyo'')] None new_id now (send_gov st) = (Inr grant, g)"
      "transport_send E upstream \<lparr>msg_to = address, msg_subject = s, msg_body = b, msg_metric = metric\<rparr> (st\<lparr>send_gov := g\<rparr>) = (r, st1)"
proof (cases "require_recipient E to")
  case (Inl e)
  with assms refused show thesis by (auto simp: send_external_def)
next
  case a: (Inr address)
  show thesis
  proof (cases "require_text subject ''subject'' 300")
    case (Inl e)
    with a assms refused show thesis by (auto simp: send_external_def)
  next
    case s: (Inr s)
    show thesis
    proof (cases "require_text body ''body'' 20000")
      case (Inl e)
      with a s assms refused show thesis by (auto simp: send_external_def)
    next
      case b: (Inr b)
      obtain q g where q: "consume_operational_approval ''send_external'' actor (action_key address s b)
         [(''to'', JStr address), (''subject'', JStr s), (''channel'', JStr ''klaviyo'')] None new_id now (send_gov st) = (q, g)" by fastforce
      show thesis
      proof (cases q)
        case (Inl e)
        with a s b q assms refused show thesis by (cases e) (auto simp: send_external_def)
      next
        case (Inr grant)
        with a s b q assms sent show thesis by (simp add: send_external_def)
      qed
    qed
  qed
qed

definition granted :: "string \<Rightarrow> string \<Rightarrow> instant \<Rightarrow> governance_state \<Rightarrow> bool" where
  "granted key actor now g \<longleftrightarrow>
     (\<exists>row \<in> set (approvals_table g). ap_status row = ''approved'' \<and> ap_chapter row = gov_agent g \<and> ap_kind row = ''send_external'' \<and> names_action key row)
     \<or> authorized (fst (consume ''send_external'' key actor now (gov_grants g)))"

lemma granted_by_gate: "consume_operational_approval ''send_external'' actor key payload ttl new_id now g = (Inr gr, g1) \<Longrightarrow> granted key actor now g"
  by (drule gate_granted) (auto simp: granted_def split: gate_grant.splits)

text \<open>C17: C: A message leaves the organisation, to the endpoint or to the sandbox log, only with an approval or a bounded grant for the key of that
  recipient, subject and body, one message per call.\<close>

theorem message_leaves_only_if_granted:
  assumes "send_external E upstream actor to subject body metric new_id now st = (r, st1)"
    "posted st1 @ sandbox_log st1 \<noteq> posted st @ sandbox_log st"
  shows "\<exists>m. granted (action_key (msg_to m) (msg_subject m) (msg_body m)) actor now (send_gov st)
    \<and> (if live_sends_enabled E then posted st1 = posted st @ [m] \<and> sandbox_log st1 = sandbox_log st
       else posted st1 = posted st \<and> sandbox_log st1 = sandbox_log st @ [m])"
  using assms(1)
proof (cases rule: send_external_cases)
  case (refused e)
  with assms(2) show ?thesis by simp
next
  case (sent address s b grant g)
  let ?m = "\<lparr>msg_to = address, msg_subject = s, msg_body = b, msg_metric = metric\<rparr>"
  show ?thesis using transport_out [OF sent(5)] granted_by_gate [OF sent(4)] by (intro exI [of _ ?m]) simp
qed

definition sandbox_env :: send_env where "sandbox_env = \<lparr>env_live = None, env_api_key = Some ''k''\<rparr>"

definition demo_key :: string where "demo_key = action_key ''a@x.test'' ''hi'' ''there''"

definition demo_send :: send_state where
  "demo_send = \<lparr>send_gov = demo_gov\<lparr>approvals_table := [\<lparr>ap_id = ''r1'', ap_kind = ''send_external'', ap_proposer = ''bot'', ap_target = None, ap_chapter = ''acme'',
     ap_peer = None, ap_payload = [(''action_key'', JStr demo_key)], ap_status = ''approved'', ap_by = Some ''ada'', ap_at = Some 5, ap_rejection = None,
     ap_created = 1, ap_expires = 50, ap_executed = None, ap_confidence = 0\<rparr>]\<rparr>, sandbox_log = [], posted = []\<rparr>"

lemma sandbox_env_off: "\<not> live_sends_enabled sandbox_env"
  by (simp add: live_sends_enabled_def sandbox_env_def security_flag_def TRUE_VALUES_def FALSE_VALUES_def strip_def lstrip_def lower_def)

lemma demo_inputs:
  "email_re ''a@x.test''" "is_reserved ''a@x.test''" "strip ''a@x.test'' = ''a@x.test''" "strip ''hi'' = ''hi''" "strip ''there'' = ''there''"
  by code_simp+

lemma demo_sent: "send_external sandbox_env None ''bot'' (JStr ''a@x.test'') (JStr ''hi'') (JStr ''there'') metric ''r2'' 10 demo_send =
    (Inr Sandboxed, demo_send\<lparr>send_gov := mark_executed ''r1'' 10 (send_gov demo_send),
       sandbox_log := [\<lparr>msg_to = ''a@x.test'', msg_subject = ''hi'', msg_body = ''there'', msg_metric = metric\<rparr>]\<rparr>)"
proof -
  have "consume_operational_approval ''send_external'' ''bot'' demo_key payload None ''r2'' 10 (send_gov demo_send)
      = (Inr (By_Approval (hd (approvals_table (send_gov demo_send)))), mark_executed ''r1'' 10 (send_gov demo_send))" for payload
    by (simp add: consume_operational_approval_def demo_send_def demo_gov_def OPERATIONAL_KINDS_def approved_rows_def queue_rows_def names_action_def
        action_key_def demo_key_def gov_after_def)
  then show ?thesis
    by (simp add: send_external_def require_recipient_def require_text_def demo_inputs sandbox_env_off transport_send_def demo_key_def [symmetric])
      (simp add: demo_send_def)
qed

theorem message_leaves_only_if_granted_witness: "\<exists>m :: message. granted (action_key (msg_to m) (msg_subject m) (msg_body m)) ''bot'' 10 (send_gov demo_send)"
proof -
  have "sandbox_log demo_send = []" "posted demo_send = []" by (simp_all add: demo_send_def)
  with message_leaves_only_if_granted [OF demo_sent] show ?thesis by simp blast
qed

subsection \<open>The sandbox\<close>

inductive send_run :: "send_env \<Rightarrow> send_state \<Rightarrow> bool" for E where
  Start: "sandbox_log st = [] \<Longrightarrow> posted st = [] \<Longrightarrow> send_run E st"
| Send: "send_run E st \<Longrightarrow> send_external E upstream actor to subject body metric new_id now st = (r, st1) \<Longrightarrow> send_run E st1"
| Govern: "send_run E st \<Longrightarrow> send_run E (st\<lparr>send_gov := g\<rparr>)"

lemma require_recipient_reserved: "require_recipient E to = Inr a \<Longrightarrow> \<not> live_sends_enabled E \<Longrightarrow> is_reserved a"
  by (auto simp: require_recipient_def split: json.splits if_splits)

text \<open>C18: C: Unless live sends are switched on and a key is present, no history of sends posts anything, and every recipient on the sandbox log is at
  a reserved domain or under one.\<close>

theorem sandbox_reaches_nobody:
  assumes "send_run E st" "\<not> live_sends_enabled E"
  shows "posted st = [] \<and> (\<forall>m \<in> set (sandbox_log st). \<exists>r \<in> set reserved_names. domain_of (msg_to m) = r \<or> (\<exists>p. domain_of (msg_to m) = p @ ''.'' @ r))"
proof -
  have "posted st = [] \<and> (\<forall>m \<in> set (sandbox_log st). is_reserved (msg_to m))"
    using assms(1)
  proof induction
    case (Send st upstream actor to subject body metric new_id now r st1)
    from Send(2) show ?case
    proof (cases rule: send_external_cases)
      case (sent address s b grant g)
      then show ?thesis using Send.IH transport_out [OF sent(5)] require_recipient_reserved [OF sent(1)] assms(2) by auto
    qed (use Send.IH in simp)
  qed simp_all
  then show ?thesis unfolding is_reserved_def list_ex_iff endswith_iff by blast
qed

theorem sandbox_reaches_nobody_witness: "posted demo_send = []"
  using sandbox_reaches_nobody [OF Start sandbox_env_off, of demo_send] by (simp add: demo_send_def)

subsection \<open>What a key binds\<close>

lemma length_digest16: "length (take 16 (hexdigest (sha256 m))) = 16"
  by (simp add: length_hexdigest)

text \<open>The key of a message binds its recipient: equal keys have equal recipients and equal digests of the text.\<close>

lemma action_key_binds_recipient:
  assumes "action_key to subject body = action_key to' subject' body'"
  shows "to = to' \<and> take 16 (hexdigest (sha256 (utf8 (subject @ [newline] @ body)))) = take 16 (hexdigest (sha256 (utf8 (subject' @ [newline] @ body'))))"
  using assms length_digest16 [of "utf8 (subject @ [newline] @ body)"] length_digest16 [of "utf8 (subject' @ [newline] @ body')"]
  by (simp add: action_key_def append_eq_append_conv)

text \<open>C: The key does not bind where the subject ends: a message whose subject ends one line earlier, or later, has the same key, so an approval
  of one sends the other.\<close>

theorem key_ignores_subject_end:
  assumes "granted (action_key to subject (line @ [newline] @ body)) actor now g"
  shows "granted (action_key to (subject @ [newline] @ line) body) actor now g"
  using assms by (simp add: action_key_def)

theorem key_ignores_subject_end_witness: "granted (action_key ''a@x.test'' (''hi'' @ [newline] @ ''x'') ''y'') ''bot'' 10
    (send_gov demo_send\<lparr>approvals_table := map (\<lambda>r. r\<lparr>ap_payload := [(''action_key'', JStr (action_key ''a@x.test'' ''hi'' (''x'' @ [newline] @ ''y'')))]\<rparr>) (approvals_table (send_gov demo_send))\<rparr>)"
  by (rule key_ignores_subject_end) (simp add: granted_def demo_send_def demo_gov_def names_action_def)

end
