(* ===== verification/Send_Edge.thy ===== *)
theory Send_Edge
  imports Outbox External_Send
begin

text \<open>
  The path of one queued mail from the member agent to the organisation: \<^verbatim>\<open>agent/community_member/external_send_edge.py\<close> on the queue of \<open>Outbox\<close>,
  the client's \<^verbatim>\<open>_post\<close> (\<^verbatim>\<open>a2a_client.py\<close>), and the endpoint of \<^verbatim>\<open>server/routes/external_send.py\<close> in front of \<open>External_Send\<close>. An exchange is lost
  (the request raises) or reaches the server with the status the mail provider would give and the id of a row it may file. A reply is its
  status and its JSON body, \<open>None\<close> when it is not JSON; of a body only the fields the agent reads are kept.

  Shown: a message waiting for approval stays queued as it is; one that is granted leaves exactly once, with the text that was queued, and is
  removed. A message the organisation refuses is removed as if it had been sent, because the client drops the status code.
\<close>

subsection \<open>The endpoint\<close>

definition sent_body :: "send_result \<Rightarrow> json" where
  "sent_body r = JObj [(''status'', JStr ''sent''), (''transport'', JStr (case r of Sandboxed \<Rightarrow> ''sandbox'' | Delivered code \<Rightarrow> ''klaviyo''))]"

definition detail_body :: "string \<Rightarrow> json" where
  "detail_body reason = JObj [(''detail'', JObj [(''reason'', JStr reason)])]"

fun refusal_reply :: "send_refused \<Rightarrow> int \<times> json option" where
  "refusal_reply (Pending_Approval e) = (202, Some (JObj [(''status'', JStr ''pending_approval'')]))"
| "refusal_reply (Proposal_Error e) = (500, None)"
| "refusal_reply Upstream_Raised = (500, None)"
| "refusal_reply (Upstream_Error code) = (503, Some (detail_body ''upstream_error''))"
| "refusal_reply Recipient_Invalid = (422, Some (detail_body ''recipient_invalid''))"
| "refusal_reply (Recipient_Not_Reserved a) = (422, Some (detail_body ''recipient_not_reserved''))"
| "refusal_reply (Text_Required f) = (422, Some (detail_body (f @ ''_required'')))"
| "refusal_reply (Text_Too_Long f) = (422, Some (detail_body (f @ ''_too_long'')))"
| "refusal_reply No_Api_Key = (422, Some (detail_body ''no_api_key''))"
| "refusal_reply Live_Sends_Disabled = (422, Some (detail_body ''live_sends_disabled''))"

definition send_external_message :: "send_env \<Rightarrow> int option \<Rightarrow> string \<Rightarrow> (string \<times> json) list \<Rightarrow> string \<Rightarrow> instant \<Rightarrow> send_state
    \<Rightarrow> (int \<times> json option) \<times> send_state" where
  "send_external_message E upstream actor fs new_id now st =
     (case (obj_get fs ''to'', obj_get fs ''subject'', obj_get fs ''body'') of
        (JStr to, JStr subject, JStr body) \<Rightarrow>
          (case (case map_of fs ''metric'' of None \<Rightarrow> Some ''Orrery Agent Message'' | Some (JStr m) \<Rightarrow> Some m | Some _ \<Rightarrow> None) of
             None \<Rightarrow> ((422, Some (detail_body ''metric'')), st)
           | Some metric \<Rightarrow>
               if actor = [] then ((401, Some (detail_body ''unidentified_caller'')), st)
               else (case send_external E upstream actor (JStr to) (JStr subject) (JStr body) metric new_id now st of
                       (Inr r, st1) \<Rightarrow> ((200, Some (sent_body r)), st1)
                     | (Inl e, st1) \<Rightarrow> (refusal_reply e, st1)))
      | _ \<Rightarrow> ((422, Some (detail_body ''fields'')), st))"

subsection \<open>The agent's side\<close>

record edge_world =
  org :: send_state
  exchanges :: "(int option \<times> string) option list"

text \<open>\<^verbatim>\<open>A2AClient._post\<close>: the status code of the reply is not looked at and not returned.\<close>

definition a2a_post :: "send_env \<Rightarrow> instant \<Rightarrow> string \<Rightarrow> json \<Rightarrow> edge_world \<Rightarrow> json result \<times> edge_world" where
  "a2a_post E now actor payload w =
     (case (exchanges w, payload) of
        (Some (upstream, new_id) # xs, JObj fs) \<Rightarrow>
          (case send_external_message E upstream actor fs new_id now (org w) of
             ((code, Some body), st) \<Rightarrow> (Inr body, \<lparr>org = st, exchanges = xs\<rparr>)
           | ((code, None), st) \<Rightarrow> (Inl (ValueError ''JSONDecodeError''), \<lparr>org = st, exchanges = xs\<rparr>))
      | _ \<Rightarrow> (Inl (RuntimeError ''ConnectError''), w\<lparr>exchanges := tl (exchanges w)\<rparr>))"

definition edge_status_of :: "json \<Rightarrow> int option" where
  "edge_status_of resp =
     (case resp of
        JObj kvs \<Rightarrow> (case obj_get kvs ''status_code'' of JInt i \<Rightarrow> Some i | JBool b \<Rightarrow> Some (if b then 1 else 0) | _ \<Rightarrow> None)
      | _ \<Rightarrow> None)"

definition pending_body :: "json \<Rightarrow> bool" where
  "pending_body resp = (case resp of JObj kvs \<Rightarrow> obj_get kvs ''status'' = JStr ''pending_approval'' | _ \<Rightarrow> False)"

definition drain_external_send :: "send_env \<Rightarrow> instant \<Rightarrow> edge_world handler" where
  "drain_external_send E now agent e w =
     (case a2a_post E now agent (entry_patch e) w of
        (Inl x, w1) \<Rightarrow> (Raised ''request failed'', w1)
      | (Inr resp, w1) \<Rightarrow>
          (let status = edge_status_of resp in
           if status = Some 202 then (Deferred, w1)
           else if (case status of Some s \<Rightarrow> s \<ge> 400 | None \<Rightarrow> False) then (Raised ''RuntimeError: org refused the send'', w1)
           else if pending_body resp then (Deferred, w1)
           else (Handled, w1)))"

definition edge_handlers :: "send_env \<Rightarrow> instant \<Rightarrow> edge_world handlers" where
  "edge_handlers E now = [(''external_send'', drain_external_send E now)]"

definition enqueue_email :: "'w handlers \<Rightarrow> string \<Rightarrow> string \<Rightarrow> string \<Rightarrow> string \<Rightarrow> string option \<Rightarrow> nat \<Rightarrow> outbox \<Rightarrow> nat result \<times> outbox" where
  "enqueue_email H agent to subject body metric now st =
     (if to = [] \<or> subject = [] \<or> body = [] then (Inl (ValueError ''enqueue_email requires to, subject and body''), st)
      else enqueue H agent
             (JObj ([(''to'', JStr to), (''subject'', JStr subject), (''body'', JStr body)]
                    @ (if truthy_str metric then [(''metric'', JStr (str_or_empty metric))] else [])))
             ''external_send'' now st)"

subsection \<open>What becomes of a message\<close>

text \<open>The queued fields are the ones given.\<close>

lemma email_fields:
  assumes "enqueue_email H agent to subject body None now st = (Inr seq, st1)"
  shows "\<exists>e kvs. entries st1 = entries st @ [e] \<and> entry_seq e = seq \<and> entry_agent e = agent \<and> entry_kind e = ''external_send'' \<and> entry_next_retry e = now
    \<and> entry_patch e = JObj kvs \<and> map_of kvs = [''to'' \<mapsto> JStr to, ''subject'' \<mapsto> JStr subject, ''body'' \<mapsto> JStr body]"
  using assms by (auto simp: enqueue_email_def enqueue_def Let_def split: if_splits)

lemma email_posts:
  assumes "map_of kvs = [''to'' \<mapsto> JStr to, ''subject'' \<mapsto> JStr subject, ''body'' \<mapsto> JStr body]" "actor \<noteq> []"
    "send_external E upstream actor (JStr to) (JStr subject) (JStr body) ''Orrery Agent Message'' new_id now st = (r, st1)"
  shows "send_external_message E upstream actor kvs new_id now st = (case r of Inr x \<Rightarrow> (200, Some (sent_body x)) | Inl e \<Rightarrow> refusal_reply e, st1)"
  using assms by (auto simp: send_external_message_def split: sum.splits)

lemma dispatch_email:
  assumes "entry_kind e = ''external_send''" "entry_patch e = JObj kvs"
    "map_of kvs = [''to'' \<mapsto> JStr to, ''subject'' \<mapsto> JStr subject, ''body'' \<mapsto> JStr body]" "agent \<noteq> []" "exchanges w = Some (upstream, new_id) # xs"
    "send_external E upstream agent (JStr to) (JStr subject) (JStr body) ''Orrery Agent Message'' new_id now (org w) = (r, st1)"
  shows "snd (dispatch (edge_handlers E now) agent e w) = \<lparr>org = st1, exchanges = xs\<rparr>"
    and "fst (dispatch (edge_handlers E now) agent e w) =
      (case r of Inr x \<Rightarrow> Handled | Inl (Pending_Approval q) \<Rightarrow> Deferred | Inl (Proposal_Error q) \<Rightarrow> Raised ''request failed''
       | Inl Upstream_Raised \<Rightarrow> Raised ''request failed'' | Inl q \<Rightarrow> Handled)"
proof -
  note post = email_posts [OF assms(3,4,6)]
  show "snd (dispatch (edge_handlers E now) agent e w) = \<lparr>org = st1, exchanges = xs\<rparr>"
    using assms(1,2,5) post
    by (auto simp: dispatch_def edge_handlers_def drain_external_send_def a2a_post_def Let_def split: sum.splits send_refused.splits option.splits prod.splits)
  show "fst (dispatch (edge_handlers E now) agent e w) =
      (case r of Inr x \<Rightarrow> Handled | Inl (Pending_Approval q) \<Rightarrow> Deferred | Inl (Proposal_Error q) \<Rightarrow> Raised ''request failed''
       | Inl Upstream_Raised \<Rightarrow> Raised ''request failed'' | Inl q \<Rightarrow> Handled)"
    using assms(1,2,5) post
    by (auto simp: dispatch_def edge_handlers_def drain_external_send_def a2a_post_def Let_def edge_status_of_def pending_body_def sent_body_def detail_body_def
        split: sum.splits send_refused.splits)
qed

text \<open>The queue with one mail in it, drained.\<close>

lemma drain_one_email:
  assumes "enqueue_email H agent to subject body None t \<lparr>entries = [], last_seq = 0\<rparr> = (Inr seq, st)" "t \<le> t'" "exchanges w = Some (upstream, new_id) # xs"
    "send_external E upstream agent (JStr to) (JStr subject) (JStr body) ''Orrery Agent Message'' new_id now (org w) = (r, st1)"
    "drain (edge_handlers E now) agent 100 t' w st = (stats, w2, st2)"
  shows "org w2 = st1" "entries st2 = (case r of Inr x \<Rightarrow> [] | Inl (Pending_Approval q) \<Rightarrow> entries st
      | Inl (Proposal_Error q) \<Rightarrow> map (failed_entry ''request failed'' t') (entries st)
      | Inl Upstream_Raised \<Rightarrow> map (failed_entry ''request failed'' t') (entries st) | Inl q \<Rightarrow> [])" "succeeded stats = (if entries st2 = [] then 1 else 0)" "entries st \<noteq> []"
proof -
  have ag: "agent \<noteq> []" using assms(1) by (auto simp: enqueue_email_def enqueue_def split: if_splits)
  obtain e kvs where e: "entries st = [e]" "entry_agent e = agent" "entry_kind e = ''external_send''" "entry_next_retry e = t" "entry_patch e = JObj kvs"
    "map_of kvs = [''to'' \<mapsto> JStr to, ''subject'' \<mapsto> JStr subject, ''body'' \<mapsto> JStr body]"
    using email_fields [OF assms(1)] by auto
  note d = dispatch_email [OF e(3,5,6) ag assms(3,4)]
  have p: "peek agent 100 t' st = [e]" using e assms(2) by (simp add: peek_def due_def)
  obtain q v where q: "dispatch (edge_handlers E now) agent e w = (q, v)" by fastforce
  have w2: "w2 = v \<and> st2 = settle t' e q st" using assms(5) by (auto simp: drain_def p q)
  then show "org w2 = st1" using d(1) q by simp
  show "entries st \<noteq> []" using e(1) by simp
  show "entries st2 = (case r of Inr x \<Rightarrow> [] | Inl (Pending_Approval q) \<Rightarrow> entries st
      | Inl (Proposal_Error q) \<Rightarrow> map (failed_entry ''request failed'' t') (entries st)
      | Inl Upstream_Raised \<Rightarrow> map (failed_entry ''request failed'' t') (entries st) | Inl q \<Rightarrow> [])"
    using d(2) q w2 by (auto simp: settle_def mark_success_def mark_failure_def e(1) split: sum.splits send_refused.splits)
  show "succeeded stats = (if entries st2 = [] then 1 else 0)"
    using assms(5) w2 by (cases q) (auto simp: drain_def p q settle_def mark_success_def mark_failure_def e(1))
qed


text \<open>C: A refused mail is dropped: when the organisation refuses a mail as invalid or the provider answers an error, nothing is sent, and the
  agent removes the mail from its queue as delivered.\<close>

theorem refused_mail_is_dropped:
  assumes "enqueue_email H agent to subject body None t \<lparr>entries = [], last_seq = 0\<rparr> = (Inr seq, st)" "t \<le> t'" "exchanges w = Some (upstream, new_id) # xs"
    "send_external E upstream agent (JStr to) (JStr subject) (JStr body) ''Orrery Agent Message'' new_id now (org w) = (Inl e, st1)"
    "e \<in> {Recipient_Invalid, Recipient_Not_Reserved a, Text_Too_Long f, Upstream_Error code}"
    "drain (edge_handlers E now) agent 100 t' w st = (stats, w2, st2)"
  shows "fst (refusal_reply e) \<ge> 400 \<and> entries st \<noteq> [] \<and> entries st2 = [] \<and> succeeded stats = 1"
  using drain_one_email [OF assms(1-4,6)] assms(5) by auto

lemma demo_mail: "\<exists>seq st. enqueue_email (edge_handlers sandbox_env 10) ''bot'' to ''hi'' ''there'' None 5 \<lparr>entries = [], last_seq = 0\<rparr> = (Inr seq, st)"
  if "to \<noteq> []" for to
  using that by (simp add: enqueue_email_def enqueue_def edge_handlers_def is_dict_def Let_def)


theorem refused_mail_is_dropped_witness:
  "\<exists>st stats w2 st2. drain (edge_handlers sandbox_env 10) ''bot'' 100 9 \<lparr>org = demo_send, exchanges = [Some (None, ''r2'')]\<rparr> st = (stats, w2, st2)
    \<and> entries st \<noteq> [] \<and> entries st2 = [] \<and> succeeded stats = 1"
proof -
  obtain seq st where e: "enqueue_email (edge_handlers sandbox_env 10) ''bot'' ''a@real.org'' ''hi'' ''there'' None 5 \<lparr>entries = [], last_seq = 0\<rparr> = (Inr seq, st)"
    using demo_mail [of "''a@real.org''"] by auto
  obtain stats w2 st2 where d: "drain (edge_handlers sandbox_env 10) ''bot'' 100 9 \<lparr>org = demo_send, exchanges = [Some (None, ''r2'')]\<rparr> st = (stats, w2, st2)"
    by (metis prod_cases3)
  have "email_re ''a@real.org'' \<and> \<not> is_reserved ''a@real.org'' \<and> strip ''a@real.org'' = ''a@real.org''" by code_simp
  then have "send_external sandbox_env None ''bot'' (JStr ''a@real.org'') (JStr ''hi'') (JStr ''there'') ''Orrery Agent Message'' ''r2'' 10 demo_send
      = (Inl (Recipient_Not_Reserved ''a@real.org''), demo_send)"
    using sandbox_env_off by (simp add: send_external_def require_recipient_def)
  with refused_mail_is_dropped [OF e _ _ _ _ d, of None "''r2''" "[]" "Recipient_Not_Reserved ''a@real.org''" demo_send "''a@real.org''"]
  have "entries st \<noteq> [] \<and> entries st2 = [] \<and> succeeded stats = 1" by simp
  with d show ?thesis by blast
qed

end
