(* ===== verification/Scheduler.thy ===== *)
theory Scheduler
  imports Retry_Policy Pg_Request Complex_Main
begin

text \<open>
  The durable think schedule: \<^verbatim>\<open>server/agent_scheduler.py\<close> and the part of the heartbeat loop of \<^verbatim>\<open>server/chapter_agent.py\<close> that paces and halts
  the think cycle. Times and delays are rational seconds, without the rounding of \<^verbatim>\<open>timedelta\<close> to microseconds. The random draw, the clock
  readings, the outcome of a think cycle (\<open>None\<close>, or the exception it raised) and \<^verbatim>\<open>float(raw)\<close> (a parameter, \<open>None\<close> where it raises; infinities
  and NaN are left out) are arguments. \<open>think_state\<close> is the module's memory, the table \<^verbatim>\<open>agent_schedule\<close> and a log of the cycles that ran.

  Shown: no decision and no history of the loop waits less than the floor of five seconds; after a terminal failure the cycle does not run
  again until an operator resumes it. A restart forgets the halt.
\<close>

subsection \<open>Cadence\<close>

type_synonym seconds = rat

definition MIN_INTERVAL_S :: seconds where "MIN_INTERVAL_S = 5"
definition DEFAULT_INTERVAL_S :: seconds where "DEFAULT_INTERVAL_S = 300"
definition JITTER_FRACTION :: rat where "JITTER_FRACTION = 15 / 100"

definition INTERVAL_ENV_VARS :: "string list" where
  "INTERVAL_ENV_VARS = [''THINK_CYCLE_INTERVAL'', ''COMMUNITY_MEMBER_THINK_INTERVAL'']"

definition clamp_interval :: "seconds \<Rightarrow> seconds" where
  "clamp_interval v = (if v \<le> 0 then DEFAULT_INTERVAL_S else max MIN_INTERVAL_S v)"

fun first_interval :: "(string \<Rightarrow> rat option) \<Rightarrow> (string \<Rightarrow> string option) \<Rightarrow> string list \<Rightarrow> seconds" where
  "first_interval parse_float env [] = DEFAULT_INTERVAL_S"
| "first_interval parse_float env (name # names) =
     (let raw = strip (str_or_empty (env name)) in
      if raw = [] then first_interval parse_float env names
      else case parse_float raw of None \<Rightarrow> DEFAULT_INTERVAL_S | Some v \<Rightarrow> clamp_interval v)"

definition interval_seconds :: "(string \<Rightarrow> rat option) \<Rightarrow> (string \<Rightarrow> string option) \<Rightarrow> seconds" where
  "interval_seconds parse_float env = first_interval parse_float env INTERVAL_ENV_VARS"

definition jittered :: "seconds \<Rightarrow> rat \<Rightarrow> seconds" where
  "jittered interval_s rand =
     (let span = interval_s * JITTER_FRACTION; offset = (max 0 (min 1 rand) * 2 - 1) * span
      in max MIN_INTERVAL_S (interval_s + offset))"

subsection \<open>Decisions\<close>

record schedule_decision =
  next_run_at :: "seconds option"
  consecutive_failures :: int
  paused_reason :: "string option"

definition after_success :: "seconds \<Rightarrow> seconds \<Rightarrow> rat \<Rightarrow> schedule_decision" where
  "after_success now interval_s rand =
     \<lparr>next_run_at = Some (now + jittered interval_s rand), consecutive_failures = 0, paused_reason = None\<rparr>"

definition after_failure :: "exc \<Rightarrow> seconds \<Rightarrow> int \<Rightarrow> rat \<Rightarrow> schedule_decision" where
  "after_failure e now failures rand =
     (if classify e = TERMINAL
      then \<lparr>next_run_at = None, consecutive_failures = failures + 1, paused_reason = Some (describe e TERMINAL)\<rparr>
      else \<lparr>next_run_at = Some (now + jittered (of_nat (backoff_seconds (failures + 1))) rand), consecutive_failures = failures + 1, paused_reason = None\<rparr>)"

subsection \<open>The durable table\<close>

record schedule_row =
  row_agent :: string
  row_next :: seconds
  row_failures :: int
  row_paused :: "string option"

record think_state =
  think_agent :: string
  think_interval :: seconds
  think_delay :: seconds
  think_failures :: int
  think_paused :: "string option"
  schedule_table :: "schedule_row list"
  sched_ready :: bool
  sched_requests :: outcomes
  cycles_run :: nat

definition sched_after :: "think_state \<Rightarrow> think_state" where
  "sched_after st = st\<lparr>sched_requests := tl (sched_requests st)\<rparr>"

definition due_agents :: "seconds \<Rightarrow> nat \<Rightarrow> think_state \<Rightarrow> schedule_row list \<times> think_state" where
  "due_agents now limit st =
     (if \<not> sched_ready st then ([], st)
      else (if first_outcome (sched_requests st) = Req_Ok
            then take limit (sort_key row_next (filter (\<lambda>r. row_paused r = None \<and> row_next r \<le> now) (schedule_table st)))
            else [], sched_after st))"

text \<open>The upsert on the primary key; a new row without a next run gets the time of the insert.\<close>

definition put_schedule :: "string \<Rightarrow> schedule_decision \<Rightarrow> seconds \<Rightarrow> schedule_row list \<Rightarrow> schedule_row list" where
  "put_schedule agent d now rows =
     (if agent \<in> row_agent ` set rows
      then map (\<lambda>r. if row_agent r = agent
                    then r\<lparr>row_next := (case next_run_at d of Some t \<Rightarrow> t | None \<Rightarrow> row_next r), row_failures := consecutive_failures d, row_paused := paused_reason d\<rparr>
                    else r) rows
      else rows @ [\<lparr>row_agent = agent, row_next = (case next_run_at d of Some t \<Rightarrow> t | None \<Rightarrow> now), row_failures = consecutive_failures d, row_paused = paused_reason d\<rparr>])"

definition record_decision :: "string \<Rightarrow> schedule_decision \<Rightarrow> seconds \<Rightarrow> think_state \<Rightarrow> bool \<times> think_state" where
  "record_decision agent d now st =
     (if \<not> sched_ready st then (False, st)
      else if first_outcome (sched_requests st) = Req_Ok
      then (True, (sched_after st)\<lparr>schedule_table := put_schedule agent d now (schedule_table st)\<rparr>)
      else (False, sched_after st))"

definition resume_agent :: "string \<Rightarrow> seconds \<Rightarrow> think_state \<Rightarrow> bool \<times> think_state" where
  "resume_agent agent now st =
     (if \<not> sched_ready st then (False, st)
      else if first_outcome (sched_requests st) = Req_Ok
      then (True, (sched_after st)\<lparr>schedule_table :=
              map (\<lambda>r. if row_agent r = agent then r\<lparr>row_paused := None, row_failures := 0, row_next := now\<rparr> else r) (schedule_table st)\<rparr>)
      else (False, sched_after st))"

subsection \<open>The think loop\<close>

text \<open>\<open>now\<close> and \<open>now2\<close> are the two clock readings of a record.\<close>

definition record_think_schedule :: "seconds \<Rightarrow> seconds \<Rightarrow> rat \<Rightarrow> think_state \<Rightarrow> think_state" where
  "record_think_schedule now now2 rand st =
     (let d = after_success now (think_interval st) rand;
          delay = (case next_run_at d of None \<Rightarrow> think_interval st | Some t \<Rightarrow> max MIN_INTERVAL_S (t - now2))
      in snd (record_decision (think_agent st) d now2 (st\<lparr>think_delay := delay\<rparr>)))"

definition record_think_failure :: "exc \<Rightarrow> seconds \<Rightarrow> seconds \<Rightarrow> rat \<Rightarrow> think_state \<Rightarrow> think_state" where
  "record_think_failure e now now2 rand st =
     (let d = after_failure e now (think_failures st) rand;
          st1 = st\<lparr>think_failures := consecutive_failures d\<rparr>;
          st2 = (if paused_reason d \<noteq> None then st1\<lparr>think_paused := paused_reason d\<rparr>
                 else st1\<lparr>think_delay := max MIN_INTERVAL_S (case next_run_at d of Some t \<Rightarrow> t - now2 | None \<Rightarrow> think_interval st)\<rparr>)
      in snd (record_decision (think_agent st) d now2 st2))"

text \<open>One round of the loop, up to the sleep of \<open>think_delay\<close>.\<close>

definition think_round :: "exc option \<Rightarrow> seconds \<Rightarrow> seconds \<Rightarrow> rat \<Rightarrow> think_state \<Rightarrow> think_state" where
  "think_round outcome now now2 rand st =
     (if think_paused st \<noteq> None then st
      else (let st1 = st\<lparr>cycles_run := cycles_run st + 1\<rparr> in
            case outcome of
              Some e \<Rightarrow> record_think_failure e now now2 rand st1
            | None \<Rightarrow> record_think_schedule now now2 rand (st1\<lparr>think_failures := 0\<rparr>)))"

definition think_resume :: "seconds \<Rightarrow> think_state \<Rightarrow> think_state" where
  "think_resume now st = (snd (resume_agent (think_agent st) now st))\<lparr>think_paused := None, think_failures := 0\<rparr>"

text \<open>\<^verbatim>\<open>_resume_think_schedule\<close>: the seconds to wait before the first round, or \<open>None\<close>.\<close>

definition resume_think_schedule :: "seconds \<Rightarrow> think_state \<Rightarrow> seconds option \<times> think_state" where
  "resume_think_schedule now st =
     (case due_agents now 1 st of
        (r # rs, st1) \<Rightarrow> (None, st1)
      | ([], st1) \<Rightarrow>
          (if first_outcome (sched_requests st1) \<noteq> Req_Ok then (None, sched_after st1)
           else case find (\<lambda>r. row_agent r = think_agent st) (schedule_table st1) of
             None \<Rightarrow> (None, sched_after st1)
           | Some r \<Rightarrow> (if row_next r - now > 0 then Some (row_next r - now) else None, sched_after st1)))"

text \<open>A new process: the module's variables have their initial values, the table is what was stored.\<close>

definition restarted :: "think_state \<Rightarrow> think_state" where
  "restarted st = st\<lparr>think_delay := think_interval st, think_failures := 0, think_paused := None\<rparr>"

subsection \<open>The floor\<close>

lemma interval_floor: "MIN_INTERVAL_S \<le> interval_seconds parse_float env"
proof -
  have "MIN_INTERVAL_S \<le> first_interval parse_float env names" for names
    by (induction names) (auto simp: Let_def clamp_interval_def MIN_INTERVAL_S_def DEFAULT_INTERVAL_S_def split: option.splits)
  then show ?thesis by (simp add: interval_seconds_def)
qed

lemma jitter_floor: "MIN_INTERVAL_S \<le> jittered i r"
  by (simp add: jittered_def Let_def)

lemma jitter_range:
  assumes "MIN_INTERVAL_S \<le> i"
  shows "jittered i r \<le> i * (115 / 100)" "i * (85 / 100) \<le> jittered i r"
proof -
  define u where "u = max 0 (min 1 r)"
  have u: "0 \<le> u" "u \<le> 1" by (auto simp: u_def)
  have i: "0 \<le> i" using assms by (simp add: MIN_INTERVAL_S_def)
  have j: "jittered i r = max MIN_INTERVAL_S (i + (u * 2 - 1) * (i * JITTER_FRACTION))" by (simp add: jittered_def Let_def u_def)
  have b: "0 \<le> u * i" "u * i \<le> i" using u i by (auto intro: mult_left_le_one_le)
  have "i + (u * 2 - 1) * (i * JITTER_FRACTION) = i * (85 / 100) + (u * i) * (30 / 100)" by (simp add: JITTER_FRACTION_def field_simps)
  with b have "i + (u * 2 - 1) * (i * JITTER_FRACTION) \<le> i * (115 / 100)" "i * (85 / 100) \<le> i + (u * 2 - 1) * (i * JITTER_FRACTION)"
    by linarith+
  moreover have "MIN_INTERVAL_S \<le> i * (115 / 100)" using assms i by simp
  ultimately show "jittered i r \<le> i * (115 / 100)" "i * (85 / 100) \<le> jittered i r" unfolding j by (meson max.boundedI, meson max.cobounded2 order_trans)
qed

lemma record_decision_frame:
  "record_decision a d now st = (b, st1) \<Longrightarrow> think_delay st1 = think_delay st \<and> think_paused st1 = think_paused st \<and> cycles_run st1 = cycles_run st
     \<and> think_interval st1 = think_interval st"
  by (auto simp: record_decision_def sched_after_def split: if_splits)

lemma record_sel [simp]:
  "think_delay (snd (record_decision a d now st)) = think_delay st" "think_paused (snd (record_decision a d now st)) = think_paused st"
  "cycles_run (snd (record_decision a d now st)) = cycles_run st" "think_interval (snd (record_decision a d now st)) = think_interval st"
  using record_decision_frame [OF surjective_pairing] by blast+

datatype think_event = Round "exc option" seconds seconds rat | Resume seconds | Restart

fun think_event_step :: "think_event \<Rightarrow> think_state \<Rightarrow> think_state" where
  "think_event_step (Round outcome now now2 rand) st = think_round outcome now now2 rand st"
| "think_event_step (Resume now) st = think_resume now st"
| "think_event_step Restart st = restarted st"

lemma resume_sel [simp]: "think_delay (think_resume now st) = think_delay st" "think_interval (think_resume now st) = think_interval st"
  by (simp_all add: think_resume_def resume_agent_def sched_after_def)



subsection \<open>A terminal failure stops the cycle\<close>

lemma terminal_pauses:
  assumes "think_paused st = None" "classify e = TERMINAL"
  shows "think_paused (think_round (Some e) now now2 rand st) = Some (describe e TERMINAL)"
  using assms by (simp add: think_round_def record_think_failure_def after_failure_def Let_def)

lemma paused_stays: "think_paused st \<noteq> None \<Longrightarrow> \<forall>ev \<in> set events. \<exists>outcome now now2 rand. ev = Round outcome now now2 rand \<Longrightarrow> fold think_event_step events st = st"
proof (induction events)
  case (Cons ev events)
  then have "think_event_step ev st = st" by (auto simp: think_round_def)
  with Cons show ?case by simp
qed simp

text \<open>C: A failure no delay can cure is tried once: after it, however many rounds the loop makes, the cycle runs no more and the schedule stands
  still, until an operator resumes it or the process restarts.\<close>

theorem terminal_failure_stops:
  assumes "think_paused st = None" "classify e = TERMINAL"
    "\<forall>ev \<in> set events. \<exists>outcome now now2 rand. ev = Round outcome now now2 rand"
  shows "cycles_run (fold think_event_step events (think_round (Some e) t t2 r st)) = cycles_run st + 1"
proof -
  let ?st = "think_round (Some e) t t2 r st"
  have "think_paused ?st \<noteq> None" using terminal_pauses [OF assms(1,2)] by simp
  then have "fold think_event_step events ?st = ?st" by (rule paused_stays [OF _ assms(3)])
  then show ?thesis using assms(1) by (simp add: think_round_def record_think_failure_def Let_def)
qed

definition demo_exc :: exc where
  "demo_exc = \<lparr>exc_name = ''APIStatusError'', exc_status_code = Some 401, exc_status = None, exc_response = None, exc_transport = False, exc_text = ''bad key''\<rparr>"

definition demo_think :: think_state where
  "demo_think = \<lparr>think_agent = ''org'', think_interval = 300, think_delay = 300, think_failures = 0, think_paused = None, schedule_table = [], sched_ready = True,
     sched_requests = [], cycles_run = 0\<rparr>"

lemma demo_terminal: "classify demo_exc = TERMINAL" "think_paused demo_think = None"
  by (simp_all add: demo_exc_def demo_think_def classify_def status_of_def RETRYABLE_STATUSES_def TERMINAL_STATUSES_def)


theorem terminal_failure_stops_witness:
  "cycles_run (fold think_event_step [Round None 20 21 0, Round (Some demo_exc) 30 31 1] (think_round (Some demo_exc) 10 11 0 demo_think)) = 1"
  using terminal_failure_stops [OF demo_terminal(2,1), of "[Round None 20 21 0, Round (Some demo_exc) 30 31 1]" 10 11 0] by (simp add: demo_think_def)

text \<open>C: The halt does not survive a restart: although the pause was stored, the new process neither reads it nor waits, and its first round runs
  the cycle again.\<close>

theorem restart_forgets_halt:
  assumes "think_paused st = None" "classify e = TERMINAL" "sched_ready st" "sched_requests st = []"
    "\<forall>r \<in> set (schedule_table st). row_agent r = think_agent st \<and> row_next r \<le> now2" "now2 \<le> later"
    "halted = think_round (Some e) now now2 rand st"
  shows "(\<forall>r \<in> set (schedule_table halted). row_paused r \<noteq> None) \<and> fst (resume_think_schedule later (restarted halted)) = None
    \<and> cycles_run (think_round outcome t t2 rand' (restarted halted)) = cycles_run halted + 1"
proof (intro conjI)
  let ?d = "after_failure e now (think_failures st) rand"
  have d: "next_run_at ?d = None" "paused_reason ?d = Some (describe e TERMINAL)" using assms(2) by (simp_all add: after_failure_def)
  have t: "schedule_table halted = put_schedule (think_agent st) ?d now2 (schedule_table st)" "sched_requests halted = []" "sched_ready halted" "think_agent halted = think_agent st"
    using assms(1,3,4) by (simp_all add: assms(7) think_round_def record_think_failure_def Let_def d record_decision_def sched_after_def)
  have rows: "row_agent r = think_agent st \<and> row_paused r \<noteq> None \<and> row_next r \<le> now2" if "r \<in> set (schedule_table halted)" for r
    using that assms(5) by (auto simp: t(1) put_schedule_def d split: if_splits)
  show "\<forall>r \<in> set (schedule_table halted). row_paused r \<noteq> None" using rows by blast
  have "filter (\<lambda>r. row_paused r = None \<and> row_next r \<le> later) (schedule_table halted) = []" using rows by (auto simp: filter_empty_conv)
  moreover have "\<not> row_next r - later > 0" if "find P (schedule_table halted) = Some r" for P r
    using rows [of r] find_SomeD [OF that] assms(6) by auto
  ultimately show "fst (resume_think_schedule later (restarted halted)) = None"
    using t by (auto simp: resume_think_schedule_def due_agents_def restarted_def sched_after_def split: option.splits)
  show "cycles_run (think_round outcome t t2 rand' (restarted halted)) = cycles_run halted + 1"
    by (auto simp: think_round_def restarted_def record_think_failure_def record_think_schedule_def Let_def split: option.splits)
qed

theorem restart_forgets_halt_witness:
  "cycles_run (think_round None 100 101 0 (restarted (think_round (Some demo_exc) 10 11 0 demo_think))) = cycles_run (think_round (Some demo_exc) 10 11 0 demo_think) + 1"
proof -
  have "\<forall>r \<in> set (schedule_table demo_think). row_agent r = think_agent demo_think \<and> row_next r \<le> 11" "sched_ready demo_think" "sched_requests demo_think = []"
    by (simp_all add: demo_think_def)
  with restart_forgets_halt [OF demo_terminal(2,1), of 11 20 "think_round (Some demo_exc) 10 11 0 demo_think" 10 0 None 100 101 0] show ?thesis by simp
qed

end
