(* ===== verification/Agent_Crypto.thy ===== *)
theory Agent_Crypto
  imports Json Py_Crypto Complex_Main "HOL-Library.AList"
begin

text \<open>
  The member agent's own cryptography, \<^verbatim>\<open>agent/community_member/crypto.py\<close>: the passphrase-sealed blobs of the vault (PBKDF2, an HMAC keystream,
  encrypt-then-MAC) and the HMAC signatures of the registration challenge. Everything is built from the SHA-256 of \<open>Sha256\<close>; the random
  bytes and the clock are arguments. A blob is the JSON object that is stored. \<^verbatim>\<open>bytes.decode()\<close> is given for the code points of the model;
  blobs are shorter than the 128 GiB at which the block counter would overflow.

  Shown: a sealed value opens again under its passphrase and a signed challenge verifies within its window; two blobs with one salt, cost and
  tag that both open have the same authenticated bytes, or HMAC collides. The boundary between nonce and ciphertext is not authenticated: a
  blob can be cut down to one that opens as the empty text.
\<close>

subsection \<open>Decoding text\<close>

fun utf8_decode :: "bytes \<Rightarrow> string option" where
  "utf8_decode [] = Some []"
| "utf8_decode [b] = (if unat b < 128 then Some [char_of (unat b)] else None)"
| "utf8_decode (b # c # bs) =
     (if unat b < 128 then map_option (Cons (char_of (unat b))) (utf8_decode (c # bs))
      else if (unat b = 194 \<or> unat b = 195) \<and> 128 \<le> unat c \<and> unat c < 192
      then map_option (Cons (char_of ((unat b - 192) * 64 + (unat c - 128)))) (utf8_decode bs)
      else None)"

lemma utf8_decode_ascii: "unat b < 128 \<Longrightarrow> utf8_decode (b # bs) = map_option (Cons (char_of (unat b))) (utf8_decode bs)"
  by (cases bs) simp_all

lemma utf8_decode_char: "utf8_decode (utf8_char c @ bs) = map_option (Cons c) (utf8_decode bs)"
proof -
  let ?n = "of_char c :: nat"
  have n: "?n < 256" by (simp add: of_char_of [symmetric])
  have small: "m < 256 \<Longrightarrow> unat (word_of_nat m :: byte) = m" for m by (simp add: unat_of_nat)
  show ?thesis
  proof (cases "?n < 128")
    case True
    then have "unat (word_of_nat ?n :: byte) = ?n" by (simp add: unat_of_nat)
    with True show ?thesis by (simp add: utf8_char_def Let_def utf8_decode_ascii)
  next
    case False
    from False have "2 \<le> ?n div 64" by (simp add: less_eq_div_iff_mult_less_eq)
    moreover from n have "?n div 64 < 4" by (simp add: div_less_iff_less_mult)
    ultimately have d: "?n div 64 = 2 \<or> ?n div 64 = 3" by linarith
    have "unat (word_of_nat (192 + ?n div 64) :: byte) = 192 + ?n div 64" "unat (word_of_nat (128 + ?n mod 64) :: byte) = 128 + ?n mod 64"
      using small [of "192 + ?n div 64"] small [of "128 + ?n mod 64"] d by auto
    moreover have "?n div 64 * 64 + ?n mod 64 = ?n" by simp
    ultimately show ?thesis using False d by (auto simp: utf8_char_def Let_def simp del: of_nat_add)
  qed
qed

lemma utf8_roundtrip [simp]: "utf8_decode (utf8 s) = Some s"
  by (induction s) (simp_all add: utf8_def utf8_decode_char)

subsection \<open>Sealed blobs\<close>

definition KDF_ITERATIONS :: nat where "KDF_ITERATIONS = 100000"
definition LEGACY_PBKDF2_ITERATIONS :: nat where "LEGACY_PBKDF2_ITERATIONS = 100000"
definition KDF_NAME :: string where "KDF_NAME = ''pbkdf2-sha256''"
definition CIPHER_NAME :: string where "CIPHER_NAME = ''hmac-sha256-etm-v1''"
definition MIN_KDF_ITERATIONS :: int where "MIN_KDF_ITERATIONS = 50000"
definition MAX_KDF_ITERATIONS :: int where "MAX_KDF_ITERATIONS = 10000000"

definition derive_key :: "string \<Rightarrow> bytes \<Rightarrow> nat \<Rightarrow> bytes result" where
  "derive_key passphrase salt iterations =
     (if passphrase = [] then Inl (ValueError ''Passphrase cannot be empty'') else Inr (pbkdf2_sha256 (utf8 passphrase) salt iterations))"

definition be32 :: "nat \<Rightarrow> bytes" where
  "be32 n = map (\<lambda>k. word_of_nat (n div 256 ^ k)) [3, 2, 1, 0]"

function keystream_from :: "nat \<Rightarrow> bytes \<Rightarrow> bytes \<Rightarrow> bytes \<Rightarrow> bytes" where
  "keystream_from i enc_key nonce data =
     (if data = [] then [] else xor_bytes (take 32 data) (hmac_sha256 enc_key (nonce @ be32 i)) @ keystream_from (i + 1) enc_key nonce (drop 32 data))"
  by pat_completeness auto

termination
  by (relation "measure (\<lambda>(i, e, n, d). length d)") auto

declare keystream_from.simps [simp del]

definition keystream_xor :: "bytes \<Rightarrow> bytes \<Rightarrow> bytes \<Rightarrow> bytes" where
  "keystream_xor data enc_key nonce = keystream_from 0 enc_key nonce data"

definition encrypt_value :: "string \<Rightarrow> string \<Rightarrow> bytes \<Rightarrow> bytes \<Rightarrow> ((string \<times> json) list) result" where
  "encrypt_value plaintext passphrase salt nonce =
     (if plaintext = [] then Inl (ValueError ''Nothing to encrypt'')
      else bind_res (derive_key passphrase salt KDF_ITERATIONS) (\<lambda>key.
        let enc_key = take 16 key; mac_key = drop 16 key;
            ciphertext = keystream_xor (utf8 plaintext) enc_key nonce;
            tag = hmac_sha256 mac_key (nonce @ ciphertext)
        in Inr [(''v'', JInt 2), (''kdf'', JObj [(''name'', JStr KDF_NAME), (''iterations'', JInt (int KDF_ITERATIONS))]),
                (''cipher'', JStr CIPHER_NAME), (''ciphertext'', JStr (b64encode ciphertext)), (''salt'', JStr (b64encode salt)),
                (''nonce'', JStr (b64encode nonce)), (''tag'', JStr (b64encode tag))]))"

definition blob_iterations :: "(string \<times> json) list \<Rightarrow> nat result" where
  "blob_iterations blob =
     (case map_of blob ''v'' of
        None \<Rightarrow> Inr LEGACY_PBKDF2_ITERATIONS
      | Some v \<Rightarrow>
          if v \<noteq> JInt 2 \<and> v \<noteq> JDec 20000 then Inl (ValueError ''Unsupported blob version'')
          else if obj_get blob ''cipher'' \<noteq> JStr CIPHER_NAME then Inl (ValueError ''Unsupported cipher'')
          else (case obj_get blob ''kdf'' of
             JObj kdf \<Rightarrow>
               if obj_get kdf ''name'' \<noteq> JStr KDF_NAME then Inl (ValueError ''Unsupported KDF'')
               else (case obj_get kdf ''iterations'' of
                  JInt n \<Rightarrow> if MIN_KDF_ITERATIONS \<le> n \<and> n \<le> MAX_KDF_ITERATIONS then Inr (nat n) else Inl (ValueError ''KDF iterations out of range'')
                | _ \<Rightarrow> Inl (ValueError ''KDF iterations out of range''))
           | _ \<Rightarrow> Inl (ValueError ''Unsupported KDF'')))"

definition is_legacy_blob :: "json \<Rightarrow> bool" where
  "is_legacy_blob j = (case j of JObj blob \<Rightarrow> map_of blob ''v'' = None | _ \<Rightarrow> False)"

definition blob_bytes :: "(string \<times> json) list \<Rightarrow> string \<Rightarrow> bytes result" where
  "blob_bytes blob k =
     (case map_of blob k of
        Some (JStr s) \<Rightarrow> (case b64decode s of Inr bs \<Rightarrow> Inr bs | Inl e \<Rightarrow> Inl (ValueError ''Invalid encrypted data format''))
      | _ \<Rightarrow> Inl (ValueError ''Invalid encrypted data format''))"

definition decrypt_value :: "json \<Rightarrow> string \<Rightarrow> string result" where
  "decrypt_value encrypted passphrase =
     (case encrypted of
        JObj blob \<Rightarrow>
          bind_res (blob_iterations blob) (\<lambda>iterations.
          bind_res (blob_bytes blob ''ciphertext'') (\<lambda>ciphertext.
          bind_res (blob_bytes blob ''salt'') (\<lambda>salt.
          bind_res (blob_bytes blob ''nonce'') (\<lambda>nonce.
          bind_res (blob_bytes blob ''tag'') (\<lambda>stored_tag.
          bind_res (derive_key passphrase salt iterations) (\<lambda>key.
            if hmac_sha256 (drop 16 key) (nonce @ ciphertext) \<noteq> stored_tag
            then Inl (ValueError ''Decryption failed: wrong passphrase or tampered data'')
            else (case utf8_decode (keystream_xor ciphertext (take 16 key) nonce) of
                    None \<Rightarrow> Inl (ValueError ''utf-8'') | Some s \<Rightarrow> Inr s)))))))
      | _ \<Rightarrow> Inl (ValueError ''Invalid encrypted data format: not an object''))"

subsection \<open>HMAC signatures and the registration challenge\<close>

text \<open>\<^verbatim>\<open>generate_keypair\<close>, its random bytes an argument: the private and the public key.\<close>

definition generate_keypair :: "bytes \<Rightarrow> string \<times> string" where
  "generate_keypair private_key = (b64encode private_key, b64encode (sha256 private_key))"

definition sign_message :: "string \<Rightarrow> string \<Rightarrow> string result" where
  "sign_message msg private_key_b64 = bind_res (b64decode private_key_b64) (\<lambda>k. Inr (b64encode (hmac_sha256 k (utf8 msg))))"

definition hmac_check :: "string \<Rightarrow> string \<Rightarrow> string \<Rightarrow> bool" where
  "hmac_check msg signature_b64 private_key_b64 =
     (case (b64decode private_key_b64, b64decode signature_b64) of (Inr k, Inr provided) \<Rightarrow> hmac_sha256 k (utf8 msg) = provided | _ \<Rightarrow> False)"

definition verify_signature :: "string \<Rightarrow> string \<Rightarrow> string option \<Rightarrow> bool" where
  "verify_signature msg signature_b64 private_key_b64 \<longleftrightarrow> truthy_str private_key_b64 \<and> hmac_check msg signature_b64 (str_or_empty private_key_b64)"

definition challenge_text :: "string \<Rightarrow> string \<Rightarrow> string \<Rightarrow> string" where
  "challenge_text nonce agent stamp = ''challenge:'' @ nonce @ '':'' @ agent @ '':'' @ stamp"

definition sign_challenge :: "string \<Rightarrow> string \<Rightarrow> string \<Rightarrow> nat \<Rightarrow> string result" where
  "sign_challenge nonce private_key_b64 agent now =
     bind_res (sign_message (challenge_text nonce agent (str_nat now)) private_key_b64)
       (\<lambda>signature. Inr (b64encode (utf8 (signature @ '':'' @ str_nat now))))"

text \<open>\<^verbatim>\<open>decoded.rsplit(":", 1)\<close> into two parts.\<close>

definition split_last_colon :: "string \<Rightarrow> (string \<times> string) option" where
  "split_last_colon s =
     (if CHR '':'' \<in> set s
      then Some (butlast (rev (dropWhile (\<lambda>c. c \<noteq> CHR '':'') (rev s))), rev (takeWhile (\<lambda>c. c \<noteq> CHR '':'') (rev s))) else None)"

definition verify_challenge :: "string \<Rightarrow> string \<Rightarrow> string \<Rightarrow> string \<Rightarrow> int \<Rightarrow> int \<Rightarrow> bool" where
  "verify_challenge answer nonce agent private_key_b64 max_age_seconds now =
     (case b64decode answer of
        Inl e \<Rightarrow> False
      | Inr bs \<Rightarrow>
          (case Option.bind (utf8_decode bs) split_last_colon of
             None \<Rightarrow> False
           | Some (signature, stamp) \<Rightarrow>
               (case parse_int stamp of
                  None \<Rightarrow> False
                | Some t \<Rightarrow> \<bar>now - t\<bar> \<le> max_age_seconds \<and> verify_signature (challenge_text nonce agent stamp) signature (Some private_key_b64))))"

subsection \<open>Opening what was sealed\<close>

lemma xor_bytes_twice: "length a \<le> length b \<Longrightarrow> xor_bytes (xor_bytes a b) b = a"
  unfolding xor_bytes_def by (induction a b rule: list_induct2') (auto simp: xor.assoc)

lemma length_xor_bytes [simp]: "length (xor_bytes a b) = min (length a) (length b)"
  by (simp add: xor_bytes_def)

lemma keystream_nil [simp]: "keystream_from i e n [] = []" "keystream_xor [] e n = []"
  by (simp_all add: keystream_from.simps keystream_xor_def)

lemma keystream_from_twice: "keystream_from i e n (keystream_from i e n d) = d"
proof (induction i e n d rule: keystream_from.induct)
  case (1 i e n d)
  show ?case
  proof (cases "d = []")
    case False
    let ?x = "xor_bytes (take 32 d) (hmac_sha256 e (n @ be32 i))" and ?r = "keystream_from (i + 1) e n (drop 32 d)"
    have k: "keystream_from i e n d = ?x @ ?r" using False by (simp add: keystream_from.simps [of i e n d])
    have len: "length ?x = min (length d) 32" by simp
    have short: "drop 32 d = [] \<Longrightarrow> ?r = []" by simp
    have td: "take 32 (?x @ ?r) = ?x" "drop 32 (?x @ ?r) = ?r"
      using len short by (cases "length d < 32"; auto)+
    have "?x @ ?r \<noteq> []" using False len by (metis append_is_Nil_conv length_greater_0_conv min_less_iff_conj zero_less_numeral)
    then have "keystream_from i e n (?x @ ?r) = xor_bytes ?x (hmac_sha256 e (n @ be32 i)) @ keystream_from (i + 1) e n ?r"
      by (subst keystream_from.simps) (simp only: td if_False)
    then show ?thesis using 1 [OF False] by (simp add: k xor_bytes_twice)
  qed simp
qed

lemma keystream_twice [simp]: "keystream_xor (keystream_xor d e n) e n = d"
  by (simp add: keystream_xor_def keystream_from_twice)

lemma encrypt_value_ok:
  assumes "plaintext \<noteq> []" "passphrase \<noteq> []"
  shows "\<exists>ct key. encrypt_value plaintext passphrase salt nonce =
      Inr [(''v'', JInt 2), (''kdf'', JObj [(''name'', JStr KDF_NAME), (''iterations'', JInt (int KDF_ITERATIONS))]),
           (''cipher'', JStr CIPHER_NAME), (''ciphertext'', JStr (b64encode ct)), (''salt'', JStr (b64encode salt)),
           (''nonce'', JStr (b64encode nonce)), (''tag'', JStr (b64encode (hmac_sha256 (drop 16 key) (nonce @ ct))))]
    \<and> key = pbkdf2_sha256 (utf8 passphrase) salt KDF_ITERATIONS \<and> ct = keystream_xor (utf8 plaintext) (take 16 key) nonce"
  using assms by (simp add: encrypt_value_def derive_key_def Let_def)

text \<open>What opening a blob of this build comes down to.\<close>

lemma decrypt_sealed:
  assumes "map_of blob ''v'' = Some (JInt 2)" "map_of blob ''cipher'' = Some (JStr CIPHER_NAME)"
    and "map_of blob ''kdf'' = Some (JObj [(''name'', JStr KDF_NAME), (''iterations'', JInt (int KDF_ITERATIONS))])"
    and "map_of blob ''ciphertext'' = Some (JStr (b64encode ct))" "map_of blob ''salt'' = Some (JStr (b64encode salt))"
    and "map_of blob ''nonce'' = Some (JStr (b64encode nonce))" "map_of blob ''tag'' = Some (JStr (b64encode tag))"
    and "passphrase \<noteq> []" "key = pbkdf2_sha256 (utf8 passphrase) salt KDF_ITERATIONS"
  shows "decrypt_value (JObj blob) passphrase =
    (if hmac_sha256 (drop 16 key) (nonce @ ct) \<noteq> tag then Inl (ValueError ''Decryption failed: wrong passphrase or tampered data'')
     else case utf8_decode (keystream_xor ct (take 16 key) nonce) of None \<Rightarrow> Inl (ValueError ''utf-8'') | Some s \<Rightarrow> Inr s)"
proof -
  have "blob_iterations blob = Inr KDF_ITERATIONS"
    using assms(1-3) by (simp add: blob_iterations_def KDF_ITERATIONS_def MIN_KDF_ITERATIONS_def MAX_KDF_ITERATIONS_def)
  then show ?thesis using assms(4-) by (simp add: decrypt_value_def blob_bytes_def derive_key_def)
qed

lemma sealed_opens:
  assumes "plaintext \<noteq> []" "passphrase \<noteq> []"
  shows "bind_res (encrypt_value plaintext passphrase salt nonce) (\<lambda>blob. decrypt_value (JObj blob) passphrase) = Inr plaintext"
proof -
  from encrypt_value_ok [OF assms, of salt nonce] obtain ct key where
    e: "encrypt_value plaintext passphrase salt nonce =
      Inr [(''v'', JInt 2), (''kdf'', JObj [(''name'', JStr KDF_NAME), (''iterations'', JInt (int KDF_ITERATIONS))]),
           (''cipher'', JStr CIPHER_NAME), (''ciphertext'', JStr (b64encode ct)), (''salt'', JStr (b64encode salt)),
           (''nonce'', JStr (b64encode nonce)), (''tag'', JStr (b64encode (hmac_sha256 (drop 16 key) (nonce @ ct))))]"
    and k: "key = pbkdf2_sha256 (utf8 passphrase) salt KDF_ITERATIONS" "ct = keystream_xor (utf8 plaintext) (take 16 key) nonce" by blast
  show ?thesis unfolding e bind_res.simps
    by (subst decrypt_sealed [OF _ _ _ _ _ _ _ assms(2) k(1), where ct = ct and nonce = nonce]) (simp_all add: k(2))
qed

text \<open>C31: C: A value sealed under a passphrase opens under it to the same text, whatever salt and nonce were drawn.\<close>

theorem vault_roundtrip:
  assumes "plaintext \<noteq> []" "passphrase \<noteq> []"
  shows "bind_res (encrypt_value plaintext passphrase salt nonce) (\<lambda>blob. decrypt_value (JObj blob) passphrase) = Inr plaintext"
  using assms by (rule sealed_opens)

theorem vault_roundtrip_witness:
  "bind_res (encrypt_value ''sk'' ''pw'' [1, 2] [3]) (\<lambda>blob. decrypt_value (JObj blob) ''pw'') = Inr ''sk''"
  by (rule vault_roundtrip) simp_all

text \<open>C: The tag commits to what it was made from: two blobs that both open under one passphrase with the same salt, cost and tag have the same
  nonce and ciphertext put together, or the keyed HMAC collides.\<close>

theorem vault_tag_commits:
  assumes "decrypt_value (JObj b1) passphrase = Inr p1" "decrypt_value (JObj b2) passphrase = Inr p2"
    and "blob_iterations b1 = blob_iterations b2" "blob_bytes b1 ''salt'' = blob_bytes b2 ''salt''" "blob_bytes b1 ''tag'' = blob_bytes b2 ''tag''"
  shows "\<exists>n1 c1 n2 c2 salt iters key. blob_bytes b1 ''nonce'' = Inr n1 \<and> blob_bytes b1 ''ciphertext'' = Inr c1
    \<and> blob_bytes b2 ''nonce'' = Inr n2 \<and> blob_bytes b2 ''ciphertext'' = Inr c2
    \<and> blob_bytes b1 ''salt'' = Inr salt \<and> blob_iterations b1 = Inr iters \<and> derive_key passphrase salt iters = Inr key
    \<and> (n1 @ c1 = n2 @ c2 \<or> n1 @ c1 \<noteq> n2 @ c2 \<and> hmac_sha256 (drop 16 key) (n1 @ c1) = hmac_sha256 (drop 16 key) (n2 @ c2))"
  using assms by (auto simp: decrypt_value_def split: if_splits option.splits)

text \<open>What an attacker without the passphrase can do to a blob: the ciphertext moves to the end of the nonce.\<close>

definition cut_blob :: "(string \<times> json) list \<Rightarrow> ((string \<times> json) list) result" where
  "cut_blob blob =
     bind_res (blob_bytes blob ''nonce'') (\<lambda>nonce. bind_res (blob_bytes blob ''ciphertext'') (\<lambda>ct.
       Inr (AList.update ''ciphertext'' (JStr (b64encode [])) (AList.update ''nonce'' (JStr (b64encode (nonce @ ct))) blob))))"

lemma cut_opens:
  assumes "plaintext \<noteq> []" "passphrase \<noteq> []"
  shows "bind_res (bind_res (encrypt_value plaintext passphrase salt nonce) cut_blob) (\<lambda>blob. decrypt_value (JObj blob) passphrase) = Inr []"
proof -
  from encrypt_value_ok [OF assms, of salt nonce] obtain ct key where
    e: "encrypt_value plaintext passphrase salt nonce =
      Inr [(''v'', JInt 2), (''kdf'', JObj [(''name'', JStr KDF_NAME), (''iterations'', JInt (int KDF_ITERATIONS))]),
           (''cipher'', JStr CIPHER_NAME), (''ciphertext'', JStr (b64encode ct)), (''salt'', JStr (b64encode salt)),
           (''nonce'', JStr (b64encode nonce)), (''tag'', JStr (b64encode (hmac_sha256 (drop 16 key) (nonce @ ct))))]"
    and k: "key = pbkdf2_sha256 (utf8 passphrase) salt KDF_ITERATIONS" by blast
  show ?thesis unfolding e bind_res.simps
    by (simp add: cut_blob_def blob_bytes_def del: b64encode.simps)
      (subst decrypt_sealed [OF _ _ _ _ _ _ _ assms(2) k, where ct = "[]" and nonce = "nonce @ ct"]; simp)
qed

text \<open>C: The boundary between nonce and ciphertext is not under the tag: whatever was sealed, the blob cut at it passes the tag check and opens as the
  empty text instead of being refused as tampered.\<close>

theorem cut_blob_opens_empty:
  assumes "plaintext \<noteq> []" "passphrase \<noteq> []"
  shows "bind_res (bind_res (encrypt_value plaintext passphrase salt nonce) cut_blob) (\<lambda>blob. decrypt_value (JObj blob) passphrase) = Inr []"
  using assms by (rule cut_opens)

theorem cut_blob_opens_empty_witness:
  "bind_res (bind_res (encrypt_value ''sk'' ''pw'' [1, 2] [3]) cut_blob) (\<lambda>blob. decrypt_value (JObj blob) ''pw'') = Inr []"
  by (rule cut_blob_opens_empty) simp_all

theorem vault_tag_commits_witness:
  "\<exists>b1 b2 n1 c1 n2 c2. encrypt_value ''sk'' ''pw'' [1, 2] [3] = Inr b1 \<and> cut_blob b1 = Inr b2 \<and> blob_bytes b1 ''nonce'' = Inr n1 \<and> blob_bytes b1 ''ciphertext'' = Inr c1
    \<and> blob_bytes b2 ''nonce'' = Inr n2 \<and> blob_bytes b2 ''ciphertext'' = Inr c2 \<and> (n1 @ c1 = n2 @ c2 \<or> (\<exists>k. hmac_sha256 k (n1 @ c1) = hmac_sha256 k (n2 @ c2)))"
proof -
  let ?e = "encrypt_value ''sk'' ''pw'' [1, 2] [3]"
  have one: "bind_res ?e (\<lambda>blob. decrypt_value (JObj blob) ''pw'') = Inr ''sk''" by (rule sealed_opens) simp_all
  have two: "bind_res (bind_res ?e cut_blob) (\<lambda>blob. decrypt_value (JObj blob) ''pw'') = Inr []" by (rule cut_opens) simp_all
  from one obtain b1 where b1: "?e = Inr b1" "decrypt_value (JObj b1) ''pw'' = Inr ''sk''" by auto
  with two obtain b2 where b2: "cut_blob b1 = Inr b2" "decrypt_value (JObj b2) ''pw'' = Inr []" by auto
  have mo: "map_of b2 k = map_of b1 k" if "k \<noteq> ''ciphertext''" "k \<noteq> ''nonce''" for k
    using b2(1) that by (auto simp: cut_blob_def update_conv')
  then have og: "obj_get b2 ''cipher'' = obj_get b1 ''cipher''" "obj_get b2 ''kdf'' = obj_get b1 ''kdf''" by simp_all
  have same: "blob_iterations b1 = blob_iterations b2" "blob_bytes b1 ''salt'' = blob_bytes b2 ''salt''" "blob_bytes b1 ''tag'' = blob_bytes b2 ''tag''"
    unfolding blob_iterations_def blob_bytes_def og by (simp_all add: mo del: obj_get.simps)
  from vault_tag_commits [OF b1(2) b2(2) same] b1(1) b2(1) show ?thesis by blast
qed

subsection \<open>The challenge\<close>

lemma split_last_colon_join: "CHR '':'' \<notin> set t \<Longrightarrow> split_last_colon (s @ '':'' @ t) = Some (s, t)"
proof -
  assume t: "CHR '':'' \<notin> set t"
  then have "takeWhile (\<lambda>c. c \<noteq> CHR '':'') (rev t @ CHR '':'' # rev s) = rev t" "dropWhile (\<lambda>c. c \<noteq> CHR '':'') (rev t @ CHR '':'' # rev s) = CHR '':'' # rev s"
    by (auto simp: takeWhile_append dropWhile_append)
  then show ?thesis by (simp add: split_last_colon_def)
qed

lemma digits_groups: "list_all is_digit s \<Longrightarrow> s \<noteq> [] \<or> seen \<Longrightarrow> digit_groups seen s"
  by (induction s arbitrary: seen) auto

lemma digit_no_space: "is_digit c \<Longrightarrow> \<not> is_space c \<and> c \<noteq> CHR ''-'' \<and> c \<noteq> CHR ''+'' \<and> c \<noteq> CHR '':''"
  by (auto simp: is_digit_def is_space_def Let_def)

lemma parse_int_str_nat:
  assumes "length (str_nat n) \<le> 4300"
  shows "parse_int (str_nat n) = Some (int n)"
proof -
  have d: "list_all is_digit (str_nat n)" using str_nat_digits by (simp add: list_all_iff)
  obtain c cs where s: "str_nat n = c # cs" "is_digit c" using str_nat_hd by blast
  have "is_digit (last (str_nat n))" using str_nat_digits [of n] by (simp add: s(1))
  then have "strip (c # cs) = c # cs" using digit_no_space s by (simp add: strip_eq_iff)
  moreover have "parse_nat (c # cs) = Some n"
    using assms d digits_groups [OF d, of False] nat_val_str_nat [of n] by (simp add: parse_nat_def s(1) filter_id_conv list_all_iff)
  ultimately show ?thesis using digit_no_space [OF s(2)] by (simp add: parse_int_def s(1))
qed

lemma challenge_verifies:
  assumes "b64decode private_key = Inr k" "private_key \<noteq> []" "length (str_nat t) \<le> 4300"
  shows "\<exists>answer. sign_challenge nonce private_key agent t = Inr answer
    \<and> verify_challenge answer nonce' agent' private_key max_age now =
       (\<bar>now - int t\<bar> \<le> max_age \<and> hmac_sha256 k (utf8 (challenge_text nonce' agent' (str_nat t))) = hmac_sha256 k (utf8 (challenge_text nonce agent (str_nat t))))"
proof -
  have "CHR '':'' \<notin> set (str_nat t)" using str_nat_digits [of t] by (auto dest: digit_no_space)
  note sp = split_last_colon_join [OF this]
  show ?thesis using assms
    by (auto simp: sign_challenge_def sign_message_def verify_challenge_def verify_signature_def hmac_check_def sp [simplified] parse_int_str_nat str_or_empty_def)
qed

text \<open>C: A challenge signed with the agent's key is accepted for the nonce and the agent it was signed for, exactly while the clock is within the
  window; an answer accepted for another nonce or agent would be an HMAC collision.\<close>

theorem challenge_roundtrip:
  assumes "b64decode private_key = Inr k" "private_key \<noteq> []" "length (str_nat t) \<le> 4300"
  shows "\<exists>answer. sign_challenge nonce private_key agent t = Inr answer
    \<and> (verify_challenge answer nonce agent private_key max_age now \<longleftrightarrow> \<bar>now - int t\<bar> \<le> max_age)
    \<and> (\<forall>nonce' agent'. verify_challenge answer nonce' agent' private_key max_age now \<longrightarrow>
         utf8 (challenge_text nonce' agent' (str_nat t)) = utf8 (challenge_text nonce agent (str_nat t))
         \<or> collision_between (hmac_sha256 k) {utf8 (challenge_text nonce' agent' (str_nat t))} {utf8 (challenge_text nonce agent (str_nat t))})"
proof -
  obtain answer where a: "sign_challenge nonce private_key agent t = Inr answer" using challenge_verifies [OF assms] by blast
  then have v: "verify_challenge answer nonce' agent' private_key max_age now =
       (\<bar>now - int t\<bar> \<le> max_age \<and> hmac_sha256 k (utf8 (challenge_text nonce' agent' (str_nat t))) = hmac_sha256 k (utf8 (challenge_text nonce agent (str_nat t))))" for nonce' agent'
    using challenge_verifies [OF assms, of nonce agent nonce' agent'] by simp
  show ?thesis using a v by (auto simp: collision_between_def)
qed

theorem challenge_roundtrip_witness:
  "\<exists>answer. sign_challenge ''n'' (b64encode [7]) ''bot'' 100 = Inr answer \<and> verify_challenge answer ''n'' ''bot'' (b64encode [7]) 300 250"
proof -
  have "b64encode [7] \<noteq> []" "length (str_nat 100) \<le> 4300" by code_simp+
  from challenge_roundtrip [OF b64_roundtrip this, of "''n''" "''bot''" 300 250] show ?thesis by auto
qed

end
