(* ===== verification/Agent_Auth.thy ===== *)
theory Agent_Auth
  imports Agent_Crypto
begin

text \<open>
  How one agent proves itself to another: the canonical strings, header sets and key rotations of \<^verbatim>\<open>agent/community_member/auth.py\<close>, the headers
  of the A2A client (\<^verbatim>\<open>a2a_client_v2.py\<close>), the did:key of \<^verbatim>\<open>crypto.py\<close> and the caller check of \<^verbatim>\<open>a2a_auth.py\<close>. PyNaCl and base58 are the
  argument \<open>ed25519\<close>: a key pair from a seed, signing, checking (false wherever PyNaCl raises, so that the reasons the code gives for a bad signature are one), the two base58 maps. What the code relies on is
  \<open>ed_correct\<close>. Headers are a dict in order; the clock is an argument, in whole seconds where the code truncates it. The text Python prints for a
  float, list or dict inside an f-string is an argument.

  Shown: what the client signs is accepted by the caller check as that client; an accepted caller signed this body for this agent id within
  five minutes under the key its headers carry; an accepted rotation was signed by the old key for this new key. The did:key a caller presents
  next to a public key is taken over unchecked, and a known Ed25519 public key is enough to forge a request under the HMAC scheme.
\<close>

subsection \<open>Ed25519 and did:key\<close>

record ed25519 =
  ed_nacl :: bool
  ed_base58 :: bool
  ed_public :: "bytes \<Rightarrow> bytes"
  ed_sign :: "bytes \<Rightarrow> bytes \<Rightarrow> bytes"
  ed_verify :: "bytes \<Rightarrow> bytes \<Rightarrow> bytes \<Rightarrow> bool"
  b58encode :: "bytes \<Rightarrow> string"
  b58decode :: "string \<Rightarrow> bytes option"

definition header_char :: "char \<Rightarrow> bool" where
  "header_char c \<longleftrightarrow> \<not> is_space c"

text \<open>Documented behaviour: 32-byte keys and 64-byte signatures, signatures of a seed check under its public key, base58 decodes what it encoded, without blanks, and the
  encoding of an Ed25519 multicodec key begins with the digit 6.\<close>

definition multicodec :: "bytes \<Rightarrow> bytes" where
  "multicodec k = [0xed, 0x01] @ k"

definition ed_correct :: "ed25519 \<Rightarrow> bool" where
  "ed_correct E \<longleftrightarrow> ed_nacl E \<and> ed_base58 E
     \<and> (\<forall>seed m. length seed = 32 \<longrightarrow> length (ed_public E seed) = 32 \<and> length (ed_sign E seed m) = 64 \<and> ed_verify E (ed_public E seed) m (ed_sign E seed m))
     \<and> (\<forall>bs. b58decode E (b58encode E bs) = Some bs \<and> list_all header_char (b58encode E bs))
     \<and> (\<forall>k. length k = 32 \<longrightarrow> (\<exists>cs. b58encode E (multicodec k) = CHR ''6'' # cs))"

definition ed25519_available :: "ed25519 \<Rightarrow> bool" where
  "ed25519_available E \<longleftrightarrow> ed_base58 E \<and> ed_nacl E"

definition ed25519_sign_message :: "ed25519 \<Rightarrow> string \<Rightarrow> string \<Rightarrow> string result" where
  "ed25519_sign_message E msg private_key_b64 =
     bind_res (b64decode private_key_b64) (\<lambda>seed.
       if length seed \<noteq> 32 then Inl (ValueError ''The seed must be exactly 32 bytes long'') else Inr (b64encode (ed_sign E seed (utf8 msg))))"

definition ed25519_public_from_private :: "ed25519 \<Rightarrow> string \<Rightarrow> string result" where
  "ed25519_public_from_private E private_key_b64 =
     bind_res (b64decode private_key_b64) (\<lambda>seed.
       if length seed \<noteq> 32 then Inl (ValueError ''The seed must be exactly 32 bytes long'') else Inr (b64encode (ed_public E seed)))"

definition build_did_key :: "ed25519 \<Rightarrow> string \<Rightarrow> string result" where
  "build_did_key E public_key_b64 =
     (if \<not> ed25519_available E then Inl (ValueError ''cannot mint a publishable did:key without Ed25519'')
      else bind_res (b64decode public_key_b64) (\<lambda>k.
        if length k \<noteq> 32 then Inl (ValueError ''Ed25519 public key must be 32 bytes'') else Inr (''did:key:z'' @ b58encode E (multicodec k))))"

text \<open>\<^verbatim>\<open>VerifyKey(b64decode(key)).verify(message, b64decode(signature))\<close>, false where it raises.\<close>

definition ed_check :: "ed25519 \<Rightarrow> string \<Rightarrow> string \<Rightarrow> string \<Rightarrow> bool" where
  "ed_check E key_b64 msg signature_b64 =
     (case (b64decode key_b64, b64decode signature_b64) of (Inr k, Inr s) \<Rightarrow> ed_verify E k (utf8 msg) s | _ \<Rightarrow> False)"

subsection \<open>Signing requests\<close>

type_synonym headers = "(string \<times> string) list"

definition canonical_string_v02 :: "string \<Rightarrow> string \<Rightarrow> string \<Rightarrow> string" where
  "canonical_string_v02 body agent_id timestamp = body @ '':'' @ agent_id @ '':'' @ timestamp"

definition upper_char :: "char \<Rightarrow> char" where
  "upper_char c = (let n = (of_char c :: nat) in if 97 \<le> n \<and> n \<le> 122 then char_of (n - 32) else c)"

definition canonical_string_v03 :: "string \<Rightarrow> string \<Rightarrow> string \<Rightarrow> string \<Rightarrow> string \<Rightarrow> string \<Rightarrow> string" where
  "canonical_string_v03 method url_path body agent_id timestamp nonce =
     map upper_char method @ '':'' @ url_path @ '':'' @ body @ '':'' @ agent_id @ '':'' @ timestamp @ '':'' @ nonce"

definition compose_signed_headers_v02 :: "string \<Rightarrow> string \<Rightarrow> string \<Rightarrow> string \<Rightarrow> headers" where
  "compose_signed_headers_v02 agent_id did_key timestamp signature =
     [(''X-Agent-ID'', agent_id), (''X-Agent-Signature'', signature), (''X-Agent-Timestamp'', timestamp), (''X-Agent-Sig-Scheme'', ''ed25519'')]
     @ (if did_key = [] then [] else [(''X-Agent-DID-Key'', did_key)])"

definition compose_signed_headers_v03 :: "string \<Rightarrow> string \<Rightarrow> string \<Rightarrow> string \<Rightarrow> string \<Rightarrow> headers" where
  "compose_signed_headers_v03 agent_id did_key timestamp nonce signature =
     [(''X-Agent-ID'', agent_id), (''X-Agent-Signature'', signature), (''X-Agent-Timestamp'', timestamp), (''X-Agent-Nonce'', nonce),
      (''X-Agent-Sig-Scheme'', ''ed25519+nonce'')]
     @ (if did_key = [] then [] else [(''X-Agent-DID-Key'', did_key)])"

record auth_keys =
  auth_private :: string
  auth_public :: string
  auth_scheme :: string
  auth_did :: string

text \<open>\<^verbatim>\<open>init_keys\<close>; the random seed is an argument.\<close>

definition init_keys :: "ed25519 \<Rightarrow> string \<Rightarrow> string \<Rightarrow> string \<Rightarrow> bytes \<Rightarrow> auth_keys result" where
  "init_keys E private_key public_key scheme seed =
     (let chosen = lower (if scheme = [] then (if ed25519_available E then ''ed25519'' else ''hmac-sha256'') else scheme);
          pair = (if private_key \<noteq> [] \<and> public_key \<noteq> [] then Inr (private_key, public_key)
                  else if chosen = ''ed25519''
                  then (if ed_nacl E then Inr (b64encode seed, b64encode (ed_public E seed)) else Inl (RuntimeError ''ImportError''))
                  else Inr (generate_keypair seed))
      in bind_res pair (\<lambda>(priv, pub).
           Inr \<lparr>auth_private = priv, auth_public = pub, auth_scheme = chosen,
                auth_did = (if chosen = ''ed25519'' then (case build_did_key E pub of Inr d \<Rightarrow> d | Inl e \<Rightarrow> []) else [])\<rparr>))"

definition sign_request_body :: "ed25519 \<Rightarrow> auth_keys \<Rightarrow> string \<Rightarrow> string \<Rightarrow> string \<Rightarrow> string \<Rightarrow> nat \<Rightarrow> bytes \<Rightarrow> headers result" where
  "sign_request_body E K body agent_id method url_path now random =
     (let timestamp = str_nat now in
      if auth_scheme K = ''ed25519'' then
        (if method \<noteq> [] \<and> url_path \<noteq> [] then
           (let nonce = b64encode random in
            bind_res (ed25519_sign_message E (canonical_string_v03 method url_path body agent_id timestamp nonce) (auth_private K))
              (\<lambda>signature. Inr (compose_signed_headers_v03 agent_id (auth_did K) timestamp nonce signature)))
         else bind_res (ed25519_sign_message E (canonical_string_v02 body agent_id timestamp) (auth_private K))
                (\<lambda>signature. Inr (compose_signed_headers_v02 agent_id (auth_did K) timestamp signature)))
      else bind_res (sign_message (canonical_string_v02 body agent_id timestamp) (auth_private K))
             (\<lambda>signature. Inr [(''X-Agent-ID'', agent_id), (''X-Agent-Signature'', signature), (''X-Agent-Timestamp'', timestamp),
                                 (''X-Agent-Sig-Scheme'', ''hmac-sha256''), (''X-Agent-Public-Key'', auth_public K)]))"

text \<open>\<^verbatim>\<open>_signed_headers\<close> of the A2A client.\<close>

definition signed_headers :: "ed25519 \<Rightarrow> string \<Rightarrow> string option \<Rightarrow> string option \<Rightarrow> string option \<Rightarrow> string option \<Rightarrow> nat \<Rightarrow> headers result" where
  "signed_headers E body agent_id private_key public_key scheme now =
     (let base = [(''Content-Type'', ''application/json'')] in
      if \<not> (truthy_str agent_id \<and> truthy_str private_key) then Inr base
      else (let chosen = lower (case scheme of None \<Rightarrow> if ed25519_available E then ''ed25519'' else ''hmac-sha256'' | Some s \<Rightarrow> s);
                ts = str_nat now; message = canonical_string_v02 body (str_or_empty agent_id) ts
            in if chosen = ''ed25519'' then
                 bind_res (ed25519_sign_message E message (str_or_empty private_key)) (\<lambda>sig.
                   Inr (base @ [(''X-Agent-ID'', str_or_empty agent_id), (''X-Agent-Signature'', sig), (''X-Agent-Timestamp'', ts), (''X-Agent-Sig-Scheme'', ''ed25519'')]
                        @ (if truthy_str public_key
                           then (case build_did_key E (str_or_empty public_key) of Inr d \<Rightarrow> [(''X-Agent-DID-Key'', d)] | Inl e \<Rightarrow> []) else [])))
               else
                 bind_res (sign_message message (str_or_empty private_key)) (\<lambda>sig.
                   Inr (base @ [(''X-Agent-ID'', str_or_empty agent_id), (''X-Agent-Signature'', sig), (''X-Agent-Timestamp'', ts), (''X-Agent-Sig-Scheme'', ''hmac-sha256'')]
                        @ (if truthy_str public_key then [(''X-Agent-Public-Key'', str_or_empty public_key)] else [])))))"

subsection \<open>Checking requests\<close>

definition header_get :: "headers \<Rightarrow> string \<Rightarrow> string" where
  "header_get hs name = (case map_of hs name of Some v \<Rightarrow> v | None \<Rightarrow> str_or_empty (map_of hs (lower name)))"

definition did_key_bytes :: "ed25519 \<Rightarrow> string \<Rightarrow> string" where
  "did_key_bytes E encoded =
     (if \<not> ed_base58 E then []
      else case b58decode E encoded of
        None \<Rightarrow> []
      | Some raw \<Rightarrow> if length raw = 34 \<and> take 2 raw = [0xed, 0x01] then b64encode (drop 2 raw) else [])"

definition known_key :: "headers option \<Rightarrow> string \<Rightarrow> string option" where
  "known_key known agent_id = (case known of None \<Rightarrow> None | Some m \<Rightarrow> map_of m agent_id)"

definition verify_ed25519_headers :: "ed25519 \<Rightarrow> string \<Rightarrow> string \<Rightarrow> string \<Rightarrow> string option \<Rightarrow> bool \<times> string" where
  "verify_ed25519_headers E message signature did_key known =
     (if \<not> ed_nacl E then (False, ''Ed25519 verification not available (install pynacl)'')
      else (let pubkey = (case known of
                   Some k \<Rightarrow> k
                 | None \<Rightarrow> if did_key \<noteq> [] \<and> startswith did_key ''did:key:z'' then did_key_bytes E (drop 9 did_key) else [])
            in if pubkey = [] then (False, ''No Ed25519 pubkey to verify against'')
               else if ed_check E pubkey message signature then (True, ''Valid (ed25519)'') else (False, ''Invalid Ed25519 signature'')))"

definition verify_request_headers :: "ed25519 \<Rightarrow> string \<Rightarrow> headers \<Rightarrow> headers option \<Rightarrow> int \<Rightarrow> int \<Rightarrow> bool \<times> string" where
  "verify_request_headers E body hs known_keys max_age_seconds now =
     (let agent_id = header_get hs ''X-Agent-ID''; signature = header_get hs ''X-Agent-Signature''; stamp = header_get hs ''X-Agent-Timestamp'' in
      if agent_id = [] then (False, ''Missing X-Agent-ID header'')
      else if signature = [] then (False, ''Missing X-Agent-Signature header'')
      else if stamp = [] then (False, ''Missing X-Agent-Timestamp header'')
      else case parse_int stamp of
        None \<Rightarrow> (False, ''Invalid timestamp format'')
      | Some t \<Rightarrow>
          if \<bar>now - t\<bar> > max_age_seconds then (False, ''Timestamp expired'')
          else (let message = canonical_string_v02 body agent_id stamp;
                    given = lower (header_get hs ''X-Agent-Sig-Scheme'');
                    scheme = (if given = [] then (if length signature > 60 then ''ed25519'' else ''hmac-sha256'') else given)
                in if scheme = ''ed25519''
                   then verify_ed25519_headers E message signature (header_get hs ''X-Agent-DID-Key'') (known_key known_keys agent_id)
                   else case known_key known_keys agent_id of
                     Some private_key \<Rightarrow>
                       if hmac_check message signature private_key then (True, ''Valid'') else (False, ''Invalid signature'')
                   | None \<Rightarrow>
                       if header_get hs ''X-Agent-Public-Key'' \<noteq> [] then (True, ''TOFU: public key accepted (first registration)'')
                       else (False, ''No known key and no public key provided'')))"

subsection \<open>The caller of an A2A method\<close>

datatype access = OPEN | CALLER_REQUIRED

definition METHOD_ACCESS :: "(string \<times> access) list" where
  "METHOD_ACCESS = [(''tasks/get'', OPEN), (''tasks/resubscribe'', OPEN), (''tasks/cancel'', CALLER_REQUIRED), (''tasks/send'', CALLER_REQUIRED),
     (''tasks/sendSubscribe'', CALLER_REQUIRED), (''nanda/cosignReceipt'', CALLER_REQUIRED), (''nanda/legacyTaskCensus'', CALLER_REQUIRED)]"

definition MAX_CLOCK_SKEW_S :: int where "MAX_CLOCK_SKEW_S = 300"

definition requires_caller :: "json \<Rightarrow> bool" where
  "requires_caller method =
     (case method of JStr m \<Rightarrow> (case map_of METHOD_ACCESS m of Some a \<Rightarrow> a = CALLER_REQUIRED | None \<Rightarrow> True) | _ \<Rightarrow> True)"

record CallerIdentity =
  caller_agent :: string
  caller_did :: string

text \<open>\<^verbatim>\<open>{k.lower(): v}\<close> then \<^verbatim>\<open>(lower.get(k) or "").strip()\<close>: among headers that differ in case the last one counts.\<close>

definition low_get :: "headers \<Rightarrow> string \<Rightarrow> string" where
  "low_get hs k = strip (str_or_empty (map_of (rev (map (\<lambda>kv. (lower (fst kv), snd kv)) hs)) k))"

definition public_key_from_headers :: "ed25519 \<Rightarrow> headers \<Rightarrow> string" where
  "public_key_from_headers E hs =
     (let direct = low_get hs ''x-agent-public-key''; did = low_get hs ''x-agent-did-key'' in
      if direct \<noteq> [] then direct
      else if did = [] then []
      else did_key_bytes E (dropWhile (\<lambda>c. c = CHR ''z'') (if startswith did ''did:key:'' then drop 8 did else did)))"

text \<open>Subtracting an integer past the range of a double from the clock raises, outside the guarded part.\<close>

definition double_overflow :: "int \<Rightarrow> bool" where
  "double_overflow n \<longleftrightarrow> \<bar>n\<bar> \<ge> 2 ^ 1024 - 2 ^ 970"

definition verify_caller :: "ed25519 \<Rightarrow> headers \<Rightarrow> string \<Rightarrow> rat \<Rightarrow> CallerIdentity option result" where
  "verify_caller E hs body now =
     (let agent_id = low_get hs ''x-agent-id''; signature = low_get hs ''x-agent-signature''; timestamp = low_get hs ''x-agent-timestamp'';
          sent_scheme = str_or_empty (map_of (rev (map (\<lambda>kv. (lower (fst kv), snd kv)) hs)) ''x-agent-sig-scheme'');
          scheme = lower (strip (if sent_scheme = [] then ''ed25519'' else sent_scheme))
      in if agent_id = [] \<or> signature = [] \<or> timestamp = [] then Inr None
         else if scheme \<noteq> ''ed25519'' then Inr None
         else case parse_int timestamp of
           None \<Rightarrow> Inr None
         | Some sent_at \<Rightarrow>
             if double_overflow sent_at then Inl (ValueError ''OverflowError'')
             else if \<bar>now - of_int sent_at\<bar> > of_int MAX_CLOCK_SKEW_S then Inr None
             else (let public_key = public_key_from_headers E hs in
                   if public_key = [] \<or> \<not> ed25519_available E then Inr None
                   else if ed_check E public_key (canonical_string_v02 body agent_id timestamp) signature
                   then Inr (Some \<lparr>caller_agent = agent_id, caller_did = low_get hs ''x-agent-did-key''\<rparr>)
                   else Inr None))"

subsection \<open>Key rotation\<close>

definition rotation_text :: "string \<Rightarrow> string \<Rightarrow> string \<Rightarrow> int \<Rightarrow> string \<Rightarrow> string" where
  "rotation_text chapter_id agent_id new_key ts nonce = ''ROTATE:'' @ chapter_id @ '':'' @ agent_id @ '':'' @ new_key @ '':'' @ str_int ts @ '':'' @ nonce"

definition create_rotation_attestation :: "ed25519 \<Rightarrow> string \<Rightarrow> string \<Rightarrow> string \<Rightarrow> string \<Rightarrow> int \<Rightarrow> string \<Rightarrow> ((string \<times> json) list) result" where
  "create_rotation_attestation E old_private new_public chapter_id agent_id ts nonce =
     (if old_private = [] then Inl (ValueError ''old_private_key_b64 required'')
      else if new_public = [] then Inl (ValueError ''new_public_key_b64 required'')
      else if chapter_id = [] then Inl (ValueError ''chapter_id required'')
      else if agent_id = [] then Inl (ValueError ''agent_id required'')
      else bind_res (ed25519_sign_message E (rotation_text chapter_id agent_id new_public ts nonce) old_private) (\<lambda>signature.
        Inr [(''kind'', JStr ''rotation''), (''chapter_id'', JStr chapter_id), (''agent_id'', JStr agent_id), (''new_public_key_b64'', JStr new_public),
             (''new_did_key'', JStr (case build_did_key E new_public of Inr d \<Rightarrow> d | Inl e \<Rightarrow> [])), (''timestamp'', JInt ts), (''nonce'', JStr nonce),
             (''signature'', JStr signature), (''scheme'', JStr ''ed25519'')]))"

text \<open>\<^verbatim>\<open>f"{value}"\<close>.\<close>

definition fstr :: "(json \<Rightarrow> string) \<Rightarrow> json \<Rightarrow> string" where
  "fstr py_text j =
     (case j of JStr s \<Rightarrow> s | JInt i \<Rightarrow> str_int i | JNull \<Rightarrow> ''None'' | JBool b \<Rightarrow> if b then ''True'' else ''False'' | _ \<Rightarrow> py_text j)"

definition str_bytes :: "json \<Rightarrow> bytes option" where
  "str_bytes j = (case j of JStr s \<Rightarrow> res_val (b64decode s) | _ \<Rightarrow> None)"

definition verify_rotation_attestation :: "ed25519 \<Rightarrow> (json \<Rightarrow> string) \<Rightarrow> (string \<times> json) list \<Rightarrow> string \<Rightarrow> int \<Rightarrow> string list option \<Rightarrow> int \<Rightarrow> (bool \<times> string) result" where
  "verify_rotation_attestation E py_text att old_public max_age_seconds known_nonces now =
     (if \<not> ed_nacl E then Inr (False, ''pynacl not installed'')
      else if list_ex (\<lambda>k. map_of att k = None) [''chapter_id'', ''agent_id'', ''new_public_key_b64'', ''timestamp'', ''nonce'', ''signature'']
      then Inr (False, ''missing fields'')
      else if obj_get att ''kind'' \<noteq> JStr ''rotation'' then Inr (False, ''not a rotation attestation'')
      else if obj_get att ''scheme'' \<noteq> JStr ''ed25519'' then Inr (False, ''unsupported scheme'')
      else case json_int (obj_get att ''timestamp'') of
        None \<Rightarrow> Inr (False, ''invalid timestamp'')
      | Some ts \<Rightarrow>
          if \<bar>now - ts\<bar> > max_age_seconds then Inr (False, ''timestamp out of window'')
          else if known_nonces \<noteq> None \<and> (case obj_get att ''nonce'' of JList xs \<Rightarrow> True | JObj kvs \<Rightarrow> True | _ \<Rightarrow> False)
          then Inl (TypeError ''unhashable type'')
          else if (case (known_nonces, obj_get att ''nonce'') of (Some seen, JStr n) \<Rightarrow> n \<in> set seen | _ \<Rightarrow> False) then Inr (False, ''nonce replay'')
          else (let message = rotation_text (fstr py_text (obj_get att ''chapter_id'')) (fstr py_text (obj_get att ''agent_id''))
                                (fstr py_text (obj_get att ''new_public_key_b64'')) ts (fstr py_text (obj_get att ''nonce''))
                in if \<not> (case (b64decode old_public, str_bytes (obj_get att ''signature'')) of
                           (Inr k, Some sig) \<Rightarrow> ed_verify E k (utf8 message) sig | _ \<Rightarrow> False)
                   then Inr (False, ''invalid signature (old key did not sign this attestation)'')
                   else if obj_get att ''new_public_key_b64'' = JStr old_public then Inr (False, ''new public key must differ from old'')
                   else case str_bytes (obj_get att ''new_public_key_b64'') of
                     None \<Rightarrow> Inr (False, ''new pubkey not valid base64'')
                   | Some raw \<Rightarrow> if length raw \<noteq> 32 then Inr (False, ''new pubkey wrong length'') else Inr (True, ''valid'')))"

subsection \<open>Header texts\<close>

lemma length_str_nat: "n < 10 ^ k \<Longrightarrow> 0 < k \<Longrightarrow> length (str_nat n) \<le> k"
proof (induction k arbitrary: n)
  case (Suc k)
  show ?case
  proof (cases "n < 10")
    case True
    then show ?thesis by (subst str_nat.simps) simp
  next
    case False
    with Suc.prems have "n div 10 < 10 ^ k" "0 < k" by (auto intro: gr0I)
    from Suc.IH [OF this] False show ?thesis by (subst str_nat.simps) simp
  qed
qed simp

lemma strip_plain: "list_all header_char s \<Longrightarrow> strip s = s"
  by (cases s) (auto simp: strip_eq_iff header_char_def list_all_iff)

lemma plain_stamp: "list_all header_char (str_nat t)"
  using str_nat_digits digit_no_space by (auto simp: list_all_iff header_char_def)

lemma b64_char_plain: "n < 64 \<Longrightarrow> header_char (b64_char n)"
proof -
  assume "n < 64"
  then have "b64_char n \<in> set b64_chars" using b64_chars_facts(1) by (simp add: b64_char_def)
  moreover have "list_all header_char b64_chars" by code_simp
  ultimately show ?thesis by (simp add: list_all_iff)
qed

lemma b64_plain: "list_all header_char (b64encode bs)"
proof -
  have "header_char (CHR ''='')" by code_simp
  then show ?thesis by (induction bs rule: b64encode.induct) (simp_all add: b64_char_plain byte_bounds)
qed

lemma b64_empty [simp]: "b64encode bs = [] \<longleftrightarrow> bs = []"
  by (cases bs rule: b64encode.cases) simp_all

lemma header_names:
  "lower ''X-Agent-ID'' = ''x-agent-id''" "lower ''X-Agent-Signature'' = ''x-agent-signature''" "lower ''X-Agent-Timestamp'' = ''x-agent-timestamp''"
  "lower ''X-Agent-Sig-Scheme'' = ''x-agent-sig-scheme''" "lower ''X-Agent-DID-Key'' = ''x-agent-did-key''" "lower ''X-Agent-Public-Key'' = ''x-agent-public-key''"
  "lower ''Content-Type'' = ''content-type''" "lower ''ed25519'' = ''ed25519''" "strip ''ed25519'' = ''ed25519''" "lower ''hmac-sha256'' = ''hmac-sha256''"
  by code_simp+

lemma stamp_facts:
  assumes "t < 10 ^ 12"
  shows "parse_int (str_nat t) = Some (int t)" "\<not> double_overflow (int t)" "strip (str_nat t) = str_nat t" "str_nat t \<noteq> []"
proof -
  have "length (str_nat t) \<le> 12" using length_str_nat [OF assms] by simp
  then show "parse_int (str_nat t) = Some (int t)" by (intro parse_int_str_nat) simp
  have "int t < 10 ^ 12" using assms by (metis of_nat_less_iff of_nat_numeral of_nat_power)
  moreover have "(10 :: int) ^ 12 < 2 ^ 1024 - 2 ^ 970" by simp
  ultimately show "\<not> double_overflow (int t)" by (simp add: double_overflow_def)
qed (simp_all add: strip_plain plain_stamp)

subsection \<open>What the caller check accepts\<close>

lemma ed_check_signed:
  assumes "ed_correct E" "length seed = 32"
  shows "ed_check E (b64encode (ed_public E seed)) msg (b64encode (ed_sign E seed (utf8 msg)))"
  using assms by (simp add: ed_check_def ed_correct_def)

lemma ed_sign_ne: "ed_correct E \<Longrightarrow> length seed = 32 \<Longrightarrow> ed_sign E seed m \<noteq> []"
  by (metis ed_correct_def list.size(3) zero_neq_numeral)

lemma did_of_key:
  assumes "ed_correct E" "length k = 32" "d = ''did:key:z'' @ b58encode E (multicodec k)"
  shows "did_key_bytes E (dropWhile (\<lambda>c. c = CHR ''z'') (if startswith d ''did:key:'' then drop 8 d else d)) = b64encode k" "strip d = d" "startswith d ''did:key:''"
proof -
  obtain cs where b: "b58encode E (multicodec k) = CHR ''6'' # cs" using assms(1,2) by (auto simp: ed_correct_def)
  have d: "b58decode E (b58encode E (multicodec k)) = Some (multicodec k)" "ed_base58 E" "list_all header_char (b58encode E (multicodec k))"
    using assms(1) by (auto simp: ed_correct_def)
  show s: "startswith d ''did:key:''" using assms(3) by (simp add: startswith_iff)
  have "dropWhile (\<lambda>c. c = CHR ''z'') (drop 8 d) = b58encode E (multicodec k)" using assms(3) b by simp
  then show "did_key_bytes E (dropWhile (\<lambda>c. c = CHR ''z'') (if startswith d ''did:key:'' then drop 8 d else d)) = b64encode k"
    using s d assms(2) by (simp add: did_key_bytes_def multicodec_def)
  have "list_all header_char ''did:key:z''" by code_simp
  then show "strip d = d" using d(3) assms(3) by (intro strip_plain) simp
qed

lemma multicodec_did:
  assumes "ed_correct E" "length seed = 32"
  shows "build_did_key E (b64encode (ed_public E seed)) = Inr (''did:key:z'' @ b58encode E (multicodec (ed_public E seed)))"
  using assms by (simp add: build_did_key_def ed25519_available_def ed_correct_def)

text \<open>C29: C: What the A2A client signs with an Ed25519 key pair is accepted by the caller check of the receiving agent, as the agent that signed it and
  the did:key of its public key, while the two clocks are within five minutes.\<close>

theorem client_headers_accepted:
  assumes "ed_correct E" "length seed = 32" "agent \<noteq> []" "strip agent = agent" "t < 10 ^ 12" "\<bar>now - of_nat t\<bar> \<le> 300"
  shows "\<exists>hs did. signed_headers E body (Some agent) (Some (b64encode seed)) (Some (b64encode (ed_public E seed))) None t = Inr hs
    \<and> build_did_key E (b64encode (ed_public E seed)) = Inr did \<and> verify_caller E hs body now = Inr (Some \<lparr>caller_agent = agent, caller_did = did\<rparr>)"
proof -
  let ?pub = "ed_public E seed" and ?sig = "b64encode (ed_sign E seed (utf8 (canonical_string_v02 body agent (str_nat t))))"
  let ?did = "''did:key:z'' @ b58encode E (multicodec ?pub)"
  let ?hs = "[(''Content-Type'', ''application/json''), (''X-Agent-ID'', agent), (''X-Agent-Signature'', ?sig), (''X-Agent-Timestamp'', str_nat t),
     (''X-Agent-Sig-Scheme'', ''ed25519''), (''X-Agent-DID-Key'', ?did)]"
  have avail: "ed25519_available E" "length ?pub = 32" using assms(1,2) by (auto simp: ed25519_available_def ed_correct_def)
  have ne: "b64encode seed \<noteq> []" "b64encode ?pub \<noteq> []" "?sig \<noteq> []" using avail(2) assms(2) ed_sign_ne [OF assms(1,2)] by auto
  have hs: "signed_headers E body (Some agent) (Some (b64encode seed)) (Some (b64encode ?pub)) None t = Inr ?hs"
    using assms(2,3) ne avail multicodec_did [OF assms(1,2)]
    by (simp add: signed_headers_def Let_def header_names ed25519_sign_message_def str_or_empty_def)
  note did = did_of_key [OF assms(1) avail(2) refl]
  have "verify_caller E ?hs body now = Inr (Some \<lparr>caller_agent = agent, caller_did = ?did\<rparr>)"
    using assms(3-6) ne did stamp_facts [OF assms(5)] avail ed_check_signed [OF assms(1,2)]
    by (simp add: verify_caller_def Let_def low_get_def header_names str_or_empty_def public_key_from_headers_def strip_plain b64_plain MAX_CLOCK_SKEW_S_def)
  with hs multicodec_did [OF assms(1,2)] show ?thesis by blast
qed

text \<open>A stand-in for PyNaCl and base58 that meets the assumptions.\<close>

definition toy_ed :: ed25519 where
  "toy_ed = \<lparr>ed_nacl = True, ed_base58 = True, ed_public = (\<lambda>s. s), ed_sign = (\<lambda>s m. s @ replicate 32 0), ed_verify = (\<lambda>k m s. s = k @ replicate 32 0),
     b58encode = (\<lambda>bs. CHR ''6'' # b64encode bs), b58decode = (\<lambda>s. res_val (b64decode (drop 1 s)))\<rparr>"

lemma toy_ed_correct: "ed_correct toy_ed"
proof -
  have "header_char (CHR ''6'')" by code_simp
  then show ?thesis by (simp add: ed_correct_def toy_ed_def b64_plain)
qed

theorem client_headers_accepted_witness:
  "\<exists>hs did. signed_headers toy_ed ''{}'' (Some ''bot'') (Some (b64encode (replicate 32 7))) (Some (b64encode (replicate 32 7))) None 1000 = Inr hs
    \<and> verify_caller toy_ed hs ''{}'' 1001 = Inr (Some \<lparr>caller_agent = ''bot'', caller_did = did\<rparr>)"
proof -
  have "strip ''bot'' = ''bot''" by code_simp
  moreover have "ed_public toy_ed (replicate 32 7) = replicate 32 7" by (simp add: toy_ed_def)
  ultimately show ?thesis
    using client_headers_accepted [OF toy_ed_correct, of "replicate 32 7" "''bot''" 1000 1001 "''{}''"] by auto
qed



text \<open>The headers of a caller that signs with its own key and presents somebody else's did:key.\<close>

definition spoofed_headers :: "ed25519 \<Rightarrow> bytes \<Rightarrow> string \<Rightarrow> string \<Rightarrow> string \<Rightarrow> nat \<Rightarrow> headers" where
  "spoofed_headers E seed did agent body t =
     [(''X-Agent-ID'', agent), (''X-Agent-Signature'', b64encode (ed_sign E seed (utf8 (canonical_string_v02 body agent (str_nat t))))),
      (''X-Agent-Timestamp'', str_nat t), (''X-Agent-Public-Key'', b64encode (ed_public E seed)), (''X-Agent-DID-Key'', did)]"

lemma spoofed_accepted:
  assumes "ed_correct E" "length seed = 32" "agent \<noteq> []" "strip agent = agent" "t < 10 ^ 12" "\<bar>now - of_nat t\<bar> \<le> 300"
  shows "verify_caller E (spoofed_headers E seed did agent body t) body now = Inr (Some \<lparr>caller_agent = agent, caller_did = strip did\<rparr>)"
proof -
  have avail: "ed25519_available E" "length (ed_public E seed) = 32" using assms(1,2) by (auto simp: ed25519_available_def ed_correct_def)
  then have "ed_public E seed \<noteq> []" by auto
  then show ?thesis
    using assms(3-6) stamp_facts [OF assms(5)] avail ed_check_signed [OF assms(1,2)] ed_sign_ne [OF assms(1,2)]
    by (simp add: spoofed_headers_def verify_caller_def Let_def low_get_def header_names str_or_empty_def public_key_from_headers_def strip_plain b64_plain MAX_CLOCK_SKEW_S_def)
qed

text \<open>C: The did:key a caller presents next to a public key is returned as its identity without any check: whoever holds some Ed25519 key is accepted
  as any did:key.\<close>

theorem presented_did_unchecked:
  fixes seed :: bytes
  assumes "ed_correct E" "length seed = 32" "agent \<noteq> []" "strip agent = agent" "strip did = did" "t < 10 ^ 12" "\<bar>now - of_nat t\<bar> \<le> 300"
  shows "\<exists>hs. verify_caller E hs body now = Inr (Some \<lparr>caller_agent = agent, caller_did = did\<rparr>)"
  using spoofed_accepted [OF assms(1-4,6,7), of did body] assms(5) by auto

theorem presented_did_unchecked_witness:
  "\<exists>hs. verify_caller toy_ed hs ''{}'' 1001 = Inr (Some \<lparr>caller_agent = ''bot'', caller_did = ''did:key:zVictim''\<rparr>)"
proof -
  have "strip ''bot'' = ''bot''" "strip ''did:key:zVictim'' = ''did:key:zVictim''" by code_simp+
  then show ?thesis
    using presented_did_unchecked [OF toy_ed_correct, of "replicate 32 7" "''bot''" "''did:key:zVictim''" 1000 1001 "''{}''"] by auto
qed


subsection \<open>Requests under a known key\<close>

lemma header_get_first [simp]: "header_get ((k, v) # hs) k = v"
  by (simp add: header_get_def)

text \<open>C: A request signed by \<^verbatim>\<open>sign_request_body\<close> without method and path verifies, within its window, for a receiver that knows the agent's
  public key.\<close>

theorem signed_request_verifies:
  assumes "ed_correct E" "length seed = 32" "agent \<noteq> []" "t < 10 ^ 12" "auth_scheme K = ''ed25519''" "auth_private K = b64encode seed"
    and "known_key known agent = Some (b64encode (ed_public E seed))" "\<bar>now - int t\<bar> \<le> max_age"
  shows "\<exists>hs. sign_request_body E K body agent [] [] t rnd = Inr hs \<and> verify_request_headers E body hs known max_age now = (True, ''Valid (ed25519)'')"
proof -
  let ?sig = "b64encode (ed_sign E seed (utf8 (canonical_string_v02 body agent (str_nat t))))"
  have s: "sign_request_body E K body agent [] [] t rnd = Inr (compose_signed_headers_v02 agent (auth_did K) (str_nat t) ?sig)"
    using assms(2,5,6) by (simp add: sign_request_body_def Let_def ed25519_sign_message_def)
  have "length (ed_public E seed) = 32" "ed_nacl E" using assms(1,2) by (auto simp: ed_correct_def)
  then have "ed_public E seed \<noteq> []" by auto
  then have "verify_request_headers E body (compose_signed_headers_v02 agent (auth_did K) (str_nat t) ?sig) known max_age now = (True, ''Valid (ed25519)'')"
    using assms(3,7,8) stamp_facts [OF assms(4)] ed_check_signed [OF assms(1,2)] ed_sign_ne [OF assms(1,2)] \<open>ed_nacl E\<close>
    by (simp add: compose_signed_headers_v02_def verify_request_headers_def header_get_def Let_def header_names verify_ed25519_headers_def)
  with s show ?thesis by blast
qed

theorem signed_request_verifies_witness:
  "\<exists>hs. sign_request_body toy_ed \<lparr>auth_private = b64encode (replicate 32 7), auth_public = [], auth_scheme = ''ed25519'', auth_did = []\<rparr> ''{}'' ''bot'' [] [] 1000 [] = Inr hs
    \<and> verify_request_headers toy_ed ''{}'' hs (Some [(''bot'', b64encode (ed_public toy_ed (replicate 32 7)))]) 300 1100 = (True, ''Valid (ed25519)'')"
  by (rule signed_request_verifies [OF toy_ed_correct, where seed = "replicate 32 7"]) (simp_all add: known_key_def)

text \<open>C: A known public key is enough to forge a request: the table of known keys serves both schemes, so a signature made by HMAC with the public
  key of an Ed25519 agent, under the HMAC scheme, verifies as that agent.\<close>

theorem public_key_forges:
  assumes "known_key known agent = Some public_key" "b64decode public_key = Inr k" "agent \<noteq> []" "t < 10 ^ 12" "\<bar>now - int t\<bar> \<le> max_age"
  shows "verify_request_headers E body [(''X-Agent-ID'', agent), (''X-Agent-Signature'', b64encode (hmac_sha256 k (utf8 (canonical_string_v02 body agent (str_nat t))))),
      (''X-Agent-Timestamp'', str_nat t), (''X-Agent-Sig-Scheme'', ''hmac-sha256'')] known max_age now = (True, ''Valid'')"
proof -
  have "hmac_sha256 k (utf8 (canonical_string_v02 body agent (str_nat t))) \<noteq> []" by (metis length_hmac list.size(3) zero_neq_numeral)
  then show ?thesis
    using assms(1,2,3,5) stamp_facts [OF assms(4)] by (simp add: verify_request_headers_def header_get_def Let_def header_names hmac_check_def)
qed

theorem public_key_forges_witness:
  "\<exists>hs. verify_request_headers toy_ed ''{}'' hs (Some [(''bot'', b64encode [1])]) 300 1000 = (True, ''Valid'')"
  using public_key_forges [of "Some [(''bot'', b64encode [1])]" "''bot''" "b64encode [1]" "[1]" 1000 1000 300 toy_ed "''{}''"] by (auto simp: known_key_def simp del: b64encode.simps)

text \<open>An agent nobody knows is accepted with any signature as soon as it sends some public key.\<close>

lemma first_use_unchecked:
  assumes "known_key known agent = None" "agent \<noteq> []" "signature \<noteq> []" "t < 10 ^ 12" "\<bar>now - int t\<bar> \<le> max_age"
  shows "fst (verify_request_headers E body [(''X-Agent-ID'', agent), (''X-Agent-Signature'', signature), (''X-Agent-Timestamp'', str_nat t),
      (''X-Agent-Sig-Scheme'', ''hmac-sha256''), (''X-Agent-Public-Key'', ''x'')] known max_age now)"
  using assms(1,2,3,5) stamp_facts [OF assms(4)] by (simp add: verify_request_headers_def header_get_def Let_def header_names)

subsection \<open>Rotation\<close>

lemma rotation_validD:
  assumes "verify_rotation_attestation E py_text att old_public max_age known now = Inr (True, why)"
  shows "\<exists>ts k sig new raw. json_int (obj_get att ''timestamp'') = Some ts \<and> \<bar>now - ts\<bar> \<le> max_age \<and> obj_get att ''new_public_key_b64'' = JStr new
    \<and> b64decode new = Inr raw \<and> length raw = 32 \<and> new \<noteq> old_public \<and> b64decode old_public = Inr k
    \<and> ed_verify E k (utf8 (rotation_text (fstr py_text (obj_get att ''chapter_id'')) (fstr py_text (obj_get att ''agent_id'')) new ts (fstr py_text (obj_get att ''nonce'')))) sig
    \<and> (\<forall>seen n. known = Some seen \<and> obj_get att ''nonce'' = JStr n \<longrightarrow> n \<notin> set seen)"
proof -
  from assms obtain raw where raw: "str_bytes (obj_get att ''new_public_key_b64'') = Some raw" "length raw = 32"
    by (auto simp: verify_rotation_attestation_def Let_def split: if_splits option.splits)
  then obtain new where new: "obj_get att ''new_public_key_b64'' = JStr new" "b64decode new = Inr raw" by (auto simp: str_bytes_def split: json.splits)
  have f: "fstr py_text (JStr new) = new" by (simp add: fstr_def)
  from assms new raw(2) show ?thesis
    by (auto simp: verify_rotation_attestation_def Let_def f split: if_splits option.splits sum.splits)
qed

text \<open>C: A rotation is accepted only when the old key signed this chapter, agent, new key, time and nonce, the time is in the window, the nonce was
  not seen, and the new key is another 32-byte key.\<close>

theorem rotation_signed_by_old_key:
  assumes "verify_rotation_attestation E py_text att old_public max_age known now = Inr (True, why)"
  shows "\<exists>ts k sig new raw. json_int (obj_get att ''timestamp'') = Some ts \<and> \<bar>now - ts\<bar> \<le> max_age \<and> obj_get att ''new_public_key_b64'' = JStr new
    \<and> b64decode new = Inr raw \<and> length raw = 32 \<and> new \<noteq> old_public \<and> b64decode old_public = Inr k
    \<and> ed_verify E k (utf8 (rotation_text (fstr py_text (obj_get att ''chapter_id'')) (fstr py_text (obj_get att ''agent_id'')) new ts (fstr py_text (obj_get att ''nonce'')))) sig
    \<and> (\<forall>seen n. known = Some seen \<and> obj_get att ''nonce'' = JStr n \<longrightarrow> n \<notin> set seen)"
  using assms by (rule rotation_validD)

text \<open>What \<^verbatim>\<open>create_rotation_attestation\<close> makes is accepted in its window.\<close>

lemma rotation_accepted:
  assumes "ed_correct E" "length seed = 32" "chapter_id \<noteq> []" "agent \<noteq> []" "length new = 32" "new \<noteq> ed_public E seed" "\<bar>now - ts\<bar> \<le> max_age"
    and "\<forall>seen. known = Some seen \<longrightarrow> nonce \<notin> set seen"
  shows "\<exists>att. create_rotation_attestation E (b64encode seed) (b64encode new) chapter_id agent ts nonce = Inr att
    \<and> verify_rotation_attestation E py_text att (b64encode (ed_public E seed)) max_age known now = Inr (True, ''valid'')"
proof -
  have ne: "seed \<noteq> []" "new \<noteq> []" "ed_nacl E" using assms(1,2,5) by (auto simp: ed_correct_def)
  have "b64encode new \<noteq> b64encode (ed_public E seed)" using assms(6) by (metis b64_roundtrip sum.inject(2))
  moreover have "ed_verify E (ed_public E seed) m (ed_sign E seed m)" for m using assms(1,2) by (auto simp: ed_correct_def)
  ultimately show ?thesis using ne assms(2-5,7,8)
    by (auto simp: create_rotation_attestation_def ed25519_sign_message_def verify_rotation_attestation_def Let_def fstr_def str_bytes_def split: option.splits)
qed

theorem rotation_signed_by_old_key_witness:
  "\<exists>att. create_rotation_attestation toy_ed (b64encode (replicate 32 7)) (b64encode (replicate 32 8)) ''ch'' ''bot'' 10 ''n'' = Inr att
     \<and> (\<exists>k sig. b64decode (b64encode (ed_public toy_ed (replicate 32 7))) = Inr k
          \<and> ed_verify toy_ed k (utf8 (rotation_text ''ch'' ''bot'' (b64encode (replicate 32 8)) 10 ''n'')) sig)"
proof -
  have "replicate 32 8 \<noteq> ed_public toy_ed (replicate 32 7)" by (simp add: toy_ed_def)
  from rotation_accepted [OF toy_ed_correct _ _ _ _ this, of "''ch''" "''bot''" 10 10 300 None "''n''" "\<lambda>j. []"] obtain att where
    a: "create_rotation_attestation toy_ed (b64encode (replicate 32 7)) (b64encode (replicate 32 8)) ''ch'' ''bot'' 10 ''n'' = Inr att"
      "verify_rotation_attestation toy_ed (\<lambda>j. []) att (b64encode (ed_public toy_ed (replicate 32 7))) 300 None 10 = Inr (True, ''valid'')" by auto
  have g: "obj_get att ''timestamp'' = JInt 10" "obj_get att ''chapter_id'' = JStr ''ch''" "obj_get att ''agent_id'' = JStr ''bot''" "obj_get att ''nonce'' = JStr ''n''"
      "obj_get att ''new_public_key_b64'' = JStr (b64encode (replicate 32 8))"
    using a(1) by (auto simp: create_rotation_attestation_def split: if_splits)
  from rotation_signed_by_old_key [OF a(2)] a(1) show ?thesis unfolding g by (auto simp: fstr_def simp del: b64_roundtrip)
qed

end
