(* ===== verification/Inbound_Rate.thy ===== *)
theory Inbound_Rate
  imports Prelude Py_Str Complex_Main "HOL-Library.AList"
begin

text \<open>
  The limiter in front of work-creating requests, \<^verbatim>\<open>agent/community_member/inbound_rate.py\<close>. The dictionary of deques is an association list in
  insertion order, clock readings are rationals, and a call runs under the lock, so calls follow one another. The two environment variables and
  \<^verbatim>\<open>float(raw)\<close> (infinities and NaN left out) are arguments.

  Shown: whatever arrives, at most \<open>_MAX_BUCKETS\<close> callers are tracked; as long as no more callers than that appear, no window of the configured
  length ever holds more allowed requests of one caller than the limit, and a refused caller is allowed again once the time it was told has
  passed.
\<close>

subsection \<open>Operations\<close>

type_synonym clock = rat
type_synonym hit_table = "(string \<times> clock list) list"

definition DEFAULT_MAX_REQUESTS :: int where "DEFAULT_MAX_REQUESTS = 30"
definition DEFAULT_WINDOW_S :: rat where "DEFAULT_WINDOW_S = 60"
definition MAX_BUCKETS :: nat where "MAX_BUCKETS = 4096"

definition limits :: "(string \<Rightarrow> rat option) \<Rightarrow> string option \<Rightarrow> string option \<Rightarrow> int \<times> rat" where
  "limits parse_float max_var window_var =
     (let m = strip (str_or_empty max_var); w = strip (str_or_empty window_var);
          max_requests = (if m = [] then DEFAULT_MAX_REQUESTS else case parse_int m of None \<Rightarrow> DEFAULT_MAX_REQUESTS | Some i \<Rightarrow> i);
          window = (if w = [] then DEFAULT_WINDOW_S else case parse_float w of None \<Rightarrow> DEFAULT_WINDOW_S | Some r \<Rightarrow> r)
      in (if max_requests \<le> 0 then DEFAULT_MAX_REQUESTS else max_requests, if window \<le> 0 then DEFAULT_WINDOW_S else window))"

definition caller_bucket :: "string option \<Rightarrow> string option \<Rightarrow> string" where
  "caller_bucket caller_key peer =
     (let key = strip (str_or_empty caller_key); addr = strip (str_or_empty peer) in
      if key \<noteq> [] then ''key:'' @ key else if addr \<noteq> [] then ''peer:'' @ addr else ''peer:unknown'')"

definition stale :: "clock \<Rightarrow> string \<times> clock list \<Rightarrow> bool" where
  "stale cutoff bh \<longleftrightarrow> snd bh = [] \<or> last (snd bh) \<le> cutoff"

definition evict :: "clock \<Rightarrow> hit_table \<Rightarrow> hit_table" where
  "evict cutoff tbl =
     (if list_ex (stale cutoff) tbl then filter (\<lambda>bh. \<not> stale cutoff bh) tbl
      else case tbl of [] \<Rightarrow> []
        | bh # rest \<Rightarrow> (let stalest = foldl (\<lambda>m x. if last (snd x) < last (snd m) then x else m) bh rest in filter (\<lambda>x. fst x \<noteq> fst stalest) tbl))"

definition check :: "int \<Rightarrow> rat \<Rightarrow> string \<Rightarrow> clock \<Rightarrow> hit_table \<Rightarrow> (bool \<times> int \<times> rat) \<times> hit_table" where
  "check max_requests window bucket clock tbl =
     (let cutoff = clock - window;
          tbl1 = (if map_of tbl bucket = None
                  then (if length tbl \<ge> MAX_BUCKETS then evict cutoff tbl else tbl) @ [(bucket, [])] else tbl);
          hits = dropWhile (\<lambda>t. t \<le> cutoff) (case map_of tbl1 bucket of None \<Rightarrow> [] | Some hs \<Rightarrow> hs)
      in if int (length hits) \<ge> max_requests
         then ((False, 0, max 0 (hd hits + window - clock)), AList.update bucket hits tbl1)
         else ((True, max_requests - int (length hits) - 1, 0), AList.update bucket (hits @ [clock]) tbl1))"

text \<open>A run of calls: who asked when, and whether it was allowed.\<close>

fun checks :: "int \<Rightarrow> rat \<Rightarrow> (string \<times> clock) list \<Rightarrow> hit_table \<Rightarrow> bool list \<times> hit_table" where
  "checks m w [] tbl = ([], tbl)"
| "checks m w (c # cs) tbl =
     (case check m w (fst c) (snd c) tbl of ((ok, left, after), tbl1) \<Rightarrow> (case checks m w cs tbl1 of (oks, tbl2) \<Rightarrow> (ok # oks, tbl2)))"

definition allowed_at :: "string \<Rightarrow> (string \<times> clock) list \<Rightarrow> bool list \<Rightarrow> clock list" where
  "allowed_at b cs oks = map (snd \<circ> fst) (filter (\<lambda>x. snd x \<and> fst (fst x) = b) (zip cs oks))"

subsection \<open>Limits and buckets\<close>

lemma limits_positive: "0 < fst (limits f m w)" "0 < snd (limits f m w)"
  by (auto simp: limits_def Let_def DEFAULT_MAX_REQUESTS_def DEFAULT_WINDOW_S_def split: option.splits)

lemma caller_bucket_kinds:
  assumes "strip (str_or_empty k) \<noteq> []" "strip (str_or_empty k') = []"
  shows "caller_bucket k p \<noteq> caller_bucket k' p'"
  using assms by (simp add: caller_bucket_def Let_def)

subsection \<open>The table stays small\<close>

lemma update_keys: "map_of tbl b \<noteq> None \<Longrightarrow> map fst (AList.update b v tbl) = map fst tbl"
  by (induction tbl) (auto split: if_splits)

lemma length_update: "map_of tbl b \<noteq> None \<Longrightarrow> length (AList.update b v tbl) = length tbl"
  by (metis length_map update_keys)

lemma evict_shrinks: "tbl \<noteq> [] \<Longrightarrow> length (evict cutoff tbl) < length tbl"
proof -
  assume ne: "tbl \<noteq> []"
  have keep: "foldl (\<lambda>m x. if last (snd x) < last (snd m) then x else m) b rest \<in> insert b (set rest)" for b :: "string \<times> clock list" and rest
    by (induction rest arbitrary: b) (auto split: if_splits)
  have short: "x \<in> set xs \<Longrightarrow> \<not> P x \<Longrightarrow> length (filter P xs) < length xs" for P and x :: "string \<times> clock list" and xs
    by (metis length_filter_less)
  show ?thesis
  proof (cases "list_ex (stale cutoff) tbl")
    case True
    then obtain x where "x \<in> set tbl" "stale cutoff x" by (auto simp: list_ex_iff)
    then show ?thesis using True short [of x tbl "\<lambda>bh. \<not> stale cutoff bh"] by (simp add: evict_def)
  next
    case False
    obtain b rest where t: "tbl = b # rest" using ne by (cases tbl) auto
    let ?s = "foldl (\<lambda>m x. if last (snd x) < last (snd m) then x else m) b rest"
    have "?s \<in> set tbl" using keep [of b rest] t by auto
    then show ?thesis using False t short [of ?s tbl "\<lambda>x. fst x \<noteq> fst ?s"] by (simp add: evict_def Let_def)
  qed
qed

lemma check_size:
  assumes "check m w b c tbl = (r, tbl1)" "length tbl \<le> MAX_BUCKETS"
  shows "length tbl1 \<le> MAX_BUCKETS"
proof -
  let ?t = "if map_of tbl b = None then (if length tbl \<ge> MAX_BUCKETS then evict (c - w) tbl else tbl) @ [(b, [])] else tbl"
  have "map_of ?t b \<noteq> None" by (auto simp: map_add_def split: option.splits)
  then have "length tbl1 = length ?t" using assms(1) by (auto simp: check_def Let_def length_update split: if_splits)
  moreover have "length ?t \<le> MAX_BUCKETS"
  proof (cases "map_of tbl b = None \<and> length tbl \<ge> MAX_BUCKETS")
    case True
    then have "tbl \<noteq> []" by (auto simp: MAX_BUCKETS_def)
    from evict_shrinks [OF this, of "c - w"] True assms(2) show ?thesis by simp
  qed (use assms(2) in auto)
  ultimately show ?thesis by simp
qed

subsection \<open>No window exceeds the limit\<close>

definition hits_of :: "hit_table \<Rightarrow> string \<Rightarrow> clock list" where
  "hits_of tbl b = (case map_of tbl b of None \<Rightarrow> [] | Some hs \<Rightarrow> hs)"

lemma dropWhile_sorted: "sorted xs \<Longrightarrow> dropWhile (\<lambda>t. t \<le> c) xs = filter (\<lambda>t. c < t) xs" for c :: clock
proof (induction xs)
  case (Cons x xs)
  show ?case
  proof (cases "x \<le> c")
    case False
    then have "\<forall>t \<in> set xs. c < t" using Cons.prems by auto
    with False show ?thesis by simp
  qed (use Cons in simp)
qed simp

lemma check_no_evict:
  assumes "map_of tbl b \<noteq> None \<or> length tbl < MAX_BUCKETS"
  shows "check m w b c tbl =
    (let hits = dropWhile (\<lambda>t. t \<le> c - w) (hits_of tbl b); t1 = (if map_of tbl b = None then tbl @ [(b, [])] else tbl)
     in if int (length hits) \<ge> m then ((False, 0, max 0 (hd hits + w - c)), AList.update b hits t1)
        else ((True, m - int (length hits) - 1, 0), AList.update b (hits @ [c]) t1))"
  using assms by (auto simp: check_def hits_of_def Let_def map_add_def split: option.splits)

lemma hits_of_update: "hits_of (AList.update b v (if map_of tbl b = None then tbl @ [(b, [])] else tbl)) b' = (if b' = b then v else hits_of tbl b')"
  by (auto simp: hits_of_def update_conv' map_add_def split: option.splits)

definition window_ok :: "int \<Rightarrow> rat \<Rightarrow> clock list \<Rightarrow> bool" where
  "window_ok m w ts \<longleftrightarrow> (\<forall>t. int (length (filter (\<lambda>x. t - w < x \<and> x \<le> t) ts)) \<le> m)"

definition log_ok :: "int \<Rightarrow> rat \<Rightarrow> clock \<Rightarrow> clock list \<Rightarrow> clock list \<Rightarrow> bool" where
  "log_ok m w now ts hits \<longleftrightarrow> sorted ts \<and> (\<forall>t \<in> set ts. t \<le> now) \<and> (\<exists>cut \<le> now - w. hits = filter (\<lambda>t. cut < t) ts) \<and> window_ok m w ts"

lemma log_ok_later: "log_ok m w now ts hits \<Longrightarrow> now \<le> c \<Longrightarrow> log_ok m w c ts hits"
proof -
  assume a: "log_ok m w now ts hits" "now \<le> c"
  then obtain cut where "cut \<le> now - w" "hits = filter (\<lambda>t. cut < t) ts" "sorted ts" "\<forall>t \<in> set ts. t \<le> now" "window_ok m w ts" by (auto simp: log_ok_def)
  with a(2) show ?thesis unfolding log_ok_def by (intro conjI exI [of _ cut]) auto
qed

lemma log_ok_pop:
  assumes "log_ok m w now ts hits" "now \<le> c"
  shows "dropWhile (\<lambda>t. t \<le> c - w) hits = filter (\<lambda>t. c - w < t) ts" "log_ok m w c ts (filter (\<lambda>t. c - w < t) ts)"
proof -
  obtain cut where cut: "cut \<le> now - w" "hits = filter (\<lambda>t. cut < t) ts" "sorted ts" using assms(1) by (auto simp: log_ok_def)
  have "(\<lambda>t. c - w < t \<and> cut < t) = (\<lambda>t. c - w < t)" using cut(1) assms(2) by (intro ext) auto
  with cut show "dropWhile (\<lambda>t. t \<le> c - w) hits = filter (\<lambda>t. c - w < t) ts" by (simp add: dropWhile_sorted sorted_filter [where f = id, simplified] conj_commute)
  show "log_ok m w c ts (filter (\<lambda>t. c - w < t) ts)" using assms by (fastforce simp: log_ok_def)
qed

lemma log_ok_allow:
  assumes "log_ok m w now ts hits" "now \<le> c" "0 < w" "int (length (filter (\<lambda>t. c - w < t) ts)) < m"
  shows "log_ok m w c (ts @ [c]) (filter (\<lambda>t. c - w < t) ts @ [c])"
proof -
  have s: "sorted ts" "\<forall>t \<in> set ts. t \<le> c" "window_ok m w ts" using assms(1,2) by (auto simp: log_ok_def)
  have "int (length (filter (\<lambda>x. t - w < x \<and> x \<le> t) (ts @ [c]))) \<le> m" for t
  proof (cases "t - w < c \<and> c \<le> t")
    case True
    have "length (filter (\<lambda>x. t - w < x \<and> x \<le> t) ts) \<le> length (filter (\<lambda>x. c - w < x) (filter (\<lambda>x. t - w < x \<and> x \<le> t) ts))"
    proof -
      have "filter (\<lambda>x. c - w < x) (filter (\<lambda>x. t - w < x \<and> x \<le> t) ts) = filter (\<lambda>x. t - w < x \<and> x \<le> t) ts"
        using True unfolding filter_filter by (intro filter_cong) auto
      then show ?thesis by simp
    qed
    also have "\<dots> \<le> length (filter (\<lambda>x. t - w < x \<and> x \<le> t) (filter (\<lambda>x. c - w < x) ts))" by (simp add: conj_commute conj_left_commute)
    also have "\<dots> \<le> length (filter (\<lambda>x. c - w < x) ts)" by (rule length_filter_le)
    finally show ?thesis using True assms(4) by simp
  next
    case False
    then have "filter (\<lambda>x. t - w < x \<and> x \<le> t) (ts @ [c]) = filter (\<lambda>x. t - w < x \<and> x \<le> t) ts" by auto
    then show ?thesis using s(3) by (simp only: window_ok_def)
  qed
  with s assms(3) show ?thesis by (auto simp: log_ok_def window_ok_def sorted_append intro!: exI [of _ "c - w"])
qed

lemma checks_keep_log:
  assumes "checks m w cs tbl = (oks, tbl1)" "sorted (map snd cs)" "\<forall>c \<in> set cs. now \<le> snd c" "fst ` set cs \<subseteq> B" "finite B" "card B \<le> MAX_BUCKETS" "0 < w"
    "distinct (map fst tbl)" "fst ` set tbl \<subseteq> B" "\<And>b. log_ok m w now (L b) (hits_of tbl b)"
  shows "window_ok m w (L b @ allowed_at b cs oks)"
  using assms
proof (induction cs arbitrary: tbl oks now L)
  case Nil
  then show ?case by (auto simp: allowed_at_def log_ok_def)
next
  case (Cons c cs)
  obtain b0 t0 where c: "c = (b0, t0)" by fastforce
  define t1 where "t1 = (if map_of tbl b0 = None then tbl @ [(b0, [])] else tbl)"
  define hits where "hits = filter (\<lambda>t. t0 - w < t) (L b0)"
  have now: "now \<le> t0" and cs: "\<forall>x \<in> set cs. t0 \<le> snd x" "sorted (map snd cs)" "fst ` set cs \<subseteq> B" "b0 \<in> B" using Cons.prems(2-4) by (auto simp: c)
  have "length tbl < MAX_BUCKETS" if "map_of tbl b0 = None"
  proof -
    have "length tbl = card (fst ` set tbl)" using Cons.prems(8) by (metis distinct_card length_map set_map)
    also have "\<dots> < card B" using that cs(4) Cons.prems(5,9) by (intro psubset_card_mono) (auto simp: map_of_eq_None_iff)
    finally show ?thesis using Cons.prems(6) by simp
  qed
  then have ch: "check m w b0 t0 tbl = (if int (length hits) \<ge> m then ((False, 0, max 0 (hd hits + w - t0)), AList.update b0 hits t1)
        else ((True, m - int (length hits) - 1, 0), AList.update b0 (hits @ [t0]) t1))"
    using check_no_evict [of tbl b0 m w t0] log_ok_pop(1) [OF Cons.prems(10) now, of b0] by (auto simp: hits_def t1_def Let_def)
  define ok where "ok = (\<not> int (length hits) \<ge> m)"
  define v where "v = (if ok then hits @ [t0] else hits)"
  define L1 where "L1 = (if ok then L(b0 := L b0 @ [t0]) else L)"
  obtain oks' where r: "checks m w cs (AList.update b0 v t1) = (oks', tbl1)" "oks = ok # oks'"
    using Cons.prems(1) ch by (auto simp: c ok_def v_def split: if_splits prod.splits)
  have keys: "distinct (map fst t1)" "fst ` set t1 \<subseteq> B" "map_of t1 b0 \<noteq> None"
    using Cons.prems(8,9) cs(4) by (auto simp: t1_def map_of_eq_None_iff map_add_def split: option.splits)
  have log: "log_ok m w t0 (L1 x) (hits_of (AList.update b0 v t1) x)" for x
  proof (cases "x = b0")
    case True
    then show ?thesis
      using log_ok_pop(2) [OF Cons.prems(10) now, of b0] log_ok_allow [OF Cons.prems(10) now Cons.prems(7), of b0]
      by (auto simp: t1_def hits_of_update v_def L1_def hits_def ok_def)
  next
    case False
    then show ?thesis using log_ok_later [OF Cons.prems(10) now, of x] by (auto simp: t1_def hits_of_update L1_def)
  qed
  have "window_ok m w (L1 b @ allowed_at b cs oks')"
  proof (rule Cons.IH [OF r(1) cs(2,1,3) Cons.prems(5-7) _ _ log])
    show "distinct (map fst (AList.update b0 v t1))" using keys by (simp add: update_keys)
    show "fst ` set (AList.update b0 v t1) \<subseteq> B" using keys by (metis set_map update_keys)
  qed
  then show ?case by (auto simp: allowed_at_def c r(2) L1_def split: if_splits)
qed

text \<open>C22: C: As long as no more callers appear than the limiter tracks, no caller is allowed more than the limit of requests in any window of the
  configured length, however the calls arrive.\<close>

theorem rate_limit_holds:
  assumes "checks m w cs [] = (oks, tbl)" "sorted (map snd cs)" "card (fst ` set cs) \<le> MAX_BUCKETS" "0 \<le> m" "0 < w"
  shows "int (length (filter (\<lambda>x. t - w < x \<and> x \<le> t) (allowed_at b cs oks))) \<le> m"
proof (cases cs)
  case Nil
  then show ?thesis using assms(4) by (simp add: allowed_at_def)
next
  case (Cons c cs')
  have "log_ok m w (snd c) [] (hits_of [] x)" for x using assms(4) by (auto simp: log_ok_def hits_of_def window_ok_def intro: exI [of _ "snd c - w"])
  then have "window_ok m w ([] @ allowed_at b cs oks)"
    by (intro checks_keep_log [OF assms(1,2), where now = "snd c" and B = "fst ` set cs"]) (use assms Cons in auto)
  then show ?thesis by (simp add: window_ok_def)
qed

theorem rate_limit_holds_witness:
  "int (length (filter (\<lambda>x. 5 - 60 < x \<and> x \<le> 5) (allowed_at ''key:a'' [(''key:a'', 1), (''key:a'', 2), (''key:b'', 3), (''key:a'', 4)]
     (fst (checks 2 60 [(''key:a'', 1), (''key:a'', 2), (''key:b'', 3), (''key:a'', 4)] []))))) \<le> 2"
proof -
  have "card (fst ` set [(''key:a'', 1 :: clock), (''key:a'', 2), (''key:b'', 3), (''key:a'', 4)]) \<le> MAX_BUCKETS"
    by (rule order_trans [OF card_image_le]) (simp_all add: MAX_BUCKETS_def card_insert_if)
  then show ?thesis by (intro rate_limit_holds [OF surjective_pairing]) simp_all
qed

text \<open>A refused caller that waits as long as it was told is allowed.\<close>

lemma retry_after_honoured:
  assumes "check m w b c tbl = ((False, left, wait), tbl1)" "map_of tbl b \<noteq> None" "int (length (hits_of tbl b)) \<le> m" "0 < m" "c + wait \<le> c'"
  shows "fst (fst (check m w b c' tbl1))"
proof -
  let ?hits = "dropWhile (\<lambda>t. t \<le> c - w) (hits_of tbl b)"
  have r: "wait = max 0 (hd ?hits + w - c)" "tbl1 = AList.update b ?hits tbl" "m \<le> int (length ?hits)"
    using assms(1,2) by (auto simp: check_no_evict Let_def split: if_splits)
  then have len: "length (dropWhile P ?hits) < length ?hits" if "P (hd ?hits)" for P
  proof (cases ?hits)
    case Nil
    with r(3) assms(4) show ?thesis by simp
  next
    case (Cons x xs)
    with that show ?thesis using length_dropWhile_le [of P xs] by (simp add: le_imp_less_Suc)
  qed
  have "hd ?hits + w - c \<le> wait" unfolding r(1) by (rule max.cobounded2)
  then have "hd ?hits \<le> c' - w" using assms(5) by linarith
  then have "length (dropWhile (\<lambda>t. t \<le> c' - w) ?hits) < length ?hits" by (rule len)
  moreover have "int (length ?hits) \<le> m" using assms(3) length_dropWhile_le [of "\<lambda>t. t \<le> c - w" "hits_of tbl b"] by linarith
  moreover have "hits_of tbl1 b = ?hits" "map_of tbl1 b \<noteq> None" using r(2) by (simp_all add: hits_of_def update_conv')
  ultimately show ?thesis by (simp add: check_no_evict Let_def)
qed

end
