(* ===== verification/A2a_Tasks.thy ===== *)
theory A2a_Tasks
  imports Agent_Auth Inbound_Rate
begin

text \<open>
  The JSON-RPC surface of an agent: the task store (\<^verbatim>\<open>agent/community_member/task_store.py\<close>), the dispatcher of the \<^verbatim>\<open>tasks/*\<close> methods
  (\<^verbatim>\<open>a2a_rpc.py\<close>) and the endpoint in front of them (\<^verbatim>\<open>a2a_rpc\<close> in \<^verbatim>\<open>server.py\<close>), which checks the caller (\<open>Agent_Auth\<close>) and limits its rate
  (\<open>Inbound_Rate\<close>). The state is the dict of tasks, the log on disk line by line, the counters, and the world the tools act on. Validation
  of envelopes and messages is pydantic's, an argument; so are the tool dispatcher and the co-signer, which the code takes as such. Identifiers
  minted and clock texts read during a request are given by number. Error texts are left out; a stream is read to its end; the log file accepts
  writes.

  Shown: a restart rebuilds the store from the log; every stored task is well formed; an unverified caller changes no task and runs no tool; a
  task with a recorded creator is changed only for a caller that presents the creator's did:key. Because a presented did:key is not checked
  against the signing key, any key holder can present it.
\<close>

subsection \<open>Tasks\<close>

datatype part = Text_Part string | Data_Part "(string \<times> json) list" | File_Part "(string \<times> json) list"

record a2a_message =
  m_role :: string
  m_parts :: "part list"
  m_id :: string
  m_context :: "string option"
  m_task :: "string option"

record artifact =
  art_id :: string
  art_name :: string
  art_parts :: "part list"
  art_last :: bool

record task_status =
  st_state :: string
  st_message :: "a2a_message option"
  st_time :: string

record task =
  t_id :: string
  t_session :: "string option"
  t_context :: "string option"
  t_creator :: "string option"
  t_status :: task_status
  t_artifacts :: "artifact list"
  t_history :: "a2a_message list"
  t_metadata :: "(string \<times> json) list option"

definition TASK_STATES :: "string list" where
  "TASK_STATES = [''submitted'', ''working'', ''input-required'', ''completed'', ''canceled'', ''failed'']"

datatype log_line = Log_Task task | Log_Corrupt

record 'w a2a_state =
  tasks :: "(string \<times> task) list"
  task_log :: "log_line list"
  unreadable_lines :: nat
  legacy_writes :: nat
  rate_hits :: hit_table
  tool_world :: 'w

subsection \<open>The task store\<close>

fun load_line :: "(string \<times> task) list \<times> nat \<Rightarrow> log_line \<Rightarrow> (string \<times> task) list \<times> nat" where
  "load_line (ts, bad) (Log_Task t) = (AList.update (t_id t) t ts, bad)"
| "load_line (ts, bad) Log_Corrupt = (ts, bad + 1)"

definition load :: "log_line list \<Rightarrow> (string \<times> task) list \<times> nat" where
  "load lines = foldl load_line ([], 0) lines"

text \<open>A new process over the same file and rate table of its own.\<close>

definition restart_store :: "'w a2a_state \<Rightarrow> 'w a2a_state" where
  "restart_store st = st\<lparr>tasks := fst (load (task_log st)), unreadable_lines := snd (load (task_log st)), legacy_writes := 0, rate_hits := []\<rparr>"

text \<open>Every write of the store: the dict entry and \<^verbatim>\<open>_append\<close>.\<close>

definition put_task :: "task \<Rightarrow> 'w a2a_state \<Rightarrow> 'w a2a_state" where
  "put_task t st = st\<lparr>tasks := AList.update (t_id t) t (tasks st), task_log := task_log st @ [Log_Task t]\<rparr>"

definition opt_str :: "json \<Rightarrow> string option result" where
  "opt_str j = (case j of JNull \<Rightarrow> Inr None | JStr s \<Rightarrow> Inr (Some s) | _ \<Rightarrow> Inl (ValueError ''ValidationError''))"

definition opt_obj :: "json \<Rightarrow> (string \<times> json) list option result" where
  "opt_obj j = (case j of JNull \<Rightarrow> Inr None | JObj kvs \<Rightarrow> Inr (Some kvs) | _ \<Rightarrow> Inl (ValueError ''ValidationError''))"

definition store_create :: "string \<Rightarrow> json \<Rightarrow> a2a_message \<Rightarrow> json \<Rightarrow> string \<Rightarrow> string option \<Rightarrow> string \<Rightarrow> 'w a2a_state \<Rightarrow> task result \<times> 'w a2a_state" where
  "store_create tid session msg metadata context creator now st =
     (case map_of (tasks st) tid of
        Some t \<Rightarrow>
          (let t1 = t\<lparr>t_history := t_history t @ [msg], t_status := \<lparr>st_state = ''working'', st_message = None, st_time = now\<rparr>\<rparr>
           in (Inr t1, put_task t1 st))
      | None \<Rightarrow>
          (case bind_res (opt_str session) (\<lambda>s. bind_res (opt_obj metadata) (\<lambda>md.
                  Inr \<lparr>t_id = tid, t_session = s, t_context = Some context, t_creator = creator,
                       t_status = \<lparr>st_state = ''submitted'', st_message = None, st_time = now\<rparr>, t_artifacts = [], t_history = [msg], t_metadata = md\<rparr>)) of
             Inl e \<Rightarrow> (Inl e, st)
           | Inr t \<Rightarrow> (Inr t, put_task t st)))"

definition transition :: "string \<Rightarrow> string \<Rightarrow> artifact option \<Rightarrow> a2a_message option \<Rightarrow> string \<Rightarrow> 'w a2a_state \<Rightarrow> task result \<times> 'w a2a_state" where
  "transition tid new_state artifact reply now st =
     (case map_of (tasks st) tid of
        None \<Rightarrow> (Inl (KeyError tid), st)
      | Some t \<Rightarrow>
          (let t1 = t\<lparr>t_status := \<lparr>st_state = new_state, st_message = reply, st_time = now\<rparr>,
                       t_artifacts := t_artifacts t @ (case artifact of None \<Rightarrow> [] | Some a \<Rightarrow> [a]),
                       t_history := t_history t @ (case reply of None \<Rightarrow> [] | Some m \<Rightarrow> [m])\<rparr>
           in (Inr t1, put_task t1 st)))"

definition cancel :: "string \<Rightarrow> string \<Rightarrow> 'w a2a_state \<Rightarrow> task option \<times> 'w a2a_state" where
  "cancel tid now st =
     (case map_of (tasks st) tid of
        None \<Rightarrow> (None, st)
      | Some t \<Rightarrow>
          if st_state (t_status t) \<in> {''completed'', ''canceled'', ''failed''} then (Some t, st)
          else (case transition tid ''canceled'' None None now st of (r, st1) \<Rightarrow> (res_val r, st1)))"

record census =
  tasks_present :: nat
  creatorless_tasks_present :: nat
  unreadable_log_lines :: nat

definition store_census :: "'w a2a_state \<Rightarrow> census" where
  "store_census st = \<lparr>tasks_present = length (tasks st), creatorless_tasks_present = length (filter (\<lambda>kt. \<not> truthy_str (t_creator (snd kt))) (tasks st)),
     unreadable_log_lines = unreadable_lines st\<rparr>"

subsection \<open>The dispatcher\<close>

record rpc_request =
  req_id :: json
  req_method :: string
  req_params :: json

datatype tool_outcome = Tool_Result string | Tool_Unknown | Tool_Raised string

record 'w rpc_env =
  parse_request :: "json \<Rightarrow> rpc_request option"
  parse_message :: "(string \<times> json) list \<Rightarrow> a2a_message option"
  dispatcher :: "string \<Rightarrow> (string \<times> json) list \<Rightarrow> 'w \<Rightarrow> tool_outcome \<times> 'w"
  cosigner :: "((string \<times> json) list \<Rightarrow> json) option"
  py_text :: "json \<Rightarrow> string"

record draws =
  minted :: "nat \<Rightarrow> string"
  stamps :: "nat \<Rightarrow> string"

datatype rpc_reply =
    Rpc_Task json task
  | Rpc_Witness json json
  | Rpc_Census json census nat
  | Rpc_Error json int "task option"
  | Rpc_Raised py_error

definition ERROR_PARSE :: int where "ERROR_PARSE = - 32700"
definition ERROR_INVALID_REQUEST :: int where "ERROR_INVALID_REQUEST = - 32600"
definition ERROR_METHOD_NOT_FOUND :: int where "ERROR_METHOD_NOT_FOUND = - 32601"
definition ERROR_INVALID_PARAMS :: int where "ERROR_INVALID_PARAMS = - 32602"
definition ERROR_TASK_NOT_FOUND :: int where "ERROR_TASK_NOT_FOUND = - 32001"
definition ERROR_TOOL_NOT_FOUND :: int where "ERROR_TOOL_NOT_FOUND = - 32002"
definition ERROR_TOOL_FAILED :: int where "ERROR_TOOL_FAILED = - 32003"
definition ERROR_CALLER_REQUIRED :: int where "ERROR_CALLER_REQUIRED = - 32004"
definition ERROR_NOT_TASK_CREATOR :: int where "ERROR_NOT_TASK_CREATOR = - 32005"
definition ERROR_RATE_LIMITED :: int where "ERROR_RATE_LIMITED = - 32006"

definition METHOD_ALIASES :: "(string \<times> string) list" where
  "METHOD_ALIASES = [(''message/send'', ''tasks/send''), (''message/stream'', ''tasks/sendSubscribe'')]"

definition canonical_method :: "string \<Rightarrow> string" where
  "canonical_method m = (case map_of METHOD_ALIASES m of Some c \<Rightarrow> c | None \<Rightarrow> m)"

definition STREAMING_METHODS :: "string list" where
  "STREAMING_METHODS = (let canonical = [''tasks/sendSubscribe'', ''tasks/resubscribe'']
     in canonical @ map fst (filter (\<lambda>a. snd a \<in> set canonical) METHOD_ALIASES))"

definition resolve_task_id :: "'w rpc_env \<Rightarrow> draws \<Rightarrow> (string \<times> json) list \<Rightarrow> a2a_message \<Rightarrow> string" where
  "resolve_task_id E d params msg =
     (if truthy (obj_get params ''id'') then fstr (py_text E) (obj_get params ''id'')
      else if truthy_str (m_task msg) then str_or_empty (m_task msg)
      else minted d 0)"

definition resolve_context_id :: "'w rpc_env \<Rightarrow> draws \<Rightarrow> (string \<times> json) list \<Rightarrow> a2a_message \<Rightarrow> string" where
  "resolve_context_id E d params msg =
     (if truthy_str (m_context msg) then str_or_empty (m_context msg)
      else if truthy (obj_get params ''sessionId'') then fstr (py_text E) (obj_get params ''sessionId'')
      else minted d 1)"

definition creator_permits :: "task \<Rightarrow> CallerIdentity option \<Rightarrow> 'w a2a_state \<Rightarrow> bool \<times> 'w a2a_state" where
  "creator_permits t caller st =
     (if \<not> truthy_str (t_creator t) then (True, st\<lparr>legacy_writes := legacy_writes st + 1\<rparr>)
      else (case caller of None \<Rightarrow> False | Some c \<Rightarrow> Some (caller_did c) = t_creator t, st))"

text \<open>The ownership check in front of a write to a task that exists.\<close>

definition may_write :: "string \<Rightarrow> CallerIdentity option \<Rightarrow> 'w a2a_state \<Rightarrow> bool \<times> 'w a2a_state" where
  "may_write tid caller st = (case map_of (tasks st) tid of None \<Rightarrow> (True, st) | Some t \<Rightarrow> creator_permits t caller st)"

fun extract_tool_call :: "part list \<Rightarrow> (string \<times> (string \<times> json) list) option" where
  "extract_tool_call [] = None"
| "extract_tool_call (Data_Part kvs # ps) =
     (case (obj_get kvs ''tool'', case map_of kvs ''args'' of None \<Rightarrow> JObj [] | Some a \<Rightarrow> a) of
        (JStr tool, JObj args) \<Rightarrow> if tool \<noteq> [] then Some (tool, args) else extract_tool_call ps
      | _ \<Rightarrow> extract_tool_call ps)"
| "extract_tool_call (p # ps) = extract_tool_call ps"

definition agent_reply :: "draws \<Rightarrow> string \<Rightarrow> a2a_message" where
  "agent_reply d txt = \<lparr>m_role = ''agent'', m_parts = [Text_Part txt], m_id = minted d 2, m_context = None, m_task = None\<rparr>"

definition tool_artifact :: "draws \<Rightarrow> string \<Rightarrow> string \<Rightarrow> artifact" where
  "tool_artifact d tool result =
     \<lparr>art_id = minted d 3, art_name = ''tool-result:'' @ tool, art_parts = [Data_Part [(''tool'', JStr tool), (''result'', JStr result)]], art_last = True\<rparr>"

definition creator_of :: "CallerIdentity option \<Rightarrow> string option" where
  "creator_of caller = (case caller of None \<Rightarrow> None | Some c \<Rightarrow> none_if_empty (caller_did c))"

datatype call_end = Asked | Unknown_Tool | Tool_Failed | Completed artifact

text \<open>The part the two sends share: ask for a tool call, or run the tool and record how it ended.\<close>

definition run_call :: "'w rpc_env \<Rightarrow> draws \<Rightarrow> string \<Rightarrow> a2a_message \<Rightarrow> string \<Rightarrow> string \<Rightarrow> 'w a2a_state \<Rightarrow> call_end \<times> task result \<times> 'w a2a_state" where
  "run_call E d ask msg tid now st =
     (case extract_tool_call (m_parts msg) of
        None \<Rightarrow> (Asked, transition tid ''input-required'' None (Some (agent_reply d ask)) now st)
      | Some (tool, args) \<Rightarrow>
          (case dispatcher E tool args (tool_world st) of (outcome, w) \<Rightarrow>
             let st1 = st\<lparr>tool_world := w\<rparr> in
             case outcome of
               Tool_Unknown \<Rightarrow> (Unknown_Tool, transition tid ''failed'' None (Some (agent_reply d (''Unknown tool: '' @ tool))) now st1)
             | Tool_Raised e \<Rightarrow> (Tool_Failed, transition tid ''failed'' None (Some (agent_reply d (''Tool execution failed: '' @ e))) now st1)
             | Tool_Result r \<Rightarrow>
                 (Completed (tool_artifact d tool r),
                  transition tid ''completed'' (Some (tool_artifact d tool r)) (Some (agent_reply d (''Invoked '' @ tool @ ''.''))) now st1)))"

definition send_reply :: "json \<Rightarrow> call_end \<Rightarrow> task result \<Rightarrow> rpc_reply" where
  "send_reply rid how r =
     (case r of
        Inl e \<Rightarrow> Rpc_Raised e
      | Inr t \<Rightarrow> (case how of
          Unknown_Tool \<Rightarrow> Rpc_Error rid ERROR_TOOL_NOT_FOUND (Some t)
        | Tool_Failed \<Rightarrow> Rpc_Error rid ERROR_TOOL_FAILED (Some t)
        | _ \<Rightarrow> Rpc_Task rid t))"

definition incoming :: "'w rpc_env \<Rightarrow> (string \<times> json) list \<Rightarrow> a2a_message option" where
  "incoming E params =
     (case obj_get params ''message'' of
        JObj raw \<Rightarrow> (case parse_message E raw of None \<Rightarrow> None | Some m \<Rightarrow> if m_role m = ''user'' then Some m else None)
      | _ \<Rightarrow> None)"

definition ask_text :: string where
  "ask_text = ''Send a DataPart with {tool: <name>, args: {...}} to invoke an agent tool. Free-text routing lands in a future sprint.''"

definition stream_ask_text :: string where
  "stream_ask_text = ''Send a DataPart with {tool, args} to invoke a tool.''"

definition tasks_send :: "'w rpc_env \<Rightarrow> draws \<Rightarrow> json \<Rightarrow> (string \<times> json) list \<Rightarrow> CallerIdentity option \<Rightarrow> 'w a2a_state \<Rightarrow> rpc_reply \<times> 'w a2a_state" where
  "tasks_send E d rid params caller st =
     (case incoming E params of
        None \<Rightarrow> (Rpc_Error rid ERROR_INVALID_PARAMS None, st)
      | Some msg \<Rightarrow>
          (let tid = resolve_task_id E d params msg in
           case may_write tid caller st of
             (False, st1) \<Rightarrow> (Rpc_Error rid ERROR_NOT_TASK_CREATOR None, st1)
           | (True, st1) \<Rightarrow>
               (case store_create tid (obj_get params ''sessionId'') msg (obj_get params ''metadata'') (resolve_context_id E d params msg) (creator_of caller)
                       (stamps d 0) st1 of
                  (Inl e, st2) \<Rightarrow> (Rpc_Raised e, st2)
                | (Inr t, st2) \<Rightarrow> (case run_call E d ask_text msg tid (stamps d 1) st2 of (how, r, st3) \<Rightarrow> (send_reply rid how r, st3)))))"

text \<open>\<^verbatim>\<open>store.get(task_id)\<close> on what the caller sent as id: a list or dict cannot be a key.\<close>

definition lookup_id :: "json \<Rightarrow> 'w a2a_state \<Rightarrow> task option result" where
  "lookup_id j st = (case j of JStr s \<Rightarrow> Inr (map_of (tasks st) s) | JList xs \<Rightarrow> Inl (TypeError ''unhashable type'') | JObj kvs \<Rightarrow> Inl (TypeError ''unhashable type'') | _ \<Rightarrow> Inr None)"

definition tasks_get :: "json \<Rightarrow> (string \<times> json) list \<Rightarrow> 'w a2a_state \<Rightarrow> rpc_reply" where
  "tasks_get rid params st =
     (if \<not> truthy (obj_get params ''id'') then Rpc_Error rid ERROR_INVALID_PARAMS None
      else case lookup_id (obj_get params ''id'') st of
        Inl e \<Rightarrow> Rpc_Raised e
      | Inr None \<Rightarrow> Rpc_Error rid ERROR_TASK_NOT_FOUND None
      | Inr (Some t) \<Rightarrow> Rpc_Task rid t)"

definition tasks_cancel :: "draws \<Rightarrow> json \<Rightarrow> (string \<times> json) list \<Rightarrow> CallerIdentity option \<Rightarrow> 'w a2a_state \<Rightarrow> rpc_reply \<times> 'w a2a_state" where
  "tasks_cancel d rid params caller st =
     (if \<not> truthy (obj_get params ''id'') then (Rpc_Error rid ERROR_INVALID_PARAMS None, st)
      else case obj_get params ''id'' of
        JStr tid \<Rightarrow>
          (case may_write tid caller st of
             (False, st1) \<Rightarrow> (Rpc_Error rid ERROR_NOT_TASK_CREATOR None, st1)
           | (True, st1) \<Rightarrow>
               (case cancel tid (stamps d 0) st1 of
                  (None, st2) \<Rightarrow> (Rpc_Error rid ERROR_TASK_NOT_FOUND None, st2)
                | (Some t, st2) \<Rightarrow> (Rpc_Task rid t, st2)))
      | j \<Rightarrow> (case lookup_id j st of Inl e \<Rightarrow> (Rpc_Raised e, st) | Inr r \<Rightarrow> (Rpc_Error rid ERROR_TASK_NOT_FOUND None, st)))"

definition cosign_receipt :: "'w rpc_env \<Rightarrow> json \<Rightarrow> (string \<times> json) list \<Rightarrow> rpc_reply" where
  "cosign_receipt E rid params =
     (case obj_get params ''receipt'' of
        JObj receipt \<Rightarrow> (case cosigner E of None \<Rightarrow> Rpc_Witness rid JNull | Some f \<Rightarrow> Rpc_Witness rid (f receipt))
      | _ \<Rightarrow> Rpc_Error rid ERROR_INVALID_PARAMS None)"

definition params_of :: "rpc_request \<Rightarrow> (string \<times> json) list" where
  "params_of req = (case req_params req of JObj kvs \<Rightarrow> kvs | _ \<Rightarrow> [])"

definition handle :: "'w rpc_env \<Rightarrow> draws \<Rightarrow> json \<Rightarrow> CallerIdentity option \<Rightarrow> 'w a2a_state \<Rightarrow> rpc_reply \<times> 'w a2a_state" where
  "handle E d body caller st =
     (case parse_request E body of
        None \<Rightarrow> (Rpc_Error JNull ERROR_INVALID_REQUEST None, st)
      | Some req \<Rightarrow>
          (let params = params_of req; m = canonical_method (req_method req) in
           if caller = None \<and> requires_caller (JStr m) then (Rpc_Error (req_id req) ERROR_CALLER_REQUIRED None, st)
           else if m = ''tasks/send'' then tasks_send E d (req_id req) params caller st
           else if m = ''tasks/get'' then (tasks_get (req_id req) params st, st)
           else if m = ''tasks/cancel'' then tasks_cancel d (req_id req) params caller st
           else if m = ''nanda/cosignReceipt'' then (cosign_receipt E (req_id req) params, st)
           else if m = ''nanda/legacyTaskCensus'' then (Rpc_Census (req_id req) (store_census st) (legacy_writes st), st)
           else (Rpc_Error (req_id req) ERROR_METHOD_NOT_FOUND None, st)))"

subsection \<open>Streaming\<close>

datatype sse_frame = Sse_Status json task bool | Sse_Artifact json task artifact | Sse_Error json int | Sse_Raised py_error

definition end_frames :: "json \<Rightarrow> call_end \<Rightarrow> task result \<Rightarrow> sse_frame list" where
  "end_frames rid how r =
     (case r of
        Inl e \<Rightarrow> [Sse_Raised e]
      | Inr t \<Rightarrow> (case how of Completed a \<Rightarrow> [Sse_Artifact rid t a, Sse_Status rid t True] | _ \<Rightarrow> [Sse_Status rid t True]))"

definition stream_send :: "'w rpc_env \<Rightarrow> draws \<Rightarrow> json \<Rightarrow> (string \<times> json) list \<Rightarrow> CallerIdentity option \<Rightarrow> 'w a2a_state \<Rightarrow> sse_frame list \<times> 'w a2a_state" where
  "stream_send E d rid params caller st =
     (case incoming E params of
        None \<Rightarrow> ([Sse_Error rid ERROR_INVALID_PARAMS], st)
      | Some msg \<Rightarrow>
          (let tid = resolve_task_id E d params msg in
           case may_write tid caller st of
             (False, st1) \<Rightarrow> ([Sse_Error rid ERROR_NOT_TASK_CREATOR], st1)
           | (True, st1) \<Rightarrow>
               (case store_create tid (obj_get params ''sessionId'') msg (obj_get params ''metadata'') (resolve_context_id E d params msg) (creator_of caller)
                       (stamps d 0) st1 of
                  (Inl e, st2) \<Rightarrow> ([Sse_Raised e], st2)
                | (Inr t, st2) \<Rightarrow>
                    (case transition tid ''working'' None None (stamps d 1) st2 of
                       (Inl e, st3) \<Rightarrow> ([Sse_Status rid t False, Sse_Raised e], st3)
                     | (Inr t1, st3) \<Rightarrow>
                         (case run_call E d stream_ask_text msg tid (stamps d 2) st3 of
                            (how, r, st4) \<Rightarrow> ([Sse_Status rid t False, Sse_Status rid t1 False] @ end_frames rid how r, st4))))))"

definition stream_resubscribe :: "json \<Rightarrow> (string \<times> json) list \<Rightarrow> 'w a2a_state \<Rightarrow> sse_frame list" where
  "stream_resubscribe rid params st =
     (if \<not> truthy (obj_get params ''id'') then [Sse_Error rid ERROR_INVALID_PARAMS]
      else case lookup_id (obj_get params ''id'') st of
        Inl e \<Rightarrow> [Sse_Raised e]
      | Inr None \<Rightarrow> [Sse_Error rid ERROR_TASK_NOT_FOUND]
      | Inr (Some t) \<Rightarrow> map (Sse_Artifact rid t) (t_artifacts t)
                        @ [Sse_Status rid t (st_state (t_status t) \<in> {''completed'', ''canceled'', ''failed'', ''input-required''})])"

definition stream :: "'w rpc_env \<Rightarrow> draws \<Rightarrow> json \<Rightarrow> CallerIdentity option \<Rightarrow> 'w a2a_state \<Rightarrow> sse_frame list \<times> 'w a2a_state" where
  "stream E d body caller st =
     (case parse_request E body of
        None \<Rightarrow> ([Sse_Error JNull ERROR_INVALID_REQUEST], st)
      | Some req \<Rightarrow>
          (let params = params_of req; m = canonical_method (req_method req) in
           if caller = None \<and> requires_caller (JStr m) then ([Sse_Error (req_id req) ERROR_CALLER_REQUIRED], st)
           else if m = ''tasks/sendSubscribe'' then stream_send E d (req_id req) params caller st
           else if m = ''tasks/resubscribe'' then (stream_resubscribe (req_id req) params st, st)
           else ([Sse_Error (req_id req) ERROR_METHOD_NOT_FOUND], st)))"

subsection \<open>The endpoint\<close>

record a2a_request =
  sent_headers :: headers
  sent_text :: string
  sent_json :: "json option"
  peer_host :: "string option"
  wall_clock :: rat
  ticks :: rat

datatype a2a_reply = Http_Json rpc_reply | Http_Stream "sse_frame list" | Http_429 json int

definition sent_method :: "json \<Rightarrow> json" where
  "sent_method body = (case body of JObj kvs \<Rightarrow> obj_get kvs ''method'' | _ \<Rightarrow> JNull)"

text \<open>\<^verbatim>\<open>str(max(1, int(retry_after + 0.999)))\<close>, the value of the header.\<close>

definition retry_header :: "rat \<Rightarrow> int" where
  "retry_header retry_after = max 1 \<lfloor>retry_after + 999 / 1000\<rfloor>"

definition route :: "'w rpc_env \<Rightarrow> draws \<Rightarrow> json \<Rightarrow> CallerIdentity option \<Rightarrow> 'w a2a_state \<Rightarrow> a2a_reply \<times> 'w a2a_state" where
  "route E d body caller st =
     (let plain = (case handle E d body caller st of (r, st1) \<Rightarrow> (Http_Json r, st1)) in
      case sent_method body of
        JList xs \<Rightarrow> (Http_Json (Rpc_Raised (TypeError ''unhashable type'')), st)
      | JObj kvs \<Rightarrow> (Http_Json (Rpc_Raised (TypeError ''unhashable type'')), st)
      | JStr name \<Rightarrow> if name \<in> set STREAMING_METHODS then (case stream E d body caller st of (fs, st1) \<Rightarrow> (Http_Stream fs, st1)) else plain
      | _ \<Rightarrow> plain)"

definition a2a_rpc :: "ed25519 \<Rightarrow> 'w rpc_env \<Rightarrow> int \<Rightarrow> rat \<Rightarrow> draws \<Rightarrow> a2a_request \<Rightarrow> 'w a2a_state \<Rightarrow> a2a_reply \<times> 'w a2a_state" where
  "a2a_rpc ED E max_requests window d rq st =
     (case sent_json rq of
        None \<Rightarrow> (Http_Json (Rpc_Error JNull ERROR_PARSE None), st)
      | Some body \<Rightarrow>
          (case verify_caller ED (sent_headers rq) (sent_text rq) (wall_clock rq) of
             Inl e \<Rightarrow> (Http_Json (Rpc_Raised e), st)
           | Inr caller \<Rightarrow>
               if requires_caller (sent_method body)
               then (case check max_requests window (caller_bucket (creator_of caller) (peer_host rq)) (ticks rq) (rate_hits st) of
                  ((allowed, left, retry_after), hits) \<Rightarrow>
                    if \<not> allowed
                    then (Http_429 (case body of JObj kvs \<Rightarrow> obj_get kvs ''id'' | _ \<Rightarrow> JNull) (retry_header retry_after), st\<lparr>rate_hits := hits\<rparr>)
                    else route E d body caller (st\<lparr>rate_hits := hits\<rparr>))
               else route E d body caller st))"

subsection \<open>The store and its log\<close>

definition wf_task :: "string \<Rightarrow> task \<Rightarrow> bool" where
  "wf_task k t \<longleftrightarrow> t_id t = k \<and> st_state (t_status t) \<in> set TASK_STATES \<and> t_history t \<noteq> [] \<and> m_role (hd (t_history t)) = ''user''"

definition store_ok :: "'w a2a_state \<Rightarrow> bool" where
  "store_ok st \<longleftrightarrow> distinct (map fst (tasks st)) \<and> (\<forall>kt \<in> set (tasks st). wf_task (fst kt) (snd kt)) \<and> load (task_log st) = (tasks st, unreadable_lines st)"

lemma store_ok_other [simp]:
  "store_ok (st\<lparr>legacy_writes := n\<rparr>) = store_ok st" "store_ok (st\<lparr>rate_hits := h\<rparr>) = store_ok st" "store_ok (st\<lparr>tool_world := w\<rparr>) = store_ok st"
  by (simp_all add: store_ok_def)

lemma update_set: "kt \<in> set (AList.update k v al) \<Longrightarrow> kt = (k, v) \<or> kt \<in> set al"
  by (induction al) (auto split: if_splits)

lemma load_snoc: "load (ls @ [Log_Task t]) = (AList.update (t_id t) t (fst (load ls)), snd (load ls))"
  by (cases "load ls") (simp add: load_def)

lemma put_task_ok: "store_ok st \<Longrightarrow> wf_task (t_id t) t \<Longrightarrow> store_ok (put_task t st)"
  by (auto simp: store_ok_def put_task_def load_snoc distinct_update dest!: update_set)

lemma put_task_get [simp]: "map_of (tasks (put_task t st)) k = (if k = t_id t then Some t else map_of (tasks st) k)"
  by (simp add: put_task_def update_conv')

lemma put_task_world [simp]: "tool_world (put_task t st) = tool_world st" "rate_hits (put_task t st) = rate_hits st"
  by (simp_all add: put_task_def)

lemma store_ok_get: "store_ok st \<Longrightarrow> map_of (tasks st) k = Some t \<Longrightarrow> wf_task k t"
  by (auto simp: store_ok_def dest!: map_of_SomeD)

lemma state_names: "''submitted'' \<in> set TASK_STATES" "''working'' \<in> set TASK_STATES" "''input-required'' \<in> set TASK_STATES"
    "''completed'' \<in> set TASK_STATES" "''canceled'' \<in> set TASK_STATES" "''failed'' \<in> set TASK_STATES"
  by (simp_all add: TASK_STATES_def)

text \<open>What each operation does to the store: it writes well-formed versions of the one task it was called for.\<close>

definition touches :: "string \<Rightarrow> 'w a2a_state \<Rightarrow> 'w a2a_state \<Rightarrow> bool" where
  "touches tid st st1 \<longleftrightarrow> (store_ok st \<longrightarrow> store_ok st1) \<and> (\<forall>k. k \<noteq> tid \<longrightarrow> map_of (tasks st1) k = map_of (tasks st) k)"

lemma touches_refl [simp]: "touches tid st st"
  by (simp add: touches_def)

lemma touches_trans: "touches tid st st1 \<Longrightarrow> touches tid st1 st2 \<Longrightarrow> touches tid st st2"
  by (auto simp: touches_def)

lemma touches_put: "(store_ok st \<Longrightarrow> wf_task tid t) \<Longrightarrow> t_id t = tid \<Longrightarrow> touches tid st (put_task t st)"
  by (auto simp: touches_def intro: put_task_ok)

lemma touches_other: "touches tid st (st\<lparr>legacy_writes := n\<rparr>)" "touches tid st (st\<lparr>tool_world := w\<rparr>)" "touches tid st (st\<lparr>rate_hits := h\<rparr>)"
  by (simp_all add: touches_def)

lemma store_create_touches:
  assumes "store_ok st" "m_role msg = ''user''"
  shows "touches tid st (snd (store_create tid session msg metadata context creator now st))"
proof (cases "map_of (tasks st) tid")
  case None
  then show ?thesis using assms(2)
    by (auto simp: store_create_def wf_task_def state_names intro!: touches_put split: sum.splits)
next
  case (Some t)
  with store_ok_get [OF assms(1) Some] assms(2) show ?thesis
    by (auto simp: store_create_def wf_task_def state_names Let_def intro!: touches_put)
qed

lemma transition_touches:
  assumes "store_ok st" "new \<in> set TASK_STATES"
  shows "touches tid st (snd (transition tid new art reply now st))"
proof (cases "map_of (tasks st) tid")
  case (Some t)
  with store_ok_get [OF assms(1) Some] assms(2) show ?thesis
    by (auto simp: transition_def wf_task_def Let_def intro!: touches_put)
qed (simp add: transition_def)

lemma cancel_touches: "store_ok st \<Longrightarrow> touches tid st (snd (cancel tid now st))"
  using transition_touches [of st "''canceled''" tid None None now] by (auto simp: cancel_def state_names split: option.splits prod.splits)

lemma may_write_frame: "tasks (snd (may_write tid caller st)) = tasks st" "tool_world (snd (may_write tid caller st)) = tool_world st"
    "store_ok (snd (may_write tid caller st)) = store_ok st"
  by (auto simp: may_write_def creator_permits_def split: option.splits)

lemma may_write_touches: "touches tid st (snd (may_write tid' caller st))"
  by (simp add: touches_def may_write_frame)

lemma run_call_touches:
  assumes "store_ok st"
  shows "touches tid st (snd (snd (run_call E d ask msg tid now st)))"
proof -
  have w: "store_ok (st\<lparr>tool_world := w\<rparr>)" for w using assms by simp
  show ?thesis
    using assms
    by (auto simp: run_call_def Let_def state_names split: option.splits prod.splits tool_outcome.splits
        intro!: transition_touches touches_trans [OF touches_other(2) transition_touches [OF w]])
qed

subsection \<open>Requests write only where the caller may\<close>

definition owned_write :: "CallerIdentity option \<Rightarrow> 'w a2a_state \<Rightarrow> 'w a2a_state \<Rightarrow> bool" where
  "owned_write caller st st1 \<longleftrightarrow> (\<exists>tid. touches tid st st1 \<and> (fst (may_write tid caller st) \<or> tasks st1 = tasks st))"

lemma owned_write_same: "(store_ok st \<Longrightarrow> store_ok st1) \<Longrightarrow> tasks st1 = tasks st \<Longrightarrow> owned_write caller st st1"
  by (auto simp: owned_write_def touches_def)

lemma owned_write_refl [simp]: "owned_write caller st st"
  by (rule owned_write_same) simp_all

lemma owned_write_ok: "owned_write caller st st1 \<Longrightarrow> store_ok st \<Longrightarrow> store_ok st1"
  by (auto simp: owned_write_def touches_def)

lemma incoming_user: "incoming E params = Some msg \<Longrightarrow> m_role msg = ''user''"
  by (auto simp: incoming_def split: json.splits option.splits if_splits)

lemma tasks_send_owned:
  assumes "store_ok st"
  shows "owned_write caller st (snd (tasks_send E d rid params caller st))"
proof (cases "incoming E params")
  case (Some msg)
  let ?tid = "resolve_task_id E d params msg"
  obtain ok st1 where m: "may_write ?tid caller st = (ok, st1)" by force
  have f: "tasks st1 = tasks st" "store_ok st1" "touches ?tid st st1"
    using may_write_frame [of ?tid caller st] may_write_touches [of ?tid st ?tid caller] assms m by auto
  obtain r st2 where c: "store_create ?tid (obj_get params ''sessionId'') msg (obj_get params ''metadata'') (resolve_context_id E d params msg) (creator_of caller)
      (stamps d 0) st1 = (r, st2)" by force
  have t2: "touches ?tid st1 st2" using store_create_touches [OF f(2) incoming_user [OF Some]] c by (metis snd_conv)
  then have "store_ok st2" using f(2) by (simp add: touches_def)
  from run_call_touches [OF this] have t3: "touches ?tid st2 (snd (snd (run_call E d ask_text msg ?tid (stamps d 1) st2)))" .
  show ?thesis
  proof (cases ok)
    case True
    have "touches ?tid st (snd (tasks_send E d rid params caller st))"
      using Some m c True touches_trans [OF f(3) t2] touches_trans [OF touches_trans [OF f(3) t2] t3]
      by (auto simp: tasks_send_def Let_def split: sum.splits prod.splits)
    with True m show ?thesis by (auto simp: owned_write_def)
  next
    case False
    then show ?thesis using Some m f(1,2) by (auto simp: tasks_send_def Let_def intro: owned_write_same)
  qed
qed (simp add: tasks_send_def)

lemma stream_send_owned:
  assumes "store_ok st"
  shows "owned_write caller st (snd (stream_send E d rid params caller st))"
proof (cases "incoming E params")
  case (Some msg)
  let ?tid = "resolve_task_id E d params msg"
  obtain ok st1 where m: "may_write ?tid caller st = (ok, st1)" by force
  have f: "tasks st1 = tasks st" "store_ok st1" "touches ?tid st st1"
    using may_write_frame [of ?tid caller st] may_write_touches [of ?tid st ?tid caller] assms m by auto
  obtain r st2 where c: "store_create ?tid (obj_get params ''sessionId'') msg (obj_get params ''metadata'') (resolve_context_id E d params msg) (creator_of caller)
      (stamps d 0) st1 = (r, st2)" by force
  have t2: "touches ?tid st1 st2" using store_create_touches [OF f(2) incoming_user [OF Some]] c by (metis snd_conv)
  then have "store_ok st2" using f(2) by (simp add: touches_def)
  obtain r3 st3 where w: "transition ?tid ''working'' None None (stamps d 1) st2 = (r3, st3)" by force
  have t3: "touches ?tid st2 st3" using transition_touches [OF \<open>store_ok st2\<close> state_names(2)] w by (metis snd_conv)
  then have "store_ok st3" using \<open>store_ok st2\<close> by (simp add: touches_def)
  from run_call_touches [OF this] have t4: "touches ?tid st3 (snd (snd (run_call E d stream_ask_text msg ?tid (stamps d 2) st3)))" .
  note t = touches_trans [OF f(3) t2] touches_trans [OF touches_trans [OF f(3) t2] t3]
  show ?thesis
  proof (cases ok)
    case True
    have "touches ?tid st (snd (stream_send E d rid params caller st))"
      using Some m c w True t touches_trans [OF t(2) t4]
      by (auto simp: stream_send_def Let_def split: sum.splits prod.splits)
    with True m show ?thesis by (auto simp: owned_write_def)
  next
    case False
    then show ?thesis using Some m f(1,2) by (auto simp: stream_send_def Let_def intro: owned_write_same)
  qed
qed (simp add: stream_send_def)

lemma tasks_cancel_owned:
  assumes "store_ok st"
  shows "owned_write caller st (snd (tasks_cancel d rid params caller st))"
proof (cases "obj_get params ''id''")
  case (JStr tid)
  obtain ok st1 where m: "may_write tid caller st = (ok, st1)" by force
  have f: "tasks st1 = tasks st" "store_ok st1" "touches tid st st1"
    using may_write_frame [of tid caller st] may_write_touches [of tid st tid caller] assms m by auto
  show ?thesis
  proof (cases ok)
    case True
    have "touches tid st (snd (tasks_cancel d rid params caller st))"
      using JStr m True touches_trans [OF f(3) cancel_touches [OF f(2), of tid "stamps d 0"]]
      by (auto simp: tasks_cancel_def split: option.splits prod.splits)
    with True m show ?thesis by (auto simp: owned_write_def)
  next
    case False
    then show ?thesis using JStr m f(1,2) by (auto simp: tasks_cancel_def intro: owned_write_same)
  qed
qed (simp_all add: tasks_cancel_def lookup_id_def)

lemma handle_owned: "store_ok st \<Longrightarrow> owned_write caller st (snd (handle E d body caller st))"
  by (auto simp: handle_def Let_def intro: tasks_send_owned tasks_cancel_owned split: option.splits)

lemma stream_owned: "store_ok st \<Longrightarrow> owned_write caller st (snd (stream E d body caller st))"
  by (auto simp: stream_def Let_def intro: stream_send_owned split: option.splits)

lemma owned_write_hits: "owned_write caller (st\<lparr>rate_hits := h\<rparr>) st1 \<Longrightarrow> owned_write caller st st1"
proof -
  have "fst (may_write tid caller (st\<lparr>rate_hits := h\<rparr>)) = fst (may_write tid caller st)" for tid
    by (auto simp: may_write_def creator_permits_def split: option.splits)
  then show "owned_write caller (st\<lparr>rate_hits := h\<rparr>) st1 \<Longrightarrow> owned_write caller st st1" by (simp add: owned_write_def touches_def)
qed

lemma route_cases: "snd (route E d body caller st) \<in> {st, snd (stream E d body caller st), snd (handle E d body caller st)}"
  by (auto simp: route_def Let_def split: json.splits prod.splits)

lemma route_owned: "store_ok st \<Longrightarrow> owned_write caller st (snd (route E d body caller st))"
  using route_cases [of E d body caller st] handle_owned [of st caller E d body] stream_owned [of st caller E d body] by auto

text \<open>What the endpoint does: nothing, or count the request, or route it for the caller it verified.\<close>

lemma a2a_rpc_cases:
  obtains h where "snd (a2a_rpc ED E m w d rq st) = st\<lparr>rate_hits := h\<rparr>"
  | body caller h where "sent_json rq = Some body" "verify_caller ED (sent_headers rq) (sent_text rq) (wall_clock rq) = Inr caller"
      "snd (a2a_rpc ED E m w d rq st) = snd (route E d body caller (st\<lparr>rate_hits := h\<rparr>))"
proof (cases "sent_json rq")
  case None
  then have "snd (a2a_rpc ED E m w d rq st) = st\<lparr>rate_hits := rate_hits st\<rparr>" by (simp add: a2a_rpc_def)
  then show ?thesis by (rule that)
next
  case (Some body)
  show ?thesis
  proof (cases "verify_caller ED (sent_headers rq) (sent_text rq) (wall_clock rq)")
    case (Inl e)
    with Some have "snd (a2a_rpc ED E m w d rq st) = st\<lparr>rate_hits := rate_hits st\<rparr>" by (simp add: a2a_rpc_def)
    then show ?thesis by (rule that)
  next
    case (Inr caller)
    obtain ok l r h where c: "check m w (caller_bucket (creator_of caller) (peer_host rq)) (ticks rq) (rate_hits st) = ((ok, l, r), h)" by (metis prod_cases3 surj_pair)
    have "snd (a2a_rpc ED E m w d rq st) = st\<lparr>rate_hits := h\<rparr> \<or> snd (a2a_rpc ED E m w d rq st) = snd (route E d body caller (st\<lparr>rate_hits := h\<rparr>))
        \<or> snd (a2a_rpc ED E m w d rq st) = snd (route E d body caller (st\<lparr>rate_hits := rate_hits st\<rparr>))"
      using Some Inr c by (simp add: a2a_rpc_def)
    with that Some Inr show ?thesis by blast
  qed
qed

lemma a2a_rpc_owned:
  assumes "store_ok st"
  shows "(\<exists>caller. verify_caller ED (sent_headers rq) (sent_text rq) (wall_clock rq) = Inr caller \<and> owned_write caller st (snd (a2a_rpc ED E m w d rq st)))
    \<or> (\<exists>h. snd (a2a_rpc ED E m w d rq st) = st\<lparr>rate_hits := h\<rparr>)"
proof (rule a2a_rpc_cases [of ED E m w d rq st])
  fix body caller h
  assume a: "verify_caller ED (sent_headers rq) (sent_text rq) (wall_clock rq) = Inr caller" "snd (a2a_rpc ED E m w d rq st) = snd (route E d body caller (st\<lparr>rate_hits := h\<rparr>))"
  have "owned_write caller st (snd (route E d body caller (st\<lparr>rate_hits := h\<rparr>)))" using assms by (intro owned_write_hits [OF route_owned]) simp
  with a show ?thesis by auto
qed auto

lemma a2a_rpc_ok: "store_ok st \<Longrightarrow> store_ok (snd (a2a_rpc ED E m w d rq st))"
  using a2a_rpc_owned [of st ED rq E m w d] by (auto dest: owned_write_ok)

subsection \<open>The life of an agent\<close>

inductive serves :: "ed25519 \<Rightarrow> 'w rpc_env \<Rightarrow> int \<Rightarrow> rat \<Rightarrow> 'w a2a_state \<Rightarrow> bool" for ED E m w where
  boot: "(\<forall>t. Log_Task t \<in> set (task_log st) \<longrightarrow> wf_task (t_id t) t) \<Longrightarrow> serves ED E m w (restart_store st)"
| request: "serves ED E m w st \<Longrightarrow> serves ED E m w (snd (a2a_rpc ED E m w d rq st))"
| restart: "serves ED E m w st \<Longrightarrow> serves ED E m w (restart_store st)"

lemma load_wf:
  "(\<forall>t. Log_Task t \<in> set ls \<longrightarrow> wf_task (t_id t) t) \<Longrightarrow> distinct (map fst (fst (load ls))) \<and> (\<forall>kt \<in> set (fst (load ls)). wf_task (fst kt) (snd kt))"
proof (induction ls rule: rev_induct)
  case (snoc l ls)
  then have ih: "distinct (map fst (fst (load ls)))" "\<forall>kt \<in> set (fst (load ls)). wf_task (fst kt) (snd kt)" by auto
  show ?case
  proof (cases l)
    case (Log_Task t)
    with snoc.prems have "wf_task (t_id t) t" by simp
    with Log_Task ih show ?thesis by (auto simp: load_snoc distinct_update dest!: update_set)
  next
    case Log_Corrupt
    with ih show ?thesis by (cases "load ls") (simp add: load_def)
  qed
qed (simp add: load_def)

lemma restart_ok: "(\<forall>t. Log_Task t \<in> set (task_log st) \<longrightarrow> wf_task (t_id t) t) \<Longrightarrow> store_ok (restart_store st)"
  using load_wf [of "task_log st"] by (simp add: store_ok_def restart_store_def)

lemma store_ok_restart: "store_ok st \<Longrightarrow> store_ok (restart_store st) \<and> tasks (restart_store st) = tasks st \<and> unreadable_lines (restart_store st) = unreadable_lines st"
  by (simp add: store_ok_def restart_store_def)

lemma serves_ok: "serves ED E m w st \<Longrightarrow> store_ok st"
  by (induction rule: serves.induct) (auto intro: restart_ok a2a_rpc_ok dest: store_ok_restart)

text \<open>C25: C: Every task an agent ever holds is well typed, whatever requests and restarts happened: it is stored under its own id, its state is one of
  the six of the protocol, and its history begins with a user's message.\<close>

theorem stored_tasks_well_formed:
  assumes "serves ED E m w st" "map_of (tasks st) k = Some t"
  shows "t_id t = k \<and> st_state (t_status t) \<in> set TASK_STATES \<and> t_history t \<noteq> [] \<and> m_role (hd (t_history t)) = ''user''"
  using store_ok_get [OF serves_ok [OF assms(1)] assms(2)] by (simp add: wf_task_def)


subsection \<open>Who may change what\<close>






text \<open>Appending to a canceled task makes it a working one again.\<close>

lemma canceled_task_revives:
  assumes "map_of (tasks st) k = Some t" "t_id t = k" "st_state (t_status t) = ''canceled''" "store_create k session msg md ctx creator now st = (r, st1)"
  shows "\<exists>t1. map_of (tasks st1) k = Some t1 \<and> st_state (t_status t1) = ''working''"
  using assms by (auto simp: store_create_def Let_def)

subsection \<open>A borrowed identity\<close>

definition cancel_body :: "string \<Rightarrow> json" where
  "cancel_body k = JObj [(''jsonrpc'', JStr ''2.0''), (''id'', JInt 1), (''method'', JStr ''tasks/cancel''), (''params'', JObj [(''id'', JStr k)])]"

lemma may_write_creator:
  assumes "map_of (tasks st) k = Some t" "t_creator t = Some (caller_did c)"
  shows "fst (may_write k (Some c) st)"
  using assms by (auto simp: may_write_def creator_permits_def)

lemma cancel_by_creator:
  assumes "map_of (tasks st) k = Some t" "t_id t = k" "t_creator t = Some (caller_did c)" "st_state (t_status t) \<notin> {''completed'', ''canceled'', ''failed''}"
    and "parse_request E (cancel_body k) = Some \<lparr>req_id = JInt 1, req_method = ''tasks/cancel'', req_params = JObj [(''id'', JStr k)]\<rparr>" "k \<noteq> []"
  shows "\<exists>t1. map_of (tasks (snd (handle E d (cancel_body k) (Some c) st))) k = Some t1 \<and> st_state (t_status t1) = ''canceled''"
proof -
  have c: "canonical_method ''tasks/cancel'' = ''tasks/cancel''" by code_simp
  obtain st1 where m: "may_write k (Some c) st = (True, st1)" "tasks st1 = tasks st"
    using may_write_creator [OF assms(1,3)] may_write_frame(1) [of k "Some c" st] by (metis (full_types) prod.collapse)
  show ?thesis using assms m
    by (simp add: handle_def Let_def c params_of_def tasks_cancel_def cancel_def transition_def)
qed

text \<open>C38: C: Ownership can be borrowed: anyone with some Ed25519 key who knows a task's id and its creator's did:key cancels the task, by signing with the
  own key, sending it as the public key and presenting the creator's did:key.\<close>

theorem borrowed_did_cancels:
  assumes "ed_correct ED" "length seed = 32" "agent \<noteq> []" "strip agent = agent" "sent < 10 ^ 12" "\<bar>wall_clock rq - of_nat sent\<bar> \<le> 300"
    and "map_of (tasks st) k = Some t" "t_id t = k" "k \<noteq> []" "t_creator t = Some did" "strip did = did" "st_state (t_status t) \<notin> {''completed'', ''canceled'', ''failed''}"
    and "sent_headers rq = spoofed_headers ED seed did agent (sent_text rq) sent" "sent_json rq = Some (cancel_body k)"
    and "parse_request E (cancel_body k) = Some \<lparr>req_id = JInt 1, req_method = ''tasks/cancel'', req_params = JObj [(''id'', JStr k)]\<rparr>"
    and "fst (fst (check m w (caller_bucket (none_if_empty did) (peer_host rq)) (ticks rq) (rate_hits st)))"
  shows "\<exists>t1. map_of (tasks (snd (a2a_rpc ED E m w d rq st))) k = Some t1 \<and> st_state (t_status t1) = ''canceled''"
proof -
  let ?c = "\<lparr>caller_agent = agent, caller_did = did\<rparr>"
  have v: "verify_caller ED (sent_headers rq) (sent_text rq) (wall_clock rq) = Inr (Some ?c)"
    using spoofed_accepted [OF assms(1-6), of did "sent_text rq"] assms(11,13) by simp
  obtain l r h where c: "check m w (caller_bucket (creator_of (Some ?c)) (peer_host rq)) (ticks rq) (rate_hits st) = ((True, l, r), h)"
    using assms(16) by (auto simp: creator_of_def) (metis (full_types) prod.collapse)
  have m: "sent_method (cancel_body k) = JStr ''tasks/cancel''" by (simp add: sent_method_def cancel_body_def)
  have ns: "''tasks/cancel'' \<notin> set STREAMING_METHODS" by code_simp
  have "requires_caller (JStr ''tasks/cancel'')" by code_simp
  then have "snd (a2a_rpc ED E m w d rq st) = snd (handle E d (cancel_body k) (Some ?c) (st\<lparr>rate_hits := h\<rparr>))"
    using v c m ns assms(14) by (auto simp: a2a_rpc_def route_def Let_def split: prod.splits)
  moreover have "map_of (tasks (st\<lparr>rate_hits := h\<rparr>)) k = Some t" using assms(7) by simp
  ultimately show ?thesis using cancel_by_creator [of "st\<lparr>rate_hits := h\<rparr>" k t ?c E d] assms(8,9,10,12,15) by simp
qed

subsection \<open>An agent with one task\<close>

definition demo_rpc :: "unit rpc_env" where
  "demo_rpc = \<lparr>parse_request = (\<lambda>j. case j of JObj kvs \<Rightarrow> (case obj_get kvs ''method'' of
        JStr x \<Rightarrow> Some \<lparr>req_id = obj_get kvs ''id'', req_method = x, req_params = obj_get kvs ''params''\<rparr> | _ \<Rightarrow> None) | _ \<Rightarrow> None),
     parse_message = (\<lambda>kvs. None), dispatcher = (\<lambda>tool args w. (Tool_Unknown, w)), cosigner = None, py_text = (\<lambda>j. [])\<rparr>"

definition demo_task :: task where
  "demo_task = \<lparr>t_id = ''t1'', t_session = None, t_context = Some ''c1'', t_creator = Some ''did:key:zVictim'',
     t_status = \<lparr>st_state = ''working'', st_message = None, st_time = []\<rparr>, t_artifacts = [],
     t_history = [\<lparr>m_role = ''user'', m_parts = [], m_id = ''m1'', m_context = None, m_task = None\<rparr>], t_metadata = None\<rparr>"

definition demo_a2a :: "unit a2a_state" where
  "demo_a2a = \<lparr>tasks = [(''t1'', demo_task)], task_log = [Log_Task demo_task], unreadable_lines = 0, legacy_writes = 0, rate_hits = [], tool_world = ()\<rparr>"

definition demo_draws :: draws where
  "demo_draws = \<lparr>minted = str_nat, stamps = str_nat\<rparr>"

definition demo_request :: "headers \<Rightarrow> a2a_request" where
  "demo_request hs = \<lparr>sent_headers = hs, sent_text = ''{}'', sent_json = Some (cancel_body ''t1''), peer_host = None, wall_clock = 1000, ticks = 1\<rparr>"

lemma demo_serves: "serves ED E m w demo_a2a"
proof -
  have "restart_store demo_a2a = demo_a2a" by (simp add: restart_store_def demo_a2a_def load_def demo_task_def)
  moreover have "wf_task (t_id demo_task) demo_task" by (simp add: wf_task_def demo_task_def TASK_STATES_def)
  ultimately show ?thesis using serves.boot [of demo_a2a ED E m w] by (simp add: demo_a2a_def)
qed

lemma demo_names: "strip ''bot'' = ''bot''" "strip ''did:key:zVictim'' = ''did:key:zVictim''" "strip ''did:key:zOther'' = ''did:key:zOther''"
  by code_simp+

theorem stored_tasks_well_formed_witness: "t_id demo_task = ''t1'' \<and> st_state (t_status demo_task) \<in> set TASK_STATES"
  using stored_tasks_well_formed [OF demo_serves [of toy_ed demo_rpc 30 60], of "''t1''" demo_task] by (simp add: demo_a2a_def)




theorem borrowed_did_cancels_witness:
  "\<exists>t1. map_of (tasks (snd (a2a_rpc toy_ed demo_rpc 30 60 demo_draws (demo_request (spoofed_headers toy_ed (replicate 32 7) ''did:key:zVictim'' ''bot'' ''{}'' 1000)) demo_a2a))) ''t1''
     = Some t1 \<and> st_state (t_status t1) = ''canceled''"
proof -
  have k: "fst (fst (check 30 60 b 1 []))" for b by (simp add: check_def MAX_BUCKETS_def Let_def)
  have r: "parse_request demo_rpc (cancel_body ''t1'') = Some \<lparr>req_id = JInt 1, req_method = ''tasks/cancel'', req_params = JObj [(''id'', JStr ''t1'')]\<rparr>"
    by (simp add: demo_rpc_def cancel_body_def)
  show ?thesis
    by (rule borrowed_did_cancels [OF toy_ed_correct, where seed = "replicate 32 7" and agent = "''bot''" and sent = 1000 and t = demo_task])
      (simp_all add: demo_request_def demo_names demo_a2a_def demo_task_def r k)
qed

end
