(* ===== verification/Policy_Merge.thy ===== *)
theory Policy_Merge
  imports Complex_Main Prelude "HOL-Library.AList"
begin

text \<open>
  The merge of peer chapters' policy values (\<^verbatim>\<open>server/federated_policy_merge.py\<close>): the filter against outliers, the weighted mean and the two
  clamps. A float is an exact rational, so NaN and the infinities are outside the model; \<open>sqrt_of\<close> stands for \<^verbatim>\<open>** 0.5\<close>. The timestamp of a snapshot
  is never read and left out, and so is the text of the reason, which is made from the contributors.

  Shown: from a value inside its envelope one merge moves by at most a tenth, stays in the envelope and between the current value and the
  values that were counted; with a majority of peers in an interval, every value that is counted lies within three of its widths of it, unless
  the deviation is zero. When the honest peers agree exactly the deviation is zero, and one peer pulls the value by the whole tenth.
\<close>

definition MAX_DELTA_FRACTION :: rat where "MAX_DELTA_FRACTION = 1 / 10"
definition BASELINE_MIN_FRACTION :: rat where "BASELINE_MIN_FRACTION = 1 / 2"
definition BASELINE_MAX_FRACTION :: rat where "BASELINE_MAX_FRACTION = 2"
definition MAD_THRESHOLD :: rat where "MAD_THRESHOLD = 3"
definition MIN_PEERS_FOR_MERGE :: nat where "MIN_PEERS_FOR_MERGE = 2"
definition MIN_SAMPLES_FROM_PEER :: int where "MIN_SAMPLES_FROM_PEER = 5"

record PeerSnapshot =
  snap_chapter :: string
  snap_key :: string
  snap_value :: rat
  snap_baseline :: rat
  snap_samples :: int
  snap_confidence :: rat

record MergeResult =
  merge_key :: string
  merge_old :: rat
  merge_new :: rat
  merge_baseline :: rat
  contributing_peers :: "string list"
  excluded_peers :: "string list"

definition clamp_to_baseline :: "rat \<Rightarrow> rat \<Rightarrow> rat" where
  "clamp_to_baseline v baseline =
     (let lo = baseline * BASELINE_MIN_FRACTION; hi = baseline * BASELINE_MAX_FRACTION in if v < lo then lo else if v > hi then hi else v)"

definition clamp_delta :: "rat \<Rightarrow> rat \<Rightarrow> rat" where
  "clamp_delta old new =
     (let max_delta = \<bar>old\<bar> * MAX_DELTA_FRACTION in
      if max_delta = 0 then new else if new - old > max_delta then old + max_delta else if old - new > max_delta then old - max_delta else new)"

text \<open>\<^verbatim>\<open>statistics.median\<close> of a list that is not empty.\<close>

definition median :: "rat list \<Rightarrow> rat" where
  "median xs = (let s = sort xs; n = length xs in if odd n then s ! (n div 2) else (s ! (n div 2 - 1) + s ! (n div 2)) / 2)"

definition mad :: "rat list \<Rightarrow> rat" where
  "mad xs = median (map (\<lambda>v. \<bar>v - median xs\<bar>) xs)"

definition mad_filter :: "(string \<times> rat) list \<Rightarrow> (string \<times> rat) list \<times> string list" where
  "mad_filter by_peer =
     (if length by_peer \<le> 2 then (by_peer, [])
      else (let vs = map snd by_peer in
            if mad vs = 0 then (by_peer, [])
            else (let near = (\<lambda>pv. \<bar>snd pv - median vs\<bar> \<le> MAD_THRESHOLD * mad vs)
                  in (filter near by_peer, map fst (filter (\<lambda>pv. \<not> near pv) by_peer)))))"

text \<open>\<^verbatim>\<open>{s.chapter_id: s.value for s in relevant}\<close>\<close>

definition values_by_peer :: "PeerSnapshot list \<Rightarrow> (string \<times> rat) list" where
  "values_by_peer relevant = foldl (\<lambda>d s. AList.update (snap_chapter s) (snap_value s) d) [] relevant"

definition relevant_snaps :: "string \<Rightarrow> PeerSnapshot list \<Rightarrow> PeerSnapshot list" where
  "relevant_snaps key snaps = filter (\<lambda>s. snap_key s = key \<and> snap_samples s \<ge> MIN_SAMPLES_FROM_PEER) snaps"

definition weight :: "(int \<Rightarrow> rat) \<Rightarrow> PeerSnapshot \<Rightarrow> rat" where
  "weight sqrt_of s = sqrt_of (snap_samples s) * max 0 (min 1 (snap_confidence s))"

definition kept_snaps :: "PeerSnapshot list \<Rightarrow> PeerSnapshot list" where
  "kept_snaps relevant = filter (\<lambda>s. snap_chapter s \<in> fst ` set (fst (mad_filter (values_by_peer relevant)))) relevant"

definition merged_raw :: "(int \<Rightarrow> rat) \<Rightarrow> rat \<Rightarrow> PeerSnapshot list \<Rightarrow> rat option" where
  "merged_raw sqrt_of current ks =
     (let top = Max (set (map (weight sqrt_of) ks)); total_weight = sum_list (map (weight sqrt_of) ks) + top in
      if total_weight = 0 then None
      else Some ((sum_list (map (\<lambda>s. snap_value s * weight sqrt_of s) ks) + current * top) / total_weight))"

definition merge_peer_snapshots :: "(int \<Rightarrow> rat) \<Rightarrow> string \<Rightarrow> rat \<Rightarrow> rat \<Rightarrow> PeerSnapshot list \<Rightarrow> MergeResult option" where
  "merge_peer_snapshots sqrt_of key current baseline snaps =
     (let relevant = relevant_snaps key snaps; (kept, excluded) = mad_filter (values_by_peer relevant) in
      if length relevant < MIN_PEERS_FOR_MERGE then None
      else if length kept < MIN_PEERS_FOR_MERGE then None
      else case merged_raw sqrt_of current (kept_snaps relevant) of
        None \<Rightarrow> None
      | Some raw \<Rightarrow>
          (let final = clamp_to_baseline (clamp_delta current raw) baseline in
           if \<bar>final - current\<bar> < 1 / 10 ^ 9 then None
           else Some \<lparr>merge_key = key, merge_old = current, merge_new = final, merge_baseline = baseline,
                      contributing_peers = sort (map fst kept), excluded_peers = sort excluded\<rparr>))"

text \<open>What is used of the square sqrt_of.\<close>

definition sqrt_ok :: "(int \<Rightarrow> rat) \<Rightarrow> bool" where
  "sqrt_ok sqrt_of \<longleftrightarrow> (\<forall>n > 0. sqrt_of n > 0)"

lemmas fraction_defs = MAX_DELTA_FRACTION_def BASELINE_MIN_FRACTION_def BASELINE_MAX_FRACTION_def

subsection \<open>The clamps\<close>

lemma clamp_delta_between: "min old new \<le> clamp_delta old new \<and> clamp_delta old new \<le> max old new"
  by (auto simp: clamp_delta_def Let_def fraction_defs)


text \<open>Clamping moves towards every value of the envelope.\<close>

lemma clamp_to_baseline_towards:
  assumes "baseline / 2 \<le> old" "old \<le> 2 * baseline"
  shows "baseline / 2 \<le> clamp_to_baseline v baseline \<and> clamp_to_baseline v baseline \<le> 2 * baseline
    \<and> min old v \<le> clamp_to_baseline v baseline \<and> clamp_to_baseline v baseline \<le> max old v"
  using assms by (auto simp: clamp_to_baseline_def Let_def fraction_defs)

subsection \<open>The mean\<close>

lemma weighted_sum_bounds:
  assumes "\<And>s. s \<in> set ks \<Longrightarrow> lo \<le> snap_value s \<and> snap_value s \<le> hi \<and> 0 \<le> weight sqrt_of s"
  shows "lo * sum_list (map (weight sqrt_of) ks) \<le> sum_list (map (\<lambda>s. snap_value s * weight sqrt_of s) ks)"
    and "sum_list (map (\<lambda>s. snap_value s * weight sqrt_of s) ks) \<le> hi * sum_list (map (weight sqrt_of) ks)"
  unfolding sum_list_const_mult [symmetric]
  by (rule sum_list_mono; use assms in \<open>simp add: mult_right_mono\<close>)+

lemma weight_nonneg: "sqrt_ok sqrt_of \<Longrightarrow> snap_samples s > 0 \<Longrightarrow> 0 \<le> weight sqrt_of s"
  by (simp add: weight_def sqrt_ok_def less_imp_le)

lemma merged_raw_between:
  assumes raw: "merged_raw sqrt_of current ks = Some raw" and ks: "ks \<noteq> []"
    and in_range: "\<And>s. s \<in> set ks \<Longrightarrow> lo \<le> snap_value s \<and> snap_value s \<le> hi \<and> 0 \<le> weight sqrt_of s"
  shows "min current lo \<le> raw \<and> raw \<le> max current hi"
proof -
  let ?top = "Max (set (map (weight sqrt_of) ks))" and ?ws = "sum_list (map (weight sqrt_of) ks)"
  let ?vs = "sum_list (map (\<lambda>s. snap_value s * weight sqrt_of s) ks)"
  have "?top \<in> set (map (weight sqrt_of) ks)" using ks by (intro Max_in) auto
  then have top: "0 \<le> ?top" using in_range by auto
  have ws: "0 \<le> ?ws" by (rule sum_list_nonneg) (use in_range in auto)
  from raw have tot: "?ws + ?top \<noteq> 0" "raw = (?vs + current * ?top) / (?ws + ?top)"
    by (auto simp: merged_raw_def Let_def split: if_splits)
  with top ws have pos: "0 < ?ws + ?top" by linarith
  have "min current lo * (?ws + ?top) \<le> ?vs + current * ?top"
    using weighted_sum_bounds(1) [of ks, OF in_range] mult_right_mono [OF _ ws, of "min current lo" lo] mult_right_mono [OF _ top, of "min current lo" current]
    by (simp add: distrib_left)
  moreover have "?vs + current * ?top \<le> max current hi * (?ws + ?top)"
    using weighted_sum_bounds(2) [of ks, OF in_range] mult_right_mono [OF _ ws, of hi "max current hi"] mult_right_mono [OF _ top, of current "max current hi"]
    by (simp add: distrib_left)
  ultimately show ?thesis using pos by (simp add: tot(2) pos_le_divide_eq pos_divide_le_eq)
qed

subsection \<open>A merge in its bounds\<close>

lemma merge_SomeD:
  assumes "merge_peer_snapshots sqrt_of key current baseline snaps = Some r"
  shows "\<exists>raw. merged_raw sqrt_of current (kept_snaps (relevant_snaps key snaps)) = Some raw
    \<and> merge_new r = clamp_to_baseline (clamp_delta current raw) baseline
    \<and> 2 \<le> length (fst (mad_filter (values_by_peer (relevant_snaps key snaps))))"
  using assms by (auto simp: merge_peer_snapshots_def Let_def MIN_PEERS_FOR_MERGE_def split: if_splits option.splits prod.splits)

lemma values_by_peer_fst: "fst ` set (values_by_peer ss) = snap_chapter ` set ss"
proof -
  have "fst ` set (foldl (\<lambda>d s. AList.update (snap_chapter s) (snap_value s) d) d ss) = fst ` set d \<union> snap_chapter ` set ss" for d
    by (induction ss arbitrary: d) (auto simp: dom_update)
  then show ?thesis by (simp add: values_by_peer_def)
qed

lemma mad_filter_subset: "set (fst (mad_filter ps)) \<subseteq> set ps"
  by (auto simp: mad_filter_def Let_def)

lemma kept_snaps_nonempty: "fst (mad_filter (values_by_peer ss)) \<noteq> [] \<Longrightarrow> kept_snaps ss \<noteq> []"
proof -
  assume "fst (mad_filter (values_by_peer ss)) \<noteq> []"
  then obtain pv where pv: "pv \<in> set (fst (mad_filter (values_by_peer ss)))" by (meson last_in_set)
  then have "fst pv \<in> snap_chapter ` set ss" using mad_filter_subset values_by_peer_fst by blast
  with pv show ?thesis by (force simp: kept_snaps_def filter_empty_conv)
qed

lemma merge_in_hull:
  assumes m: "merge_peer_snapshots sqrt_of key current baseline snaps = Some r" and ok: "sqrt_ok sqrt_of"
    and env: "baseline / 2 \<le> current" "current \<le> 2 * baseline"
    and vs: "\<And>s. s \<in> set (kept_snaps (relevant_snaps key snaps)) \<Longrightarrow> lo \<le> snap_value s \<and> snap_value s \<le> hi"
  shows "min current lo \<le> merge_new r \<and> merge_new r \<le> max current hi"
proof -
  from merge_SomeD [OF m] obtain raw where raw: "merged_raw sqrt_of current (kept_snaps (relevant_snaps key snaps)) = Some raw"
    and new: "merge_new r = clamp_to_baseline (clamp_delta current raw) baseline"
    and two: "2 \<le> length (fst (mad_filter (values_by_peer (relevant_snaps key snaps))))" by blast
  have "snap_samples s > 0" if "s \<in> set (kept_snaps (relevant_snaps key snaps))" for s
    using that by (auto simp: kept_snaps_def relevant_snaps_def MIN_SAMPLES_FROM_PEER_def)
  then have "min current lo \<le> raw \<and> raw \<le> max current hi"
    using merged_raw_between [OF raw kept_snaps_nonempty] vs two weight_nonneg [OF ok] by fastforce
  with clamp_delta_between [of current raw] clamp_to_baseline_towards [OF env, of "clamp_delta current raw"] new
  show ?thesis by linarith
qed


subsection \<open>An honest majority\<close>

lemma sorted_nth_ge:
  fixes xs :: "rat list"
  assumes "sorted xs" "k < length xs" "length (filter (\<lambda>x. x < a) xs) \<le> k"
  shows "a \<le> xs ! k"
proof (rule ccontr)
  assume "\<not> a \<le> xs ! k"
  then have "{..k} \<subseteq> {i. i < length xs \<and> xs ! i < a}" using assms(1,2) by (auto dest: sorted_nth_mono)
  then have "card {..k} \<le> card {i. i < length xs \<and> xs ! i < a}" by (intro card_mono) auto
  with assms(3) show False by (simp add: length_filter_conv_card)
qed

lemma sorted_nth_le:
  fixes xs :: "rat list"
  assumes "sorted xs" "k < length xs" "length (filter (\<lambda>x. b < x) xs) + k < length xs"
  shows "xs ! k \<le> b"
proof (rule ccontr)
  assume "\<not> xs ! k \<le> b"
  then have "{k..<length xs} \<subseteq> {i. i < length xs \<and> b < xs ! i}" using assms(1,2) by (auto dest: sorted_nth_mono)
  then have "card {k..<length xs} \<le> card {i. i < length xs \<and> b < xs ! i}" by (intro card_mono) auto
  with assms(3) show False by (simp add: length_filter_conv_card)
qed

lemma length_filter_sort: "length (filter P (sort xs)) = length (filter P xs)"
  by (simp add: filter_sort)

lemma median_ge:
  assumes "2 * length (filter (\<lambda>x. x < a) xs) < length xs"
  shows "a \<le> median xs"
proof -
  have nth: "a \<le> sort xs ! k" if "length (filter (\<lambda>x. x < a) xs) \<le> k" "k < length xs" for k
    using sorted_nth_ge [of "sort xs" k a] that by (simp add: length_filter_sort)
  show ?thesis
  proof (cases "odd (length xs)")
    case True
    then show ?thesis using assms by (simp add: median_def nth)
  next
    case False
    then have "a \<le> sort xs ! (length xs div 2 - 1)" "a \<le> sort xs ! (length xs div 2)"
      using assms by (auto intro!: nth elim!: evenE)
    with False show ?thesis by (simp add: median_def Let_def)
  qed
qed

lemma median_le:
  assumes "2 * length (filter (\<lambda>x. b < x) xs) < length xs"
  shows "median xs \<le> b"
proof -
  have nth: "sort xs ! k \<le> b" if "length (filter (\<lambda>x. b < x) xs) + k < length xs" for k
    using sorted_nth_le [of "sort xs" k b] that by (simp add: length_filter_sort)
  show ?thesis
  proof (cases "odd (length xs)")
    case True
    then have "length (filter (\<lambda>x. b < x) xs) + length xs div 2 < length xs" using assms by (auto elim!: oddE)
    then show ?thesis using True by (simp add: median_def nth)
  next
    case False
    then have "sort xs ! (length xs div 2 - 1) \<le> b" "sort xs ! (length xs div 2) \<le> b"
      using assms by (auto intro!: nth elim!: evenE)
    with False show ?thesis by (simp add: median_def Let_def)
  qed
qed

lemma minority: "length (filter P xs) * 2 > length xs \<Longrightarrow> (\<And>x. Q x \<Longrightarrow> \<not> P x) \<Longrightarrow> 2 * length (filter Q xs) < length xs"
proof -
  assume a: "length (filter P xs) * 2 > length xs" and b: "\<And>x. Q x \<Longrightarrow> \<not> P x"
  have "length (filter Q xs) \<le> length (filter (\<lambda>x. \<not> P x) xs)" using b by (induction xs) auto
  moreover have "length (filter P xs) + length (filter (\<lambda>x. \<not> P x) xs) = length xs" by (rule sum_length_filter_compl)
  ultimately show ?thesis using a by linarith
qed

lemma majority_median_mad:
  assumes "length (filter (\<lambda>x. a \<le> x \<and> x \<le> b) xs) * 2 > length xs"
  shows "a \<le> median xs" "median xs \<le> b" "mad xs \<le> b - a"
proof -
  show ab: "a \<le> median xs" "median xs \<le> b"
    by (rule median_ge median_le; rule minority [OF assms]; simp)+
  have "2 * length (filter (\<lambda>v. b - a < \<bar>v - median xs\<bar>) xs) < length xs"
    by (rule minority [OF assms]) (use ab in \<open>auto simp: abs_if split: if_splits\<close>)
  then show "mad xs \<le> b - a" unfolding mad_def by (intro median_le) (simp add: filter_map o_def)
qed

lemma update_new: "k \<notin> fst ` set d \<Longrightarrow> AList.update k v d = d @ [(k, v)]"
  by (induction d) auto

lemma values_by_peer_distinct:
  assumes "distinct (map snap_chapter ss)"
  shows "values_by_peer ss = map (\<lambda>s. (snap_chapter s, snap_value s)) ss"
proof -
  have "foldl (\<lambda>d s. AList.update (snap_chapter s) (snap_value s) d) d ss = d @ map (\<lambda>s. (snap_chapter s, snap_value s)) ss"
    if "distinct (map snap_chapter ss)" "fst ` set d \<inter> snap_chapter ` set ss = {}" for d
    using that by (induction ss arbitrary: d) (auto simp: update_new)
  with assms show ?thesis by (simp add: values_by_peer_def)
qed

lemma kept_near:
  assumes "pv \<in> set (fst (mad_filter ps))" "mad (map snd ps) \<noteq> 0" "length (filter (\<lambda>pv. a \<le> snd pv \<and> snd pv \<le> b) ps) * 2 > length ps"
  shows "a - 3 * (b - a) \<le> snd pv \<and> snd pv \<le> b + 3 * (b - a)"
proof -
  have maj: "length (filter (\<lambda>x. a \<le> x \<and> x \<le> b) (map snd ps)) * 2 > length (map snd ps)"
    using assms(3) by (simp add: filter_map o_def)
  note mm = majority_median_mad [OF maj]
  show ?thesis
  proof (cases "length ps \<le> 2")
    case True
    have "length (filter (\<lambda>pv. a \<le> snd pv \<and> snd pv \<le> b) ps) = length ps"
      using assms(3) True length_filter_le [of "\<lambda>pv. a \<le> snd pv \<and> snd pv \<le> b" ps] by linarith
    moreover have "pv \<in> set ps" using assms(1) mad_filter_subset by blast
    ultimately have "a \<le> snd pv \<and> snd pv \<le> b" using length_filter_less [of pv ps "\<lambda>pv. a \<le> snd pv \<and> snd pv \<le> b"] by force
    then have "a \<le> snd pv" "snd pv \<le> b" by simp_all
    then show ?thesis unfolding right_diff_distrib by (intro conjI; linarith)
  next
    case False
    then have "\<bar>snd pv - median (map snd ps)\<bar> \<le> 3 * mad (map snd ps)"
      using assms(1,2) by (simp add: mad_filter_def Let_def MAD_THRESHOLD_def)
    with mm show ?thesis unfolding right_diff_distrib by (intro conjI; linarith)
  qed
qed

text \<open>C33: C: When most peers report a value in an interval, each peer reports once and the deviation is not zero, no minority moves the merged value
  further than three widths of the interval past it: what lies further out is not counted.\<close>

theorem honest_majority_bounds_merge:
  assumes "merge_peer_snapshots sqrt_of key current baseline snaps = Some r" "sqrt_ok sqrt_of"
    and "baseline / 2 \<le> current" "current \<le> 2 * baseline"
    and once: "distinct (map snap_chapter (relevant_snaps key snaps))"
    and spread: "mad (map snap_value (relevant_snaps key snaps)) \<noteq> 0"
    and honest: "length (filter (\<lambda>s. a \<le> snap_value s \<and> snap_value s \<le> b) (relevant_snaps key snaps)) * 2 > length (relevant_snaps key snaps)"
  shows "min current (a - 3 * (b - a)) \<le> merge_new r \<and> merge_new r \<le> max current (b + 3 * (b - a))"
proof (rule merge_in_hull [OF assms(1-4)])
  fix s assume s: "s \<in> set (kept_snaps (relevant_snaps key snaps))"
  let ?ps = "map (\<lambda>s. (snap_chapter s, snap_value s)) (relevant_snaps key snaps)"
  have vs: "values_by_peer (relevant_snaps key snaps) = ?ps" by (rule values_by_peer_distinct [OF once])
  from s obtain pv where pv: "pv \<in> set (fst (mad_filter ?ps))" "fst pv = snap_chapter s" "s \<in> set (relevant_snaps key snaps)"
    by (auto simp: kept_snaps_def vs)
  have "pv \<in> set ?ps" using pv(1) mad_filter_subset by blast
  with pv(2,3) once have "snd pv = snap_value s" by (auto simp: distinct_map dest: inj_onD)
  then show "a - 3 * (b - a) \<le> snap_value s \<and> snap_value s \<le> b + 3 * (b - a)"
    using kept_near [OF pv(1), of a b] spread honest by (simp add: filter_map o_def comp_def)
qed

subsection \<open>What the filter lets through\<close>

definition snap_of :: "string \<Rightarrow> rat \<Rightarrow> int \<Rightarrow> rat \<Rightarrow> string \<Rightarrow> PeerSnapshot" where
  "snap_of key baseline n v peer =
     \<lparr>snap_chapter = peer, snap_key = key, snap_value = v, snap_baseline = baseline, snap_samples = n, snap_confidence = 1\<rparr>"

lemma mad_nonneg: "xs \<noteq> [] \<Longrightarrow> 0 \<le> mad xs"
  unfolding mad_def by (rule median_ge) (simp add: filter_map o_def)

lemma agreeing_mad: "length (filter (\<lambda>x. x = v) xs) * 2 > length xs \<Longrightarrow> mad xs = 0"
proof -
  assume a: "length (filter (\<lambda>x. x = v) xs) * 2 > length xs"
  have "mad xs \<le> v - v" by (rule majority_median_mad) (use a in \<open>simp add: order_antisym_conv eq_commute conj_commute flip: eq_iff\<close>)
  moreover have "xs \<noteq> []" using a by auto
  ultimately show ?thesis using mad_nonneg [of xs] by simp
qed

text \<open>C: Peers that agree exactly do not outvote one that lies: however many honest peers report the value in force, a single peer that reports enough
  is not excluded and pulls the merged value up by the whole tenth.\<close>

theorem agreeing_peers_admit_outlier:
  fixes v x :: rat
  assumes "sqrt_ok sqrt_of" "distinct (peers @ [liar])" "2 \<le> length peers" "5 \<le> n" "1 / 10 ^ 8 \<le> v"
    and big: "v + of_nat (length peers + 2) * v / 10 \<le> x"
  shows "\<exists>r. merge_peer_snapshots sqrt_of key v v (map (snap_of key v n v) peers @ [snap_of key v n x liar]) = Some r
    \<and> merge_new r = v * 11 / 10 \<and> excluded_peers r = [] \<and> liar \<in> set (contributing_peers r)"
proof -
  let ?ss = "map (snap_of key v n v) peers @ [snap_of key v n x liar]" and ?k = "of_nat (length peers) :: rat"
  let ?ps = "map (\<lambda>p. (p, v)) peers @ [(liar, x)]"
  have rel: "relevant_snaps key ?ss = ?ss" using assms(4) by (simp add: relevant_snaps_def snap_of_def MIN_SAMPLES_FROM_PEER_def filter_map o_def)
  have vs: "values_by_peer ?ss = ?ps"
    by (subst values_by_peer_distinct) (use assms(2) in \<open>simp_all add: snap_of_def o_def\<close>)
  have "mad (map snd ?ps) = 0" by (rule agreeing_mad [where v = v]) (use assms(3) in \<open>simp add: filter_map o_def\<close>)
  then have mf: "mad_filter ?ps = (?ps, [])" by (simp add: mad_filter_def Let_def)
  have kept: "kept_snaps ?ss = ?ss" unfolding kept_snaps_def vs mf by (rule filter_True) (force simp: snap_of_def image_image)
  let ?w = "sqrt_of n"
  have w: "0 < ?w" using assms(1,4) by (simp add: sqrt_ok_def)
  have wt: "weight sqrt_of (snap_of key v n y p) = ?w" for y p by (simp add: weight_def snap_of_def)
  have sv: "snap_value (snap_of key v n y p) = y" for y p by (simp add: snap_of_def)
  have top: "Max (set (map (weight sqrt_of) ?ss)) = ?w"
    by (rule Max_eqI) (auto simp: wt)
  have sums: "sum_list (map (weight sqrt_of) ?ss) = (?k + 1) * ?w" "sum_list (map (\<lambda>s. snap_value s * weight sqrt_of s) ?ss) = (?k * v + x) * ?w"
    by (simp_all add: wt sv o_def sum_list_triv distrib_right)
  have k2: "?k + 2 > 0" by simp
  have "(?k + 1) * ?w + ?w = (?k + 2) * ?w" "(?k * v + x) * ?w + v * ?w = ((?k + 1) * v + x) * ?w" by (simp_all add: algebra_simps)
  then have "merged_raw sqrt_of v ?ss = Some (((?k + 1) * v + x) * ?w / ((?k + 2) * ?w))"
    unfolding merged_raw_def Let_def top sums using mult_pos_pos [OF k2 w] w by simp
  also have "(?k + 1) * v + x = v * (?k + 2) + (x - v)" by (simp add: algebra_simps)
  also have "(v * (?k + 2) + (x - v)) * ?w / ((?k + 2) * ?w) = v + (x - v) / (?k + 2)"
    using w k2 by (simp add: add_divide_distrib del: distrib_right_numeral distrib_left_numeral)
  finally have raw: "merged_raw sqrt_of v ?ss = Some (v + (x - v) / (?k + 2))" .
  have v: "0 < v" using assms(5) by (meson less_le_trans zero_less_divide_1_iff zero_less_numeral zero_less_power)
  have "v / 10 \<le> (x - v) / (?k + 2)" using big k2 by (simp add: field_simps)
  then have cd: "clamp_delta v (v + (x - v) / (?k + 2)) = v * 11 / 10" using v by (simp add: clamp_delta_def Let_def fraction_defs)
  have cb: "clamp_to_baseline (v * 11 / 10) v = v * 11 / 10" using v by (simp add: clamp_to_baseline_def Let_def fraction_defs)
  show ?thesis
    unfolding merge_peer_snapshots_def Let_def rel vs mf kept raw using assms(3,5) v by (auto simp: cd cb MIN_PEERS_FOR_MERGE_def)
qed

theorem agreeing_peers_admit_outlier_witness:
  "\<exists>r. merge_peer_snapshots (\<lambda>n. of_int n) ''k'' (1 / 2) (1 / 2) (map (snap_of ''k'' (1 / 2) 5 (1 / 2)) [''a'', ''b'', ''c''] @ [snap_of ''k'' (1 / 2) 5 1 ''d'']) = Some r
    \<and> merge_new r = 1 / 2 * 11 / 10 \<and> excluded_peers r = [] \<and> ''d'' \<in> set (contributing_peers r)"
  by (rule agreeing_peers_admit_outlier) (simp_all add: sqrt_ok_def)

text \<open>A run with five peers, one of them far off.\<close>

definition demo_snaps :: "PeerSnapshot list" where
  "demo_snaps = map (\<lambda>(p, v). snap_of ''k'' 1 9 v p) [(''a'', 11 / 10), (''b'', 12 / 10), (''c'', 13 / 10), (''d'', 12 / 10), (''e'', 90)]"

lemma demo_merge: "map_option (\<lambda>r. (merge_new r, excluded_peers r)) (merge_peer_snapshots (\<lambda>n. of_int n) ''k'' 1 1 demo_snaps) = Some (11 / 10, [''e''])"
  by code_simp


theorem honest_majority_bounds_merge_witness:
  "\<exists>r. merge_peer_snapshots (\<lambda>n. of_int n) ''k'' 1 1 demo_snaps = Some r \<and> merge_new r \<le> 19 / 10"
proof -
  from demo_merge obtain r where r: "merge_peer_snapshots (\<lambda>n. of_int n) ''k'' 1 1 demo_snaps = Some r" by auto
  have "distinct (map snap_chapter (relevant_snaps ''k'' demo_snaps))" "mad (map snap_value (relevant_snaps ''k'' demo_snaps)) \<noteq> 0"
    "length (filter (\<lambda>s. 11 / 10 \<le> snap_value s \<and> snap_value s \<le> 13 / 10) (relevant_snaps ''k'' demo_snaps)) * 2 > length (relevant_snaps ''k'' demo_snaps)"
    by code_simp+
  from honest_majority_bounds_merge [OF r _ _ _ this] show ?thesis using r by (simp add: sqrt_ok_def)
qed

text \<open>A peer that sends a key twice is filtered by its last value only, and its other values are counted.\<close>

lemma repeated_entry_escapes_filter:
  "map_option (\<lambda>r. (merge_new r, excluded_peers r)) (merge_peer_snapshots (\<lambda>n. of_int n) ''k'' 1 1
      [snap_of ''k'' 1 5 (9 / 10) ''a'', snap_of ''k'' 1 5 (11 / 10) ''b'', snap_of ''k'' 1 5 100 ''c'', snap_of ''k'' 1 5 1 ''c'']) = Some (11 / 10, [])"
  by code_simp

end
