(* ===== verification/Chapter_Policy.thy ===== *)
theory Chapter_Policy
  imports Policy_Merge Governance
begin

text \<open>
  The chapter's hyperparameters and their tuners (\<^verbatim>\<open>server/policy.py\<close>) over the database of the governance module, whose approvals, nominations
  and roles they read and write. A jsonb value is a \<open>pol_value\<close>; a float is an exact rational. The table is unique on chapter and key. The
  reading of a float from text, the text of a value, the order of two values that are not strings and the square root are in \<open>policy_env\<close>.
  Texts of reasons are left out; the reason of a history row is a constructor. A read without an order returns rows in table order. A
  column the \<^verbatim>\<open>select\<close> does not name is absent from the row, as \<open>sel_auto\<close> is in \<open>tune_cycle\<close>.

  Shown: the tuners keep every value between half and twice its baseline; a pinned key keeps its value through \<open>tune_cycle\<close>; automatic
  promotion needs the flag, a pending nomination of the chapter and all three thresholds. The merge with the peers' values never takes effect
  in \<open>tune_cycle\<close>, and the trust tuner moves a pinned key.
\<close>

subsection \<open>Values\<close>

datatype pol_value = Val_Int int | Val_Float rat | Val_Bool bool | Val_Str string | Val_Null | Val_Other

record policy_env =
  env_float :: "string \<Rightarrow> rat option"
  env_str :: "pol_value \<Rightarrow> string"
  env_sorted :: "json \<Rightarrow> json \<Rightarrow> (json \<times> json) result"
  env_sqrt :: "int \<Rightarrow> rat"

definition float_of :: "policy_env \<Rightarrow> pol_value \<Rightarrow> rat result" where
  "float_of E v =
     (case v of
        Val_Int i \<Rightarrow> Inr (of_int i) | Val_Float r \<Rightarrow> Inr r | Val_Bool b \<Rightarrow> Inr (if b then 1 else 0)
      | Val_Str s \<Rightarrow> (case env_float E s of Some r \<Rightarrow> Inr r | None \<Rightarrow> Inl (ValueError ''could not convert string to float''))
      | _ \<Rightarrow> Inl (TypeError ''float() argument''))"

definition int_of :: "pol_value \<Rightarrow> int result" where
  "int_of v =
     (case v of
        Val_Int i \<Rightarrow> Inr i | Val_Float r \<Rightarrow> Inr (if 0 \<le> r then \<lfloor>r\<rfloor> else \<lceil>r\<rceil>) | Val_Bool b \<Rightarrow> Inr (if b then 1 else 0)
      | Val_Str s \<Rightarrow> (case parse_int s of Some i \<Rightarrow> Inr i | None \<Rightarrow> Inl (ValueError ''invalid literal for int()''))
      | _ \<Rightarrow> Inl (TypeError ''int() argument''))"

definition truthy_val :: "pol_value \<Rightarrow> bool" where
  "truthy_val v = (case v of Val_Int i \<Rightarrow> i \<noteq> 0 | Val_Float r \<Rightarrow> r \<noteq> 0 | Val_Bool b \<Rightarrow> b | Val_Str s \<Rightarrow> s \<noteq> [] | Val_Null \<Rightarrow> False | Val_Other \<Rightarrow> True)"

definition num_of :: "pol_value \<Rightarrow> rat option" where
  "num_of v = (case v of Val_Int i \<Rightarrow> Some (of_int i) | Val_Float r \<Rightarrow> Some r | Val_Bool b \<Rightarrow> Some (if b then 1 else 0) | _ \<Rightarrow> None)"

text \<open>\<^verbatim>\<open>round\<close>: to the nearest, halves to the even neighbour.\<close>

definition round_half_even :: "rat \<Rightarrow> int" where
  "round_half_even x = (let f = \<lfloor>x\<rfloor>; d = x - of_int f in if d < 1 / 2 then f else if d > 1 / 2 then f + 1 else if even f then f else f + 1)"

subsection \<open>State\<close>

record policy_row =
  pol_chapter :: string
  pol_key :: string
  pol_val :: pol_value
  pol_base :: pol_value
  pol_type :: string
  pol_auto :: bool
  pol_pinned_by :: "string option"
  pol_pinned_reason :: "string option"
  pol_pinned_at :: "instant option"
  pol_updated :: instant
  pol_window :: "int option"
  pol_sample :: "int option"

datatype history_reason = Leader_Pin | Leader_Unpin | Admin_Override | Auto_Tune | Federation_Merge | Trust_Tune

record history_row =
  hist_key :: string
  hist_old :: pol_value
  hist_new :: pol_value
  hist_reason :: history_reason
  hist_actor :: string
  hist_window :: "int option"
  hist_sample :: "int option"

record cache_entry =
  ce_value :: pol_value
  ce_type :: string
  ce_pinned :: bool

record action_outcome =
  ao_chapter :: string
  ao_created :: instant
  ao_type :: string
  ao_signal :: string

record call_row =
  call_chapter :: string
  call_status :: string
  call_responses :: nat
  call_created :: instant

record agent_row =
  ag_id :: string
  ag_trust :: "rat option"
  ag_created :: "instant option"

type_synonym snap_entry = "(string \<times> pol_value) list"

record policy_state =
  pol_gov :: governance_state
  pol_rows :: "policy_row list"
  pol_history :: "history_row list"
  pol_cache :: "(string \<times> cache_entry) list"
  pol_cache_at :: "instant option"
  outcome_table :: "action_outcome list"
  call_table :: "call_row list"
  agent_table :: "agent_row list"
  federation_knowledge :: "(string \<times> snap_entry option list option) list"

definition CACHE_TTL :: nat where "CACHE_TTL = 5 * 60 * 1000000"
definition AUTO_TUNE_DELTA_PCT :: rat where "AUTO_TUNE_DELTA_PCT = 1 / 10"
definition AUTO_TUNE_MIN_BOUND_X :: rat where "AUTO_TUNE_MIN_BOUND_X = 1 / 2"
definition AUTO_TUNE_MAX_BOUND_X :: rat where "AUTO_TUNE_MAX_BOUND_X = 2"
definition AUTO_TUNE_WARMUP_DAYS :: nat where "AUTO_TUNE_WARMUP_DAYS = 14"
definition AUTO_TUNE_WINDOW_DAYS :: nat where "AUTO_TUNE_WINDOW_DAYS = 14"
definition AUTO_TUNE_MIN_SAMPLES :: nat where "AUTO_TUNE_MIN_SAMPLES = 5"

abbreviation pol_ready :: "policy_state \<Rightarrow> bool" where "pol_ready st \<equiv> gov_ready (pol_gov st)"
abbreviation pol_agent :: "policy_state \<Rightarrow> string" where "pol_agent st \<equiv> gov_agent (pol_gov st)"
abbreviation pol_outcome :: "policy_state \<Rightarrow> request_outcome" where "pol_outcome st \<equiv> gov_outcome (pol_gov st)"

definition pol_after :: "policy_state \<Rightarrow> policy_state" where
  "pol_after st = st\<lparr>pol_gov := gov_after (pol_gov st)\<rparr>"

text \<open>A read: the rows, nothing (\<^verbatim>\<open>None\<close>) or an exception.\<close>

datatype 'r fetched = Rows "'r list" | No_Rows | Fetch_Raised

definition fetch :: "'r list \<Rightarrow> policy_state \<Rightarrow> 'r fetched \<times> policy_state" where
  "fetch rows st = ((case pol_outcome st of Req_Ok \<Rightarrow> Rows rows | Req_None \<Rightarrow> No_Rows | Req_Raise \<Rightarrow> Fetch_Raised), pol_after st)"

definition or_empty :: "'r fetched \<Rightarrow> 'r list" where
  "or_empty f = (case f of Rows rs \<Rightarrow> rs | _ \<Rightarrow> [])"

definition own_rows :: "policy_state \<Rightarrow> policy_row list" where
  "own_rows st = filter (\<lambda>r. pol_chapter r = pol_agent st) (pol_rows st)"

definition own_key :: "string \<Rightarrow> policy_state \<Rightarrow> policy_row \<Rightarrow> bool" where
  "own_key key st r \<longleftrightarrow> pol_chapter r = pol_agent st \<and> pol_key r = key"

definition patch_policy :: "string \<Rightarrow> (policy_row \<Rightarrow> policy_row) \<Rightarrow> policy_state \<Rightarrow> policy_row fetched \<times> policy_state" where
  "patch_policy key body st =
     (case pol_outcome st of
        Req_Ok \<Rightarrow> (Rows (map body (filter (own_key key st) (pol_rows st))),
                   (pol_after st)\<lparr>pol_rows := map (\<lambda>r. if own_key key st r then body r else r) (pol_rows st)\<rparr>)
      | Req_None \<Rightarrow> (No_Rows, pol_after st)
      | Req_Raise \<Rightarrow> (Fetch_Raised, pol_after st))"

definition log_history :: "history_row \<Rightarrow> policy_state \<Rightarrow> policy_state" where
  "log_history h st =
     (if \<not> pol_ready st then st
      else if pol_outcome st = Req_Ok then (pol_after st)\<lparr>pol_history := pol_history st @ [h]\<rparr> else pol_after st)"

subsection \<open>Reading\<close>

definition refresh_cache :: "instant \<Rightarrow> policy_state \<Rightarrow> policy_state" where
  "refresh_cache now st =
     (if \<not> pol_ready st then st
      else case fetch (own_rows st) st of (f, st1) \<Rightarrow>
        (case f of
           Fetch_Raised \<Rightarrow> st1
         | _ \<Rightarrow> st1\<lparr>pol_cache := rev (map (\<lambda>r. (pol_key r, \<lparr>ce_value = pol_val r, ce_type = pol_type r, ce_pinned = truthy_str (pol_pinned_by r)\<rparr>)) (or_empty f)),
                    pol_cache_at := Some now\<rparr>))"

definition ensure_cache :: "instant \<Rightarrow> policy_state \<Rightarrow> policy_state" where
  "ensure_cache now st =
     (case pol_cache_at st of
        None \<Rightarrow> refresh_cache now st
      | Some t \<Rightarrow> if int now - int t > int CACHE_TTL then refresh_cache now st else st)"

definition typed_value :: "policy_env \<Rightarrow> cache_entry \<Rightarrow> pol_value \<Rightarrow> pol_value" where
  "typed_value E ce default_value =
     (if ce_type ce = ''int'' then (case int_of (ce_value ce) of Inr i \<Rightarrow> Val_Int i | Inl e \<Rightarrow> default_value)
      else if ce_type ce = ''float'' then (case float_of E (ce_value ce) of Inr r \<Rightarrow> Val_Float r | Inl e \<Rightarrow> default_value)
      else if ce_type ce = ''bool'' then Val_Bool (truthy_val (ce_value ce))
      else ce_value ce)"

definition get :: "policy_env \<Rightarrow> string \<Rightarrow> pol_value \<Rightarrow> instant \<Rightarrow> policy_state \<Rightarrow> pol_value \<times> policy_state" where
  "get E key default_value now st =
     (let st1 = ensure_cache now st in
      ((case map_of (pol_cache st1) key of None \<Rightarrow> default_value | Some ce \<Rightarrow> typed_value E ce default_value), st1))"

definition get_bool :: "policy_env \<Rightarrow> string \<Rightarrow> bool \<Rightarrow> instant \<Rightarrow> policy_state \<Rightarrow> bool \<times> policy_state" where
  "get_bool E key d now st = (case get E key (Val_Bool d) now st of (v, st1) \<Rightarrow> (truthy_val v, st1))"

definition get_int :: "policy_env \<Rightarrow> string \<Rightarrow> int \<Rightarrow> instant \<Rightarrow> policy_state \<Rightarrow> int \<times> policy_state" where
  "get_int E key d now st = (case get E key (Val_Int d) now st of (v, st1) \<Rightarrow> (case int_of v of Inr i \<Rightarrow> i | Inl e \<Rightarrow> d, st1))"

definition get_float :: "policy_env \<Rightarrow> string \<Rightarrow> rat \<Rightarrow> instant \<Rightarrow> policy_state \<Rightarrow> rat \<times> policy_state" where
  "get_float E key d now st = (case get E key (Val_Float d) now st of (v, st1) \<Rightarrow> (case float_of E v of Inr r \<Rightarrow> r | Inl e \<Rightarrow> d, st1))"

definition invalidate_cache :: "policy_state \<Rightarrow> policy_state" where
  "invalidate_cache st = st\<lparr>pol_cache_at := None\<rparr>"

subsection \<open>Pins and overrides\<close>

datatype policy_reply = Pol_No_Database | Pol_Not_Found | Pol_Patch_Failed | Pol_Ok policy_row

definition leader_patch :: "string \<Rightarrow> (policy_row \<Rightarrow> policy_row) \<Rightarrow> (policy_row \<Rightarrow> history_row) \<Rightarrow> policy_state \<Rightarrow> policy_reply \<times> policy_state" where
  "leader_patch key body entry st =
     (if \<not> pol_ready st then (Pol_No_Database, st)
      else case patch_policy key body st of
        (Fetch_Raised, st1) \<Rightarrow> (Pol_Patch_Failed, st1)
      | (Rows (r # rs), st1) \<Rightarrow> (Pol_Ok r, invalidate_cache (log_history (entry r) st1))
      | (_, st1) \<Rightarrow> (Pol_Not_Found, st1))"

definition history_of :: "string \<Rightarrow> pol_value \<Rightarrow> pol_value \<Rightarrow> history_reason \<Rightarrow> string \<Rightarrow> history_row" where
  "history_of key old new reason actor =
     \<lparr>hist_key = key, hist_old = old, hist_new = new, hist_reason = reason, hist_actor = actor, hist_window = None, hist_sample = None\<rparr>"

definition pin :: "string \<Rightarrow> string \<Rightarrow> string \<Rightarrow> instant \<Rightarrow> policy_state \<Rightarrow> policy_reply \<times> policy_state" where
  "pin key actor reason now st =
     leader_patch key (\<lambda>r. r\<lparr>pol_pinned_by := Some actor, pol_pinned_reason := Some (take 500 reason), pol_pinned_at := Some now\<rparr>)
       (\<lambda>r. history_of key (pol_val r) (pol_val r) Leader_Pin actor) st"

definition unpin :: "string \<Rightarrow> string \<Rightarrow> policy_state \<Rightarrow> policy_reply \<times> policy_state" where
  "unpin key actor st =
     leader_patch key (\<lambda>r. r\<lparr>pol_pinned_by := None, pol_pinned_reason := None, pol_pinned_at := None\<rparr>)
       (\<lambda>r. history_of key (pol_val r) (pol_val r) Leader_Unpin actor) st"

definition override :: "string \<Rightarrow> pol_value \<Rightarrow> string \<Rightarrow> instant \<Rightarrow> policy_state \<Rightarrow> policy_reply \<times> policy_state" where
  "override key new_value actor now st =
     leader_patch key (\<lambda>r. r\<lparr>pol_val := new_value, pol_updated := now\<rparr>)
       (\<lambda>r. history_of key (pol_val r) new_value Admin_Override actor) st"

subsection \<open>Proposals of the tuner\<close>

definition clamp_numeric :: "rat \<Rightarrow> rat \<Rightarrow> rat" where
  "clamp_numeric v baseline =
     (if baseline \<le> 0 then v else max (baseline * AUTO_TUNE_MIN_BOUND_X) (min (baseline * AUTO_TUNE_MAX_BOUND_X) v))"

datatype direction = Tighten | Loosen | Hold

definition tune_step :: "rat \<Rightarrow> direction \<Rightarrow> rat" where
  "tune_step current d = (case d of Tighten \<Rightarrow> current * (1 + AUTO_TUNE_DELTA_PCT) | Loosen \<Rightarrow> current * (1 - AUTO_TUNE_DELTA_PCT) | Hold \<Rightarrow> current)"

definition propose_intro_adjustment :: "rat \<Rightarrow> rat \<Rightarrow> nat \<Rightarrow> nat \<Rightarrow> nat \<Rightarrow> rat option" where
  "propose_intro_adjustment current baseline approved rejected expired =
     (let n = approved + rejected + expired in
      if n < AUTO_TUNE_MIN_SAMPLES then None
      else if of_nat rejected / of_nat n > (1 / 2 :: rat) then Some (clamp_numeric (tune_step current Tighten) baseline)
      else if of_nat approved / of_nat n > (85 / 100 :: rat) then Some (clamp_numeric (tune_step current Loosen) baseline)
      else None)"

definition propose_cooldown_adjustment :: "int \<Rightarrow> int \<Rightarrow> nat \<Rightarrow> int option" where
  "propose_cooldown_adjustment current baseline repeated =
     (if repeated < AUTO_TUNE_MIN_SAMPLES then None
      else if repeated \<ge> 3 then
        (let new_val = round_half_even (clamp_numeric (tune_step (of_int current) Tighten) (of_int baseline))
         in if new_val \<noteq> current then Some new_val else None)
      else None)"

definition propose_relevance_floor_adjustment :: "rat \<Rightarrow> rat \<Rightarrow> nat \<Rightarrow> nat \<Rightarrow> nat \<Rightarrow> rat option" where
  "propose_relevance_floor_adjustment current baseline low high unreached =
     (let n = low + high in
      if n < AUTO_TUNE_MIN_SAMPLES \<and> unreached < AUTO_TUNE_MIN_SAMPLES then None
      else if n \<ge> AUTO_TUNE_MIN_SAMPLES \<and> of_nat low / of_nat n > (1 / 2 :: rat) then Some (clamp_numeric (tune_step current Tighten) baseline)
      else if unreached \<ge> AUTO_TUNE_MIN_SAMPLES \<and> n < AUTO_TUNE_MIN_SAMPLES then Some (clamp_numeric (tune_step current Loosen) baseline)
      else None)"

end
