(* ===== verification/Policy_Cycles.thy ===== *)
theory Policy_Cycles
  imports Chapter_Policy
begin

text \<open>
  The cycles of \<^verbatim>\<open>server/policy.py\<close> that run unattended: \<open>tune_cycle\<close> with the merge of the peers' values, \<open>tune_trust_cycle\<close> and
  \<open>auto_promote_cycle\<close>, in the order of their requests. An exception that a cycle does not catch is its result; what was written before stays
  written. The conventions of \<open>Chapter_Policy\<close> apply.
\<close>

subsection \<open>What the tuner reads\<close>

text \<open>The row as \<^verbatim>\<open>tune_cycle\<close> selects it; a column that was not selected is \<open>None\<close>.\<close>

record sel_row =
  sel_key :: string
  sel_value :: pol_value
  sel_baseline :: pol_value
  sel_pinned :: "string option"
  sel_updated :: instant
  sel_auto :: "bool option"

definition sel_of :: "policy_row \<Rightarrow> sel_row" where
  "sel_of r = \<lparr>sel_key = pol_key r, sel_value = pol_val r, sel_baseline = pol_base r, sel_pinned = pol_pinned_by r, sel_updated = pol_updated r, sel_auto = None\<rparr>"

record signals =
  sig_intros :: "approval_row list"
  sig_positive :: nat
  sig_negative :: nat
  sig_unreached :: nat

definition count_status :: "string \<Rightarrow> approval_row list \<Rightarrow> nat" where
  "count_status s rs = length (filter (\<lambda>a. ap_status a = s) rs)"

definition sig_total :: "signals \<Rightarrow> nat" where
  "sig_total s = count_status ''approved'' (sig_intros s) + count_status ''rejected'' (sig_intros s) + count_status ''expired'' (sig_intros s)"

definition since :: "instant \<Rightarrow> instant" where
  "since now = now - AUTO_TUNE_WINDOW_DAYS * usec_per_day"

definition recent_outcomes :: "instant \<Rightarrow> policy_state \<Rightarrow> action_outcome list" where
  "recent_outcomes now st = take 5000 (filter (\<lambda>o1. ao_chapter o1 = pol_agent st \<and> since now \<le> ao_created o1) (outcome_table st))"

definition recent_intros :: "instant \<Rightarrow> policy_state \<Rightarrow> approval_row list" where
  "recent_intros now st =
     take 500 (filter (\<lambda>a. ap_chapter a = pol_agent st \<and> ap_kind a = ''introduction'' \<and> since now \<le> ap_created a) (approvals_table (pol_gov st)))"

definition unreached_calls :: "instant \<Rightarrow> policy_state \<Rightarrow> call_row list" where
  "unreached_calls now st =
     take 500 (filter (\<lambda>c. call_chapter c = pol_agent st \<and> call_status c \<in> {''closed'', ''expired''} \<and> call_responses c = 0 \<and> since now \<le> call_created c) (call_table st))"

definition call_signals :: "string \<Rightarrow> action_outcome list \<Rightarrow> nat" where
  "call_signals s os = length (filter (\<lambda>o1. ao_type o1 = ''call_response'' \<and> ao_signal o1 = s) os)"

text \<open>The three reads after the rows; \<^verbatim>\<open>None\<close> for the introductions is iterated over and raises.\<close>

definition read_signals :: "instant \<Rightarrow> policy_state \<Rightarrow> signals result \<times> policy_state" where
  "read_signals now st =
     (case fetch (recent_outcomes now st) st of (os, st1) \<Rightarrow>
      (case fetch (recent_intros now st1) st1 of
         (No_Rows, st2) \<Rightarrow> (Inl (TypeError ''NoneType object is not iterable''), st2)
       | (intros, st2) \<Rightarrow>
           (case fetch (unreached_calls now st2) st2 of (cs, st3) \<Rightarrow>
              (Inr \<lparr>sig_intros = or_empty intros, sig_positive = call_signals ''positive'' (or_empty os),
                    sig_negative = call_signals ''negative'' (or_empty os), sig_unreached = length (or_empty cs)\<rparr>, st3))))"

text \<open>\<^verbatim>\<open>tuple(sorted(pair))\<close> when the pair has two elements.\<close>

definition two_sorted :: "policy_env \<Rightarrow> json \<Rightarrow> json \<Rightarrow> (json \<times> json) result" where
  "two_sorted E x y = (case (x, y) of (JStr a, JStr b) \<Rightarrow> Inr (if b < a then (y, x) else (x, y)) | _ \<Rightarrow> env_sorted E x y)"

definition pair_of :: "policy_env \<Rightarrow> approval_row \<Rightarrow> (json \<times> json) option result" where
  "pair_of E a =
     (case map_of (ap_payload a) ''pair'' of
        None \<Rightarrow> Inr None
      | Some (JList [x, y]) \<Rightarrow> bind_res (two_sorted E x y) (\<lambda>p. Inr (Some p))
      | Some (JList xs) \<Rightarrow> Inr None
      | Some (JStr [c, d]) \<Rightarrow> bind_res (two_sorted E (JStr [c]) (JStr [d])) (\<lambda>p. Inr (Some p))
      | Some (JStr s) \<Rightarrow> Inr None
      | Some (JObj [kv, kw]) \<Rightarrow> bind_res (two_sorted E (JStr (fst kv)) (JStr (fst kw))) (\<lambda>p. Inr (Some p))
      | Some (JObj kvs) \<Rightarrow> Inr None
      | Some v \<Rightarrow> Inl (TypeError ''object has no len()''))"

definition rejected_pairs :: "policy_env \<Rightarrow> approval_row list \<Rightarrow> nat result" where
  "rejected_pairs E intros =
     bind_res (map_res (pair_of E) (filter (\<lambda>a. ap_status a = ''rejected'') intros)) (\<lambda>ps. Inr (card (set (List.map_filter id ps))))"

subsection \<open>One pass over the rows\<close>

definition proposal_for :: "policy_env \<Rightarrow> signals \<Rightarrow> sel_row \<Rightarrow> pol_value option result" where
  "proposal_for E s r =
     (if sel_key r = ''intro.confidence_floor'' then
        bind_res (float_of E (sel_value r)) (\<lambda>c. bind_res (float_of E (sel_baseline r)) (\<lambda>b.
          Inr (map_option Val_Float (propose_intro_adjustment c b (count_status ''approved'' (sig_intros s))
            (count_status ''rejected'' (sig_intros s)) (count_status ''expired'' (sig_intros s))))))
      else if sel_key r = ''intro.cooldown_days'' then
        bind_res (rejected_pairs E (sig_intros s)) (\<lambda>n. bind_res (int_of (sel_value r)) (\<lambda>c. bind_res (int_of (sel_baseline r)) (\<lambda>b.
          Inr (map_option Val_Int (propose_cooldown_adjustment c b n)))))
      else if sel_key r = ''call.response_relevance_floor'' then
        bind_res (float_of E (sel_value r)) (\<lambda>c. bind_res (float_of E (sel_baseline r)) (\<lambda>b.
          Inr (map_option Val_Float (propose_relevance_floor_adjustment c b (sig_negative s) (sig_positive s) (sig_unreached s)))))
      else Inr None)"

definition warming_up :: "instant \<Rightarrow> sel_row \<Rightarrow> bool" where
  "warming_up now r \<longleftrightarrow> int now - int (sel_updated r) < int (AUTO_TUNE_WARMUP_DAYS * usec_per_day)"

record change =
  ch_key :: string
  ch_old :: "pol_value option"
  ch_new :: "pol_value option"
  ch_federation :: "rat option"

text \<open>Equality of numbers, of the value proposed with the value stored.\<close>

definition same_value :: "pol_value \<Rightarrow> pol_value \<Rightarrow> bool" where
  "same_value new old \<longleftrightarrow> num_of old \<noteq> None \<and> num_of new = num_of old"

definition store_tuned :: "instant \<Rightarrow> nat \<Rightarrow> string \<Rightarrow> pol_value \<Rightarrow> pol_value \<Rightarrow> policy_state \<Rightarrow> bool \<times> policy_state" where
  "store_tuned now sample key old new st =
     (case patch_policy key (\<lambda>p. p\<lparr>pol_val := new, pol_updated := now, pol_window := Some (int AUTO_TUNE_WINDOW_DAYS), pol_sample := Some (int sample)\<rparr>) st of
        (Fetch_Raised, st1) \<Rightarrow> (False, st1)
      | (_, st1) \<Rightarrow> (True, log_history ((history_of key old new Auto_Tune (pol_agent st))
                       \<lparr>hist_window := Some (int AUTO_TUNE_WINDOW_DAYS), hist_sample := Some (int sample)\<rparr>) st1))"

definition tune_row :: "policy_env \<Rightarrow> instant \<Rightarrow> signals \<Rightarrow> sel_row \<Rightarrow> policy_state \<Rightarrow> change list result \<times> policy_state" where
  "tune_row E now s r st =
     (if truthy_str (sel_pinned r) \<or> warming_up now r then (Inr [], st)
      else case proposal_for E s r of
        Inl e \<Rightarrow> (Inl e, st)
      | Inr None \<Rightarrow> (Inr [], st)
      | Inr (Some new) \<Rightarrow>
          if same_value new (sel_value r) then (Inr [], st)
          else (case store_tuned now (sig_total s) (sel_key r) (sel_value r) new st of (ok, st1) \<Rightarrow>
            (Inr (if ok then [\<lparr>ch_key = sel_key r, ch_old = Some (sel_value r), ch_new = Some new, ch_federation = None\<rparr>] else []), st1)))"

fun tune_rows :: "policy_env \<Rightarrow> instant \<Rightarrow> signals \<Rightarrow> sel_row list \<Rightarrow> policy_state \<Rightarrow> change list result \<times> policy_state" where
  "tune_rows E now s [] st = (Inr [], st)"
| "tune_rows E now s (r # rs) st =
     (case tune_row E now s r st of
        (Inl e, st1) \<Rightarrow> (Inl e, st1)
      | (Inr c, st1) \<Rightarrow> (case tune_rows E now s rs st1 of (Inl e, st2) \<Rightarrow> (Inl e, st2) | (Inr cs, st2) \<Rightarrow> (Inr (c @ cs), st2)))"

subsection \<open>The merge with peers\<close>

definition entry_get :: "snap_entry \<Rightarrow> string \<Rightarrow> pol_value \<Rightarrow> pol_value" where
  "entry_get e k d = (case map_of e k of Some v \<Rightarrow> v | None \<Rightarrow> d)"

definition snapshot_of :: "policy_env \<Rightarrow> string \<Rightarrow> snap_entry \<Rightarrow> PeerSnapshot result" where
  "snapshot_of E peer e =
     bind_res (float_of E (entry_get e ''value'' (Val_Float 0))) (\<lambda>v.
     bind_res (float_of E (entry_get e ''baseline'' (Val_Float 0))) (\<lambda>b.
     bind_res (int_of (entry_get e ''sample_size'' (Val_Int 0))) (\<lambda>n.
     bind_res (float_of E (entry_get e ''confidence'' (Val_Float 1))) (\<lambda>c.
       Inr \<lparr>snap_chapter = peer, snap_key = (case entry_get e ''key'' (Val_Str []) of Val_Str k \<Rightarrow> k | v \<Rightarrow> env_str E v),
            snap_value = v, snap_baseline = b, snap_samples = n, snap_confidence = c\<rparr>))))"

definition peer_snapshots :: "policy_env \<Rightarrow> policy_state \<Rightarrow> PeerSnapshot list" where
  "peer_snapshots E st =
     filter (\<lambda>s. snap_key s \<noteq> []) (concat (map (\<lambda>(peer, data).
       List.map_filter (\<lambda>e. case e of None \<Rightarrow> None | Some kvs \<Rightarrow> res_val (snapshot_of E peer kvs)) (case data of None \<Rightarrow> [] | Some es \<Rightarrow> es)) (federation_knowledge st)))"

definition store_merged :: "instant \<Rightarrow> string \<Rightarrow> rat \<Rightarrow> MergeResult \<Rightarrow> policy_state \<Rightarrow> bool \<times> policy_state" where
  "store_merged now key current m st =
     (case patch_policy key (\<lambda>p. p\<lparr>pol_val := Val_Float (merge_new m), pol_updated := now\<rparr>) st of
        (Fetch_Raised, st1) \<Rightarrow> (False, st1)
      | (_, st1) \<Rightarrow> (True, log_history ((history_of key (Val_Float current) (Val_Float (merge_new m)) Federation_Merge (pol_agent st))
                       \<lparr>hist_window := Some (int AUTO_TUNE_WINDOW_DAYS), hist_sample := Some (int (length (contributing_peers m)))\<rparr>) st1))"

text \<open>The value and the merge of a row that the merge looks at.\<close>

definition merge_for :: "policy_env \<Rightarrow> PeerSnapshot list \<Rightarrow> sel_row \<Rightarrow> (rat \<times> MergeResult) option" where
  "merge_for E snaps r =
     (let key = sel_key r in
      if list_all (\<lambda>s. snap_key s \<noteq> key) snaps \<or> truthy_str (sel_pinned r) \<or> sel_auto r \<noteq> Some True then None
      else case (float_of E (sel_value r), float_of E (sel_baseline r)) of
        (Inr current, Inr baseline) \<Rightarrow>
          if baseline = 0 then None
          else map_option (\<lambda>m. (current, m)) (merge_peer_snapshots (env_sqrt E) key current baseline (filter (\<lambda>s. snap_key s = key) snaps))
      | _ \<Rightarrow> None)"

fun merge_rows :: "policy_env \<Rightarrow> instant \<Rightarrow> PeerSnapshot list \<Rightarrow> sel_row list \<Rightarrow> policy_state \<Rightarrow> (string \<times> rat) list \<times> policy_state" where
  "merge_rows E now snaps [] st = ([], st)"
| "merge_rows E now snaps (r # rs) st =
     (case merge_for E snaps r of
        None \<Rightarrow> merge_rows E now snaps rs st
      | Some (current, m) \<Rightarrow>
          (case store_merged now (sel_key r) current m st of (ok, st1) \<Rightarrow>
             (case merge_rows E now snaps rs st1 of (us, st2) \<Rightarrow> ((if ok then [(sel_key r, merge_new m)] else []) @ us, st2))))"

definition federation_merge_cycle :: "policy_env \<Rightarrow> instant \<Rightarrow> sel_row list \<Rightarrow> policy_state \<Rightarrow> (string \<times> rat) list \<times> policy_state" where
  "federation_merge_cycle E now rows st =
     (if federation_knowledge st = [] then ([], st) else merge_rows E now (peer_snapshots E st) rows st)"

definition read_flag :: "string \<Rightarrow> policy_state \<Rightarrow> bool \<times> policy_state" where
  "read_flag key st =
     (if \<not> pol_ready st then (False, st)
      else case fetch (filter (own_key key st) (pol_rows st)) st of
        (Rows (r # rs), st1) \<Rightarrow> (truthy_val (pol_val r), st1)
      | (_, st1) \<Rightarrow> (False, st1))"

definition add_federation :: "(string \<times> rat) list \<Rightarrow> change list \<Rightarrow> change list" where
  "add_federation us cs =
     foldl (\<lambda>cs (k, v).
       if k \<in> ch_key ` set cs then map (\<lambda>c. if ch_key c = k then c\<lparr>ch_federation := Some v\<rparr> else c) cs
       else cs @ [\<lparr>ch_key = k, ch_old = None, ch_new = None, ch_federation = Some v\<rparr>]) cs us"

definition tune_cycle :: "policy_env \<Rightarrow> instant \<Rightarrow> policy_state \<Rightarrow> change list result \<times> policy_state" where
  "tune_cycle E now st0 =
     (if \<not> pol_ready st0 then (Inr [], st0)
      else (let st = refresh_cache now st0 in
            case fetch (map sel_of (filter pol_auto (own_rows st))) st of
              (Rows (r # rs), st1) \<Rightarrow>
                (case read_signals now st1 of
                   (Inl e, st2) \<Rightarrow> (Inl e, st2)
                 | (Inr s, st2) \<Rightarrow>
                     (case tune_rows E now s (r # rs) st2 of
                        (Inl e, st3) \<Rightarrow> (Inl e, st3)
                      | (Inr cs, st3) \<Rightarrow>
                          (case read_flag ''federation.enabled'' st3 of (enabled, st4) \<Rightarrow>
                             (case (if enabled then federation_merge_cycle E now (r # rs) st4 else ([], st4)) of (us, st5) \<Rightarrow>
                                let out = add_federation us cs in (Inr out, if out = [] then st5 else invalidate_cache st5)))))
            | (_, st1) \<Rightarrow> (Inr [], st1)))"

subsection \<open>The snapshot for peers\<close>

definition export_row :: "policy_env \<Rightarrow> policy_row \<Rightarrow> snap_entry option" where
  "export_row E r =
     (if truthy_str (pol_pinned_by r) \<or> pol_type r \<notin> {''float'', ''int''} then None
      else case (float_of E (pol_val r), float_of E (pol_base r)) of
        (Inr v, Inr b) \<Rightarrow>
          (let n = (case pol_sample r of Some i \<Rightarrow> i | None \<Rightarrow> 0) in
           Some [(''key'', Val_Str (pol_key r)), (''value'', Val_Float v), (''baseline'', Val_Float b), (''sample_size'', Val_Int n),
                 (''confidence'', Val_Float (if n \<ge> 10 then 1 else max (1 / 10) (of_int n / 10)))])
      | _ \<Rightarrow> None)"

definition get_policy_snapshot_for_federation :: "policy_env \<Rightarrow> policy_state \<Rightarrow> snap_entry list \<times> policy_state" where
  "get_policy_snapshot_for_federation E st =
     (if \<not> pol_ready st then ([], st)
      else case fetch (filter pol_auto (own_rows st)) st of (f, st1) \<Rightarrow> (List.map_filter (export_row E) (or_empty f), st1))"

subsection \<open>The trust tuner\<close>





definition trust_key :: string where "trust_key = ''trust.delta_scale''"


subsection \<open>Automatic promotion\<close>















subsection \<open>Frames\<close>

lemma pol_after_sel [simp]:
  "pol_rows (pol_after st) = pol_rows st" "pol_agent (pol_after st) = pol_agent st" "pol_ready (pol_after st) = pol_ready st"
  "pol_history (pol_after st) = pol_history st" "pol_cache (pol_after st) = pol_cache st" "pol_cache_at (pol_after st) = pol_cache_at st"
  "agent_table (pol_after st) = agent_table st" "role_table (pol_gov (pol_after st)) = role_table (pol_gov st)"
  "nominations_table (pol_gov (pol_after st)) = nominations_table (pol_gov st)" "gov_requests (pol_gov (pol_after st)) = tl (gov_requests (pol_gov st))"
  by (simp_all add: pol_after_def)

text \<open>What the operations leave alone: everything but the policy rows, the history and the cache.\<close>

definition same_world :: "policy_state \<Rightarrow> policy_state \<Rightarrow> bool" where
  "same_world st st1 \<longleftrightarrow> pol_agent st1 = pol_agent st \<and> pol_ready st1 = pol_ready st \<and> role_table (pol_gov st1) = role_table (pol_gov st)
     \<and> nominations_table (pol_gov st1) = nominations_table (pol_gov st) \<and> agent_table st1 = agent_table st"

lemma same_world_refl [simp]: "same_world st st"
  by (simp add: same_world_def)

lemma same_world_trans: "same_world st st1 \<Longrightarrow> same_world st1 st2 \<Longrightarrow> same_world st st2"
  by (simp add: same_world_def)


lemma log_history_rows [simp]: "pol_rows (log_history h st) = pol_rows st" "pol_agent (log_history h st) = pol_agent st"
  by (simp_all add: log_history_def)

lemma refresh_cache_rows [simp]: "pol_rows (refresh_cache now st) = pol_rows st" "same_world st (refresh_cache now st)" "pol_history (refresh_cache now st) = pol_history st"
  by (auto simp: refresh_cache_def same_world_def fetch_def split: prod.splits fetched.splits)

lemma refresh_cache_agent [simp]: "pol_agent (refresh_cache now st) = pol_agent st" "pol_ready (refresh_cache now st) = pol_ready st"
  using refresh_cache_rows(2) [of st now] by (simp_all add: same_world_def)



lemma read_signals_frame: "read_signals now st = (r, st1) \<Longrightarrow> pol_rows st1 = pol_rows st \<and> pol_agent st1 = pol_agent st \<and> pol_history st1 = pol_history st"
  by (auto simp: read_signals_def fetch_def split: prod.splits fetched.splits)

lemma read_flag_frame: "read_flag k st = (b, st1) \<Longrightarrow> pol_rows st1 = pol_rows st \<and> pol_agent st1 = pol_agent st \<and> pol_history st1 = pol_history st"
  by (auto simp: read_flag_def fetch_def split: prod.splits fetched.splits list.splits if_splits)

subsection \<open>Writes, row by row\<close>

text \<open>The rows before and after, position by position: rows of other keys and chapters are as they were, the identity and the baseline of every
  row are, and a value that was written satisfies \<open>Q\<close>.\<close>

definition rewritten :: "(string \<Rightarrow> pol_value \<Rightarrow> bool) \<Rightarrow> string set \<Rightarrow> policy_state \<Rightarrow> policy_state \<Rightarrow> bool" where
  "rewritten Q K st st1 \<longleftrightarrow> pol_agent st1 = pol_agent st \<and> list_all2 (\<lambda>r r1. r1 = r
     \<or> pol_chapter r = pol_agent st \<and> pol_key r \<in> K \<and> Q (pol_key r) (pol_val r1) \<and> pol_chapter r1 = pol_chapter r \<and> pol_key r1 = pol_key r
       \<and> pol_base r1 = pol_base r \<and> pol_auto r1 = pol_auto r \<and> pol_pinned_by r1 = pol_pinned_by r) (pol_rows st) (pol_rows st1)"

lemma rewritten_same: "pol_rows st1 = pol_rows st \<Longrightarrow> pol_agent st1 = pol_agent st \<Longrightarrow> rewritten Q K st st1"
  by (auto simp: rewritten_def intro: list_all2_refl)

lemma rewritten_trans:
  assumes "rewritten Q K st st1" "rewritten Q K st1 st2"
  shows "rewritten Q K st st2"
proof -
  from assms have a: "pol_agent st1 = pol_agent st" "pol_agent st2 = pol_agent st" by (simp_all add: rewritten_def)
  let ?R = "\<lambda>r r1. r1 = r \<or> pol_chapter r = pol_agent st \<and> pol_key r \<in> K \<and> Q (pol_key r) (pol_val r1) \<and> pol_chapter r1 = pol_chapter r \<and> pol_key r1 = pol_key r
       \<and> pol_base r1 = pol_base r \<and> pol_auto r1 = pol_auto r \<and> pol_pinned_by r1 = pol_pinned_by r"
  have "list_all2 ?R (pol_rows st) (pol_rows st2)"
    by (rule list_all2_trans [of ?R ?R ?R _ "pol_rows st1"]) (use assms a in \<open>auto simp: rewritten_def\<close>)
  with a show ?thesis by (simp add: rewritten_def)
qed

lemma rewritten_mono: "rewritten Q K st st1 \<Longrightarrow> K \<subseteq> K1 \<Longrightarrow> rewritten Q K1 st st1"
  unfolding rewritten_def by (auto elim!: list_all2_mono)

lemma patch_policy_rewritten:
  assumes "patch_policy key body st = (f, st1)" "\<And>r. pol_chapter (body r) = pol_chapter r \<and> pol_key (body r) = pol_key r \<and> pol_base (body r) = pol_base r
      \<and> pol_auto (body r) = pol_auto r \<and> pol_pinned_by (body r) = pol_pinned_by r \<and> pol_val (body r) = v" "Q key v"
  shows "rewritten Q {key} st st1"
  using assms by (auto simp: patch_policy_def rewritten_def own_key_def list_all2_map2 intro!: list_all2_refl split: request_outcome.splits)

lemma store_tuned_rewritten: "store_tuned now n key old new st = (ok, st1) \<Longrightarrow> Q key new \<Longrightarrow> rewritten Q {key} st st1"
proof -
  assume a: "store_tuned now n key old new st = (ok, st1)" and q: "Q key new"
  obtain f st2 where p: "patch_policy key (\<lambda>p. p\<lparr>pol_val := new, pol_updated := now, pol_window := Some (int AUTO_TUNE_WINDOW_DAYS), pol_sample := Some (int n)\<rparr>) st = (f, st2)"
    by fastforce
  have "rewritten Q {key} st st2" by (rule patch_policy_rewritten [OF p]) (use q in auto)
  then show ?thesis using a p by (auto simp: store_tuned_def rewritten_def split: fetched.splits)
qed

lemma tune_row_rewritten:
  assumes "tune_row E now s r st = (res, st1)" "\<And>new. proposal_for E s r = Inr (Some new) \<Longrightarrow> Q (sel_key r) new"
  shows "rewritten Q (if truthy_str (sel_pinned r) then {} else {sel_key r}) st st1"
  using assms
  by (auto simp: tune_row_def intro: rewritten_same split: if_splits sum.splits option.splits prod.splits
      dest!: store_tuned_rewritten [where Q = Q])

lemma tune_rows_rewritten:
  assumes "tune_rows E now s rs st = (res, st1)"
    and "\<And>r new. r \<in> set rs \<Longrightarrow> proposal_for E s r = Inr (Some new) \<Longrightarrow> Q (sel_key r) new"
  shows "rewritten Q (sel_key ` {r \<in> set rs. \<not> truthy_str (sel_pinned r)}) st st1"
  using assms
proof (induction rs arbitrary: st res)
  case (Cons r rs)
  obtain c st2 where one: "tune_row E now s r st = (c, st2)" by fastforce
  have a: "rewritten Q (sel_key ` {r1 \<in> set (r # rs). \<not> truthy_str (sel_pinned r1)}) st st2"
    by (rule rewritten_mono [OF tune_row_rewritten [OF one]]) (use Cons.prems(2) in auto)
  show ?case
  proof (cases c)
    case (Inl e)
    then show ?thesis using Cons.prems(1) one a by simp
  next
    case (Inr cs)
    then obtain r2 where "tune_rows E now s rs st2 = (r2, st1)" using Cons.prems(1) one by (auto split: prod.splits sum.splits)
    then have "rewritten Q (sel_key ` {r \<in> set rs. \<not> truthy_str (sel_pinned r)}) st2 st1" by (rule Cons.IH) (use Cons.prems(2) in auto)
    then have "rewritten Q (sel_key ` {r1 \<in> set (r # rs). \<not> truthy_str (sel_pinned r1)}) st2 st1" by (rule rewritten_mono) auto
    with a show ?thesis by (rule rewritten_trans)
  qed
qed (auto intro: rewritten_same)

lemma unselected_merge: "(\<And>r. r \<in> set rs \<Longrightarrow> sel_auto r = None) \<Longrightarrow> federation_merge_cycle E now rs st = ([], st)"
proof -
  assume "\<And>r. r \<in> set rs \<Longrightarrow> sel_auto r = None"
  then have "merge_rows E now snaps rs st = ([], st)" for snaps by (induction rs) (auto simp: merge_for_def Let_def)
  then show ?thesis by (simp add: federation_merge_cycle_def)
qed

text \<open>The cycle without the merge.\<close>

lemma tune_cycle_cases:
  assumes "tune_cycle E now st = (res, st1)"
  shows "(\<exists>s st2 st3 rs cs. tune_rows E now s rs st2 = (cs, st3) \<and> set rs \<subseteq> sel_of ` {r \<in> set (own_rows st). pol_auto r}
       \<and> pol_rows st2 = pol_rows st \<and> pol_agent st2 = pol_agent st \<and> pol_history st2 = pol_history st
       \<and> pol_rows st1 = pol_rows st3 \<and> pol_agent st1 = pol_agent st3 \<and> pol_history st1 = pol_history st3 \<and> res = cs)
    \<or> pol_rows st1 = pol_rows st \<and> pol_agent st1 = pol_agent st \<and> pol_history st1 = pol_history st \<and> (\<forall>cs. res = Inr cs \<longrightarrow> cs = [])"
proof -
  let ?st = "refresh_cache now st"
  have own: "own_rows ?st = own_rows st" by (simp add: own_rows_def)
  let ?rows = "map sel_of (filter pol_auto (own_rows st))"
  show ?thesis
  proof (cases "pol_ready st \<and> fst (fetch ?rows ?st) = Rows ?rows \<and> ?rows \<noteq> []")
    case False
    then show ?thesis using assms
      by (auto simp: tune_cycle_def own fetch_def Let_def split: request_outcome.splits list.splits if_splits)
  next
    case True
    then obtain r rs where rows: "?rows = r # rs" by (cases ?rows) auto
    obtain s st2 where sg: "read_signals now (pol_after ?st) = (s, st2)" by fastforce
    note fr = read_signals_frame [OF sg]
    have f: "fetch ?rows ?st = (Rows (r # rs), pol_after ?st)" using True rows by (metis fetch_def fst_conv prod.collapse snd_conv)
    show ?thesis
    proof (cases s)
      case (Inl e)
      then show ?thesis using assms True f sg fr by (auto simp: tune_cycle_def own rows Let_def)
    next
      case (Inr sigs)
      obtain cs st3 where t: "tune_rows E now sigs (r # rs) st2 = (cs, st3)" by fastforce
      obtain b st4 where fl: "read_flag ''federation.enabled'' st3 = (b, st4)" by fastforce
      have m: "(if b then federation_merge_cycle E now (r # rs) st4 else ([], st4)) = ([], st4)"
        by (subst unselected_merge) (auto simp flip: rows simp: sel_of_def)
      have "set (r # rs) \<subseteq> sel_of ` {r \<in> set (own_rows st). pol_auto r}" unfolding rows [symmetric] by auto
      moreover have "res = cs \<and> pol_rows st1 = pol_rows st3 \<and> pol_agent st1 = pol_agent st3 \<and> pol_history st1 = pol_history st3"
        using assms True f sg Inr t fl m read_flag_frame [OF fl]
        by (auto simp: tune_cycle_def own rows Let_def add_federation_def invalidate_cache_def split: sum.splits if_splits)
      ultimately show ?thesis using t fr by (intro disjI1 exI [of _ sigs] exI [of _ st2] exI [of _ st3] exI [of _ "r # rs"] exI [of _ cs]) simp
    qed
  qed
qed

lemma tune_cycle_rewritten:
  assumes "tune_cycle E now st = (res, st1)"
    and "\<And>r s new. r \<in> set (own_rows st) \<Longrightarrow> pol_auto r \<Longrightarrow> proposal_for E s (sel_of r) = Inr (Some new) \<Longrightarrow> Q (pol_key r) new"
  shows "rewritten Q (pol_key ` {r \<in> set (own_rows st). pol_auto r \<and> \<not> truthy_str (pol_pinned_by r)}) st st1"
  using tune_cycle_cases [OF assms(1)]
proof (elim disjE exE conjE)
  fix s st2 st3 rs cs
  assume t: "tune_rows E now s rs st2 = (cs, st3)" and sub: "set rs \<subseteq> sel_of ` {r \<in> set (own_rows st). pol_auto r}"
    and f: "pol_rows st2 = pol_rows st" "pol_agent st2 = pol_agent st" "pol_rows st1 = pol_rows st3" "pol_agent st1 = pol_agent st3"
  have "rewritten Q (sel_key ` {r \<in> set rs. \<not> truthy_str (sel_pinned r)}) st2 st3"
  proof (rule tune_rows_rewritten [OF t])
    fix r new assume "r \<in> set rs" "proposal_for E s r = Inr (Some new)"
    then show "Q (sel_key r) new" using sub assms(2) by (fastforce simp: sel_of_def)
  qed
  then have "rewritten Q (pol_key ` {r \<in> set (own_rows st). pol_auto r \<and> \<not> truthy_str (pol_pinned_by r)}) st2 st3"
    by (rule rewritten_mono) (use sub in \<open>force simp: sel_of_def\<close>)
  then show ?thesis using f by (simp add: rewritten_def)
qed (auto intro: rewritten_same)

subsection \<open>Pinned keys\<close>

text \<open>The constraint of the table.\<close>

definition unique_keys :: "policy_state \<Rightarrow> bool" where
  "unique_keys st \<longleftrightarrow> distinct (map (\<lambda>r. (pol_chapter r, pol_key r)) (pol_rows st))"

lemma unique_keysD:
  "unique_keys st \<Longrightarrow> r \<in> set (pol_rows st) \<Longrightarrow> p \<in> set (pol_rows st) \<Longrightarrow> pol_chapter r = pol_chapter p \<Longrightarrow> pol_key r = pol_key p \<Longrightarrow> r = p"
  by (auto simp: unique_keys_def distinct_map dest: inj_onD)

text \<open>C35: C: The tuner leaves a pinned key alone, and with it every key that is not marked for tuning and every other chapter's: after a cycle those rows
  are as they were, in every column, whatever the cycle read and whichever requests failed.\<close>

theorem pinned_keys_keep_value:
  assumes "tune_cycle E now st = (res, st1)" "unique_keys st" "i < length (pol_rows st)"
    and "truthy_str (pol_pinned_by (pol_rows st ! i)) \<or> \<not> pol_auto (pol_rows st ! i) \<or> pol_chapter (pol_rows st ! i) \<noteq> pol_agent st"
  shows "pol_rows st1 ! i = pol_rows st ! i \<and> length (pol_rows st1) = length (pol_rows st)"
proof -
  let ?r = "pol_rows st ! i"
  have w: "rewritten (\<lambda>k v. True) (pol_key ` {r \<in> set (own_rows st). pol_auto r \<and> \<not> truthy_str (pol_pinned_by r)}) st st1"
    by (rule tune_cycle_rewritten [OF assms(1)]) simp
  have "\<not> (pol_chapter ?r = pol_agent st \<and> pol_key ?r \<in> pol_key ` {r \<in> set (own_rows st). pol_auto r \<and> \<not> truthy_str (pol_pinned_by r)})"
    using assms(3,4) unique_keysD [OF assms(2), of ?r] by (auto simp: own_rows_def)
  with w assms(3) show ?thesis unfolding rewritten_def by (auto dest: list_all2_nthD list_all2_lengthD)
qed

subsection \<open>The envelope\<close>



abbreviation "cooldown_key \<equiv> ''intro.cooldown_days''"

















subsection \<open>Automatic promotion\<close>








subsection \<open>A policy's life\<close>





subsection \<open>The merge that never runs\<close>

definition merges_of :: "policy_state \<Rightarrow> history_row list" where
  "merges_of st = filter (\<lambda>h. hist_reason h = Federation_Merge) (pol_history st)"

lemma tune_rows_no_merge:
  "tune_rows E now s rs st = (res, st1) \<Longrightarrow> merges_of st1 = merges_of st \<and> (\<forall>cs. res = Inr cs \<longrightarrow> (\<forall>c \<in> set cs. ch_federation c = None))"
proof (induction rs arbitrary: st res)
  case (Cons r rs)
  obtain c st2 where one: "tune_row E now s r st = (c, st2)" by fastforce
  then have a: "merges_of st2 = merges_of st \<and> (\<forall>cs. c = Inr cs \<longrightarrow> (\<forall>c \<in> set cs. ch_federation c = None))"
    by (auto simp: tune_row_def store_tuned_def merges_of_def patch_policy_def log_history_def history_of_def
        split: if_splits sum.splits option.splits prod.splits fetched.splits request_outcome.splits)
  show ?case
  proof (cases c)
    case (Inr cs)
    then obtain r2 where "tune_rows E now s rs st2 = (r2, st1)" using Cons.prems one by (auto split: prod.splits sum.splits)
    with Cons.IH [OF this] Cons.prems one a Inr show ?thesis by (auto split: sum.splits)
  qed (use Cons.prems one a in auto)
qed simp

text \<open>C39: C: The merge with the peers' values never happens: the cycle reads its rows without the column the merge requires, so whatever the flag says and
  the peers sent, no value is merged, no merge is logged and none is reported.\<close>

theorem federation_merge_never_applies:
  assumes "tune_cycle E now st = (res, st1)"
  shows "merges_of st1 = merges_of st \<and> (\<forall>cs. res = Inr cs \<longrightarrow> (\<forall>c \<in> set cs. ch_federation c = None))"
  using tune_cycle_cases [OF assms]
proof (elim disjE exE conjE)
  fix s st2 st3 rs cs
  assume "tune_rows E now s rs st2 = (cs, st3)" "pol_history st2 = pol_history st" "pol_history st1 = pol_history st3" "res = cs"
  then show ?thesis using tune_rows_no_merge [of E now s rs st2 cs st3] by (simp add: merges_of_def)
qed (auto simp: merges_of_def)

subsection \<open>A pin the trust tuner does not see\<close>

lemma fetch_ok [simp]: "gov_requests (pol_gov st) = [] \<Longrightarrow> fetch rows st = (Rows rows, pol_after st)"
  by (simp add: fetch_def)





subsection \<open>Runs\<close>

definition demo_policy_env :: policy_env where
  "demo_policy_env = \<lparr>env_float = (\<lambda>s. None), env_str = (\<lambda>v. ''?''), env_sorted = (\<lambda>x y. Inl (TypeError ''unorderable'')), env_sqrt = (\<lambda>n. of_int n)\<rparr>"

definition demo_row :: "string \<Rightarrow> pol_value \<Rightarrow> pol_value \<Rightarrow> string option \<Rightarrow> policy_row" where
  "demo_row key v b by1 = \<lparr>pol_chapter = gov_agent demo_gov, pol_key = key, pol_val = v, pol_base = b, pol_type = ''float'', pol_auto = True, pol_pinned_by = by1,
     pol_pinned_reason = None, pol_pinned_at = None, pol_updated = 0, pol_window = None, pol_sample = None\<rparr>"

definition demo_agents :: "agent_row list" where
  "demo_agents = map (\<lambda>n. \<lparr>ag_id = n, ag_trust = Some 10, ag_created = Some 0\<rparr>) [''a'', ''b'', ''c'', ''d'', ''e''] @ [\<lparr>ag_id = ''bob'', ag_trust = Some 90, ag_created = Some 0\<rparr>]"

definition demo_nomination :: nomination_row where
  "demo_nomination = \<lparr>nom_id = ''n1'', nom_nominee = ''bob'', nom_nominator = ''amy'', nom_chapter = gov_agent demo_gov, nom_target_role = ''advisor'', nom_reason = [],
     nom_status = ''pending'', nom_resolved_by = None, nom_resolved_at = None, nom_note = None,
     nom_endorsements = [\<lparr>en_endorser = ''x'', en_signal = ''up'', en_note = [], en_at = 0\<rparr>, \<lparr>en_endorser = ''y'', en_signal = ''up'', en_note = [], en_at = 0\<rparr>],
     nom_created = 0, nom_expires = 0\<rparr>"

definition demo_policy :: policy_state where
  "demo_policy = \<lparr>pol_gov = demo_gov\<lparr>nominations_table := [demo_nomination], role_table := [(''bob'', Some ''member'')]\<rparr>,
     pol_rows = [demo_row ''call.response_relevance_floor'' (Val_Float 1) (Val_Float 1) (Some ''amy''), demo_row trust_key (Val_Float 1) (Val_Int 1) None,
       demo_row ''autopromote.enabled'' (Val_Int 1) (Val_Int 0) None],
     pol_history = [], pol_cache = [], pol_cache_at = None, outcome_table = [], call_table = [], agent_table = demo_agents, federation_knowledge = []\<rparr>"

definition demo_now :: instant where "demo_now = 100 * usec_per_day"


lemma demo_unique: "unique_keys demo_policy"
  by (simp add: unique_keys_def demo_policy_def demo_row_def trust_key_def)

theorem pinned_keys_keep_value_witness:
  "pol_rows (snd (tune_cycle demo_policy_env demo_now demo_policy)) ! 0 = demo_row ''call.response_relevance_floor'' (Val_Float 1) (Val_Float 1) (Some ''amy'')"
  using pinned_keys_keep_value [OF surjective_pairing demo_unique, of 0 demo_policy_env demo_now] by (simp add: demo_policy_def demo_row_def)



theorem federation_merge_never_applies_witness: "merges_of (snd (tune_cycle demo_policy_env demo_now demo_policy)) = []"
  using federation_merge_never_applies [OF surjective_pairing, of demo_policy_env demo_now demo_policy] by (simp add: merges_of_def demo_policy_def)




end
