(* ===== verification/Pg_Store.thy ===== *)
theory Pg_Store
  imports Py_Path Json
begin

text \<open>
  The statement builders of \<^verbatim>\<open>server/pg_store.py\<close>, the one place where values become SQL text: literals, quoted
  identifiers, the filter dialect, the clauses, and the five statements. Query parameters are association lists of strings, in the
  order of the dict; row values are JSON values; \<open>float_repr\<close> stands for \<^verbatim>\<open>repr(float(x))\<close>, used for vector columns
  only. The connection pool and the execution of statements are not modelled.

  The theorems read the text back with an SQL lexer: whatever the values are, the statement has the tokens of its shape, and a value
  occurs only inside its own string token.
\<close>

subsection \<open>Literals and identifiers\<close>

fun join_str :: "string \<Rightarrow> string list \<Rightarrow> string" where
  "join_str sep [] = []"
| "join_str sep [x] = x"
| "join_str sep (x # y # ys) = x @ sep @ join_str sep (y # ys)"

text \<open>\<^verbatim>\<open>json.dumps(v)\<close> with the default separators.\<close>

fun dumps_sp :: "json \<Rightarrow> string" where
  "dumps_sp (JList xs) = ''['' @ join_str '', '' (map dumps_sp xs) @ '']''"
| "dumps_sp (JObj kvs) = ''{'' @ join_str '', '' (map (\<lambda>kv. dump_str (fst kv) @ '': '' @ dumps_sp (snd kv)) kvs) @ ''}''"
| "dumps_sp j = dumps j"

abbreviation quote :: char where "quote \<equiv> CHR 0x27"
abbreviation dquote :: char where "dquote \<equiv> CHR 0x22"

definition double_quotes :: "string \<Rightarrow> string" where
  "double_quotes s = concat (map (\<lambda>c. if c = quote then [quote, quote] else [c]) s)"

definition quoted :: "string \<Rightarrow> string" where
  "quoted s = quote # double_quotes s @ [quote]"

fun lit :: "json \<Rightarrow> string" where
  "lit JNull = ''NULL''"
| "lit (JBool b) = (if b then ''TRUE'' else ''FALSE'')"
| "lit (JInt i) = str_int i"
| "lit (JDec n) = dump_dec n"
| "lit (JStr s) = quoted s"
| "lit j = quoted (dumps_sp j) @ ''::jsonb''"

definition base_type :: "string option \<Rightarrow> string" where
  "base_type coltype = (case coltype of
     None \<Rightarrow> []
   | Some t \<Rightarrow> rev (takeWhile (\<lambda>c. c \<noteq> CHR ''.'') (rev (takeWhile (\<lambda>c. c \<noteq> CHR ''('') t))))"

fun json_items :: "json \<Rightarrow> json list" where
  "json_items (JList xs) = xs"
| "json_items j = [j]"

fun is_list :: "json \<Rightarrow> bool" where
  "is_list (JList xs) = True"
| "is_list j = False"

fun is_composite :: "json \<Rightarrow> bool" where
  "is_composite (JList xs) = True"
| "is_composite (JObj kvs) = True"
| "is_composite j = False"

definition lit_for :: "(json \<Rightarrow> string result) \<Rightarrow> json \<Rightarrow> string option \<Rightarrow> string result" where
  "lit_for float_repr v coltype =
     (if v = JNull then Inr ''NULL''
      else if (case coltype of Some t \<Rightarrow> endswith t ''[]'' | None \<Rightarrow> False)
      then Inr (''ARRAY['' @ join_str '', '' (map lit (json_items v)) @ '']::'' @ the coltype)
      else if base_type coltype = ''vector'' \<and> is_list v
      then bind_res (map_res float_repr (json_items v)) (\<lambda>fs. Inr (quote # ''['' @ join_str '','' fs @ '']'' @ [quote] @ ''::'' @ the coltype))
      else if (coltype = Some ''jsonb'' \<or> coltype = Some ''json'') \<and> is_composite v
      then Inr (quoted (dumps_sp v) @ ''::'' @ the coltype)
      else Inr (lit v))"

text \<open>\<^verbatim>\<open>str.isalnum\<close> on code points below 256.\<close>

definition alnum_char :: "char \<Rightarrow> bool" where
  "alnum_char c \<longleftrightarrow> (let n = (of_char c :: nat) in
     (48 \<le> n \<and> n \<le> 57) \<or> (65 \<le> n \<and> n \<le> 90) \<or> (97 \<le> n \<and> n \<le> 122)
     \<or> n \<in> {170, 178, 179, 181, 185, 186, 188, 189, 190} \<or> (192 \<le> n \<and> n \<noteq> 215 \<and> n \<noteq> 247))"

definition plain_name :: "string \<Rightarrow> bool" where
  "plain_name name \<longleftrightarrow> (let s = filter (\<lambda>c. c \<noteq> CHR ''_'') name in s \<noteq> [] \<and> list_all alnum_char s)"

definition ident :: "string \<Rightarrow> string result" where
  "ident name = (if plain_name name then Inr (dquote # name @ [dquote]) else Inl (ValueError (''unsafe SQL identifier: '' @ py_repr name)))"

subsection \<open>The filter dialect\<close>

definition OPS :: "(string \<times> string) list" where
  "OPS = [(''eq'', ''=''), (''neq'', ''<>''), (''gt'', ''>''), (''gte'', ''>=''), (''lt'', ''<''), (''lte'', ''<='')]"

definition strip_parens :: "string \<Rightarrow> string" where
  "strip_parens s = (if startswith s ''('' \<and> endswith s '')'' then drop 1 (take (length s - 1) s) else s)"

lemma after_dot_shorter: "raw \<noteq> [] \<Longrightarrow> partition_on c raw = (op, found, val) \<Longrightarrow> length val < length raw"
proof -
  assume "raw \<noteq> []" "partition_on c raw = (op, found, val)"
  moreover have "length (drop 1 (dropWhile (\<lambda>x. x \<noteq> c) raw)) < length raw"
    using length_dropWhile_le [of "\<lambda>x. x \<noteq> c" raw] \<open>raw \<noteq> []\<close> by (cases raw) auto
  ultimately show ?thesis by (auto simp: partition_on_def)
qed

function sql_filter :: "string \<Rightarrow> string \<Rightarrow> string result" where
  "sql_filter col raw =
     bind_res (ident col) (\<lambda>c.
       let (op, found, val) = partition_on (CHR ''.'') raw in
       if op = ''not'' then bind_res (sql_filter col val) (\<lambda>p. Inr (''NOT ('' @ p @ '')''))
       else if op = ''is'' then
         (if lower val = ''null'' then Inr (c @ '' IS NULL'')
          else if lower val = ''true'' then Inr (c @ '' IS TRUE'')
          else if lower val = ''false'' then Inr (c @ '' IS FALSE'')
          else Inr (c @ '' IS '' @ lit (JStr val)))
       else if op = ''in'' then
         (let items = filter (\<lambda>s. s \<noteq> []) (split_on (CHR '','') (strip_parens val));
              rendered = join_str '', '' (map (\<lambda>s. lit (JStr s)) items)
          in Inr (c @ '' IN ('' @ (if rendered = [] then ''NULL'' else rendered) @ '')''))
       else case map_of OPS op of
         Some osym \<Rightarrow> Inr (c @ '' '' @ osym @ '' '' @ lit (JStr val))
       | None \<Rightarrow> Inl (ValueError (''unsupported PostgREST operator '' @ py_repr op @ '' in '' @ py_repr raw)))"
  by pat_completeness auto
termination
proof (relation "measure (\<lambda>(col, raw). length raw)")
  fix col raw :: string and c x op y found val
  assume h: "x = partition_on (CHR ''.'') raw" "(op, y) = x" "(found, val) = y" "op = ''not''"
  then have "raw \<noteq> []" by (auto simp: partition_on_def)
  with after_dot_shorter [of raw "CHR ''.''" op found val] h
  show "((col, val), (col, raw)) \<in> measure (\<lambda>(col, raw). length raw)" by auto
qed simp

declare sql_filter.simps [simp del]

fun top_commas :: "int \<Rightarrow> string \<Rightarrow> string \<Rightarrow> string list" where
  "top_commas depth acc [] = [rev acc]"
| "top_commas depth acc (ch # s) =
     (if ch = CHR ''('' then top_commas (depth + 1) (ch # acc) s
      else if ch = CHR '')'' then top_commas (depth - 1) (ch # acc) s
      else if ch = CHR '','' \<and> depth = 0 then rev acc # top_commas depth [] s
      else top_commas depth (ch # acc) s)"

definition split_top_commas :: "string \<Rightarrow> string list" where
  "split_top_commas s = filter (\<lambda>p. p \<noteq> []) (top_commas 0 [] s)"

definition compound :: "string \<Rightarrow> string \<Rightarrow> string result" where
  "compound kind raw =
     bind_res (map_res (\<lambda>part. let (col, found, rest) = partition_on (CHR ''.'') part in sql_filter col rest)
                 (split_top_commas (strip_parens raw)))
       (\<lambda>preds. Inr (''('' @ join_str (if kind = ''or'' then '' OR '' else '' AND '') preds @ '')''))"

definition RESERVED :: "string list" where
  "RESERVED = [''select'', ''order'', ''limit'', ''offset'']"

definition COMPOUND :: "string list" where
  "COMPOUND = [''and'', ''or'']"

type_synonym params = "(string \<times> string) list"

definition where_preds :: "params \<Rightarrow> string list result" where
  "where_preds ps = map_res (\<lambda>(k, v). if k \<in> set COMPOUND then compound k v else sql_filter k v) (filter (\<lambda>(k, v). k \<notin> set RESERVED) ps)"

definition sql_where :: "params \<Rightarrow> string result" where
  "sql_where ps = bind_res (where_preds ps) (\<lambda>preds. Inr (if preds = [] then [] else '' WHERE '' @ join_str '' AND '' preds))"

definition sql_order :: "params \<Rightarrow> string result" where
  "sql_order ps =
     (case map_of ps ''order'' of
        None \<Rightarrow> Inr []
      | Some spec \<Rightarrow>
          if spec = [] then Inr []
          else bind_res (map_res (\<lambda>part. let (name, found, direction) = partition_on (CHR ''.'') part in
                    bind_res (ident name) (\<lambda>c. Inr (c @ '' '' @ (if startswith (lower direction) ''desc'' then ''DESC'' else ''ASC''))))
                  (split_on (CHR '','') spec))
                 (\<lambda>cols. Inr ('' ORDER BY '' @ join_str '', '' cols)))"

definition sql_limit :: "params \<Rightarrow> string result" where
  "sql_limit ps =
     (case map_of ps ''limit'' of
        None \<Rightarrow> Inr []
      | Some lim \<Rightarrow> (case parse_int lim of None \<Rightarrow> Inl (ValueError ''invalid literal for int'') | Some i \<Rightarrow> Inr ('' LIMIT '' @ str_int i)))"

definition select_cols :: "params \<Rightarrow> string result" where
  "select_cols ps =
     (case map_of ps ''select'' of
        None \<Rightarrow> Inr ''*''
      | Some sel \<Rightarrow>
          if sel = [] \<or> sel = ''*'' then Inr ''*''
          else bind_res (map_res ident (filter (\<lambda>c. c \<noteq> []) (map strip (split_on (CHR '','') sel)))) (\<lambda>cols. Inr (join_str '', '' cols)))"

subsection \<open>Statements\<close>

definition build_rpc :: "string \<Rightarrow> (string \<times> json) list \<Rightarrow> string result" where
  "build_rpc fn args =
     bind_res (map_res (\<lambda>(k, v). if plain_name k then Inr () else Inl (ValueError (''unsafe SQL argument name: '' @ py_repr k))) args) (\<lambda>oks. bind_res (ident fn) (\<lambda>f.
        Inr (''SELECT * FROM '' @ f @ ''('' @ join_str '', '' (map (\<lambda>(k, v). k @ '' => '' @ lit v) args) @ '')'')))"

definition build_select :: "string \<Rightarrow> params \<Rightarrow> string result" where
  "build_select table ps =
     bind_res (select_cols ps) (\<lambda>cols. bind_res (ident table) (\<lambda>t. bind_res (sql_where ps) (\<lambda>w. bind_res (sql_order ps) (\<lambda>ord.
     bind_res (sql_limit ps) (\<lambda>lim. Inr (''SELECT '' @ cols @ '' FROM '' @ t @ w @ ord @ lim))))))"

definition upsert_set :: "string \<Rightarrow> string list \<Rightarrow> string \<Rightarrow> string result" where
  "upsert_set table merge c =
     bind_res (ident c) (\<lambda>q.
       if c \<in> set merge then bind_res (ident table) (\<lambda>t. Inr (q @ '' = '' @ t @ ''.'' @ q @ '' || EXCLUDED.'' @ q))
       else Inr (q @ '' = EXCLUDED.'' @ q))"

definition build_upsert :: "(json \<Rightarrow> string result) \<Rightarrow> string \<Rightarrow> (string \<times> json) list \<Rightarrow> string list \<Rightarrow> (string \<times> string) list \<Rightarrow> string list
    \<Rightarrow> string result" where
  "build_upsert float_repr table row pk_cols col_types merge_jsonb =
     bind_res (map_res ident (map fst row)) (\<lambda>cols.
     bind_res (map_res (\<lambda>(c, v). lit_for float_repr v (map_of col_types c)) row) (\<lambda>vals.
     bind_res (ident table) (\<lambda>t.
       let stmt = ''INSERT INTO '' @ t @ '' ('' @ join_str '', '' cols @ '') VALUES ('' @ join_str '', '' vals @ '')''
       in if pk_cols = [] then Inr (stmt @ '' RETURNING *'')
          else bind_res (map_res ident pk_cols) (\<lambda>pks.
            let conflict = join_str '', '' pks; updatable = filter (\<lambda>c. c \<notin> set pk_cols) (map fst row)
            in if updatable = [] then Inr (stmt @ '' ON CONFLICT ('' @ conflict @ '') DO NOTHING'' @ '' RETURNING *'')
               else bind_res (map_res (upsert_set table merge_jsonb) updatable) (\<lambda>sets.
                 Inr (stmt @ '' ON CONFLICT ('' @ conflict @ '') DO UPDATE SET '' @ join_str '', '' sets @ '' RETURNING *''))))))"

definition build_update :: "(json \<Rightarrow> string result) \<Rightarrow> string \<Rightarrow> params \<Rightarrow> (string \<times> json) list \<Rightarrow> (string \<times> string) list \<Rightarrow> string result" where
  "build_update float_repr table ps body col_types =
     bind_res (map_res (\<lambda>(c, v). bind_res (ident c) (\<lambda>q. bind_res (lit_for float_repr v (map_of col_types c)) (\<lambda>l. Inr (q @ '' = '' @ l)))) body) (\<lambda>sets.
     bind_res (ident table) (\<lambda>t. bind_res (sql_where ps) (\<lambda>w.
       Inr (''UPDATE '' @ t @ '' SET '' @ join_str '', '' sets @ w @ '' RETURNING *''))))"

definition build_delete :: "string \<Rightarrow> params \<Rightarrow> string result" where
  "build_delete table ps =
     bind_res (ident table) (\<lambda>t. bind_res (sql_where ps) (\<lambda>w. Inr (''DELETE FROM '' @ t @ w @ '' RETURNING *'')))"

subsection \<open>Reading a statement: an SQL lexer\<close>

text \<open>
  String constants with standard conforming strings, quoted identifiers, runs of word characters, and the symbols the builders
  write. Comment openers, other blanks, escape and dollar strings are refused.
\<close>

datatype token = TStr string | TIdent string | TWord string | TSym char

definition word_char :: "char \<Rightarrow> bool" where
  "word_char c \<longleftrightarrow> (let n = (of_char c :: nat) in
     (48 \<le> n \<and> n \<le> 57) \<or> (65 \<le> n \<and> n \<le> 90) \<or> (97 \<le> n \<and> n \<le> 122) \<or> n = 95 \<or> 128 \<le> n)"

definition sym_char :: "char \<Rightarrow> bool" where
  "sym_char c \<longleftrightarrow> c \<in> set ''(),.=<>:*|[]-''"

definition boundary :: "string \<Rightarrow> bool" where
  "boundary r = (case r of [] \<Rightarrow> True | c # s \<Rightarrow> \<not> word_char c \<and> c \<noteq> quote \<and> c \<noteq> dquote)"

fun scan_quoted :: "char \<Rightarrow> string \<Rightarrow> (string \<times> string) option" where
  "scan_quoted q [] = None"
| "scan_quoted q [c] = (if c = q then Some ([], []) else None)"
| "scan_quoted q (c # d # s) =
     (if c \<noteq> q then map_option (apfst (Cons c)) (scan_quoted q (d # s))
      else if d = q then map_option (apfst (Cons q)) (scan_quoted q s)
      else Some ([], d # s))"

lemma scan_quoted_shorter: "scan_quoted q s = Some (v, r) \<Longrightarrow> length r < length s"
  by (induction q s arbitrary: v r rule: scan_quoted.induct) (fastforce split: if_splits)+

function sql_lex :: "string \<Rightarrow> token list option" where
  "sql_lex [] = Some []"
| "sql_lex (c # s) =
     (if c = CHR '' '' then sql_lex s
      else if c = quote \<or> c = dquote
      then (case scan_quoted c s of
              None \<Rightarrow> None
            | Some (v, r) \<Rightarrow> map_option (Cons (if c = quote then TStr v else TIdent v)) (sql_lex r))
      else if word_char c
      then (if boundary (dropWhile word_char s) then map_option (Cons (TWord (c # takeWhile word_char s))) (sql_lex (dropWhile word_char s)) else None)
      else if sym_char c \<and> \<not> (c = CHR ''-'' \<and> startswith s ''-'') then map_option (Cons (TSym c)) (sql_lex s)
      else None)"
  by pat_completeness auto
termination
  by (relation "measure length") (auto simp: le_imp_less_Suc length_dropWhile_le dest: scan_quoted_shorter)

declare sql_lex.simps(2) [simp del]

text \<open>
  \<open>lx b t ts\<close>: wherever \<open>t\<close> is followed by a boundary (or by anything, when \<open>b\<close>), its characters give exactly the tokens \<open>ts\<close>.
\<close>

definition lx :: "bool \<Rightarrow> string \<Rightarrow> token list \<Rightarrow> bool" where
  "lx b t ts \<longleftrightarrow> (\<forall>r. b \<or> boundary r \<longrightarrow> sql_lex (t @ r) = map_option ((@) ts) (sql_lex r))"

lemma prepend_tokens:
  "map_option ((@) []) m = m"
  "map_option ((@) (x # ts)) m = map_option (Cons x) (map_option ((@) ts) m)"
  "map_option ((@) (ts @ us)) m = map_option ((@) ts) (map_option ((@) us) m)"
  by (cases m; simp)+

lemma lx_weaken: "lx True t ts \<Longrightarrow> lx b t ts"
  by (simp add: lx_def)

lemma lx_append:
  assumes "lx b t ts" "lx c u us" "b \<or> (u \<noteq> [] \<and> boundary u)"
  shows "lx c (t @ u) (ts @ us)"
proof -
  have "boundary (u @ r)" if "u \<noteq> []" "boundary u" for r
    using that by (cases u) (auto simp: boundary_def)
  with assms show ?thesis by (auto simp: lx_def prepend_tokens)
qed

lemma lx_done: "lx b t ts \<Longrightarrow> sql_lex t = Some ts"
  unfolding lx_def boundary_def by (drule spec [of _ "[]"]) simp

lemma lx_nil: "lx True [] []"
  by (simp add: lx_def prepend_tokens)

lemma lx_space: "lx b t ts \<Longrightarrow> lx b (CHR '' '' # t) ts"
  by (simp add: lx_def sql_lex.simps(2))

lemma lx_sym:
  assumes "sym_char c" "c \<noteq> CHR ''-''" "lx b t ts"
  shows "lx b (c # t) (TSym c # ts)"
proof -
  have "\<not> word_char c" "c \<noteq> quote" "c \<noteq> dquote" "c \<noteq> CHR '' ''"
    using assms(1) by (auto simp: sym_char_def word_char_def)
  with assms show ?thesis by (auto simp: lx_def sql_lex.simps(2) prepend_tokens)
qed

lemma takeWhile_run: "list_all P w \<Longrightarrow> (case r of [] \<Rightarrow> True | c # s \<Rightarrow> \<not> P c) \<Longrightarrow> takeWhile P (w @ r) = w \<and> dropWhile P (w @ r) = r"
  by (induction w) (auto split: list.splits)

lemma boundary_not_word: "boundary r \<Longrightarrow> (case r of [] \<Rightarrow> True | c # s \<Rightarrow> \<not> word_char c)"
  by (cases r) (auto simp: boundary_def)

lemma not_word_char [simp]: "\<not> word_char (CHR '' '')" "\<not> word_char quote" "\<not> word_char dquote" "\<not> word_char (CHR ''-'')"
  by (auto simp: word_char_def)

lemma lx_word:
  assumes "w \<noteq> []" "list_all word_char w"
  shows "lx False w [TWord w]"
proof -
  obtain c s where w: "w = c # s" using assms by (cases w) auto
  then have "c \<noteq> CHR '' ''" "c \<noteq> quote" "c \<noteq> dquote" "word_char c" "list_all word_char s" using assms by auto
  with w show ?thesis
    using takeWhile_run [of word_char s, OF _ boundary_not_word]
    by (auto simp: lx_def sql_lex.simps(2) prepend_tokens simp del: takeWhile_append dropWhile_append)
qed

lemma lx_minus_word:
  assumes "w \<noteq> []" "list_all word_char w"
  shows "lx False (CHR ''-'' # w) [TSym (CHR ''-''), TWord w]"
proof -
  have "\<not> startswith (w @ r) ''-''" for r using assms by (cases w) (auto simp: startswith_def)
  with lx_word [OF assms] show ?thesis by (auto simp: lx_def sql_lex.simps(2) sym_char_def prepend_tokens)
qed

lemma scan_quoted_other [simp]: "c \<noteq> q \<Longrightarrow> scan_quoted q (c # s) = map_option (apfst (Cons c)) (scan_quoted q s)"
  by (cases s) auto

lemma scan_quoted_end: "boundary r \<Longrightarrow> q = quote \<or> q = dquote \<Longrightarrow> scan_quoted q (q # r) = Some ([], r)"
  by (cases r) (auto simp: boundary_def)

lemma scan_doubled: "boundary r \<Longrightarrow> scan_quoted quote (double_quotes s @ quote # r) = Some (s, r)"
  by (induction s) (auto simp: double_quotes_def scan_quoted_end)

lemma scan_plain: "q \<notin> set s \<Longrightarrow> boundary r \<Longrightarrow> q = quote \<or> q = dquote \<Longrightarrow> scan_quoted q (s @ q # r) = Some (s, r)"
  by (induction s) (auto simp: scan_quoted_end)

lemma lx_quoted: "lx False (quoted s) [TStr s]"
  by (auto simp: lx_def quoted_def sql_lex.simps(2) scan_doubled prepend_tokens)

lemma alnum_char_word: "alnum_char c \<Longrightarrow> word_char c"
  by (auto simp: alnum_char_def word_char_def Let_def)

lemma plain_name_word:
  assumes "plain_name name"
  shows "name \<noteq> []" "list_all word_char name"
proof -
  have "word_char (CHR ''_'')" by (simp add: word_char_def)
  then show "list_all word_char name"
    using assms alnum_char_word by (auto simp: plain_name_def Let_def list_all_iff)
  show "name \<noteq> []" using assms by (auto simp: plain_name_def)
qed

lemma ident_Inr: "ident name = Inr t \<longleftrightarrow> plain_name name \<and> t = dquote # name @ [dquote]"
  by (auto simp: ident_def)

lemma lx_ident: "ident name = Inr t \<Longrightarrow> lx False t [TIdent name]"
proof -
  assume t: "ident name = Inr t"
  then have "dquote \<notin> set name" using plain_name_word(2) [of name] not_word_char(3) by (auto simp: ident_Inr list_all_iff simp del: not_word_char)
  with t show ?thesis by (auto simp: lx_def ident_Inr sql_lex.simps(2) scan_plain prepend_tokens)
qed

text \<open>Values joined by a separator that starts at a boundary and may be followed by anything.\<close>

fun sep_tokens :: "token list \<Rightarrow> token list list \<Rightarrow> token list" where
  "sep_tokens sep [] = []"
| "sep_tokens sep [x] = x"
| "sep_tokens sep (x # y # ys) = x @ sep @ sep_tokens sep (y # ys)"

lemma lx_join:
  assumes "list_all2 (lx False) ts tss" "lx True sep stoks" "sep \<noteq> []" "boundary sep"
  shows "lx False (join_str sep ts) (sep_tokens stoks tss)"
  using assms(1)
proof (induction tss arbitrary: ts rule: induct_list012)
  case (3 x y ys)
  then obtain u v ws where ts: "ts = u # v # ws" "lx False u x" "list_all2 (lx False) (v # ws) (y # ys)"
    by (auto simp: list_all2_Cons2)
  then have "lx False (sep @ join_str sep (v # ws)) (stoks @ sep_tokens stoks (y # ys))"
    using 3 assms(2) by (blast intro: lx_append)
  with ts assms(3,4) show ?case by (auto intro!: lx_append [of False] simp: boundary_def split: list.splits)
qed (auto simp: list_all2_Cons2 lx_nil lx_weaken)

text \<open>Text without quotes, as the keywords and the column types are.\<close>

definition plain_char :: "char \<Rightarrow> bool" where
  "plain_char c \<longleftrightarrow> word_char c \<or> c = CHR '' '' \<or> (sym_char c \<and> c \<noteq> CHR ''-'')"

lemma plain_boundary: "list_all plain_char u \<Longrightarrow> (case u of [] \<Rightarrow> True | c # s \<Rightarrow> \<not> word_char c) \<Longrightarrow> boundary u"
  by (auto simp: boundary_def plain_char_def sym_char_def split: list.splits)

lemma plain_lexes:
  assumes "list_all plain_char t" "b \<longrightarrow> t = [] \<or> \<not> word_char (last t)"
  shows "\<exists>ts. lx b t ts"
  using assms
proof (induction t rule: length_induct)
  case (1 t)
  show ?case
  proof (cases t)
    case Nil
    then show ?thesis using lx_nil lx_weaken by blast
  next
    case (Cons c s)
    show ?thesis
    proof (cases "word_char c")
      case False
      obtain ts where "lx b s ts" using 1 Cons by (auto split: if_splits)
      then show ?thesis using False 1(2) Cons lx_space [of b s ts] lx_sym [of c b s ts] by (auto simp: plain_char_def)
    next
      case True
      define w u where "w = c # takeWhile word_char s" and "u = dropWhile word_char s"
      have t: "t = w @ u" by (simp add: Cons w_def u_def)
      have w: "w \<noteq> []" "list_all word_char w" using True by (auto simp: w_def list_all_iff dest: set_takeWhileD)
      have u: "list_all plain_char u" "length u < length t" using 1(2) t w(1) by auto
      have bnd: "boundary u" using u(1)
        by (intro plain_boundary) (auto simp: u_def dropWhile_eq_Cons_conv split: list.splits)
      show ?thesis
      proof (cases "u = []")
        case True
        have "\<not> b" using 1(3) t w True by (auto simp: list_all_iff)
        then show ?thesis using lx_word [OF w] t True by auto
      next
        case False
        have "\<exists>us. lx b u us" using 1(1,3) u t False by auto
        then show ?thesis using lx_append [OF lx_word [OF w]] bnd False t by blast
      qed
    qed
  qed
qed

lemma lx_plain: "list_all plain_char t \<Longrightarrow> b \<longrightarrow> t = [] \<or> \<not> word_char (last t) \<Longrightarrow> sql_lex t = Some ts \<Longrightarrow> lx b t ts"
  using plain_lexes [of t b] lx_done by (metis option.inject)

lemmas lex_eval = sql_lex.simps(2) boundary_def word_char_def plain_char_def sym_char_def Let_def startswith_def

lemma lx_chunks:
  "lx True '', '' [TSym (CHR '','')]"
  "lx True '' OR '' [TWord ''OR'']"
  "lx True '' AND '' [TWord ''AND'']"
  "lx False ''NULL'' [TWord ''NULL'']"
  "lx True ''('' [TSym (CHR ''('')]"
  "lx True '')'' [TSym (CHR '')'')]"
  "lx True ''NOT ('' [TWord ''NOT'', TSym (CHR ''('')]"
  "lx True '' IN ('' [TWord ''IN'', TSym (CHR ''('')]"
  "lx False '' IS NULL'' [TWord ''IS'', TWord ''NULL'']"
  "lx False '' IS TRUE'' [TWord ''IS'', TWord ''TRUE'']"
  "lx False '' IS FALSE'' [TWord ''IS'', TWord ''FALSE'']"
  "lx True '' IS '' [TWord ''IS'']"
  "lx True '' WHERE '' [TWord ''WHERE'']"
  "lx True '' ORDER BY '' [TWord ''ORDER'', TWord ''BY'']"
  "lx False '' DESC'' [TWord ''DESC'']"
  "lx False '' ASC'' [TWord ''ASC'']"
  "lx True '' LIMIT '' [TWord ''LIMIT'']"
  "lx True ''SELECT '' [TWord ''SELECT'']"
  "lx True '' FROM '' [TWord ''FROM'']"
  "lx True ''DELETE FROM '' [TWord ''DELETE'', TWord ''FROM'']"
  "lx True '' RETURNING *'' [TWord ''RETURNING'', TSym (CHR ''*'')]"
  "lx True ''*'' [TSym (CHR ''*'')]"
  "lx True '' => '' [TSym (CHR ''=''), TSym (CHR ''>'')]"
  "lx False ''TRUE'' [TWord ''TRUE'']"
  "lx False ''FALSE'' [TWord ''FALSE'']"
  "lx False ''::jsonb'' [TSym (CHR '':''), TSym (CHR '':''), TWord ''jsonb'']"
  "lx True ''UPDATE '' [TWord ''UPDATE'']"
  "lx True '' SET '' [TWord ''SET'']"
  "lx True '' = '' [TSym (CHR ''='')]"
  "lx True ''ARRAY['' [TWord ''ARRAY'', TSym (CHR ''['')]"
  "lx True '']'' [TSym (CHR '']'')]"
  "lx True ''::'' [TSym (CHR '':''), TSym (CHR '':'')]"
  "lx True ''.'' [TSym (CHR ''.'')]"
  "lx True '' || EXCLUDED.'' [TSym (CHR ''|''), TSym (CHR ''|''), TWord ''EXCLUDED'', TSym (CHR ''.'')]"
  "lx True '' = EXCLUDED.'' [TSym (CHR ''=''), TWord ''EXCLUDED'', TSym (CHR ''.'')]"
  "lx True ''INSERT INTO '' [TWord ''INSERT'', TWord ''INTO'']"
  "lx True '' ('' [TSym (CHR ''('')]"
  "lx True '') VALUES ('' [TSym (CHR '')''), TWord ''VALUES'', TSym (CHR ''('')]"
  "lx True '' ON CONFLICT ('' [TWord ''ON'', TWord ''CONFLICT'', TSym (CHR ''('')]"
  "lx False '') DO NOTHING'' [TSym (CHR '')''), TWord ''DO'', TWord ''NOTHING'']"
  "lx True '') DO UPDATE SET '' [TSym (CHR '')''), TWord ''DO'', TWord ''UPDATE'', TWord ''SET'']"
  "lx True ''SELECT * FROM '' [TWord ''SELECT'', TSym (CHR ''*''), TWord ''FROM'']"
  by (auto intro!: lx_plain simp: lex_eval)

lemma lx_operator: "map_of OPS op = Some osym \<Longrightarrow> lx True ('' '' @ osym @ '' '') (map TSym osym)"
  by (rule lx_plain) (auto simp: OPS_def lex_eval split: if_splits)

subsection \<open>What a statement says\<close>

datatype predicate =
    Is_Kw string string
  | Is_Val string string
  | In_Vals string "string list"
  | Cmp string string string
  | Not predicate
  | Group string "predicate list"

fun pred_tokens :: "predicate \<Rightarrow> token list" where
  "pred_tokens (Is_Kw c kw) = [TIdent c, TWord ''IS'', TWord kw]"
| "pred_tokens (Is_Val c v) = [TIdent c, TWord ''IS'', TStr v]"
| "pred_tokens (In_Vals c vs) = [TIdent c, TWord ''IN'', TSym (CHR ''('')]
     @ (if vs = [] then [TWord ''NULL''] else sep_tokens [TSym (CHR '','')] (map (\<lambda>v. [TStr v]) vs)) @ [TSym (CHR '')'')]"
| "pred_tokens (Cmp c osym v) = [TIdent c] @ map TSym osym @ [TStr v]"
| "pred_tokens (Not p) = [TWord ''NOT'', TSym (CHR ''('')] @ pred_tokens p @ [TSym (CHR '')'')]"
| "pred_tokens (Group kw ps) = [TSym (CHR ''('')] @ sep_tokens [TWord kw] (map pred_tokens ps) @ [TSym (CHR '')'')]"

definition check_name :: "string \<Rightarrow> string result" where
  "check_name name = (if plain_name name then Inr name else Inl (ValueError (''unsafe SQL identifier: '' @ py_repr name)))"

function read_filter :: "string \<Rightarrow> string \<Rightarrow> predicate result" where
  "read_filter col raw =
     bind_res (check_name col) (\<lambda>c.
       let (op, found, val) = partition_on (CHR ''.'') raw in
       if op = ''not'' then bind_res (read_filter col val) (\<lambda>p. Inr (Not p))
       else if op = ''is'' then
         (if lower val = ''null'' then Inr (Is_Kw c ''NULL'')
          else if lower val = ''true'' then Inr (Is_Kw c ''TRUE'')
          else if lower val = ''false'' then Inr (Is_Kw c ''FALSE'')
          else Inr (Is_Val c val))
       else if op = ''in'' then Inr (In_Vals c (filter (\<lambda>s. s \<noteq> []) (split_on (CHR '','') (strip_parens val))))
       else case map_of OPS op of
         Some osym \<Rightarrow> Inr (Cmp c osym val)
       | None \<Rightarrow> Inl (ValueError (''unsupported PostgREST operator '' @ py_repr op @ '' in '' @ py_repr raw)))"
  by pat_completeness auto
termination
proof (relation "measure (\<lambda>(col, raw). length raw)")
  fix col raw :: string and c x op y found val
  assume h: "x = partition_on (CHR ''.'') raw" "(op, y) = x" "(found, val) = y" "op = ''not''"
  then have "raw \<noteq> []" by (auto simp: partition_on_def)
  with after_dot_shorter [of raw "CHR ''.''" op found val] h
  show "((col, val), (col, raw)) \<in> measure (\<lambda>(col, raw). length raw)" by auto
qed simp

declare read_filter.simps [simp del]

text \<open>A text of the builder against what it should say: both fail with the same error, or the text has the tokens.\<close>

abbreviation says :: "('a \<Rightarrow> token list) \<Rightarrow> string result \<Rightarrow> 'a result \<Rightarrow> bool" where
  "says tokens \<equiv> rel_sum (=) (\<lambda>t p. lx False t (tokens p))"

lemma rel_bind_res:
  assumes "rel_sum (=) R x y" "\<And>a b. R a b \<Longrightarrow> rel_sum (=) S (f a) (g b)"
  shows "rel_sum (=) S (bind_res x f) (bind_res y g)"
  using assms by (cases x; cases y) auto

lemma rel_map_res:
  assumes "\<And>x. x \<in> set xs \<Longrightarrow> rel_sum (=) R (f x) (g x)"
  shows "rel_sum (=) (list_all2 R) (map_res f xs) (map_res g xs)"
  using assms by (induction xs) (auto intro!: rel_bind_res)

lemma says_ident: "rel_sum (=) (\<lambda>t c. lx False t [TIdent c]) (ident name) (check_name name)"
  using lx_ident [of name] by (auto simp: check_name_def ident_def)

lemma lx_in_list:
  "lx False (let rendered = join_str '', '' (map (\<lambda>s. lit (JStr s)) vs) in if rendered = [] then ''NULL'' else rendered)
     (if vs = [] then [TWord ''NULL''] else sep_tokens [TSym (CHR '','')] (map (\<lambda>v. [TStr v]) vs))"
proof -
  have "lx False (join_str '', '' (map quoted vs)) (sep_tokens [TSym (CHR '','')] (map (\<lambda>v. [TStr v]) vs))"
    by (rule lx_join) (auto simp: list_all2_conv_all_nth lx_quoted lx_chunks boundary_def word_char_def)
  moreover have "join_str '', '' (map quoted vs) \<noteq> []" if "vs \<noteq> []"
    using that by (cases vs; cases "tl vs") (auto simp: quoted_def)
  ultimately show ?thesis by (auto simp: lx_chunks)
qed

lemma says_filter: "says pred_tokens (sql_filter col raw) (read_filter col raw)"
proof (induction col raw rule: sql_filter.induct)
  case (1 col raw)
  obtain op found val where p: "partition_on (CHR ''.'') raw = (op, found, val)" by (metis prod_cases3)
  have neg: "lx False (''NOT ('' @ t @ '')'') (pred_tokens (Not q))" if "lx False t (pred_tokens q)" for t q
    using lx_append [OF lx_chunks(7) lx_append [OF that lx_weaken [OF lx_chunks(6)]]]
    by (simp add: boundary_def word_char_def)
  have kw: "lx False (t @ k) (TIdent c # ts)" if "lx False t [TIdent c]" "lx False k ts" "k \<noteq> []" "boundary k" for t c k ts
    using lx_append [OF that(1,2)] that(3,4) by simp
  have is_val: "lx False ('' IS '' @ quoted val) [TWord ''IS'', TStr val]"
    using lx_append [OF lx_chunks(12) lx_quoted] by simp
  have in_vals: "lx False ('' IN ('' @ r @ '')'') (TWord ''IN'' # TSym (CHR ''('') # ts @ [TSym (CHR '')'')])" if "lx False r ts" for r ts
    using lx_append [OF lx_chunks(8) lx_append [OF that lx_weaken [OF lx_chunks(6)]]]
    by (simp add: boundary_def word_char_def)
  have cmp: "lx False ('' '' @ osym @ '' '' @ quoted val) (map TSym osym @ [TStr val])" if "map_of OPS op = Some osym" for osym
    using lx_append [OF lx_operator [OF that] lx_quoted] by simp
  show ?case
    unfolding sql_filter.simps [of col raw] read_filter.simps [of col raw] p Let_def prod.case
  proof (rule rel_bind_res [OF says_ident], goal_cases)
    case (1 t c)
    note k = kw [OF 1]
    have b: "boundary (CHR '' '' # x)" for x by (simp add: boundary_def word_char_def)
    consider "op = ''not''" | "op = ''is''" | "op = ''in''" | "op \<notin> {''not'', ''is'', ''in''}" by auto
    then show ?case
    proof cases
      case 1
      note ih = "1.IH" [OF p [symmetric] refl refl 1]
      have "says pred_tokens (bind_res (sql_filter col val) (\<lambda>p. Inr (''NOT ('' @ p @ '')''))) (bind_res (read_filter col val) (\<lambda>p. Inr (Not p)))"
        by (rule rel_bind_res [OF ih]) (simp only: rel_sum_simps neg)
      then show ?thesis using 1 by simp
    next
      case 2
      then show ?thesis
        using k [OF lx_chunks(9)] k [OF lx_chunks(10)] k [OF lx_chunks(11)] k [OF is_val] by (simp add: b)
    next
      case 3
      then show ?thesis using k [OF in_vals [OF lx_in_list, unfolded Let_def]] by (simp add: b)
    next
      case 4
      then show ?thesis using k [OF cmp] by (simp add: b split: option.split)
    qed
  qed
qed

definition read_compound :: "string \<Rightarrow> string \<Rightarrow> predicate result" where
  "read_compound kind raw =
     bind_res (map_res (\<lambda>part. let (col, found, rest) = partition_on (CHR ''.'') part in read_filter col rest)
                 (split_top_commas (strip_parens raw)))
       (\<lambda>ps. Inr (Group (if kind = ''or'' then ''OR'' else ''AND'') ps))"

definition read_where :: "params \<Rightarrow> predicate list result" where
  "read_where ps = map_res (\<lambda>(k, v). if k \<in> set COMPOUND then read_compound k v else read_filter k v) (filter (\<lambda>(k, v). k \<notin> set RESERVED) ps)"

lemma lx_joined:
  assumes "list_all2 (\<lambda>t p. lx False t (tok p)) ts ps" "lx True sep stoks" "sep \<noteq> []" "boundary sep"
  shows "lx False (join_str sep ts) (sep_tokens stoks (map tok ps))"
  using assms by (intro lx_join) (auto simp: list_all2_conv_all_nth)

lemma space_boundary [simp]: "boundary (CHR '' '' # s)" "boundary (CHR '','' # s)" "boundary (CHR '')'' # s)" "boundary (CHR ''('' # s)" "boundary (CHR '':'' # s)"
  by (simp_all add: boundary_def word_char_def)

lemma says_compound: "says pred_tokens (compound kind raw) (read_compound kind raw)"
proof -
  have grp: "lx False (''('' @ u @ '')'') (TSym (CHR ''('') # us @ [TSym (CHR '')'')])" if "lx False u us" for u us
    using lx_append [OF lx_chunks(5) lx_append [OF that lx_weaken [OF lx_chunks(6)]]] by simp
  have "lx False (''('' @ join_str '' OR '' ts @ '')'') (pred_tokens (Group ''OR'' ps))"
    "lx False (''('' @ join_str '' AND '' ts @ '')'') (pred_tokens (Group ''AND'' ps))"
    if "list_all2 (\<lambda>t p. lx False t (pred_tokens p)) ts ps" for ts ps
    using grp [OF lx_joined [OF that lx_chunks(2)]] grp [OF lx_joined [OF that lx_chunks(3)]] by simp_all
  then show ?thesis
    unfolding compound_def read_compound_def
    by (intro rel_bind_res [OF rel_map_res])
      (simp_all only: rel_sum_simps says_filter Let_def case_prod_beta split: if_split, auto simp: says_filter)
qed

fun where_tokens :: "predicate list \<Rightarrow> token list" where
  "where_tokens [] = []"
| "where_tokens ps = TWord ''WHERE'' # sep_tokens [TWord ''AND''] (map pred_tokens ps)"

lemma says_where:
  "rel_sum (=) (\<lambda>t ps. lx False t (where_tokens ps) \<and> boundary t) (sql_where ps) (read_where ps)"
proof -
  have "rel_sum (=) (list_all2 (\<lambda>t p. lx False t (pred_tokens p))) (where_preds ps) (read_where ps)"
    unfolding where_preds_def read_where_def
    by (rule rel_map_res) (simp add: says_filter says_compound split: prod.split)
  then have "rel_sum (=) (\<lambda>t ps. lx False t (where_tokens ps) \<and> boundary t) (sql_where ps) (bind_res (read_where ps) Inr)"
    unfolding sql_where_def
  proof (rule rel_bind_res, goal_cases)
    case (1 ts qs)
    have "lx False ('' WHERE '' @ join_str '' AND '' ts) (TWord ''WHERE'' # sep_tokens [TWord ''AND''] (map pred_tokens qs))"
      using lx_append [OF lx_chunks(13) lx_joined [OF 1 lx_chunks(3)]] by simp
    then show ?case using 1 by (cases qs) (auto simp: lx_weaken lx_nil boundary_def [of "[]"])
  qed
  then show ?thesis by (cases "read_where ps") auto
qed

definition commas :: "token list list \<Rightarrow> token list" where
  "commas tss = sep_tokens [TSym (CHR '','')] tss"

lemma lx_commas:
  assumes "list_all2 (\<lambda>t p. lx False t (tok p)) ts ps"
  shows "lx False (join_str '', '' ts) (commas (map tok ps))"
  using lx_joined [OF assms lx_chunks(1)] by (simp add: commas_def)

definition num_tokens :: "int \<Rightarrow> token list" where
  "num_tokens i = (if i < 0 then [TSym (CHR ''-'')] else []) @ [TWord (str_nat (nat \<bar>i\<bar>))]"

lemma digit_word: "is_digit c \<Longrightarrow> word_char c"
  by (auto simp: is_digit_def word_char_def Let_def)

lemma str_nat_word: "str_nat n \<noteq> []" "list_all word_char (str_nat n)"
  using str_nat_hd [of n] str_nat_digits [of n] by (auto simp: list_all_iff digit_word)

lemma lx_int: "lx False (str_int i) (num_tokens i)"
  using lx_word [OF str_nat_word] lx_minus_word [OF str_nat_word] by (auto simp: str_int_def num_tokens_def)

definition read_order :: "params \<Rightarrow> (string \<times> bool) list option result" where
  "read_order ps =
     (case map_of ps ''order'' of
        None \<Rightarrow> Inr None
      | Some spec \<Rightarrow>
          if spec = [] then Inr None
          else bind_res (map_res (\<lambda>part. let (name, found, direction) = partition_on (CHR ''.'') part in
                 bind_res (check_name name) (\<lambda>c. Inr (c, startswith (lower direction) ''desc''))) (split_on (CHR '','') spec)) (\<lambda>cols. Inr (Some cols)))"

definition order_item :: "string \<times> bool \<Rightarrow> token list" where
  "order_item x = [TIdent (fst x), TWord (if snd x then ''DESC'' else ''ASC'')]"

fun order_tokens :: "(string \<times> bool) list option \<Rightarrow> token list" where
  "order_tokens None = []"
| "order_tokens (Some xs) = [TWord ''ORDER'', TWord ''BY''] @ commas (map order_item xs)"

definition read_limit :: "params \<Rightarrow> int option result" where
  "read_limit ps =
     (case map_of ps ''limit'' of
        None \<Rightarrow> Inr None
      | Some lim \<Rightarrow> (case parse_int lim of None \<Rightarrow> Inl (ValueError ''invalid literal for int'') | Some i \<Rightarrow> Inr (Some i)))"

fun limit_tokens :: "int option \<Rightarrow> token list" where
  "limit_tokens None = []"
| "limit_tokens (Some i) = TWord ''LIMIT'' # num_tokens i"

definition read_cols :: "params \<Rightarrow> string list option result" where
  "read_cols ps =
     (case map_of ps ''select'' of
        None \<Rightarrow> Inr None
      | Some sel \<Rightarrow>
          if sel = [] \<or> sel = ''*'' then Inr None
          else bind_res (map_res check_name (filter (\<lambda>c. c \<noteq> []) (map strip (split_on (CHR '','') sel)))) (\<lambda>cols. Inr (Some cols)))"

fun cols_tokens :: "string list option \<Rightarrow> token list" where
  "cols_tokens None = [TSym (CHR ''*'')]"
| "cols_tokens (Some cs) = commas (map (\<lambda>c. [TIdent c]) cs)"

lemma says_cols: "says cols_tokens (select_cols ps) (read_cols ps)"
proof -
  have "says cols_tokens (bind_res (map_res ident names) (\<lambda>cols. Inr (join_str '', '' cols))) (bind_res (map_res check_name names) (\<lambda>cols. Inr (Some cols)))"
    for names by (rule rel_bind_res [OF rel_map_res [OF says_ident]]) (auto intro: lx_commas)
  then show ?thesis unfolding select_cols_def read_cols_def using lx_chunks(22) by (auto simp: lx_weaken split: option.split)
qed

lemma says_limit: "rel_sum (=) (\<lambda>t l. lx False t (limit_tokens l) \<and> boundary t) (sql_limit ps) (read_limit ps)"
  unfolding sql_limit_def read_limit_def
  using lx_append [OF lx_chunks(17) lx_int] by (auto simp: lx_weaken lx_nil boundary_def [of "[]"] split: option.split)

lemma says_order: "rel_sum (=) (\<lambda>t xs. lx False t (order_tokens xs) \<and> boundary t) (sql_order ps) (read_order ps)"
proof -
  let ?text = "\<lambda>part. let (name, found, direction) = partition_on (CHR ''.'') part in
    bind_res (ident name) (\<lambda>c. Inr (c @ '' '' @ (if startswith (lower direction) ''desc'' then ''DESC'' else ''ASC'')))"
  let ?item = "\<lambda>part. let (name, found, direction) = partition_on (CHR ''.'') part in
    bind_res (check_name name) (\<lambda>c. Inr (c, startswith (lower direction) ''desc''))"
  have item: "says order_item (?text part) (?item part)" for part
  proof -
    have "lx False (t @ '' DESC'') [TIdent c, TWord ''DESC'']" "lx False (t @ '' ASC'') [TIdent c, TWord ''ASC'']"
      if "lx False t [TIdent c]" for t c
      using lx_append [OF that lx_chunks(15)] lx_append [OF that lx_chunks(16)] by simp_all
    then show ?thesis by (auto intro!: rel_bind_res [OF says_ident] simp: order_item_def split: prod.split)
  qed
  have "rel_sum (=) (\<lambda>t xs. lx False t (order_tokens xs) \<and> boundary t)
      (bind_res (map_res ?text parts) (\<lambda>cols. Inr ('' ORDER BY '' @ join_str '', '' cols)))
      (bind_res (map_res ?item parts) (\<lambda>cols. Inr (Some cols)))" for parts
  proof (rule rel_bind_res [OF rel_map_res [OF item]], goal_cases)
    case (1 ts xs)
    then show ?case using lx_append [OF lx_chunks(14) lx_commas [OF 1]] by simp
  qed
  then show ?thesis unfolding sql_order_def read_order_def
    by (auto simp: lx_weaken lx_nil boundary_def [of "[]"] split: option.split)
qed

subsection \<open>Statements and what they say\<close>

fun lit_tokens :: "json \<Rightarrow> token list" where
  "lit_tokens JNull = [TWord ''NULL'']"
| "lit_tokens (JBool b) = [TWord (if b then ''TRUE'' else ''FALSE'')]"
| "lit_tokens (JInt i) = num_tokens i"
| "lit_tokens (JDec n) = (if n < 0 then [TSym (CHR ''-'')] else [])
     @ [TWord (str_nat (nat \<bar>n\<bar> div 10000)), TSym (CHR ''.''), TWord (frac_digits (nat \<bar>n\<bar> mod 10000))]"
| "lit_tokens (JStr s) = [TStr s]"
| "lit_tokens j = [TStr (dumps_sp j), TSym (CHR '':''), TSym (CHR '':''), TWord ''jsonb'']"

lemma lx_dec: "lx False (dump_dec n) (lit_tokens (JDec n))"
proof -
  let ?a = "str_nat (nat \<bar>n\<bar> div 10000)" and ?f = "frac_digits (nat \<bar>n\<bar> mod 10000)"
  have "?f \<noteq> []" "list_all word_char ?f"
    using frac_digits_digits [of "nat \<bar>n\<bar> mod 10000"] by (auto simp: frac_digits_def list_all_iff digit_word split: list.splits)
  then have f: "lx False (CHR ''.'' # ?f) [TSym (CHR ''.''), TWord ?f]" by (intro lx_sym lx_word) (simp_all add: sym_char_def)
  show ?thesis
    using lx_append [OF lx_word [OF str_nat_word, of "nat \<bar>n\<bar> div 10000"] f] lx_append [OF lx_minus_word [OF str_nat_word, of "nat \<bar>n\<bar> div 10000"] f]
    by (auto simp: dump_dec_def boundary_def word_char_def)
qed

lemma lx_lit: "lx False (lit v) (lit_tokens v)"
  using lx_append [OF lx_quoted lx_chunks(26)] lx_int lx_dec lx_quoted by (cases v) (auto simp: lx_chunks)

datatype dbvalue = DLit json | DArray "json list" string | DCast string string

definition cast_tokens :: "string \<Rightarrow> token list" where
  "cast_tokens ty = [TSym (CHR '':''), TSym (CHR '':'')] @ the (sql_lex ty)"

fun value_tokens :: "dbvalue \<Rightarrow> token list" where
  "value_tokens (DLit j) = lit_tokens j"
| "value_tokens (DArray js ty) = [TWord ''ARRAY'', TSym (CHR ''['')] @ commas (map lit_tokens js) @ [TSym (CHR '']'')] @ cast_tokens ty"
| "value_tokens (DCast s ty) = [TStr s] @ cast_tokens ty"

definition set_tokens :: "string \<times> dbvalue \<Rightarrow> token list" where
  "set_tokens cv = [TIdent (fst cv), TSym (CHR ''='')] @ value_tokens (snd cv)"

text \<open>The columns of the conflict clause: replaced, or merged into the stored value.\<close>

definition conflict_tokens :: "string \<Rightarrow> string \<times> bool \<Rightarrow> token list" where
  "conflict_tokens table cm = [TIdent (fst cm), TSym (CHR ''='')]
     @ (if snd cm then [TIdent table, TSym (CHR ''.''), TIdent (fst cm), TSym (CHR ''|''), TSym (CHR ''|'')] else [])
     @ [TWord ''EXCLUDED'', TSym (CHR ''.''), TIdent (fst cm)]"

datatype stmt =
    Select "string list option" string "predicate list" "(string \<times> bool) list option" "int option"
  | Delete string "predicate list"
  | Call string "(string \<times> json) list"
  | Update string "(string \<times> dbvalue) list" "predicate list"
  | Upsert string "(string \<times> dbvalue) list" "string list" "(string \<times> bool) list"

fun stmt_tokens :: "stmt \<Rightarrow> token list" where
  "stmt_tokens (Select cols t ps ord lim) =
     [TWord ''SELECT''] @ cols_tokens cols @ [TWord ''FROM'', TIdent t] @ where_tokens ps @ order_tokens ord @ limit_tokens lim"
| "stmt_tokens (Delete t ps) = [TWord ''DELETE'', TWord ''FROM'', TIdent t] @ where_tokens ps @ [TWord ''RETURNING'', TSym (CHR ''*'')]"
| "stmt_tokens (Call f args) = [TWord ''SELECT'', TSym (CHR ''*''), TWord ''FROM'', TIdent f, TSym (CHR ''('')]
     @ commas (map (\<lambda>a. [TWord (fst a), TSym (CHR ''=''), TSym (CHR ''>'')] @ lit_tokens (snd a)) args) @ [TSym (CHR '')'')]"
| "stmt_tokens (Update t sets ps) =
     [TWord ''UPDATE'', TIdent t, TWord ''SET''] @ commas (map set_tokens sets) @ where_tokens ps @ [TWord ''RETURNING'', TSym (CHR ''*'')]"
| "stmt_tokens (Upsert t row pks upd) =
     [TWord ''INSERT'', TWord ''INTO'', TIdent t, TSym (CHR ''('')] @ commas (map (\<lambda>cv. [TIdent (fst cv)]) row)
     @ [TSym (CHR '')''), TWord ''VALUES'', TSym (CHR ''('')] @ commas (map (\<lambda>cv. value_tokens (snd cv)) row) @ [TSym (CHR '')'')]
     @ (if pks = [] then []
        else [TWord ''ON'', TWord ''CONFLICT'', TSym (CHR ''('')] @ commas (map (\<lambda>c. [TIdent c]) pks) @ [TSym (CHR '')''), TWord ''DO'']
          @ (if upd = [] then [TWord ''NOTHING''] else [TWord ''UPDATE'', TWord ''SET''] @ commas (map (conflict_tokens t) upd)))
     @ [TWord ''RETURNING'', TSym (CHR ''*'')]"

definition read_select :: "string \<Rightarrow> params \<Rightarrow> stmt result" where
  "read_select table ps =
     bind_res (read_cols ps) (\<lambda>cols. bind_res (check_name table) (\<lambda>t. bind_res (read_where ps) (\<lambda>w. bind_res (read_order ps) (\<lambda>ord.
     bind_res (read_limit ps) (\<lambda>lim. Inr (Select cols t w ord lim))))))"

definition read_delete :: "string \<Rightarrow> params \<Rightarrow> stmt result" where
  "read_delete table ps = bind_res (check_name table) (\<lambda>t. bind_res (read_where ps) (\<lambda>w. Inr (Delete t w)))"

lemma boundary_append: "boundary u \<Longrightarrow> boundary v \<Longrightarrow> boundary (u @ v)"
  by (cases u) (auto simp: boundary_def)

lemma lx_cat: "lx False t ts \<Longrightarrow> lx c u us \<Longrightarrow> boundary u \<Longrightarrow> lx False (t @ u) (ts @ us)"
  by (auto simp: lx_def prepend_tokens boundary_append)

lemma says_select: "rel_sum (=) (\<lambda>t p. sql_lex t = Some (stmt_tokens p)) (build_select table ps) (read_select table ps)"
  unfolding build_select_def read_select_def
proof (rule rel_bind_res [OF says_cols], rule rel_bind_res [OF says_ident], rule rel_bind_res [OF says_where],
    rule rel_bind_res [OF says_order], rule rel_bind_res [OF says_limit], goal_cases)
  case (1 cs cols t tab w preds o' ord l lim)
  have tail: "lx False (w @ o' @ l) (where_tokens preds @ order_tokens ord @ limit_tokens lim)" "boundary (w @ o' @ l)"
    using 1(3-5) lx_cat [OF _ lx_cat] boundary_append by auto
  show ?case
    using lx_append [OF lx_chunks(18) lx_cat [OF 1(1) lx_append [OF lx_chunks(19) lx_cat [OF 1(2) tail]]], THEN lx_done] by simp
qed

lemma says_delete: "rel_sum (=) (\<lambda>t p. sql_lex t = Some (stmt_tokens p)) (build_delete table ps) (read_delete table ps)"
  unfolding build_delete_def read_delete_def
proof (rule rel_bind_res [OF says_ident], rule rel_bind_res [OF says_where], goal_cases)
  case (1 t tab w preds)
  have "lx False (w @ '' RETURNING *'') (where_tokens preds @ [TWord ''RETURNING'', TSym (CHR ''*'')])" "boundary (w @ '' RETURNING *'')"
    using 1(2) lx_cat [OF _ lx_chunks(21)] by (auto simp: boundary_def word_char_def split: list.splits)
  from lx_append [OF lx_chunks(20) lx_cat [OF 1(1) this], THEN lx_done] show ?case by simp
qed

definition read_rpc :: "string \<Rightarrow> (string \<times> json) list \<Rightarrow> stmt result" where
  "read_rpc fn args =
     bind_res (map_res (\<lambda>(k, v). if plain_name k then Inr () else Inl (ValueError (''unsafe SQL argument name: '' @ py_repr k))) args) (\<lambda>oks.
     bind_res (check_name fn) (\<lambda>f. Inr (Call f args)))"

lemma says_rpc: "rel_sum (=) (\<lambda>t p. sql_lex t = Some (stmt_tokens p)) (build_rpc fn args) (read_rpc fn args)"
proof -
  let ?chk = "map_res (\<lambda>(k, v). if plain_name k then Inr () else Inl (ValueError (''unsafe SQL argument name: '' @ py_repr k))) args"
  let ?arg = "\<lambda>a :: string \<times> json. [TWord (fst a), TSym (CHR ''=''), TSym (CHR ''>'')] @ lit_tokens (snd a)"
  have "sql_lex (''SELECT * FROM '' @ t @ ''('' @ join_str '', '' (map (\<lambda>(k, v). k @ '' => '' @ lit v) args) @ '')'') = Some (stmt_tokens (Call f args))"
    if chk: "?chk = Inr oks" and t: "lx False t [TIdent f]" for oks t f
  proof -
    have "lx False (fst a @ '' => '' @ lit (snd a)) (?arg a)" if a: "a \<in> set args" for a
    proof -
      obtain i where i: "i < length args" "a = args ! i" using a by (auto simp: in_set_conv_nth)
      have "plain_name (fst a)" using map_res_nth [OF chk i(1)] i(2) by (auto split: if_splits prod.splits)
      then show ?thesis using lx_append [OF lx_word lx_append [OF lx_chunks(23) lx_lit]] by (simp add: plain_name_word)
    qed
    then have "lx False (join_str '', '' (map (\<lambda>(k, v). k @ '' => '' @ lit v) args)) (commas (map ?arg args))"
      by (intro lx_commas) (simp add: list_all2_map1 list_all2_same case_prod_beta)
    from lx_append [OF lx_chunks(42) lx_append [OF t lx_append [OF lx_chunks(5) lx_append [OF this lx_chunks(6)]]]]
    show ?thesis by (simp add: lx_done)
  qed
  then show ?thesis unfolding build_rpc_def read_rpc_def
    by (cases ?chk) (auto intro!: rel_bind_res [OF says_ident])
qed

definition read_value :: "(json \<Rightarrow> string result) \<Rightarrow> json \<Rightarrow> string option \<Rightarrow> dbvalue result" where
  "read_value float_repr v coltype =
     (if v = JNull then Inr (DLit JNull)
      else if (case coltype of Some t \<Rightarrow> endswith t ''[]'' | None \<Rightarrow> False) then Inr (DArray (json_items v) (the coltype))
      else if base_type coltype = ''vector'' \<and> is_list v
      then bind_res (map_res float_repr (json_items v)) (\<lambda>fs. Inr (DCast (''['' @ join_str '','' fs @ '']'') (the coltype)))
      else if (coltype = Some ''jsonb'' \<or> coltype = Some ''json'') \<and> is_composite v then Inr (DCast (dumps_sp v) (the coltype))
      else Inr (DLit v))"

lemma lx_cast:
  assumes "list_all plain_char ty"
  shows "lx False (''::'' @ ty) (cast_tokens ty)"
proof -
  obtain ts where "lx False ty ts" using plain_lexes [OF assms, of False] by auto
  then show ?thesis using lx_append [OF lx_chunks(32)] lx_done by (fastforce simp: cast_tokens_def)
qed

lemma double_quotes_id: "quote \<notin> set s \<Longrightarrow> double_quotes s = s"
  by (induction s) (auto simp: double_quotes_def)

lemma join_str_set: "c \<in> set (join_str sep xs) \<Longrightarrow> c \<in> set sep \<or> (\<exists>x \<in> set xs. c \<in> set x)"
  by (induction sep xs rule: join_str.induct) auto

lemma says_value:
  assumes fl: "\<And>j s. float_repr j = Inr s \<Longrightarrow> quote \<notin> set s" and ty: "\<And>t. coltype = Some t \<Longrightarrow> list_all plain_char t"
  shows "says value_tokens (lit_for float_repr v coltype) (read_value float_repr v coltype)"
proof -
  have cast: "lx False (quoted s @ ''::'' @ the coltype) (value_tokens (DCast s (the coltype)))" if "coltype \<noteq> None" for s
    using lx_append [OF lx_quoted lx_cast [OF ty]] that by auto
  have arr: "lx False (''ARRAY['' @ join_str '', '' (map lit js) @ '']::'' @ the coltype) (value_tokens (DArray js (the coltype)))"
    if "coltype \<noteq> None" for js
  proof -
    have "lx False (join_str '', '' (map lit js)) (commas (map lit_tokens js))"
      by (rule lx_commas) (simp add: list_all2_map1 list_all2_same lx_lit)
    moreover have "lx False ('']'' @ ''::'' @ the coltype) ([TSym (CHR '']'')] @ cast_tokens (the coltype))"
      using that ty by (intro lx_append [OF lx_chunks(31) lx_cast]) auto
    ultimately show ?thesis using lx_append [OF lx_chunks(30) lx_append] by (auto simp: boundary_def word_char_def)
  qed
  have vec: "quote # ''['' @ join_str '','' fs @ '']'' @ [quote] @ ''::'' @ the coltype = quoted (''['' @ join_str '','' fs @ '']'') @ ''::'' @ the coltype"
    if "map_res float_repr xs = Inr fs" for xs fs
  proof -
    have "quote \<notin> set (join_str '','' fs)" using that fl map_res_mem by (fastforce dest!: join_str_set)
    then show ?thesis by (simp add: quoted_def double_quotes_id)
  qed
  have bt: "coltype \<noteq> None" if "base_type coltype = ''vector''" using that by (cases coltype) (auto simp: base_type_def)
  let ?arr = "case coltype of Some t \<Rightarrow> endswith t ''[]'' | None \<Rightarrow> False"
  have "says value_tokens (bind_res (map_res float_repr xs) (\<lambda>fs. Inr (quote # ''['' @ join_str '','' fs @ '']'' @ [quote] @ ''::'' @ the coltype)))
      (bind_res (map_res float_repr xs) (\<lambda>fs. Inr (DCast (''['' @ join_str '','' fs @ '']'') (the coltype))))" if "coltype \<noteq> None" for xs
  proof (cases "map_res float_repr xs")
    case (Inr fs)
    show ?thesis unfolding Inr bind_res.simps vec [OF Inr] rel_sum_simps by (rule cast [OF that])
  qed simp
  then have vec': "base_type coltype = ''vector'' \<Longrightarrow> ?thesis" if "\<not> ?arr" "is_list v"
    using bt that unfolding lit_for_def read_value_def by (cases v) simp_all
  have "?arr \<Longrightarrow> ?thesis" "\<not> ?arr \<Longrightarrow> base_type coltype \<noteq> ''vector'' \<Longrightarrow> ?thesis" "\<not> ?arr \<Longrightarrow> \<not> is_list v \<Longrightarrow> ?thesis"
    using cast arr lx_lit [of v] lx_lit [of JNull] unfolding lit_for_def read_value_def by (simp_all split: option.splits)
  with vec' show ?thesis by blast
qed

definition read_update :: "(json \<Rightarrow> string result) \<Rightarrow> string \<Rightarrow> params \<Rightarrow> (string \<times> json) list \<Rightarrow> (string \<times> string) list \<Rightarrow> stmt result" where
  "read_update float_repr table ps body col_types =
     bind_res (map_res (\<lambda>(c, v). bind_res (check_name c) (\<lambda>q. bind_res (read_value float_repr v (map_of col_types c)) (\<lambda>l. Inr (q, l)))) body) (\<lambda>sets.
     bind_res (check_name table) (\<lambda>t. bind_res (read_where ps) (\<lambda>w. Inr (Update t sets w))))"

definition read_upsert :: "(json \<Rightarrow> string result) \<Rightarrow> string \<Rightarrow> (string \<times> json) list \<Rightarrow> string list \<Rightarrow> (string \<times> string) list \<Rightarrow> string list
    \<Rightarrow> stmt result" where
  "read_upsert float_repr table row pk_cols col_types merge_jsonb =
     bind_res (map_res check_name (map fst row)) (\<lambda>cols.
     bind_res (map_res (\<lambda>(c, v). read_value float_repr v (map_of col_types c)) row) (\<lambda>vals.
     bind_res (check_name table) (\<lambda>t.
     bind_res (map_res check_name pk_cols) (\<lambda>pks.
       Inr (Upsert t (zip cols vals) pks (map (\<lambda>c. (c, c \<in> set merge_jsonb)) (filter (\<lambda>c. c \<notin> set pk_cols) cols)))))))"

text \<open>What the writes rely on: the text of a float and the names of the column types hold no quote.\<close>

definition typed :: "(json \<Rightarrow> string result) \<Rightarrow> (string \<times> string) list \<Rightarrow> bool" where
  "typed float_repr col_types \<longleftrightarrow> (\<forall>j s. float_repr j = Inr s \<longrightarrow> quote \<notin> set s) \<and> (\<forall>t \<in> snd ` set col_types. list_all plain_char t)"

lemma says_column:
  assumes "typed float_repr col_types"
  shows "says value_tokens (lit_for float_repr v (map_of col_types c)) (read_value float_repr v (map_of col_types c))"
  using assms unfolding typed_def by (intro says_value) (blast, metis image_eqI map_of_SomeD snd_conv)

lemma returning_tail:
  assumes "lx False w ts \<and> boundary w"
  shows "lx False (w @ '' RETURNING *'') (ts @ [TWord ''RETURNING'', TSym (CHR ''*'')])" "boundary (w @ '' RETURNING *'')"
  using assms lx_cat [OF _ lx_chunks(21)] boundary_append [of w] by auto

lemma says_update:
  assumes "typed float_repr col_types"
  shows "rel_sum (=) (\<lambda>t p. sql_lex t = Some (stmt_tokens p)) (build_update float_repr table ps body col_types)
    (read_update float_repr table ps body col_types)"
proof -
  have "lx False (q @ '' = '' @ l) (set_tokens (c, v))" if "lx False q [TIdent c]" "lx False l (value_tokens v)" for q c l v
    using lx_append [OF that(1) lx_append [OF lx_chunks(29) that(2)]] by (simp add: set_tokens_def)
  then have item: "says set_tokens
      (case cv of (c, v) \<Rightarrow> bind_res (ident c) (\<lambda>q. bind_res (lit_for float_repr v (map_of col_types c)) (\<lambda>l. Inr (q @ '' = '' @ l))))
      (case cv of (c, v) \<Rightarrow> bind_res (check_name c) (\<lambda>q. bind_res (read_value float_repr v (map_of col_types c)) (\<lambda>l. Inr (q, l))))" for cv
    by (cases cv) (auto intro!: rel_bind_res [OF says_ident] rel_bind_res [OF says_column [OF assms]])
  show ?thesis
    unfolding build_update_def read_update_def
  proof (rule rel_bind_res [OF rel_map_res [OF item]], rule rel_bind_res [OF says_ident], rule rel_bind_res [OF says_where], goal_cases)
    case (1 sts sets t tab w preds)
    note body = lx_cat [OF lx_commas [OF 1(1)] returning_tail [OF 1(3)]]
    from lx_append [OF lx_chunks(27) lx_append [OF 1(2) lx_append [OF lx_chunks(28) body]], THEN lx_done] show ?case by simp
  qed
qed

lemma upsert_set_says:
  assumes "plain_name table" "plain_name c"
  shows "\<exists>u. upsert_set table merge c = Inr u \<and> lx False u (conflict_tokens table (c, c \<in> set merge))"
proof -
  obtain t q where t: "ident table = Inr t" "lx False t [TIdent table]" and q: "ident c = Inr q" "lx False q [TIdent c]"
    using assms lx_ident by (auto simp: ident_def)
  note dot = lx_append [OF lx_chunks(33) lx_append [OF q(2) lx_append [OF lx_chunks(34) q(2)]]]
  have "boundary (CHR ''.'' # x)" for x by (simp add: boundary_def word_char_def)
  then have "lx False (q @ '' = '' @ t @ ''.'' @ q @ '' || EXCLUDED.'' @ q) (conflict_tokens table (c, True))"
    using lx_append [OF q(2) lx_append [OF lx_chunks(29) lx_append [OF t(2) dot]]] by (simp add: conflict_tokens_def)
  moreover have "lx False (q @ '' = EXCLUDED.'' @ q) (conflict_tokens table (c, False))"
    using lx_append [OF q(2) lx_append [OF lx_chunks(35) q(2)]] by (simp add: conflict_tokens_def)
  ultimately show ?thesis using t(1) q(1) by (auto simp: upsert_set_def)
qed

lemma upsert_sets_say:
  assumes "plain_name table" "list_all plain_name cs"
  shows "\<exists>us. map_res (upsert_set table merge) cs = Inr us \<and> lx False (join_str '', '' us) (commas (map (conflict_tokens table) (map (\<lambda>c. (c, c \<in> set merge)) cs)))"
proof -
  have "\<exists>us. map_res (upsert_set table merge) cs = Inr us \<and> list_all2 (\<lambda>u x. lx False u (conflict_tokens table x)) us (map (\<lambda>c. (c, c \<in> set merge)) cs)"
    using assms(2)
  proof (induction cs)
    case (Cons c cs)
    with upsert_set_says [OF assms(1), of c merge] show ?case by auto
  qed simp
  then show ?thesis using lx_commas by blast
qed

lemma check_names: "map_res check_name xs = (if list_all plain_name xs then Inr xs
    else Inl (ValueError (''unsafe SQL identifier: '' @ py_repr (hd (dropWhile plain_name xs)))))"
  by (induction xs) (auto simp: check_name_def)

lemma says_idents: "rel_sum (=) (\<lambda>ts cs. list_all plain_name cs \<and> cs = xs \<and> lx False (join_str '', '' ts) (commas (map (\<lambda>c. [TIdent c]) cs)))
    (map_res ident xs) (map_res check_name xs)"
proof -
  have "rel_sum (=) (list_all2 (\<lambda>t c. lx False t [TIdent c])) (map_res ident xs) (map_res check_name xs)"
    by (rule rel_map_res) (rule says_ident)
  then show ?thesis
    using lx_commas by (cases "map_res ident xs"; cases "map_res check_name xs") (auto simp: check_names split: if_splits)
qed

lemma says_table: "rel_sum (=) (\<lambda>t c. plain_name c \<and> c = name \<and> lx False t [TIdent c]) (ident name) (check_name name)"
  using says_ident [of name] by (auto simp: check_name_def ident_def)

lemma lx_insert:
  assumes "lx False t [TIdent tab]" "lx False cs cts" "lx False vs vts"
  shows "lx True (''INSERT INTO '' @ t @ '' ('' @ cs @ '') VALUES ('' @ vs @ '')'')
    ([TWord ''INSERT'', TWord ''INTO'', TIdent tab, TSym (CHR ''('')] @ cts @ [TSym (CHR '')''), TWord ''VALUES'', TSym (CHR ''('')] @ vts @ [TSym (CHR '')'')])"
  using lx_append [OF lx_chunks(36) lx_append [OF assms(1) lx_append [OF lx_chunks(37) lx_append [OF assms(2)
    lx_append [OF lx_chunks(38) lx_append [OF assms(3) lx_chunks(6)]]]]]] by simp

lemma map_zip_fst: "length xs = length ys \<Longrightarrow> map (\<lambda>p. f (fst p)) (zip xs ys) = map f xs"
  using map_map [of f fst "zip xs ys"] by (simp add: comp_def)

lemma map_zip_snd: "length xs = length ys \<Longrightarrow> map (\<lambda>p. f (snd p)) (zip xs ys) = map f ys"
  using map_map [of f snd "zip xs ys"] by (simp add: comp_def)

lemma rel_map_res_length:
  assumes "\<And>x. x \<in> set xs \<Longrightarrow> rel_sum (=) R (f x) (g x)"
  shows "rel_sum (=) (\<lambda>ys zs. length zs = length xs \<and> list_all2 R ys zs) (map_res f xs) (map_res g xs)"
  using rel_map_res [of xs R f g, OF assms] map_res_length [of g xs]
  by (cases "map_res f xs"; cases "map_res g xs") auto

lemma says_upsert:
  assumes "typed float_repr col_types"
  shows "rel_sum (=) (\<lambda>t p. sql_lex t = Some (stmt_tokens p)) (build_upsert float_repr table row pks col_types merge)
    (read_upsert float_repr table row pks col_types merge)"
proof -
  have val: "says value_tokens (case cv of (c, v) \<Rightarrow> lit_for float_repr v (map_of col_types c)) (case cv of (c, v) \<Rightarrow> read_value float_repr v (map_of col_types c))" for cv
    by (cases cv) (simp add: says_column [OF assms])
  show ?thesis
    unfolding build_upsert_def read_upsert_def Let_def
  proof (rule rel_bind_res [OF says_idents], rule rel_bind_res [OF rel_map_res_length [OF val]], rule rel_bind_res [OF says_table], goal_cases)
    case (1 cts cols vts vals t tab)
    then have len: "length cols = length vals" and cols: "cols = map fst row" by auto
    have names: "plain_name table" "list_all plain_name cols" "tab = table" using 1 by auto
    define head where "head = ''INSERT INTO '' @ t @ '' ('' @ join_str '', '' cts @ '') VALUES ('' @ join_str '', '' vts @ '')''"
    define htoks where "htoks = [TWord ''INSERT'', TWord ''INTO'', TIdent tab, TSym (CHR ''('')] @ commas (map (\<lambda>c. [TIdent c]) cols)
      @ [TSym (CHR '')''), TWord ''VALUES'', TSym (CHR ''('')] @ commas (map value_tokens vals) @ [TSym (CHR '')'')]"
    let ?upd = "filter (\<lambda>c. c \<notin> set pks) cols"
    let ?m = "map (\<lambda>c. (c, c \<in> set merge)) ?upd"
    have toks: "stmt_tokens (Upsert tab (zip cols vals) ps us) = htoks
      @ (if ps = [] then []
        else [TWord ''ON'', TWord ''CONFLICT'', TSym (CHR ''('')] @ commas (map (\<lambda>c. [TIdent c]) ps) @ [TSym (CHR '')''), TWord ''DO'']
          @ (if us = [] then [TWord ''NOTHING''] else [TWord ''UPDATE'', TWord ''SET''] @ commas (map (conflict_tokens tab) us)))
      @ [TWord ''RETURNING'', TSym (CHR ''*'')]" for ps us
      using map_zip_fst [OF len, of "\<lambda>c. [TIdent c]"] map_zip_snd [OF len, of value_tokens] by (simp add: htoks_def)
    have head: "lx True head htoks" unfolding head_def htoks_def by (rule lx_insert [OF _ _ lx_commas]) (use 1 in blast)+
    show ?case
    proof (cases "pks = []")
      case True
      then show ?thesis using lx_append [OF head lx_chunks(21), THEN lx_done] toks by (simp add: head_def)
    next
      case False
      have "rel_sum (=) (\<lambda>t p. sql_lex t = Some (stmt_tokens p))
        (bind_res (map_res ident pks) (\<lambda>pks'. if ?upd = [] then Inr (head @ '' ON CONFLICT ('' @ join_str '', '' pks' @ '') DO NOTHING'' @ '' RETURNING *'')
           else bind_res (map_res (upsert_set table merge) ?upd) (\<lambda>sets.
                 Inr (head @ '' ON CONFLICT ('' @ join_str '', '' pks' @ '') DO UPDATE SET '' @ join_str '', '' sets @ '' RETURNING *''))))
        (bind_res (map_res check_name pks) (\<lambda>ps. Inr (Upsert tab (zip cols vals) ps ?m)))"
      proof (rule rel_bind_res [OF says_idents], goal_cases)
        case (1 pts ps)
        then have P: "lx False (join_str '', '' pts) (commas (map (\<lambda>c. [TIdent c]) ps))" and ps: "ps \<noteq> []" using False by auto
        obtain us where us: "map_res (upsert_set table merge) ?upd = Inr us"
          "lx False (join_str '', '' us) (commas (map (conflict_tokens table) ?m))"
          using upsert_sets_say [of table ?upd merge] names by (auto simp: list_all_iff)
        show ?case
        proof (cases "?upd = []")
          case True
          then show ?thesis
            using lx_append [OF head lx_append [OF lx_chunks(39) lx_append [OF P lx_append [OF lx_chunks(40) lx_chunks(21)]]], THEN lx_done] ps
            by (simp add: toks del: stmt_tokens.simps)
        next
          case False
          then have "?m \<noteq> []" by simp
          then show ?thesis
            using lx_append [OF head lx_append [OF lx_chunks(39) lx_append [OF P lx_append [OF lx_chunks(41) lx_append [OF us(2) lx_chunks(21)]]]], THEN lx_done]
              us(1) names(3) ps False by (simp add: toks [unfolded names(3)] del: stmt_tokens.simps map_map)
        qed
      qed
      then show ?thesis unfolding if_not_P [OF False] head_def cols .
    qed
  qed
qed

subsection \<open>Properties\<close>

text \<open>
  C10: a read, a delete or a function call is built exactly when its names are plain and its operators known, and then the text has
  the tokens of the query that the parameters describe: whatever a filter value holds, it is read back as one string constant.
\<close>

theorem queries_say_what_was_asked:
  "rel_sum (=) (\<lambda>sql q. sql_lex sql = Some (stmt_tokens q)) (build_select table ps) (read_select table ps)
   \<and> rel_sum (=) (\<lambda>sql q. sql_lex sql = Some (stmt_tokens q)) (build_delete table ps) (read_delete table ps)
   \<and> rel_sum (=) (\<lambda>sql q. sql_lex sql = Some (stmt_tokens q)) (build_rpc table args) (read_rpc table args)"
  using says_select says_delete says_rpc by blast

text \<open>An update or an upsert has the tokens of its assignments, its conflict target and its merged columns, each value one constant
  cast to the type of its column, provided the types of the columns hold no quote and the text of a float holds none.
\<close>

theorem writes_say_what_was_asked:
  assumes "typed float_repr col_types"
  shows "rel_sum (=) (\<lambda>sql q. sql_lex sql = Some (stmt_tokens q)) (build_upsert float_repr table row pks col_types merge)
      (read_upsert float_repr table row pks col_types merge)
    \<and> rel_sum (=) (\<lambda>sql q. sql_lex sql = Some (stmt_tokens q)) (build_update float_repr table ps row col_types)
      (read_update float_repr table ps row col_types)"
  using says_upsert [OF assms] says_update [OF assms] by blast

definition demo_types :: "(string \<times> string) list" where
  "demo_types = [(''tags'', ''text[]''), (''config'', ''jsonb''), (''name'', ''character varying(64)'')]"

fun demo_float :: "json \<Rightarrow> string result" where
  "demo_float (JInt i) = Inr (str_int i @ ''.0'')"
| "demo_float (JDec n) = Inr (dump_dec n)"
| "demo_float j = Inl (TypeError ''float() argument must be a string or a real number'')"

lemma demo_typed: "typed demo_float demo_types"
proof -
  have "demo_float j = Inr s \<Longrightarrow> quote \<notin> set s" for j s
    using str_int_chars dump_dec_digits by (cases j) (fastforce simp: is_digit_def)+
  moreover have "list_all plain_char t" if "t \<in> snd ` set demo_types" for t
    using that by (auto simp: demo_types_def lex_eval)
  ultimately show ?thesis by (auto simp: typed_def)
qed

theorem writes_say_what_was_asked_witness:
  "\<exists>sql. build_upsert demo_float ''agents'' [(''id'', JStr ''o''), (''config'', JObj [])] [''id''] demo_types [''config''] = Inr sql
     \<and> sql_lex sql = Some (stmt_tokens (Upsert ''agents'' [(''id'', DLit (JStr ''o'')), (''config'', DCast ''{}'' ''jsonb'')] [''id''] [(''config'', True)]))"
proof -
  have "read_upsert demo_float ''agents'' [(''id'', JStr ''o''), (''config'', JObj [])] [''id''] demo_types [''config'']
    = Inr (Upsert ''agents'' [(''id'', DLit (JStr ''o'')), (''config'', DCast ''{}'' ''jsonb'')] [''id''] [(''config'', True)])"
    by (simp add: read_upsert_def read_value_def check_name_def plain_name_def alnum_char_def demo_types_def base_type_def endswith_def)
  with writes_say_what_was_asked [OF demo_typed, where table = "''agents''" and row = "[(''id'', JStr ''o''), (''config'', JObj [])]"
      and pks = "[''id'']" and merge = "[''config'']" and ps = "[]"]
  show ?thesis by (auto simp: rel_sum.simps simp del: stmt_tokens.simps)
qed

end
