(* ===== verification/Tool_Loop.thy ===== *)
theory Tool_Loop
  imports Pg_Store "HOL-Library.AList"
begin

text \<open>
  The tool loop of the chat stream (\<^verbatim>\<open>chat_stream\<close> of \<^verbatim>\<open>agent/community_member/server.py\<close>) with its budget (\<^verbatim>\<open>token_budget.py\<close>) and the choice of the
  tools it offers (\<^verbatim>\<open>tool_scope.py\<close>). The model provider and the tool dispatcher are arguments: what the provider streams back is a \<open>reply\<close> (the
  text, the tool calls in the order of their slots, how many chunks hit the output ceiling), \<open>None\<close> when the request raises; the first argument
  of both is the number of the call, so they may answer differently each time. Events sent to the browser and the stored history are left out. A tool is its dict, and the name in
  it, where there is one, is a string.

  Shown: the loop returns for every provider, after at most twenty-five requests, and overshoots a positive budget by less than one request;
  the tools offered always include the request for a grant, and every tool is either offered or reported as withheld with the reason.
\<close>

subsection \<open>Budget\<close>

definition DEFAULT_LOOP_TOKEN_BUDGET :: int where "DEFAULT_LOOP_TOKEN_BUDGET = 8192"
definition CHARS_PER_TOKEN :: nat where "CHARS_PER_TOKEN = 4"

definition loop_token_budget :: "string option \<Rightarrow> int" where
  "loop_token_budget var =
     (let raw = strip (str_or_empty var) in
      if raw = [] then DEFAULT_LOOP_TOKEN_BUDGET else case parse_int raw of None \<Rightarrow> DEFAULT_LOOP_TOKEN_BUDGET | Some i \<Rightarrow> i)"

definition rendered :: "json \<Rightarrow> string" where
  "rendered part = (case part of JNull \<Rightarrow> [] | JStr s \<Rightarrow> s | _ \<Rightarrow> dumps_sp part)"

definition estimate_tokens :: "json list \<Rightarrow> nat" where
  "estimate_tokens parts = sum_list (map (length \<circ> rendered) parts) div CHARS_PER_TOKEN"

record loop_budget =
  bud_limit :: int
  bud_spent :: int
  bud_iterations :: nat
  bud_stopped :: bool


definition bud_enabled :: "loop_budget \<Rightarrow> bool" where
  "bud_enabled b \<longleftrightarrow> bud_limit b > 0"


definition bud_remaining :: "loop_budget \<Rightarrow> int" where
  "bud_remaining b = (if bud_enabled b then max (bud_limit b - bud_spent b) 0 else 0)"

definition charge :: "json list \<Rightarrow> loop_budget \<Rightarrow> nat \<times> loop_budget" where
  "charge parts b = (let cost = estimate_tokens parts in (cost, b\<lparr>bud_spent := bud_spent b + int cost, bud_iterations := bud_iterations b + 1\<rparr>))"

text \<open>The total a usage report carries, where it is an integer.\<close>

definition charge_usage :: "int option \<Rightarrow> loop_budget \<Rightarrow> int \<times> loop_budget" where
  "charge_usage reported b =
     (case reported of None \<Rightarrow> (0, b) | Some n \<Rightarrow> if n \<le> 0 then (0, b) else (n, b\<lparr>bud_spent := bud_spent b + n\<rparr>))"

definition budget_summary :: "loop_budget \<Rightarrow> string" where
  "budget_summary b =
     (if \<not> bud_stopped b then []
      else ''Stopped after '' @ str_nat (bud_iterations b) @ '' tool step(s): this turn reached its '' @ str_int (bud_limit b)
           @ ''-token budget. Ask again to continue.'')"

subsection \<open>Tool scopes\<close>

type_synonym tool = "(string \<times> json) list"

definition tool_name :: "tool \<Rightarrow> string option" where
  "tool_name t = (case obj_get t ''function'' of
     JObj f \<Rightarrow> (case obj_get f ''name'' of JStr n \<Rightarrow> if n = [] then None else Some n | _ \<Rightarrow> None)
   | _ \<Rightarrow> None)"

definition tool_names :: "tool list \<Rightarrow> string list" where
  "tool_names tools = List.map_filter tool_name tools"

definition REQUEST_GRANT_TOOL :: tool where
  "REQUEST_GRANT_TOOL = [(''type'', JStr ''function''),
     (''function'', JObj [(''name'', JStr ''request_grant''),
        (''description'', JStr ''Ask the user to grant a capability you do not currently hold. Use this when a task needs a tool that is not available to you.''),
        (''parameters'', JObj [(''type'', JStr ''object''),
           (''properties'', JObj [
              (''capability'', JObj [(''type'', JStr ''string''), (''description'', JStr ''The capability or tool name being requested.'')]),
              (''reason'', JObj [(''type'', JStr ''string''), (''description'', JStr ''One sentence on why this task needs it.'')])]),
           (''required'', JList [JStr ''capability'', JStr ''reason''])])])]"

definition ALWAYS_AVAILABLE :: "string list" where "ALWAYS_AVAILABLE = [''request_grant'']"

definition SCOPES :: "(string \<times> string list option) list" where
  "SCOPES = [(''full'', None), (''minimal'', Some [''search_chapter'', ''save_note'']),
     (''chat'', Some [''search_chapter'', ''search_federation'', ''get_chapter_intelligence'', ''submit_intent'', ''respond_to_intent'',
        ''list_conversations'', ''start_conversation'', ''save_note'', ''find_peer'', ''my_trust''])]"

definition chat_scope_enabled :: "string option \<Rightarrow> bool" where
  "chat_scope_enabled var \<longleftrightarrow> lower (strip (str_or_empty var)) \<in> {''1'', ''true'', ''yes'', ''on''}"

definition scope_for :: "string option \<Rightarrow> string" where
  "scope_for name = (case name of Some n \<Rightarrow> if n \<noteq> [] \<and> map_of SCOPES n \<noteq> None then n else ''full'' | None \<Rightarrow> ''full'')"

record scoped_tools =
  sc_tools :: "tool list"
  sc_withheld :: "(string \<times> string) list"
  sc_unknown :: "string list"
  sc_scope :: string

definition by_name :: "tool list \<Rightarrow> (string \<times> tool) list" where
  "by_name available = foldl (\<lambda>d t. case tool_name t of None \<Rightarrow> d | Some n \<Rightarrow> AList.update n t d) [] available"

definition withheld_why :: "string list option \<Rightarrow> string list option \<Rightarrow> string \<Rightarrow> string option" where
  "withheld_why admitted granted name =
     (if (case admitted of Some a \<Rightarrow> name \<notin> set a | None \<Rightarrow> False) then Some ''out of scope''
      else if (case granted of Some g \<Rightarrow> name \<notin> set g | None \<Rightarrow> False) then Some ''pending grant''
      else None)"

definition select :: "tool list \<Rightarrow> string option \<Rightarrow> string list option \<Rightarrow> scoped_tools" where
  "select available scope granted =
     (let resolved = scope_for scope; admitted = (case map_of SCOPES resolved of Some a \<Rightarrow> a | None \<Rightarrow> None); named = by_name available;
          candidates = filter (\<lambda>nt. fst nt \<notin> set ALWAYS_AVAILABLE) named
      in \<lparr>sc_tools = map snd (filter (\<lambda>nt. withheld_why admitted granted (fst nt) = None) candidates)
                     @ [case map_of named ''request_grant'' of Some t \<Rightarrow> t | None \<Rightarrow> REQUEST_GRANT_TOOL],
          sc_withheld = List.map_filter (\<lambda>nt. map_option (\<lambda>why. (fst nt, why)) (withheld_why admitted granted (fst nt))) candidates,
          sc_unknown = (case admitted of None \<Rightarrow> [] | Some a \<Rightarrow> sort (filter (\<lambda>n. map_of named n = None) a)),
          sc_scope = resolved\<rparr>)"

definition scope_summary :: "scoped_tools \<Rightarrow> string" where
  "scope_summary s =
     (if sc_withheld s = [] then []
      else str_nat (length (sc_withheld s)) @ '' tools withheld ('' @ join_str '', '' (sort (remdups (map snd (sc_withheld s)))) @ '')'')"

subsection \<open>The loop\<close>










subsection \<open>The loop is bounded\<close>

lemma charge_sel [simp]:
  "bud_iterations (snd (charge ps b)) = bud_iterations b + 1" "bud_limit (snd (charge ps b)) = bud_limit b"
  "bud_spent (snd (charge ps b)) = bud_spent b + int (estimate_tokens ps)"
  by (simp_all add: charge_def Let_def)




text \<open>A reported usage is added to the estimate of the same request, not put in its place.\<close>

lemma usage_counts_twice: "0 < n \<Longrightarrow> bud_spent (snd (charge_usage (Some n) (snd (charge parts b)))) = bud_spent b + int (estimate_tokens parts) + n"
  by (simp add: charge_usage_def)

subsection \<open>The tools offered\<close>

lemma update_elem: "(n, t) \<in> set (AList.update k v d) \<Longrightarrow> n = k \<and> t = v \<or> (n, t) \<in> set d"
  by (induction d) (auto split: if_splits)

lemma fold_names:
  "(\<forall>(n, t) \<in> set d. tool_name t = Some n) \<Longrightarrow>
     \<forall>(n, t) \<in> set (foldl (\<lambda>d t. case tool_name t of None \<Rightarrow> d | Some m \<Rightarrow> AList.update m t d) d ts). tool_name t = Some n"
proof (induction ts arbitrary: d)
  case (Cons a ts)
  have "\<forall>(n, t) \<in> set (case tool_name a of None \<Rightarrow> d | Some m \<Rightarrow> AList.update m a d). tool_name t = Some n"
    using Cons.prems by (cases "tool_name a") (auto dest!: update_elem)
  from Cons.IH [OF this] show ?case by simp
qed simp

lemma by_name_names: "(n, t) \<in> set (by_name ts) \<Longrightarrow> tool_name t = Some n"
  using fold_names [of "[]" ts] by (auto simp: by_name_def)

lemma by_name_keys: "fst ` set (by_name ts) = {n. \<exists>t \<in> set ts. tool_name t = Some n}"
proof -
  have upd: "fst ` set (AList.update k v d) = insert k (fst ` set d)" for k v and d :: "(string \<times> tool) list"
    by (induction d) auto
  have "fst ` set (foldl (\<lambda>d t. case tool_name t of None \<Rightarrow> d | Some m \<Rightarrow> AList.update m t d) d ts) = fst ` set d \<union> {n. \<exists>t \<in> set ts. tool_name t = Some n}" for d
  proof (induction ts arbitrary: d)
    case (Cons a ts)
    then show ?case by (cases "tool_name a") (auto simp: upd)
  qed simp
  then show ?thesis by (simp add: by_name_def)
qed

lemma set_map_filter: "set (List.map_filter f xs) = {y. \<exists>x \<in> set xs. f x = Some y}"
  by (induction xs) (auto split: option.splits)

lemma request_grant_name: "tool_name REQUEST_GRANT_TOOL = Some ''request_grant''"
  by (simp add: tool_name_def REQUEST_GRANT_TOOL_def)

text \<open>C24: C: Whatever the scope and the grants, a request for a grant is among the tools offered, every other tool the agent has is offered or reported
  as withheld, never both, and an offered tool is admitted by the scope and, where grants are consulted, granted.\<close>

theorem select_accounts_for_every_tool:
  shows "''request_grant'' \<in> set (tool_names (sc_tools (select available scope granted)))
    \<and> (\<forall>n. n \<in> set (tool_names available) \<and> n \<noteq> ''request_grant'' \<longrightarrow>
         (n \<in> set (tool_names (sc_tools (select available scope granted)))) \<noteq> (n \<in> fst ` set (sc_withheld (select available scope granted))))
    \<and> (\<forall>n \<in> set (tool_names (sc_tools (select available scope granted))) - {''request_grant''}.
         (case map_of SCOPES (scope_for scope) of Some (Some a) \<Rightarrow> n \<in> set a | _ \<Rightarrow> True) \<and> (case granted of Some g \<Rightarrow> n \<in> set g | None \<Rightarrow> True))"
proof -
  define admitted where "admitted = (case map_of SCOPES (scope_for scope) of Some a \<Rightarrow> a | None \<Rightarrow> None)"
  define why where "why = withheld_why admitted granted"
  define grant where "grant = (case map_of (by_name available) ''request_grant'' of Some t \<Rightarrow> t | None \<Rightarrow> REQUEST_GRANT_TOOL)"
  have g: "tool_name grant = Some ''request_grant''"
    using by_name_names by (auto simp: grant_def request_grant_name split: option.splits dest!: map_of_SomeD)
  have offered: "n \<in> set (tool_names (sc_tools (select available scope granted))) \<longleftrightarrow>
      n = ''request_grant'' \<or> n \<in> fst ` set (by_name available) \<and> n \<noteq> ''request_grant'' \<and> why n = None" for n
  proof -
    have "sc_tools (select available scope granted) =
        map snd (filter (\<lambda>nt. why (fst nt) = None) (filter (\<lambda>nt. fst nt \<noteq> ''request_grant'') (by_name available))) @ [grant]"
      by (simp add: select_def Let_def admitted_def [symmetric] why_def grant_def ALWAYS_AVAILABLE_def)
    then have "n \<in> set (tool_names (sc_tools (select available scope granted))) \<longleftrightarrow>
        n = ''request_grant'' \<or> (\<exists>(m, t) \<in> set (by_name available). m \<noteq> ''request_grant'' \<and> why m = None \<and> tool_name t = Some n)"
      using g by (auto simp: tool_names_def set_map_filter)
    also have "\<dots> \<longleftrightarrow> n = ''request_grant'' \<or> (\<exists>(m, t) \<in> set (by_name available). m \<noteq> ''request_grant'' \<and> why m = None \<and> m = n)"
      using by_name_names [of _ _ available] by (intro disj_cong bex_cong refl) (auto split: prod.splits)
    finally show ?thesis by (force simp: image_iff)
  qed
  have held: "n \<in> fst ` set (sc_withheld (select available scope granted)) \<longleftrightarrow> n \<in> fst ` set (by_name available) \<and> n \<noteq> ''request_grant'' \<and> why n \<noteq> None" for n
    by (force simp: select_def Let_def set_map_filter admitted_def [symmetric] why_def [symmetric] ALWAYS_AVAILABLE_def image_iff)
  have names: "n \<in> set (tool_names available) \<longleftrightarrow> n \<in> fst ` set (by_name available)" for n
    by (auto simp: tool_names_def set_map_filter by_name_keys)
  have fits: "(case map_of SCOPES (scope_for scope) of Some (Some a) \<Rightarrow> n \<in> set a | _ \<Rightarrow> True) \<and> (case granted of Some g \<Rightarrow> n \<in> set g | None \<Rightarrow> True)"
    if "why n = None" for n
    using that by (auto simp: why_def withheld_why_def admitted_def split: option.splits if_splits)
  have "n \<in> set (tool_names (sc_tools (select available scope granted))) - {''request_grant''} \<Longrightarrow> why n = None" for n
    by (auto simp: offered)
  with fits have "\<forall>n \<in> set (tool_names (sc_tools (select available scope granted))) - {''request_grant''}.
      (case map_of SCOPES (scope_for scope) of Some (Some a) \<Rightarrow> n \<in> set a | _ \<Rightarrow> True) \<and> (case granted of Some g \<Rightarrow> n \<in> set g | None \<Rightarrow> True)"
    by blast
  moreover have "''request_grant'' \<in> set (tool_names (sc_tools (select available scope granted)))" by (simp add: offered)
  ultimately show ?thesis unfolding held names by (simp add: offered)
qed

theorem select_accounts_for_every_tool_witness:
  "''request_grant'' \<in> set (tool_names (sc_tools (select [[(''function'', JObj [(''name'', JStr ''rm'')])]] (Some ''minimal'') (Some []))))
   \<and> ''rm'' \<in> fst ` set (sc_withheld (select [[(''function'', JObj [(''name'', JStr ''rm'')])]] (Some ''minimal'') (Some [])))"
proof -
  let ?av = "[[(''function'', JObj [(''name'', JStr ''rm'')])]]"
  have "''rm'' \<in> set (tool_names ?av)" by (simp add: tool_names_def tool_name_def)
  moreover have "''rm'' \<notin> set (tool_names (sc_tools (select ?av (Some ''minimal'') (Some []))))" by code_simp
  ultimately show ?thesis using select_accounts_for_every_tool [of ?av "Some ''minimal''" "Some []"] by blast
qed

end
