(* ===== verification/Hash_Chain.thy ===== *)
theory Hash_Chain
  imports Prelude
begin

text \<open>
  What a hash-chained log promises, as an interface: rows with a digest, a link to the
  digest before, and a canonical text that includes the link. The client lemmas are proved once
  here: a chain is extended by a row that links to its head, every prefix of a chain is a
  chain, and two chains with one head hold the same rows in the same order unless the digest
  collides on two of their canonical texts.
\<close>

fun chained :: "('r \<Rightarrow> string) \<Rightarrow> ('r \<Rightarrow> string) \<Rightarrow> ('r \<Rightarrow> string) \<Rightarrow> (string \<Rightarrow> string) \<Rightarrow> string \<Rightarrow> 'r list \<Rightarrow> bool" where
  "chained dig prev canon H p [] = True"
| "chained dig prev canon H p (r # rs) =
     (dig r = H (canon r) \<and> prev r = p \<and> chained dig prev canon H (dig r) rs)"

definition head_digest :: "('r \<Rightarrow> string) \<Rightarrow> string \<Rightarrow> 'r list \<Rightarrow> string" where
  "head_digest dig p rs = (if rs = [] then p else dig (last rs))"

lemma head_digest_simps [simp]:
  "head_digest dig p [] = p" "head_digest dig p (rs @ [r]) = dig r"
  by (simp_all add: head_digest_def)

lemma head_digest_Cons: "head_digest dig p (r # rs) = head_digest dig (dig r) rs"
  by (simp add: head_digest_def)

lemma chained_append:
  "chained dig prev canon H p (rs @ ss) \<longleftrightarrow>
     chained dig prev canon H p rs \<and> chained dig prev canon H (head_digest dig p rs) ss"
  by (induction rs arbitrary: p) (auto simp: head_digest_Cons)

lemma chained_take: "chained dig prev canon H p rs \<Longrightarrow> chained dig prev canon H p (take n rs)"
  by (metis append_take_drop_id chained_append)

lemma chained_dig: "chained dig prev canon H p rs \<Longrightarrow> r \<in> set rs \<Longrightarrow> dig r = H (canon r)"
  by (induction rs arbitrary: p) auto

locale hash_chain =
  fixes dig :: "'r \<Rightarrow> string" and prev :: "'r \<Rightarrow> string" and canon :: "'r \<Rightarrow> string"
    and H :: "string \<Rightarrow> string"
  assumes digest_nonempty: "H x \<noteq> []"
    and canon_binds_prev: "canon r = canon s \<Longrightarrow> prev r = prev s"
begin

lemma chain_snoc:
  "chained dig prev canon H p (rs @ [r]) \<longleftrightarrow>
     chained dig prev canon H p rs \<and> dig r = H (canon r) \<and> prev r = head_digest dig p rs"
  by (auto simp: chained_append)

lemma head_nonempty: "chained dig prev canon H p rs \<Longrightarrow> rs \<noteq> [] \<Longrightarrow> head_digest dig p rs \<noteq> []"
  using chained_dig [of dig prev canon H p rs "last rs"] digest_nonempty by (auto simp: head_digest_def)

theorem same_head_same_rows:
  assumes "chained dig prev canon H [] rs" "chained dig prev canon H [] ss"
    and "head_digest dig [] rs = head_digest dig [] ss"
  shows "map canon rs = map canon ss \<or> collision_between H (canon ` set rs) (canon ` set ss)"
  using assms
proof (induction rs arbitrary: ss rule: rev_induct)
  case Nil
  with head_nonempty [of "[]" ss] show ?case by (cases "ss = []") auto
next
  case (snoc r rs)
  from snoc.prems(1) have "head_digest dig [] (rs @ [r]) \<noteq> []" using head_nonempty by fastforce
  with snoc.prems(3) have "ss \<noteq> []" by auto
  then obtain ss' s where ss: "ss = ss' @ [s]" by (cases ss rule: rev_cases) auto
  from snoc.prems ss have r: "dig r = H (canon r)" "dig s = H (canon s)" "dig r = dig s"
    "chained dig prev canon H [] rs" "chained dig prev canon H [] ss'"
    "prev r = head_digest dig [] rs" "prev s = head_digest dig [] ss'"
    by (auto simp: chain_snoc)
  show ?case
  proof (cases "canon r = canon s")
    case True
    with canon_binds_prev r have "head_digest dig [] rs = head_digest dig [] ss'" by metis
    from snoc.IH [OF r(4,5) this] True ss show ?thesis
      by (auto intro: collision_between_mono)
  next
    case False
    with r ss show ?thesis by (auto intro!: collision_betweenI)
  qed
qed

end

end
