(* ===== verification/Consent_Ledger.thy ===== *)
theory Consent_Ledger
  imports Json Datetime Hash_Chain
begin

text \<open>
  The consent ledger of \<^verbatim>\<open>agent/community_member/consent/ledger.py\<close>: an append-only SQLite
  table whose rows are hash-chained and, when the process has a key, signed, beside a
  sidecar file with a signed (count, head) checkpoint.

  The state holds whether \<open>init\<close> has run, the signing key, the table in id order, the parsed
  sidecar, and two streams of faults: one entry per insert (the statement before or after the
  insert may fail) and one per sidecar write. PyNaCl is outside the repository and is the
  parameter \<open>N\<close> of the operations that sign or verify. Instants come from the caller, one per
  call.
\<close>

subsection \<open>State\<close>

record nacl =
  nacl_installed :: bool
  nacl_key_ok :: "string \<Rightarrow> bool"
  nacl_sign :: "string \<Rightarrow> string \<Rightarrow> string"
  nacl_verify :: "string \<Rightarrow> string \<Rightarrow> string \<Rightarrow> bool"

text \<open>PyNaCl's documented behaviour, for the key in use: the package is there, the key is a
  valid seed, a signature is non-empty text and verifies under the key that made it.\<close>

definition nacl_correct :: "nacl \<Rightarrow> string \<Rightarrow> bool" where
  "nacl_correct N k \<longleftrightarrow> nacl_installed N \<and> nacl_key_ok N k
     \<and> (\<forall>m. nacl_sign N k m \<noteq> [] \<and> nacl_verify N k m (nacl_sign N k m))"

record consent_event =
  chapter_id :: string
  actor_agent_id :: "string option"
  action :: string
  target_type :: "string option"
  target_id :: "string option"
  outcome :: string
  detail :: "json option"
  occurred_at :: string
  prev_sha256 :: "string option"
  event_sha256 :: string
  signature_b64 :: "string option"

record checkpoint =
  cp_count :: "int option"
  cp_head :: "string option"
  cp_signature :: "string option"

datatype db_fault = Db_Ok | Busy_Before | Busy_After

record ledger_state =
  db_open :: bool
  signing_key :: "string option"
  rows :: "consent_event list"
  sidecar :: "checkpoint option"
  db_faults :: "db_fault list"
  cp_faults :: "bool list"

definition MAX_DETAIL_BYTES :: nat where "MAX_DETAIL_BYTES = 32 * 1024"
definition MAX_ACTION_LEN :: nat where "MAX_ACTION_LEN = 64"
definition VALID_OUTCOMES :: "string list" where "VALID_OUTCOMES = [''ok'', ''fail'', ''denied'', ''deferred'']"

subsection \<open>Canonical text, digest, signature\<close>

text \<open>The detail of a row as a dict: text that is not JSON reads as the empty dict.\<close>

definition event_detail :: "'a consent_event_scheme \<Rightarrow> json" where
  "event_detail ev = (case detail ev of None \<Rightarrow> JObj [] | Some d \<Rightarrow> d)"

definition or_empty_obj :: "json \<Rightarrow> json" where
  "or_empty_obj d = (if truthy d then d else JObj [])"

definition canonical_json :: "consent_event \<Rightarrow> json" where
  "canonical_json ev = JObj
     [(''chapter_id'', JStr (chapter_id ev)),
      (''actor_agent_id'', jstr_opt (actor_agent_id ev)),
      (''action'', JStr (action ev)),
      (''target_type'', jstr_opt (target_type ev)),
      (''target_id'', jstr_opt (target_id ev)),
      (''outcome'', JStr (outcome ev)),
      (''detail'', or_empty_obj (event_detail ev)),
      (''occurred_at'', JStr (occurred_at ev)),
      (''prev_sha256'', JStr (str_or_empty (prev_sha256 ev)))]"

definition canonical_event :: "consent_event \<Rightarrow> string" where
  "canonical_event ev = dumps (sort_keys (canonical_json ev))"

definition sha256_of :: "consent_event \<Rightarrow> string" where
  "sha256_of ev = sha256_hex (canonical_event ev)"

definition sign_msg :: "nacl \<Rightarrow> string option \<Rightarrow> string \<Rightarrow> string option result" where
  "sign_msg N key msg = (case key of
     None \<Rightarrow> Inr None
   | Some k \<Rightarrow> if \<not> nacl_installed N then Inl (RuntimeError ''pynacl is not installed'')
               else if \<not> nacl_key_ok N k then Inl (ValueError ''bad signing key'')
               else Inr (Some (nacl_sign N k msg)))"

definition verify_key_or_none :: "nacl \<Rightarrow> string option \<Rightarrow> string option result" where
  "verify_key_or_none N key = (case key of
     None \<Rightarrow> Inr None
   | Some k \<Rightarrow> if \<not> nacl_installed N then Inr None
               else if \<not> nacl_key_ok N k then Inl (ValueError ''bad signing key'')
               else Inr (Some k))"

subsection \<open>Append\<close>

text \<open>\<^verbatim>\<open>len(json.dumps(detail).encode("utf-8"))\<close>: the default separators put a blank after each
  comma and colon.\<close>

fun separators :: "json \<Rightarrow> nat" where
  "separators (JList xs) = (length xs - 1) + sum_list (map separators xs)"
| "separators (JObj kvs) = (length kvs - 1) + length kvs + sum_list (map (\<lambda>kv. separators (snd kv)) kvs)"
| "separators j = 0"

definition dumps_len :: "json \<Rightarrow> nat" where
  "dumps_len j = length (dumps j) + separators j"

fun is_obj :: "json \<Rightarrow> bool" where
  "is_obj (JObj kvs) = True"
| "is_obj j = False"

definition validate :: "string \<Rightarrow> string \<Rightarrow> json \<Rightarrow> bool \<times> string" where
  "validate act outc det =
     (if act = [] then (False, ''action is required'')
      else if length act > MAX_ACTION_LEN then (False, ''action too long (max 64)'')
      else if outc \<notin> set VALID_OUTCOMES then (False, ''outcome must be one of VALID_OUTCOMES'')
      else if \<not> is_obj det then (False, ''detail must be a dict'')
      else if dumps_len det > MAX_DETAIL_BYTES then (False, ''detail too large (max 32768 bytes)'')
      else (True, ''ok''))"

definition checkpoint_message :: "int \<Rightarrow> string \<Rightarrow> string" where
  "checkpoint_message cnt head = ''consent-checkpoint:v1:'' @ str_int cnt @ '':'' @ head"

definition write_checkpoint :: "nacl \<Rightarrow> int \<Rightarrow> string \<Rightarrow> 'a ledger_state_scheme \<Rightarrow> unit result \<times> 'a ledger_state_scheme" where
  "write_checkpoint N cnt head st =
     (if \<not> db_open st then (Inr (), st)
      else case sign_msg N (signing_key st) (checkpoint_message cnt head) of
        Inl e \<Rightarrow> (Inl e, st)
      | Inr sg \<Rightarrow>
          (let st1 = st\<lparr>cp_faults := tl (cp_faults st)\<rparr>
           in if cp_faults st \<noteq> [] \<and> hd (cp_faults st) then (Inr (), st1)
              else (Inr (), st1\<lparr>sidecar := Some \<lparr>cp_count = Some cnt, cp_head = Some head, cp_signature = sg\<rparr>\<rparr>)))"

definition last_sha :: "consent_event list \<Rightarrow> string" where
  "last_sha rs = (if rs = [] then [] else event_sha256 (last rs))"

definition new_event :: "string \<Rightarrow> string \<Rightarrow> string option \<Rightarrow> string option \<Rightarrow> string option \<Rightarrow> string \<Rightarrow> json
    \<Rightarrow> string \<Rightarrow> string \<Rightarrow> consent_event" where
  "new_event cid act actor ttype tid outc det at prev_hash =
     (let ev = \<lparr>chapter_id = cid, actor_agent_id = actor, action = take MAX_ACTION_LEN act,
                target_type = none_if_empty (take 64 (str_or_empty ttype)),
                target_id = none_if_empty (take 128 (str_or_empty tid)),
                outcome = outc, detail = Some det, occurred_at = at,
                prev_sha256 = none_if_empty prev_hash, event_sha256 = [], signature_b64 = None\<rparr>
      in ev\<lparr>event_sha256 := sha256_of ev\<rparr>)"

definition record_event :: "nacl \<Rightarrow> string \<Rightarrow> string \<Rightarrow> string option \<Rightarrow> string option \<Rightarrow> string option \<Rightarrow> string
    \<Rightarrow> json \<Rightarrow> instant \<Rightarrow> 'a ledger_state_scheme \<Rightarrow> consent_event result \<times> 'a ledger_state_scheme" where
  "record_event N cid act actor ttype tid outc det0 now st =
     (let det = or_empty_obj det0 in
      case validate act outc det of
        (False, reason) \<Rightarrow> (Inl (ValueError reason), st)
      | (True, _) \<Rightarrow>
          if \<not> db_open st then (Inl (RuntimeError ''consent.ledger not initialized''), st)
          else
            let ev = new_event cid act actor ttype tid outc det (isoformat now) (last_sha (rows st));
                fault = (if db_faults st = [] then Db_Ok else hd (db_faults st));
                st1 = st\<lparr>db_faults := tl (db_faults st)\<rparr>
            in if fault = Busy_Before then (Inl OperationalError, st1)
               else case sign_msg N (signing_key st) (event_sha256 ev) of
                 Inl e \<Rightarrow> (Inl e, st)
               | Inr sg \<Rightarrow>
                   let ev = ev\<lparr>signature_b64 := sg\<rparr>
                   in if event_sha256 ev \<in> event_sha256 ` set (rows st) then (Inl IntegrityError, st1)
                      else
                        let st2 = st1\<lparr>rows := rows st @ [ev\<lparr>detail := Some (sort_keys det)\<rparr>]\<rparr>
                        in if fault = Busy_After then (Inl OperationalError, st2)
                           else case write_checkpoint N (int (length (rows st2))) (event_sha256 ev) st2 of
                             (Inl e, st3) \<Rightarrow> (Inl e, st3)
                           | (Inr _, st3) \<Rightarrow> (Inr ev, st3))"

subsection \<open>Read\<close>

text \<open>\<^verbatim>\<open>ORDER BY occurred_at DESC\<close>: text order, and the later row first among equals.\<close>

definition newest_first :: "consent_event list \<Rightarrow> consent_event list" where
  "newest_first rs = rev (sort_key occurred_at rs)"

definition row_to_dict :: "consent_event \<Rightarrow> consent_event" where
  "row_to_dict r = r\<lparr>detail := Some (event_detail r)\<rparr>"

definition list_events :: "string option \<Rightarrow> string option \<Rightarrow> string option \<Rightarrow> int \<Rightarrow> 'a ledger_state_scheme
    \<Rightarrow> consent_event list result" where
  "list_events act actor since limit st =
     (if \<not> db_open st then Inl (RuntimeError ''consent.ledger not initialized'')
      else Inr (map row_to_dict (take (nat (min (max limit 1) 1000)) (newest_first
             (filter (\<lambda>r. (truthy_str act \<longrightarrow> action r = take MAX_ACTION_LEN (the act))
                        \<and> (truthy_str actor \<longrightarrow> actor_agent_id r = actor)
                        \<and> (truthy_str since \<longrightarrow> the since \<le> occurred_at r)) (rows st))))))"

subsection \<open>Verify\<close>

definition verify_row :: "nacl \<Rightarrow> string option \<Rightarrow> consent_event \<Rightarrow> (bool \<times> string) result" where
  "verify_row N key row =
     (let ev = row\<lparr>detail := Some (or_empty_obj (event_detail row)),
                   prev_sha256 := none_if_empty (str_or_empty (prev_sha256 row))\<rparr>
      in if sha256_of ev \<noteq> event_sha256 row then Inr (False, ''hash_mismatch'')
         else case verify_key_or_none N key of
           Inl e \<Rightarrow> Inl e
         | Inr None \<Rightarrow> Inr (True, ''unsigned_ledger'')
         | Inr (Some k) \<Rightarrow>
             if \<not> truthy_str (signature_b64 row) then Inr (False, ''unsigned_row'')
             else if \<not> nacl_verify N k (event_sha256 row) (the (signature_b64 row)) then Inr (False, ''bad_signature'')
             else Inr (True, ''ok''))"

datatype drift =
    Hash_Mismatch (broken_index: nat) (first_broken_at: string) (expected_sha256: string) (actual_sha256: string)
  | Prev_Mismatch (broken_index: nat) (first_broken_at: string) (expected_prev: string) (actual_prev: "string option")
  | Signature_Failed (broken_index: nat) (first_broken_at: string)
  | Checkpoint_Signature_Invalid
  | Checkpoint_Unsigned
  | Tail_Truncation (checkpoint_count: int) (actual_count: nat)
  | Head_Mismatch (checkpoint_head: string) (actual_head: string)

datatype chain_report =
    Chain_Ok (chain_length: nat) (signatures_verified: nat) (unsigned_rows: nat) (authenticated: "bool option")
  | Chain_Drift nat drift

text \<open>The loop over the rows from row \<open>i\<close> with digest \<open>prev\<close> before it: either the first drift, or
  the two counters. \<^verbatim>\<open>json.loads\<close> on a detail that is not JSON raises out of the loop.\<close>

fun verify_rows :: "nacl \<Rightarrow> string option \<Rightarrow> nat \<Rightarrow> string \<Rightarrow> nat \<Rightarrow> nat \<Rightarrow> consent_event list
    \<Rightarrow> (drift + nat \<times> nat) result" where
  "verify_rows N vk i prev sv ur [] = Inr (Inr (sv, ur))"
| "verify_rows N vk i prev sv ur (r # rs) =
     (case detail r of
        None \<Rightarrow> Inl (ValueError ''detail is not JSON'')
      | Some d \<Rightarrow>
          let link = str_or_empty (prev_sha256 r);
              ev = r\<lparr>prev_sha256 := none_if_empty (if link \<noteq> [] then link else prev)\<rparr>;
              expected = sha256_of ev
          in if expected \<noteq> event_sha256 r
             then Inr (Inl (Hash_Mismatch i (occurred_at r) expected (event_sha256 r)))
             else if link \<noteq> prev then Inr (Inl (Prev_Mismatch i (occurred_at r) prev (prev_sha256 r)))
             else case vk of
               None \<Rightarrow> verify_rows N vk (i + 1) (event_sha256 r) sv ur rs
             | Some k \<Rightarrow>
                 if \<not> truthy_str (signature_b64 r) then verify_rows N vk (i + 1) (event_sha256 r) sv (ur + 1) rs
                 else if nacl_verify N k (event_sha256 r) (the (signature_b64 r))
                 then verify_rows N vk (i + 1) (event_sha256 r) (sv + 1) ur rs
                 else Inr (Inl (Signature_Failed i (occurred_at r))))"

definition check_head_checkpoint :: "nacl \<Rightarrow> string option \<Rightarrow> nat \<Rightarrow> string \<Rightarrow> 'a ledger_state_scheme \<Rightarrow> drift option" where
  "check_head_checkpoint N vk rows_len head st =
     (case sidecar st of
        None \<Rightarrow> None
      | Some cp \<Rightarrow>
          (case cp_count cp of
             None \<Rightarrow> None
           | Some cnt \<Rightarrow>
               let hd_text = str_or_empty (cp_head cp) in
               if vk \<noteq> None \<and> truthy_str (cp_signature cp)
                  \<and> \<not> nacl_verify N (the vk) (checkpoint_message cnt hd_text) (the (cp_signature cp))
               then Some Checkpoint_Signature_Invalid
               else if vk \<noteq> None \<and> \<not> truthy_str (cp_signature cp) then Some Checkpoint_Unsigned
               else if cnt > int rows_len then Some (Tail_Truncation cnt rows_len)
               else if cnt = int rows_len \<and> hd_text \<noteq> head then Some (Head_Mismatch hd_text head)
               else None))"

definition verify_chain :: "nacl \<Rightarrow> 'a ledger_state_scheme \<Rightarrow> chain_report result" where
  "verify_chain N st =
     (if \<not> db_open st then Inl (RuntimeError ''consent.ledger not initialized'')
      else case verify_key_or_none N (signing_key st) of
        Inl e \<Rightarrow> Inl e
      | Inr vk \<Rightarrow>
          (case verify_rows N vk 0 [] 0 0 (rows st) of
             Inl e \<Rightarrow> Inl e
           | Inr (Inl d) \<Rightarrow> Inr (Chain_Drift (length (rows st)) d)
           | Inr (Inr (sv, ur)) \<Rightarrow>
               (case check_head_checkpoint N vk (length (rows st)) (last_sha (rows st)) st of
                  Some d \<Rightarrow> Inr (Chain_Drift (length (rows st)) d)
                | None \<Rightarrow> Inr (Chain_Ok (length (rows st)) sv ur
                            (if vk = None then None else Some (ur = 0))))))"

subsection \<open>Export\<close>

definition event_json :: "consent_event \<Rightarrow> json" where
  "event_json e = JObj
     [(''chapter_id'', JStr (chapter_id e)), (''actor_agent_id'', jstr_opt (actor_agent_id e)),
      (''action'', JStr (action e)), (''target_type'', jstr_opt (target_type e)),
      (''target_id'', jstr_opt (target_id e)), (''outcome'', JStr (outcome e)),
      (''detail'', event_detail e), (''occurred_at'', JStr (occurred_at e)),
      (''prev_sha256'', jstr_opt (prev_sha256 e)), (''event_sha256'', JStr (event_sha256 e)),
      (''signature_b64'', jstr_opt (signature_b64 e))]"

text \<open>The exported line's JSON value; the row's id column is left out of the model.\<close>

definition export_jsonl :: "string option \<Rightarrow> 'a ledger_state_scheme \<Rightarrow> json list result" where
  "export_jsonl since st =
     bind_res (list_events None None since 10000 st) (\<lambda>evs. Inr (map (\<lambda>e. sort_keys (event_json e)) (rev evs)))"

subsection \<open>What the canonical text binds\<close>

lemma sort_keys_jstr_opt [simp]: "sort_keys (jstr_opt x) = jstr_opt x"
  by (cases x) (simp_all add: jstr_opt_def)

lemma canonical_sorted:
  "sort_keys (canonical_json ev) = JObj
     [(''action'', JStr (action ev)),
      (''actor_agent_id'', jstr_opt (actor_agent_id ev)),
      (''chapter_id'', JStr (chapter_id ev)),
      (''detail'', sort_keys (or_empty_obj (event_detail ev))),
      (''occurred_at'', JStr (occurred_at ev)),
      (''outcome'', JStr (outcome ev)),
      (''prev_sha256'', JStr (str_or_empty (prev_sha256 ev))),
      (''target_id'', jstr_opt (target_id ev)),
      (''target_type'', jstr_opt (target_type ev))]"
  by (simp add: canonical_json_def)

definition row_link :: "consent_event \<Rightarrow> string" where
  "row_link r = str_or_empty (prev_sha256 r)"

lemma canonical_event_eq:
  "canonical_event a = canonical_event b \<longleftrightarrow>
     chapter_id a = chapter_id b \<and> actor_agent_id a = actor_agent_id b \<and> action a = action b
     \<and> target_type a = target_type b \<and> target_id a = target_id b \<and> outcome a = outcome b
     \<and> sort_keys (or_empty_obj (event_detail a)) = sort_keys (or_empty_obj (event_detail b))
     \<and> occurred_at a = occurred_at b \<and> row_link a = row_link b"
  unfolding canonical_event_def dumps_inject canonical_sorted row_link_def by auto

lemma truthy_sort_keys [simp]: "truthy (sort_keys d) = truthy d"
proof (cases d)
  case (JObj kvs)
  have "sort_key fst (map (\<lambda>kv. (fst kv, sort_keys (snd kv))) kvs) = [] \<longleftrightarrow> kvs = []"
    by (simp only: length_0_conv [symmetric] length_sort length_map)
  with JObj show ?thesis by (simp only: sort_keys.simps truthy.simps simp_thms)
qed simp_all

lemma or_empty_obj_sort_keys [simp]: "or_empty_obj (sort_keys d) = sort_keys (or_empty_obj d)"
  by (simp add: or_empty_obj_def)

lemma or_empty_obj_JObj [simp]: "or_empty_obj (JObj kvs) = JObj kvs"
  by (simp add: or_empty_obj_def)

lemma or_empty_obj_idem [simp]: "or_empty_obj (or_empty_obj d) = or_empty_obj d"
  by (simp add: or_empty_obj_def)

lemma canonical_event_upd [simp]:
  "canonical_event (r\<lparr>event_sha256 := s\<rparr>) = canonical_event r"
  "canonical_event (r\<lparr>signature_b64 := g\<rparr>) = canonical_event r"
  "canonical_event (r\<lparr>prev_sha256 := none_if_empty (str_or_empty (prev_sha256 r))\<rparr>) = canonical_event r"
  "canonical_event (r\<lparr>detail := Some (event_detail r)\<rparr>) = canonical_event r"
  "canonical_event (r\<lparr>detail := Some (or_empty_obj (event_detail r)), prev_sha256 := none_if_empty (str_or_empty (prev_sha256 r))\<rparr>) = canonical_event r"
  "detail r = Some d \<Longrightarrow> canonical_event (r\<lparr>detail := Some (sort_keys d)\<rparr>) = canonical_event r"
  by (simp_all add: canonical_event_eq row_link_def event_detail_def)

lemma sha256_of_upd [simp]:
  "sha256_of (r\<lparr>event_sha256 := s\<rparr>) = sha256_of r"
  "sha256_of (r\<lparr>signature_b64 := g\<rparr>) = sha256_of r"
  "sha256_of (r\<lparr>prev_sha256 := none_if_empty (str_or_empty (prev_sha256 r))\<rparr>) = sha256_of r"
  "sha256_of (r\<lparr>detail := Some (event_detail r)\<rparr>) = sha256_of r"
  "sha256_of (r\<lparr>detail := Some (or_empty_obj (event_detail r)), prev_sha256 := none_if_empty (str_or_empty (prev_sha256 r))\<rparr>) = sha256_of r"
  "detail r = Some d \<Longrightarrow> sha256_of (r\<lparr>detail := Some (sort_keys d)\<rparr>) = sha256_of r"
  by (simp_all add: sha256_of_def)

lemma length_sha256_of [simp]: "length (sha256_of r) = 64"
  by (simp add: sha256_of_def)

abbreviation ledger_chain :: "string \<Rightarrow> consent_event list \<Rightarrow> bool" where
  "ledger_chain \<equiv> chained event_sha256 row_link canonical_event sha256_hex"

interpretation lc: hash_chain event_sha256 row_link canonical_event sha256_hex
  by unfold_locales (simp_all add: sha256_hex_nonempty canonical_event_eq)

lemma last_sha_head: "last_sha rs = head_digest event_sha256 [] rs"
  by (simp add: last_sha_def head_digest_def)

subsection \<open>What the chain walk accepts\<close>

definition signed_by :: "nacl \<Rightarrow> string \<Rightarrow> consent_event \<Rightarrow> bool" where
  "signed_by N k r \<longleftrightarrow> truthy_str (signature_b64 r) \<and> nacl_verify N k (event_sha256 r) (the (signature_b64 r))"

definition signed_rows :: "string option \<Rightarrow> consent_event list \<Rightarrow> nat" where
  "signed_rows vk rs = (if vk = None then 0 else length (filter (\<lambda>r. truthy_str (signature_b64 r)) rs))"

definition bare_rows :: "string option \<Rightarrow> consent_event list \<Rightarrow> nat" where
  "bare_rows vk rs = (if vk = None then 0 else length (filter (\<lambda>r. \<not> truthy_str (signature_b64 r)) rs))"

definition rows_pass :: "nacl \<Rightarrow> string option \<Rightarrow> string \<Rightarrow> consent_event list \<Rightarrow> bool" where
  "rows_pass N vk p rs \<longleftrightarrow> ledger_chain p rs \<and> (\<forall>r \<in> set rs. detail r \<noteq> None)
     \<and> (\<forall>k. vk = Some k \<longrightarrow> (\<forall>r \<in> set rs. truthy_str (signature_b64 r) \<longrightarrow> signed_by N k r))"

lemma sha256_of_relinked:
  "row_link r = p \<Longrightarrow> sha256_of (r\<lparr>prev_sha256 := none_if_empty (if row_link r \<noteq> [] then row_link r else p)\<rparr>) = sha256_of r"
  using sha256_of_upd(3) [of r] by (auto simp: row_link_def)

lemma verify_rows_ok:
  "verify_rows N vk i p sv ur rs = Inr (Inr c) \<longleftrightarrow>
     rows_pass N vk p rs \<and> c = (sv + signed_rows vk rs, ur + bare_rows vk rs)"
proof (induction rs arbitrary: i p sv ur)
  case Nil
  then show ?case by (auto simp: rows_pass_def signed_rows_def bare_rows_def)
next
  case (Cons r rs)
  show ?case
  proof (cases "detail r \<noteq> None \<and> row_link r = p \<and> sha256_of r = event_sha256 r")
    case True
    then have h: "sha256_of (r\<lparr>prev_sha256 := none_if_empty (if row_link r \<noteq> [] then row_link r else p)\<rparr>) = event_sha256 r"
      using sha256_of_relinked [of r p] by simp
    show ?thesis
      using True h Cons.IH
      by (cases vk) (auto simp: rows_pass_def signed_rows_def bare_rows_def signed_by_def sha256_of_def row_link_def Let_def
            split: if_splits)
  next
    case False
    have "\<not> rows_pass N vk p (r # rs)"
      using False by (auto simp: rows_pass_def sha256_of_def)
    moreover have "verify_rows N vk i p sv ur (r # rs) \<noteq> Inr (Inr c)"
    proof
      assume a: "verify_rows N vk i p sv ur (r # rs) = Inr (Inr c)"
      then have "row_link r = p"
        by (auto simp: Let_def row_link_def split: option.splits if_splits)
      with a sha256_of_relinked [of r p] have "sha256_of r = event_sha256 r" "detail r \<noteq> None"
        by (auto simp: Let_def row_link_def split: option.splits if_splits)
      with \<open>row_link r = p\<close> False show False by simp
    qed
    ultimately show ?thesis by simp
  qed
qed

subsection \<open>What an append does\<close>

lemma new_event_facts [simp]:
  "chapter_id (new_event c a u y i t d w p) = c" "actor_agent_id (new_event c a u y i t d w p) = u"
  "action (new_event c a u y i t d w p) = take MAX_ACTION_LEN a"
  "target_type (new_event c a u y i t d w p) = none_if_empty (take 64 (str_or_empty y))"
  "target_id (new_event c a u y i t d w p) = none_if_empty (take 128 (str_or_empty i))"
  "outcome (new_event c a u y i t d w p) = t" "detail (new_event c a u y i t d w p) = Some d"
  "occurred_at (new_event c a u y i t d w p) = w" "prev_sha256 (new_event c a u y i t d w p) = none_if_empty p"
  "signature_b64 (new_event c a u y i t d w p) = None"
  by (simp_all add: new_event_def Let_def)

lemma event_sha256_new_event: "event_sha256 (new_event c a u y i t d w p) = sha256_of (new_event c a u y i t d w p)"
proof -
  have "event_sha256 (e\<lparr>event_sha256 := sha256_of e\<rparr>) = sha256_of (e\<lparr>event_sha256 := sha256_of e\<rparr>)" for e :: consent_event
    by simp
  then show ?thesis unfolding new_event_def Let_def .
qed

text \<open>The row an append stores for the event it returns.\<close>

definition stored :: "consent_event \<Rightarrow> consent_event" where
  "stored ev = ev\<lparr>detail := Some (sort_keys (event_detail ev))\<rparr>"

lemma stored_facts [simp]:
  "chapter_id (stored ev) = chapter_id ev" "actor_agent_id (stored ev) = actor_agent_id ev"
  "action (stored ev) = action ev" "target_type (stored ev) = target_type ev"
  "target_id (stored ev) = target_id ev" "outcome (stored ev) = outcome ev"
  "occurred_at (stored ev) = occurred_at ev" "prev_sha256 (stored ev) = prev_sha256 ev"
  "event_sha256 (stored ev) = event_sha256 ev" "signature_b64 (stored ev) = signature_b64 ev"
  "detail (stored ev) = Some (sort_keys (event_detail ev))"
  by (simp_all add: stored_def)

lemma canonical_event_stored [simp]: "canonical_event (stored ev) = canonical_event ev"
  by (simp add: canonical_event_eq row_link_def event_detail_def)

lemma write_checkpoint_frame:
  assumes "write_checkpoint N c h st = (res, st')"
  shows "rows st' = rows st" "signing_key st' = signing_key st" "db_open st' = db_open st"
    "db_faults st' = db_faults st" "ledger_state.more st' = ledger_state.more st"
  using assms by (auto simp: write_checkpoint_def Let_def split: if_splits sum.splits)

definition good_append :: "nacl \<Rightarrow> 'a ledger_state_scheme \<Rightarrow> consent_event \<Rightarrow> bool" where
  "good_append N st ev \<longleftrightarrow>
     event_sha256 ev = sha256_of ev \<and> row_link ev = last_sha (rows st) \<and> detail ev \<noteq> None
     \<and> sign_msg N (signing_key st) (event_sha256 ev) = Inr (signature_b64 ev)
     \<and> event_sha256 ev \<notin> event_sha256 ` set (rows st)"

text \<open>Every call either leaves the table and the sidecar alone, or appends one well-formed row and
  writes at most the checkpoint of the new table.\<close>

lemma record_event_cases:
  assumes "record_event N c a u y i t d now st = (res, st')"
  obtains (refused) e where "res = Inl e" "rows st' = rows st" "sidecar st' = sidecar st"
      "signing_key st' = signing_key st" "db_open st' = db_open st" "ledger_state.more st' = ledger_state.more st"
    | (appended) ev sg where "ev = (new_event c a u y i t (or_empty_obj d) (isoformat now) (last_sha (rows st)))\<lparr>signature_b64 := sg\<rparr>"
      "rows st' = rows st @ [stored ev]" "good_append N st ev" "db_open st"
      "signing_key st' = signing_key st" "db_open st' = db_open st" "ledger_state.more st' = ledger_state.more st"
      "fst (validate a t (or_empty_obj d))"
      "res = Inr ev \<or> (\<exists>e. res = Inl e)"
      "sidecar st' = sidecar st \<or>
       (\<exists>sg. sign_msg N (signing_key st) (checkpoint_message (int (length (rows st'))) (event_sha256 ev)) = Inr sg
          \<and> sidecar st' = Some \<lparr>cp_count = Some (int (length (rows st'))), cp_head = Some (event_sha256 ev), cp_signature = sg\<rparr>)"
proof -
  let ?ev = "new_event c a u y i t (or_empty_obj d) (isoformat now) (last_sha (rows st))"
  let ?f = "if db_faults st = [] then Db_Ok else hd (db_faults st)"
  obtain ok why where v: "validate a t (or_empty_obj d) = (ok, why)" by (cases "validate a t (or_empty_obj d)")
  show thesis
  proof (cases "ok \<and> db_open st \<and> ?f \<noteq> Busy_Before \<and> (\<exists>sg. sign_msg N (signing_key st) (event_sha256 ?ev) = Inr sg)
      \<and> event_sha256 ?ev \<notin> event_sha256 ` set (rows st)")
    case False
    with assms v have "\<exists>e. res = Inl e" "rows st' = rows st \<and> sidecar st' = sidecar st \<and> signing_key st' = signing_key st
       \<and> db_open st' = db_open st \<and> ledger_state.more st' = ledger_state.more st"
      unfolding record_event_def Let_def
      by (auto split: bool.splits if_splits sum.splits prod.splits)
    then show thesis using refused by blast
  next
    case True
    then obtain sg where sg: "sign_msg N (signing_key st) (event_sha256 ?ev) = Inr sg" by blast
    define ev where "ev = ?ev\<lparr>signature_b64 := sg\<rparr>"
    define st2 where "st2 = st\<lparr>db_faults := tl (db_faults st), rows := rows st @ [stored ev]\<rparr>"
    have row: "ev\<lparr>detail := Some (sort_keys (or_empty_obj d))\<rparr> = stored ev"
      by (simp add: stored_def ev_def event_detail_def)
    have sha: "event_sha256 ?ev = event_sha256 ev" by (simp add: ev_def)
    have g: "good_append N st ev"
      using True sg by (simp add: good_append_def ev_def row_link_def event_sha256_new_event)
    have rec: "record_event N c a u y i t d now st =
       (if ?f = Busy_After then (Inl OperationalError, st2)
        else case write_checkpoint N (int (length (rows st2))) (event_sha256 ev) st2 of
               (Inl e, st3) \<Rightarrow> (Inl e, st3) | (Inr _, st3) \<Rightarrow> (Inr ev, st3))"
      using True sg v row by (simp add: record_event_def Let_def ev_def [symmetric] sha st2_def)
    consider "res = Inl OperationalError" "st' = st2"
      | x where "write_checkpoint N (int (length (rows st2))) (event_sha256 ev) st2 = (x, st')"
        "res = (case x of Inl e \<Rightarrow> Inl e | Inr _ \<Rightarrow> Inr ev)"
      using assms [unfolded rec] by (auto split: if_splits prod.splits sum.splits)
    then have "(rows st' = rows st2 \<and> signing_key st' = signing_key st2 \<and> db_open st' = db_open st2
        \<and> ledger_state.more st' = ledger_state.more st2) \<and> (res = Inr ev \<or> (\<exists>e. res = Inl e))
        \<and> (sidecar st' = sidecar st2 \<or>
       (\<exists>sg. sign_msg N (signing_key st2) (checkpoint_message (int (length (rows st2))) (event_sha256 ev)) = Inr sg
          \<and> sidecar st' = Some \<lparr>cp_count = Some (int (length (rows st2))), cp_head = Some (event_sha256 ev), cp_signature = sg\<rparr>))"
    proof cases
      case (2 x)
      from write_checkpoint_frame [OF 2(1)] 2 show ?thesis
        by (auto simp: write_checkpoint_def Let_def split: if_splits sum.splits)
    qed simp
    moreover have "signing_key st2 = signing_key st" "sidecar st2 = sidecar st" "rows st2 = rows st @ [stored ev]"
      "db_open st2 = db_open st" "ledger_state.more st2 = ledger_state.more st"
      by (simp_all add: st2_def)
    ultimately show thesis
      using True g v appended [of ev sg] ev_def by auto
  qed
qed

subsection \<open>Reachable ledgers verify\<close>

text \<open>The part of \<^verbatim>\<open>init\<close> that concerns this module: a call without a key keeps the one in use.\<close>

definition open_ledger :: "string option \<Rightarrow> 'a ledger_state_scheme \<Rightarrow> 'a ledger_state_scheme" where
  "open_ledger key st = st\<lparr>db_open := True, signing_key := (if key = None then signing_key st else key)\<rparr>"

inductive ledger_reachable :: "nacl \<Rightarrow> string option \<Rightarrow> 'a ledger_state_scheme \<Rightarrow> bool" for N key where
  init_fresh: "rows st = [] \<Longrightarrow> sidecar st = None \<Longrightarrow> signing_key st = None \<Longrightarrow> ledger_reachable N key (open_ledger key st)"
| init_again: "ledger_reachable N key st \<Longrightarrow> key' = None \<or> key' = key \<Longrightarrow> ledger_reachable N key (open_ledger key' st)"
| append: "ledger_reachable N key st \<Longrightarrow> record_event N c a u y i t d now st = (res, st') \<Longrightarrow> ledger_reachable N key st'"

definition row_signed :: "nacl \<Rightarrow> string option \<Rightarrow> consent_event \<Rightarrow> bool" where
  "row_signed N key r \<longleftrightarrow> signature_b64 r = map_option (\<lambda>k. nacl_sign N k (event_sha256 r)) key"

definition checkpoint_ok :: "nacl \<Rightarrow> string option \<Rightarrow> consent_event list \<Rightarrow> checkpoint option \<Rightarrow> bool" where
  "checkpoint_ok N key rs cp \<longleftrightarrow> (case cp of None \<Rightarrow> True | Some c \<Rightarrow>
     (\<exists>n \<le> length rs. c = \<lparr>cp_count = Some (int n), cp_head = Some (last_sha (take n rs)),
        cp_signature = map_option (\<lambda>k. nacl_sign N k (checkpoint_message (int n) (last_sha (take n rs)))) key\<rparr>))"

definition ledger_inv :: "nacl \<Rightarrow> string option \<Rightarrow> 'a ledger_state_scheme \<Rightarrow> bool" where
  "ledger_inv N key st \<longleftrightarrow> db_open st \<and> signing_key st = key \<and> ledger_chain [] (rows st)
     \<and> (\<forall>r \<in> set (rows st). detail r \<noteq> None \<and> row_signed N key r)
     \<and> checkpoint_ok N key (rows st) (sidecar st)"

lemma sign_msg_ok:
  "sign_msg N key m = Inr sg \<Longrightarrow> sg = map_option (\<lambda>k. nacl_sign N k m) key"
  by (auto simp: sign_msg_def split: option.splits if_splits)

lemma checkpoint_ok_append: "checkpoint_ok N key rs cp \<Longrightarrow> checkpoint_ok N key (rs @ [r]) cp"
  by (fastforce simp: checkpoint_ok_def split: option.splits)

lemma checkpoint_ok_head:
  "checkpoint_ok N key (rs @ [r]) (Some \<lparr>cp_count = Some (int (length (rs @ [r]))), cp_head = Some (event_sha256 r),
     cp_signature = map_option (\<lambda>k. nacl_sign N k (checkpoint_message (int (length (rs @ [r]))) (event_sha256 r))) key\<rparr>)"
  by (auto simp: checkpoint_ok_def last_sha_def intro!: exI [of _ "Suc (length rs)"])

lemma ledger_chain_append:
  "ledger_chain [] rs \<Longrightarrow> good_append N st ev \<Longrightarrow> rows st = rs \<Longrightarrow> ledger_chain [] (rs @ [stored ev])"
  by (simp add: lc.chain_snoc good_append_def last_sha_head [symmetric] row_link_def sha256_of_def)

lemma ledger_inv_record:
  assumes "ledger_inv N key st" "record_event N c a u y i t d now st = (res, st')"
  shows "ledger_inv N key st'"
  using assms(2)
proof (cases rule: record_event_cases)
  case (refused e)
  with assms(1) show ?thesis by (simp add: ledger_inv_def)
next
  case (appended ev sg)
  have key: "signing_key st = key" and cp: "checkpoint_ok N key (rows st) (sidecar st)"
    using assms(1) by (simp_all add: ledger_inv_def)
  have sig: "signature_b64 ev = map_option (\<lambda>k. nacl_sign N k (event_sha256 ev)) key"
    using appended(3) key by (auto simp: good_append_def dest: sign_msg_ok)
  from appended(10) have "checkpoint_ok N key (rows st @ [stored ev]) (sidecar st')"
  proof (elim disjE exE conjE)
    assume "sidecar st' = sidecar st"
    with cp show ?thesis by (simp add: checkpoint_ok_append)
  next
    fix sg'
    assume "sign_msg N (signing_key st) (checkpoint_message (int (length (rows st'))) (event_sha256 ev)) = Inr sg'"
      "sidecar st' = Some \<lparr>cp_count = Some (int (length (rows st'))), cp_head = Some (event_sha256 ev), cp_signature = sg'\<rparr>"
    with sign_msg_ok checkpoint_ok_head [of N key "rows st" "stored ev"] show ?thesis
      by (fastforce simp: appended(2) key)
  qed
  with assms(1) appended sig ledger_chain_append [OF _ appended(3) refl] show ?thesis
    by (auto simp: ledger_inv_def row_signed_def)
qed

lemma ledger_reachable_inv: "ledger_reachable N key st \<Longrightarrow> ledger_inv N key st"
proof (induction rule: ledger_reachable.induct)
  case (init_fresh st)
  then show ?case by (simp add: ledger_inv_def open_ledger_def checkpoint_ok_def)
next
  case (init_again st key')
  then show ?case by (auto simp: ledger_inv_def open_ledger_def)
next
  case (append st c a u y i t d now res st')
  then show ?case using ledger_inv_record by blast
qed

lemma row_signed_by: "row_signed N (Some k) r \<Longrightarrow> nacl_correct N k \<Longrightarrow> signed_by N k r"
  by (simp add: row_signed_def nacl_correct_def signed_by_def)

lemma last_sha_take_all [simp]: "last_sha (take (length rs) rs) = last_sha rs"
  by simp

lemma checkpoint_ok_check:
  assumes "checkpoint_ok N key (rows st) (sidecar st)" "\<forall>k. key = Some k \<longrightarrow> nacl_correct N k"
  shows "check_head_checkpoint N key (length (rows st)) (last_sha (rows st)) st = None"
  using assms
  by (cases key) (auto simp: checkpoint_ok_def check_head_checkpoint_def nacl_correct_def Let_def split: option.splits)

lemma ledger_inv_rows_pass:
  assumes "ledger_inv N key st" "\<forall>k. key = Some k \<longrightarrow> nacl_correct N k"
  shows "rows_pass N key [] (rows st)"
  using assms row_signed_by by (fastforce simp: ledger_inv_def rows_pass_def)

lemma ledger_inv_counts:
  assumes "ledger_inv N key st" "\<forall>k. key = Some k \<longrightarrow> nacl_correct N k"
  shows "signed_rows key (rows st) = (if key = None then 0 else length (rows st))" "bare_rows key (rows st) = 0"
proof -
  have "truthy_str (signature_b64 r)" if "key = Some k" "r \<in> set (rows st)" for k r
    using assms that row_signed_by [of N k r] by (auto simp: ledger_inv_def signed_by_def)
  then show "signed_rows key (rows st) = (if key = None then 0 else length (rows st))" "bare_rows key (rows st) = 0"
    by (auto simp: signed_rows_def bare_rows_def filter_id_conv)
qed

lemma ledger_inv_verifies:
  assumes "ledger_inv N key st" "\<forall>k. key = Some k \<longrightarrow> nacl_correct N k"
  shows "verify_chain N st = Inr (Chain_Ok (length (rows st)) (if key = None then 0 else length (rows st)) 0
           (if key = None then None else Some True))"
proof -
  note inv = assms(1)
  have vk: "verify_key_or_none N (signing_key st) = Inr key"
    using inv assms(2) by (cases key) (auto simp: verify_key_or_none_def ledger_inv_def nacl_correct_def)
  have "verify_rows N key 0 [] 0 0 (rows st) = Inr (Inr (if key = None then 0 else length (rows st), 0))"
    using ledger_inv_rows_pass [OF inv assms(2)] ledger_inv_counts [OF inv assms(2)] by (simp add: verify_rows_ok)
  moreover have "check_head_checkpoint N key (length (rows st)) (last_sha (rows st)) st = None"
    using inv assms(2) by (intro checkpoint_ok_check) (simp_all add: ledger_inv_def)
  ultimately show ?thesis using inv vk by (auto simp: verify_chain_def ledger_inv_def)
qed

text \<open>C3: whatever sequence of appends and re-initialisations the process has gone through, with
  whatever refused calls, failed inserts and missed checkpoints in between, the chain verification reports
  success, counts every row as signed and calls the ledger authenticated exactly when it has a key.\<close>

theorem reachable_ledger_verifies:
  assumes "ledger_reachable N key st" "\<forall>k. key = Some k \<longrightarrow> nacl_correct N k"
  shows "verify_chain N st = Inr (Chain_Ok (length (rows st)) (if key = None then 0 else length (rows st)) 0
           (if key = None then None else Some True))"
  using ledger_inv_verifies [OF ledger_reachable_inv [OF assms(1)] assms(2)] .

text \<open>A first start of the process, and a stand-in for PyNaCl under which concrete cases evaluate.\<close>

definition fresh_ledger :: ledger_state where
  "fresh_ledger = \<lparr>db_open = False, signing_key = None, rows = [], sidecar = None, db_faults = [], cp_faults = []\<rparr>"

definition tag_nacl :: nacl where
  "tag_nacl = \<lparr>nacl_installed = True, nacl_key_ok = (\<lambda>k. k \<noteq> []), nacl_sign = (\<lambda>k m. k @ CHR '':'' # m),
               nacl_verify = (\<lambda>k m s. s = k @ CHR '':'' # m)\<rparr>"

lemma tag_nacl_correct: "k \<noteq> [] \<Longrightarrow> nacl_correct tag_nacl k"
  by (simp add: nacl_correct_def tag_nacl_def)

lemma fresh_reachable: "ledger_reachable N key (open_ledger key fresh_ledger)"
  by (rule ledger_reachable.init_fresh) (simp_all add: fresh_ledger_def)

theorem reachable_ledger_verifies_witness:
  "let st = snd (record_event tag_nacl ''c'' ''consent.prompt'' None None None ''deferred'' (JObj []) 5
                   (open_ledger (Some ''k'') fresh_ledger))
   in verify_chain tag_nacl st = Inr (Chain_Ok (length (rows st)) (length (rows st)) 0 (Some True))"
proof -
  let ?r = "record_event tag_nacl ''c'' ''consent.prompt'' None None None ''deferred'' (JObj []) 5
              (open_ledger (Some ''k'') fresh_ledger)"
  have "ledger_reachable tag_nacl (Some ''k'') (snd ?r)"
    by (rule ledger_reachable.append [OF fresh_reachable, of _ _ _ _ _ _ _ _ _ _ "fst ?r"]) simp
  from reachable_ledger_verifies [OF this] tag_nacl_correct show ?thesis by (simp add: Let_def)
qed

subsection \<open>Tampering shows\<close>

definition same_content :: "consent_event \<Rightarrow> consent_event \<Rightarrow> bool" where
  "same_content a b \<longleftrightarrow>
     chapter_id a = chapter_id b \<and> actor_agent_id a = actor_agent_id b \<and> action a = action b
     \<and> target_type a = target_type b \<and> target_id a = target_id b \<and> outcome a = outcome b
     \<and> sort_keys (or_empty_obj (event_detail a)) = sort_keys (or_empty_obj (event_detail b))
     \<and> occurred_at a = occurred_at b \<and> row_link a = row_link b"

lemma verify_chain_okD:
  assumes "verify_chain N st = Inr (Chain_Ok n sv ur au)"
  obtains vk where "verify_key_or_none N (signing_key st) = Inr vk" "rows_pass N vk [] (rows st)"
    "n = length (rows st)" "ur = bare_rows vk (rows st)" "au = (if vk = None then None else Some (ur = 0))"
  using assms
  by (auto simp: verify_chain_def verify_rows_ok split: if_splits sum.splits option.splits prod.splits)

text \<open>C4: two ledgers that both verify and end in the same row digest hold the same rows in the same
  order, field for field, unless SHA-256 collides on two of their canonical texts. So no edit, insertion,
  removal or reordering below a known head passes verification.\<close>

theorem verified_chains_agree:
  assumes "verify_chain N st = Inr (Chain_Ok n sv ur au)" "verify_chain N' st' = Inr (Chain_Ok n' sv' ur' au')"
    and "last_sha (rows st) = last_sha (rows st')"
  shows "list_all2 same_content (rows st) (rows st')
         \<or> collision_between sha256_hex (canonical_event ` set (rows st)) (canonical_event ` set (rows st'))"
proof -
  have "ledger_chain [] (rows st)" "ledger_chain [] (rows st')"
    using assms(1,2) by (auto elim!: verify_chain_okD simp: rows_pass_def)
  from lc.same_head_same_rows [OF this] assms(3)
  have "map canonical_event (rows st) = map canonical_event (rows st')
    \<or> collision_between sha256_hex (canonical_event ` set (rows st)) (canonical_event ` set (rows st'))"
    by (simp add: last_sha_head)
  then show ?thesis by (simp add: map_eq_list_all2 canonical_event_eq same_content_def [abs_def])
qed

theorem verified_chains_agree_witness:
  "verify_chain tag_nacl (open_ledger (Some ''k'') fresh_ledger) = Inr (Chain_Ok 0 0 0 (Some True))
   \<and> (list_all2 same_content (rows (open_ledger (Some ''k'') fresh_ledger)) (rows (open_ledger None fresh_ledger))
      \<or> collision_between sha256_hex (canonical_event ` set (rows (open_ledger (Some ''k'') fresh_ledger)))
          (canonical_event ` set (rows (open_ledger None fresh_ledger))))"
proof -
  have v: "verify_chain tag_nacl (open_ledger (Some ''k'') fresh_ledger) = Inr (Chain_Ok 0 0 0 (Some True))"
    "verify_chain tag_nacl (open_ledger None fresh_ledger) = Inr (Chain_Ok 0 0 0 None)"
    by (simp_all add: verify_chain_def verify_key_or_none_def open_ledger_def fresh_ledger_def tag_nacl_def
        check_head_checkpoint_def)
  have "last_sha (rows (open_ledger (Some ''k'') fresh_ledger)) = last_sha (rows (open_ledger None fresh_ledger))"
    by (simp add: open_ledger_def fresh_ledger_def)
  from verified_chains_agree [OF v this] v show ?thesis by simp
qed

lemma record_event_checkpoints:
  assumes "record_event N c a u y i t d now st = (Inr ev, st')" "cp_faults st = [] \<or> \<not> hd (cp_faults st)"
  shows "\<exists>sg. sidecar st' = Some \<lparr>cp_count = Some (int (length (rows st'))), cp_head = Some (event_sha256 ev), cp_signature = sg\<rparr>"
  using assms
  by (auto simp: record_event_def write_checkpoint_def Let_def split: if_splits sum.splits prod.splits bool.splits)

lemma rows_pass_take: "rows_pass N vk p rs \<Longrightarrow> rows_pass N vk p (take n rs)"
  by (auto simp: rows_pass_def intro: chained_take dest: in_set_takeD)

text \<open>Rows cut off the end are reported. After any append that wrote its checkpoint, a table
  cut back to fewer rows, however many, verifies as a tail truncation with both counts.\<close>

theorem truncation_detected:
  assumes "ledger_reachable N (Some k) st" "nacl_correct N k"
    and "record_event N c a u y i t d now st = (Inr ev, st')" "cp_faults st = [] \<or> \<not> hd (cp_faults st)"
    and "m < length (rows st')"
  shows "verify_chain N (st'\<lparr>rows := take m (rows st')\<rparr>)
         = Inr (Chain_Drift m (Tail_Truncation (int (length (rows st'))) m))"
proof -
  have "ledger_reachable N (Some k) st'" using assms(1,3) by (rule ledger_reachable.append)
  then have inv: "ledger_inv N (Some k) st'" by (rule ledger_reachable_inv)
  obtain sg where cp: "sidecar st' = Some \<lparr>cp_count = Some (int (length (rows st'))), cp_head = Some (event_sha256 ev), cp_signature = sg\<rparr>"
    using record_event_checkpoints [OF assms(3,4)] by blast
  have sg: "sg = Some (nacl_sign N k (checkpoint_message (int (length (rows st'))) (event_sha256 ev)))"
    using inv cp by (auto simp: ledger_inv_def checkpoint_ok_def)
  let ?st = "st'\<lparr>rows := take m (rows st')\<rparr>"
  have "rows_pass N (Some k) [] (take m (rows st'))"
    using ledger_inv_rows_pass [OF inv] assms(2) by (auto intro: rows_pass_take)
  then obtain cs where "verify_rows N (Some k) 0 [] 0 0 (rows ?st) = Inr (Inr cs)"
    by (auto simp: verify_rows_ok)
  moreover have "check_head_checkpoint N (Some k) m (last_sha (rows ?st)) ?st = Some (Tail_Truncation (int (length (rows st'))) m)"
    using assms(2,5) cp sg by (simp add: check_head_checkpoint_def nacl_correct_def)
  moreover have "verify_key_or_none N (signing_key ?st) = Inr (Some k)"
    using inv assms(2) by (simp add: verify_key_or_none_def ledger_inv_def nacl_correct_def)
  ultimately show ?thesis using inv assms(5) by (cases cs) (simp add: verify_chain_def ledger_inv_def min_def)
qed

lemma record_event_succeeds:
  assumes "fst (validate a t (or_empty_obj d))" "db_open st" "db_faults st = []"
    and "\<forall>k. signing_key st = Some k \<longrightarrow> nacl_installed N \<and> nacl_key_ok N k"
    and "event_sha256 (new_event c a u y i t (or_empty_obj d) (isoformat now) (last_sha (rows st)))
           \<notin> event_sha256 ` set (rows st)"
  shows "\<exists>ev. fst (record_event N c a u y i t d now st) = Inr ev"
proof -
  obtain why where v: "validate a t (or_empty_obj d) = (True, why)"
    using assms(1) by (cases "validate a t (or_empty_obj d)") auto
  have s: "\<exists>sg. sign_msg N (signing_key st) m = Inr sg" for m
    using assms(4) by (auto simp: sign_msg_def split: option.splits)
  show ?thesis
    using assms(2,3,5) v s
    by (auto simp: record_event_def write_checkpoint_def Let_def split: sum.splits prod.splits) (metis Inl_Inr_False)+
qed

theorem truncation_detected_witness:
  "let r = record_event tag_nacl ''c'' ''consent.prompt'' None None None ''deferred'' (JObj []) 5
             (open_ledger (Some ''k'') fresh_ledger)
   in (\<exists>ev. fst r = Inr ev) \<and> rows (snd r) \<noteq> []
      \<and> verify_chain tag_nacl ((snd r)\<lparr>rows := take 0 (rows (snd r))\<rparr>)
        = Inr (Chain_Drift 0 (Tail_Truncation (int (length (rows (snd r)))) 0))"
proof -
  let ?st = "open_ledger (Some ''k'') fresh_ledger"
  let ?r = "record_event tag_nacl ''c'' ''consent.prompt'' None None None ''deferred'' (JObj []) 5 ?st"
  have "\<exists>ev. fst ?r = Inr ev"
    by (rule record_event_succeeds)
      (simp_all add: validate_def VALID_OUTCOMES_def MAX_ACTION_LEN_def MAX_DETAIL_BYTES_def or_empty_obj_def dumps_len_def
        open_ledger_def fresh_ledger_def tag_nacl_def)
  then obtain ev st' where r: "?r = (Inr ev, st')" by (metis prod.collapse)
  then have "rows st' \<noteq> []" by (cases rule: record_event_cases) auto
  moreover have "cp_faults ?st = [] \<or> \<not> hd (cp_faults ?st)" by (simp add: open_ledger_def fresh_ledger_def)
  ultimately show ?thesis
    using truncation_detected [OF fresh_reachable tag_nacl_correct r, of 0] r by (simp add: Let_def)
qed

text \<open>A report that says authenticated is right: the ledger has a key and every row carries a
  signature that verifies under it.\<close>

theorem authenticated_rows_are_signed:
  assumes "verify_chain N st = Inr (Chain_Ok n sv ur (Some True))"
  shows "\<exists>k. signing_key st = Some k \<and> (\<forall>r \<in> set (rows st). signed_by N k r \<and> event_sha256 r = sha256_of r)"
  using assms
proof (rule verify_chain_okD)
  fix vk
  assume a: "verify_key_or_none N (signing_key st) = Inr vk" "rows_pass N vk [] (rows st)" "ur = bare_rows vk (rows st)"
    "Some True = (if vk = None then None else Some (ur = 0))"
  then obtain k where vk: "vk = Some k" "ur = 0" by (cases vk) auto
  with a(3) have "\<forall>r \<in> set (rows st). truthy_str (signature_b64 r)"
    by (auto simp: bare_rows_def filter_empty_conv)
  with a(2) vk have "\<forall>r \<in> set (rows st). signed_by N k r \<and> event_sha256 r = sha256_of r"
    by (auto simp: rows_pass_def sha256_of_def dest: chained_dig)
  moreover have "signing_key st = Some k"
    using a(1) vk by (auto simp: verify_key_or_none_def split: option.splits if_splits)
  ultimately show ?thesis by blast
qed

theorem authenticated_rows_are_signed_witness:
  "\<exists>k. signing_key (open_ledger (Some ''k'') fresh_ledger) = Some k
     \<and> (\<forall>r \<in> set (rows (open_ledger (Some ''k'') fresh_ledger)). signed_by tag_nacl k r \<and> event_sha256 r = sha256_of r)"
proof -
  have "verify_chain tag_nacl (open_ledger (Some ''k'') fresh_ledger) = Inr (Chain_Ok 0 0 0 (Some True))"
    by (simp add: verify_chain_def verify_key_or_none_def open_ledger_def fresh_ledger_def tag_nacl_def
        check_head_checkpoint_def)
  from authenticated_rows_are_signed [OF this] show ?thesis .
qed

text \<open>A ledger that ran without a key and is then given one does not verify until its next append:
  the walk passes, but the sidecar written without a key is reported as an unsigned checkpoint.\<close>

theorem keyed_later_reports_unsigned_checkpoint:
  assumes "ledger_reachable N None st" "nacl_correct N k"
    and "record_event N c a u y i t d now st = (Inr ev, st')" "cp_faults st = [] \<or> \<not> hd (cp_faults st)"
  shows "verify_chain N (open_ledger (Some k) st') = Inr (Chain_Drift (length (rows st')) Checkpoint_Unsigned)"
proof -
  have "ledger_reachable N None st'" using assms(1,3) by (rule ledger_reachable.append)
  then have inv: "ledger_inv N None st'" by (rule ledger_reachable_inv)
  obtain sg where cp: "sidecar st' = Some \<lparr>cp_count = Some (int (length (rows st'))), cp_head = Some (event_sha256 ev), cp_signature = sg\<rparr>"
    using record_event_checkpoints [OF assms(3,4)] by blast
  have "sg = None" using inv cp by (auto simp: ledger_inv_def checkpoint_ok_def)
  let ?st = "open_ledger (Some k) st'"
  have "rows_pass N (Some k) [] (rows ?st)"
    using inv by (auto simp: ledger_inv_def rows_pass_def row_signed_def open_ledger_def)
  then obtain cs where "verify_rows N (Some k) 0 [] 0 0 (rows ?st) = Inr (Inr cs)"
    by (auto simp: verify_rows_ok)
  moreover have "check_head_checkpoint N (Some k) (length (rows ?st)) (last_sha (rows ?st)) ?st = Some Checkpoint_Unsigned"
    using cp \<open>sg = None\<close> by (simp add: check_head_checkpoint_def open_ledger_def)
  ultimately show ?thesis
    using assms(2) by (cases cs) (simp add: verify_chain_def verify_key_or_none_def open_ledger_def nacl_correct_def)
qed

theorem keyed_later_reports_unsigned_checkpoint_witness:
  "let st = snd (record_event tag_nacl ''c'' ''consent.prompt'' None None None ''deferred'' (JObj []) 5
                   (open_ledger None fresh_ledger))
   in verify_chain tag_nacl (open_ledger (Some ''k'') st) = Inr (Chain_Drift (length (rows st)) Checkpoint_Unsigned)"
proof -
  let ?st = "open_ledger None fresh_ledger"
  let ?r = "record_event tag_nacl ''c'' ''consent.prompt'' None None None ''deferred'' (JObj []) 5 ?st"
  have "\<exists>ev. fst ?r = Inr ev"
    by (rule record_event_succeeds)
      (simp_all add: validate_def VALID_OUTCOMES_def MAX_ACTION_LEN_def MAX_DETAIL_BYTES_def or_empty_obj_def dumps_len_def
        open_ledger_def fresh_ledger_def tag_nacl_def)
  then obtain ev st' where r: "?r = (Inr ev, st')" by (metis prod.collapse)
  have "cp_faults ?st = [] \<or> \<not> hd (cp_faults ?st)" by (simp add: open_ledger_def fresh_ledger_def)
  with keyed_later_reports_unsigned_checkpoint [OF fresh_reachable tag_nacl_correct r] r
  show ?thesis by (simp add: Let_def)
qed

text \<open>The export is not the whole ledger: past a thousand rows it returns the newest thousand,
  although it asks for ten thousand.\<close>

theorem export_jsonl_caps_at_1000:
  assumes "db_open st" "1000 < length (rows st)"
  shows "\<exists>xs. export_jsonl None st = Inr xs \<and> length xs = 1000"
  using assms by (simp add: export_jsonl_def list_events_def newest_first_def)

theorem export_jsonl_caps_at_1000_witness:
  "\<exists>xs. export_jsonl None (fresh_ledger\<lparr>db_open := True,
           rows := replicate 1001 (new_event ''c'' ''a'' None None None ''ok'' (JObj []) ''t'' [])\<rparr>) = Inr xs \<and> length xs = 1000"
  by (rule export_jsonl_caps_at_1000) simp_all

subsection \<open>Lookups and single rows\<close>

lemma row_to_dict_facts [simp]:
  "chapter_id (row_to_dict r) = chapter_id r" "action (row_to_dict r) = action r"
  "actor_agent_id (row_to_dict r) = actor_agent_id r"
  "occurred_at (row_to_dict r) = occurred_at r" "event_sha256 (row_to_dict r) = event_sha256 r"
  "signature_b64 (row_to_dict r) = signature_b64 r" "event_detail (row_to_dict r) = event_detail r"
  "prev_sha256 (row_to_dict r) = prev_sha256 r"
  by (simp_all add: row_to_dict_def event_detail_def)

lemma sha256_of_row_to_dict [simp]: "sha256_of (row_to_dict r) = sha256_of r"
  unfolding row_to_dict_def by (rule sha256_of_upd)

text \<open>A lookup by action that is under the limit returns exactly the matching rows.\<close>

definition rows_of :: "string \<Rightarrow> 'a ledger_state_scheme \<Rightarrow> consent_event list" where
  "rows_of act st = filter (\<lambda>r. action r = act) (rows st)"

definition short_action :: "string \<Rightarrow> bool" where
  "short_action act \<longleftrightarrow> act \<noteq> [] \<and> length act \<le> MAX_ACTION_LEN"

lemma set_newest_first [simp]: "set (newest_first rs) = set rs"
  by (simp add: newest_first_def)

lemma length_newest_first [simp]: "length (newest_first rs) = length rs"
  by (simp add: newest_first_def)

lemma list_events_action:
  assumes "db_open st" "short_action act"
  shows "list_events (Some act) None None limit st
         = Inr (map row_to_dict (take (nat (min (max limit 1) 1000)) (newest_first (rows_of act st))))"
  using assms by (simp add: list_events_def rows_of_def short_action_def)

lemma list_events_subset:
  assumes "list_events (Some act) None None limit st = Inr evs" "short_action act" "ev \<in> set evs"
  shows "\<exists>r \<in> set (rows st). action r = act \<and> ev = row_to_dict r"
proof -
  from assms(1) have "db_open st" by (simp add: list_events_def split: if_splits)
  with assms list_events_action [of st act limit]
  have "ev \<in> row_to_dict ` set (take (nat (min (max limit 1) 1000)) (newest_first (rows_of act st)))" by auto
  then obtain r where "r \<in> set (newest_first (rows_of act st))" "ev = row_to_dict r"
    by (auto dest: in_set_takeD)
  then show ?thesis by (auto simp: rows_of_def)
qed

lemma list_events_all:
  assumes "db_open st" "short_action act" "int (length (rows_of act st)) \<le> limit" "limit \<le> 1000"
  shows "\<exists>evs. list_events (Some act) None None limit st = Inr evs \<and> set evs = row_to_dict ` set (rows_of act st)"
  using assms list_events_action [OF assms(1,2), of limit] by simp

lemma verify_row_sound:
  assumes "verify_row N (Some k) r = Inr (True, why)" "nacl_installed N"
  shows "signed_by N k r \<and> event_sha256 r = sha256_of r"
  using assms by (auto simp: verify_row_def verify_key_or_none_def signed_by_def Let_def split: if_splits option.splits)

lemma verify_row_integrity: "verify_row N key r = Inr (True, why) \<Longrightarrow> event_sha256 r = sha256_of r"
  by (auto simp: verify_row_def Let_def split: if_splits)

lemma verify_row_accepts:
  assumes "event_sha256 r = sha256_of r" "row_signed N key r" "\<forall>k. key = Some k \<longrightarrow> nacl_correct N k"
  shows "\<exists>why. verify_row N key (row_to_dict r) = Inr (True, why)"
proof -
  have "sha256_of (row_to_dict r\<lparr>detail := Some (or_empty_obj (event_detail (row_to_dict r))),
      prev_sha256 := none_if_empty (str_or_empty (prev_sha256 (row_to_dict r)))\<rparr>) = sha256_of (row_to_dict r)"
    by (rule sha256_of_upd)
  with assms show ?thesis
    by (cases key) (auto simp: verify_row_def verify_key_or_none_def row_signed_def nacl_correct_def Let_def)
qed

subsection \<open>Appends without faults\<close>

lemma write_checkpoint_result:
  "\<forall>k. signing_key st = Some k \<longrightarrow> nacl_installed N \<and> nacl_key_ok N k \<Longrightarrow> fst (write_checkpoint N c h st) = Inr ()"
  by (auto simp: write_checkpoint_def sign_msg_def Let_def split: option.splits)

lemma record_event_no_fault:
  assumes "fst (validate a t (or_empty_obj d))" "db_open st" "db_faults st = []"
    and "\<forall>k. signing_key st = Some k \<longrightarrow> nacl_installed N \<and> nacl_key_ok N k"
  shows "(\<exists>ev. fst (record_event N c a u y i t d now st) = Inr ev) \<and> db_faults (snd (record_event N c a u y i t d now st)) = []
    \<or> record_event N c a u y i t d now st = (Inl IntegrityError, st)"
proof (cases "event_sha256 (new_event c a u y i t (or_empty_obj d) (isoformat now) (last_sha (rows st))) \<in> event_sha256 ` set (rows st)")
  case True
  obtain why where "validate a t (or_empty_obj d) = (True, why)"
    using assms(1) by (cases "validate a t (or_empty_obj d)") auto
  moreover have "\<exists>sg. sign_msg N (signing_key st) m = Inr sg" for m
    using assms(4) by (auto simp: sign_msg_def split: option.splits)
  moreover have "st\<lparr>db_faults := []\<rparr> = st" using assms(3) by (cases st) simp
  ultimately show ?thesis
    using assms(2,3) True by (auto simp: record_event_def Let_def split: sum.splits) (metis Inl_Inr_False)
next
  case False
  from record_event_succeeds [OF assms False] obtain ev where ev: "fst (record_event N c a u y i t d now st) = Inr ev" by blast
  then have "db_faults (snd (record_event N c a u y i t d now st)) = tl (db_faults st)"
    by (auto simp: record_event_def Let_def split: bool.splits if_splits sum.splits prod.splits
        dest!: write_checkpoint_frame(4))
  with ev assms(3) show ?thesis by simp
qed

end
