(* ===== verification/Chapter_Audit.thy ===== *)
theory Chapter_Audit
  imports Consent_Ledger Pg_Store
begin

text \<open>
  The chapter's audit log of \<^verbatim>\<open>server/chapter_audit.py\<close>: a Postgres table of hash-chained rows, one chain per chapter. The
  table is the list of rows in insertion order; \<open>pg_time\<close> stands for Postgres' reading of a timestamp and orders the rows; every
  request takes one entry of \<open>pg_faults\<close>, and a failed one returns nothing, as \<^verbatim>\<open>pg_request\<close> does. \<^verbatim>\<open>record\<close> reads the tip and
  inserts in two requests, so the two halves are separate definitions that a schedule may interleave.

  Shown: one record at a time on an advancing clock keeps every chapter's chain verifiable; the verdict is that of the device's
  ledger on the same rows; two overlapping records, or a tip that could not be read, leave a chain that never verifies again.
\<close>

subsection \<open>State\<close>

record audit_state =
  audit_ready :: bool
  audit_rows :: "consent_event list"
  pg_faults :: "bool list"

definition AUDIT_MAX_DETAIL_BYTES :: nat where "AUDIT_MAX_DETAIL_BYTES = 32 * 1024"
definition AUDIT_MAX_ACTION_LEN :: nat where "AUDIT_MAX_ACTION_LEN = 64"
definition AUDIT_VALID_OUTCOMES :: "string list" where "AUDIT_VALID_OUTCOMES = [''ok'', ''fail'', ''denied'']"

definition audit_canonical_event :: "consent_event \<Rightarrow> string" where
  "audit_canonical_event ev = dumps (sort_keys (JObj
     [(''chapter_id'', JStr (chapter_id ev)),
      (''actor_agent_id'', jstr_opt (actor_agent_id ev)),
      (''action'', JStr (action ev)),
      (''target_type'', jstr_opt (target_type ev)),
      (''target_id'', jstr_opt (target_id ev)),
      (''outcome'', JStr (outcome ev)),
      (''detail'', or_empty_obj (event_detail ev)),
      (''occurred_at'', JStr (occurred_at ev)),
      (''prev_sha256'', JStr (str_or_empty (prev_sha256 ev)))]))"

definition audit_sha256_of :: "consent_event \<Rightarrow> string" where
  "audit_sha256_of ev = sha256_hex (audit_canonical_event ev)"

definition audit_validate :: "string \<Rightarrow> string \<Rightarrow> json \<Rightarrow> bool \<times> string" where
  "audit_validate act outc det =
     (if act = [] then (False, ''action is required'')
      else if length act > AUDIT_MAX_ACTION_LEN then (False, ''action too long (max 64)'')
      else if outc \<notin> set AUDIT_VALID_OUTCOMES then (False, ''outcome must be one of ['' @ quote # ''denied'' @ quote # '', '' @ quote # ''fail'' @ quote # '', '' @ quote # ''ok'' @ quote # '']'')
      else if det \<noteq> JNull \<and> \<not> is_obj det then (False, ''detail must be a dict'')
      else if det \<noteq> JNull \<and> dumps_len det > AUDIT_MAX_DETAIL_BYTES then (False, ''detail too large (max 32768 bytes)'')
      else (True, ''ok''))"

subsection \<open>Requests\<close>

definition request_fails :: "audit_state \<Rightarrow> bool" where
  "request_fails st = (case pg_faults st of [] \<Rightarrow> False | b # bs \<Rightarrow> b)"

definition next_request :: "audit_state \<Rightarrow> audit_state" where
  "next_request st = st\<lparr>pg_faults := tl (pg_faults st)\<rparr>"

definition row_time :: "(string \<Rightarrow> instant option) \<Rightarrow> consent_event \<Rightarrow> instant" where
  "row_time pg_time r = (case pg_time (occurred_at r) of Some t \<Rightarrow> t | None \<Rightarrow> 0)"

definition chapter_rows :: "string \<Rightarrow> audit_state \<Rightarrow> consent_event list" where
  "chapter_rows cid st = filter (\<lambda>r. chapter_id r = cid) (audit_rows st)"

definition oldest_first :: "(string \<Rightarrow> instant option) \<Rightarrow> consent_event list \<Rightarrow> consent_event list" where
  "oldest_first pg_time rs = sort_key (row_time pg_time) rs"

subsection \<open>Append\<close>

text \<open>The first half of \<^verbatim>\<open>record\<close>: validation and the digest of the newest row, empty when there is none or the read failed.\<close>

definition read_tip :: "(string \<Rightarrow> instant option) \<Rightarrow> string \<Rightarrow> audit_state \<Rightarrow> string \<times> audit_state" where
  "read_tip pg_time cid st =
     (if request_fails st then ([], next_request st)
      else case rev (oldest_first pg_time (chapter_rows cid st)) of
        [] \<Rightarrow> ([], next_request st)
      | r # rs \<Rightarrow> (event_sha256 r, next_request st))"

text \<open>The second half: the new row on the tip that was read, inserted unless the request fails. The row is returned either way.\<close>

definition insert_event :: "string \<Rightarrow> string \<Rightarrow> string option \<Rightarrow> string option \<Rightarrow> string option \<Rightarrow> string \<Rightarrow> json \<Rightarrow> instant \<Rightarrow> string
    \<Rightarrow> audit_state \<Rightarrow> consent_event \<times> audit_state" where
  "insert_event cid act actor ttype tid outc det now prev_hash st =
     (let ev0 = \<lparr>chapter_id = cid, actor_agent_id = actor, action = take AUDIT_MAX_ACTION_LEN act,
                target_type = none_if_empty (take 64 (str_or_empty ttype)),
                target_id = none_if_empty (take 128 (str_or_empty tid)),
                outcome = outc, detail = Some (or_empty_obj det), occurred_at = isoformat now,
                prev_sha256 = none_if_empty prev_hash, event_sha256 = [], signature_b64 = None\<rparr>;
          ev = ev0\<lparr>event_sha256 := audit_sha256_of ev0\<rparr>
      in if request_fails st then (ev, next_request st)
         else (ev, (next_request st)\<lparr>audit_rows := audit_rows st @ [ev]\<rparr>))"

definition audit_record :: "(string \<Rightarrow> instant option) \<Rightarrow> string \<Rightarrow> string \<Rightarrow> string option \<Rightarrow> string option \<Rightarrow> string option \<Rightarrow> string \<Rightarrow> json \<Rightarrow> instant
    \<Rightarrow> audit_state \<Rightarrow> consent_event result \<times> audit_state" where
  "audit_record pg_time cid act actor ttype tid outc det now st =
     (if \<not> audit_ready st then (Inl (RuntimeError ''chapter_audit not initialized''), st)
      else case audit_validate act outc (or_empty_obj det) of
        (False, reason) \<Rightarrow> (Inl (ValueError reason), st)
      | (True, _) \<Rightarrow>
          (let (prev_hash, st1) = read_tip pg_time cid st;
               (ev, st2) = insert_event cid act actor ttype tid outc det now prev_hash st1
           in (Inr ev, st2)))"

subsection \<open>Read and verify\<close>

definition audit_list_events :: "(string \<Rightarrow> instant option) \<Rightarrow> string \<Rightarrow> string option \<Rightarrow> string option \<Rightarrow> string option \<Rightarrow> int \<Rightarrow> audit_state
    \<Rightarrow> consent_event list result \<times> audit_state" where
  "audit_list_events pg_time cid act actor since limit st =
     (if \<not> audit_ready st then (Inl (RuntimeError ''chapter_audit not initialized''), st)
      else if request_fails st \<or> (truthy_str since \<and> pg_time (the since) = None) then (Inr [], next_request st)
      else (Inr (take (nat (min (max limit 1) 1000)) (rev (oldest_first pg_time
             (filter (\<lambda>r. (truthy_str act \<longrightarrow> action r = take AUDIT_MAX_ACTION_LEN (the act))
                        \<and> (truthy_str actor \<longrightarrow> actor_agent_id r = actor)
                        \<and> (truthy_str since \<longrightarrow> the (pg_time (the since)) \<le> row_time pg_time r)) (chapter_rows cid st))))), next_request st))"

datatype audit_report = Audit_Ok nat | Audit_Broken nat drift

fun audit_verify_rows :: "nat \<Rightarrow> string \<Rightarrow> consent_event list \<Rightarrow> drift option" where
  "audit_verify_rows i prev [] = None"
| "audit_verify_rows i prev (r # rs) =
     (let link = str_or_empty (prev_sha256 r);
          ev = r\<lparr>detail := Some (or_empty_obj (event_detail r)), prev_sha256 := none_if_empty (if link \<noteq> [] then link else prev)\<rparr>;
          expected = audit_sha256_of ev
      in if expected \<noteq> event_sha256 r then Some (Hash_Mismatch i (occurred_at r) expected (event_sha256 r))
         else if link \<noteq> prev then Some (Prev_Mismatch i (occurred_at r) prev (prev_sha256 r))
         else audit_verify_rows (i + 1) (event_sha256 r) rs)"

definition audit_verify_chain :: "(string \<Rightarrow> instant option) \<Rightarrow> string \<Rightarrow> audit_state \<Rightarrow> audit_report result \<times> audit_state" where
  "audit_verify_chain pg_time cid st =
     (if \<not> audit_ready st then (Inl (RuntimeError ''chapter_audit not initialized''), st)
      else let rs = (if request_fails st then [] else take 5000 (oldest_first pg_time (chapter_rows cid st)))
           in (Inr (case audit_verify_rows 0 [] rs of None \<Rightarrow> Audit_Ok (length rs) | Some d \<Rightarrow> Audit_Broken (length rs) d), next_request st))"

record tip_state =
  tip_sha256 :: string
  tip_length :: nat
  first_occurred_at :: "string option"
  last_occurred_at :: "string option"

definition chain_tip :: "(string \<Rightarrow> instant option) \<Rightarrow> string \<Rightarrow> audit_state \<Rightarrow> tip_state result \<times> audit_state" where
  "chain_tip pg_time cid st =
     (if \<not> audit_ready st then (Inl (RuntimeError ''chapter_audit not initialized''), st)
      else let rs = (if request_fails st then [] else take 10000 (oldest_first pg_time (chapter_rows cid st)))
           in (Inr (if rs = [] then \<lparr>tip_sha256 = [], tip_length = 0, first_occurred_at = None, last_occurred_at = None\<rparr>
                    else \<lparr>tip_sha256 = event_sha256 (last rs), tip_length = length rs,
                          first_occurred_at = Some (occurred_at (hd rs)), last_occurred_at = Some (occurred_at (last rs))\<rparr>), next_request st))"

text \<open>The exported line's JSON value; the row's id column is left out of the model.\<close>

definition audit_event_json :: "consent_event \<Rightarrow> json" where
  "audit_event_json e = JObj
     [(''chapter_id'', JStr (chapter_id e)), (''actor_agent_id'', jstr_opt (actor_agent_id e)),
      (''action'', JStr (action e)), (''target_type'', jstr_opt (target_type e)),
      (''target_id'', jstr_opt (target_id e)), (''outcome'', JStr (outcome e)),
      (''detail'', event_detail e), (''prev_sha256'', jstr_opt (prev_sha256 e)),
      (''event_sha256'', JStr (event_sha256 e)), (''occurred_at'', JStr (occurred_at e))]"

definition audit_export_jsonl :: "(string \<Rightarrow> instant option) \<Rightarrow> string \<Rightarrow> string option \<Rightarrow> audit_state \<Rightarrow> json list result \<times> audit_state" where
  "audit_export_jsonl pg_time cid since st =
     (case audit_list_events pg_time cid None None since 1000 st of
        (Inl e, st1) \<Rightarrow> (Inl e, st1)
      | (Inr evs, st1) \<Rightarrow> (Inr (map (\<lambda>e. sort_keys (audit_event_json e)) (rev evs)), st1))"

subsection \<open>The same canonical text and the same verdict as the device's ledger\<close>

lemma audit_canonical_same: "audit_canonical_event ev = canonical_event ev"
  by (simp add: audit_canonical_event_def canonical_event_def canonical_json_def)

lemma audit_sha256_same: "audit_sha256_of ev = sha256_of ev"
  by (simp add: audit_sha256_of_def sha256_of_def audit_canonical_same)

lemma sha256_of_refilled:
  "sha256_of (r\<lparr>detail := Some (or_empty_obj (event_detail r)), prev_sha256 := p\<rparr>) = sha256_of (r\<lparr>prev_sha256 := p\<rparr>)"
  by (simp add: sha256_of_def canonical_event_def canonical_json_def event_detail_def)

lemma audit_verify_same:
  assumes "\<forall>r \<in> set rs. detail r \<noteq> None"
  shows "verify_rows N None i p 0 0 rs = (case audit_verify_rows i p rs of None \<Rightarrow> Inr (Inr (0, 0)) | Some d \<Rightarrow> Inr (Inl d))"
  using assms
  by (induction rs arbitrary: i p) (auto simp: audit_sha256_same sha256_of_refilled Let_def split: option.splits)

lemma audit_verify_ok: "\<forall>r \<in> set rs. detail r \<noteq> None \<Longrightarrow> audit_verify_rows i p rs = None \<longleftrightarrow> ledger_chain p rs"
  using verify_rows_ok [of undefined None i p 0 0 rs "(0, 0)"] audit_verify_same [of rs undefined i p]
  by (auto simp: rows_pass_def signed_rows_def bare_rows_def split: option.splits)

subsection \<open>One record at a time\<close>

text \<open>What the log relies on of Postgres: a timestamp that was written comes back as the same instant.\<close>

definition reads_iso :: "(string \<Rightarrow> instant option) \<Rightarrow> bool" where
  "reads_iso pg_time \<longleftrightarrow> (\<forall>t < max_instant. pg_time (isoformat t) = Some t)"

definition after_rows :: "(string \<Rightarrow> instant option) \<Rightarrow> instant \<Rightarrow> audit_state \<Rightarrow> bool" where
  "after_rows pg_time now st \<longleftrightarrow> now < max_instant \<and> list_all (\<lambda>r. row_time pg_time r < now) (audit_rows st)"

inductive audit_reachable :: "(string \<Rightarrow> instant option) \<Rightarrow> audit_state \<Rightarrow> bool" for pg_time where
  fresh: "audit_ready st \<Longrightarrow> audit_rows st = [] \<Longrightarrow> audit_reachable pg_time st"
| recorded: "audit_reachable pg_time st \<Longrightarrow> \<not> request_fails st \<Longrightarrow> after_rows pg_time now st
    \<Longrightarrow> audit_record pg_time cid act actor ttype tid outc det now st = (res, st') \<Longrightarrow> audit_reachable pg_time st'"
| requested: "audit_reachable pg_time st \<Longrightarrow> audit_reachable pg_time (next_request st)"

definition audit_inv :: "(string \<Rightarrow> instant option) \<Rightarrow> audit_state \<Rightarrow> bool" where
  "audit_inv pg_time st \<longleftrightarrow> audit_ready st \<and> (\<forall>r \<in> set (audit_rows st). detail r \<noteq> None)
     \<and> sorted_wrt (<) (map (row_time pg_time) (audit_rows st)) \<and> (\<forall>cid. ledger_chain [] (chapter_rows cid st))"

lemma next_request_facts [simp]:
  "audit_rows (next_request st) = audit_rows st" "audit_ready (next_request st) = audit_ready st"
  "chapter_rows cid (next_request st) = chapter_rows cid st"
  by (simp_all add: next_request_def chapter_rows_def)

lemma oldest_first_sorted:
  assumes "sorted_wrt (<) (map (row_time pg_time) (audit_rows st))"
  shows "oldest_first pg_time (chapter_rows cid st) = chapter_rows cid st"
proof -
  have "sorted (map (row_time pg_time) (chapter_rows cid st))"
    using assms strict_sorted_imp_sorted unfolding chapter_rows_def by (blast intro: sorted_filter)
  then show ?thesis unfolding oldest_first_def by (rule sort_key_id_if_sorted)
qed

lemma read_tip_last:
  assumes "audit_inv pg_time st" "\<not> request_fails st"
  shows "read_tip pg_time cid st = (head_digest event_sha256 [] (chapter_rows cid st), next_request st)"
  using assms oldest_first_sorted [of pg_time st cid]
  by (auto simp: read_tip_def audit_inv_def head_digest_def last_rev hd_rev split: list.splits)

definition audit_event :: "string \<Rightarrow> string \<Rightarrow> string option \<Rightarrow> string option \<Rightarrow> string option \<Rightarrow> string \<Rightarrow> json \<Rightarrow> instant \<Rightarrow> string \<Rightarrow> consent_event" where
  "audit_event cid act actor ttype tid outc det now h = new_event cid act actor ttype tid outc (or_empty_obj det) (isoformat now) h"

lemma insert_event_eq:
  "insert_event cid act actor ttype tid outc det now h st =
     (let ev = audit_event cid act actor ttype tid outc det now h in
      (ev, (next_request st)\<lparr>audit_rows := audit_rows st @ (if request_fails st then [] else [ev])\<rparr>))"
  by (simp add: insert_event_def audit_event_def new_event_def audit_sha256_same AUDIT_MAX_ACTION_LEN_def MAX_ACTION_LEN_def next_request_def Let_def)

lemma audit_event_facts [simp]:
  "chapter_id (audit_event cid act actor ttype tid outc det now h) = cid"
  "occurred_at (audit_event cid act actor ttype tid outc det now h) = isoformat now"
  "detail (audit_event cid act actor ttype tid outc det now h) = Some (or_empty_obj det)"
  "row_link (audit_event cid act actor ttype tid outc det now h) = h"
  "event_sha256 (audit_event cid act actor ttype tid outc det now h) = sha256_hex (canonical_event (audit_event cid act actor ttype tid outc det now h))"
  using event_sha256_new_event by (simp_all add: audit_event_def row_link_def sha256_of_def)

lemma audit_append_inv:
  assumes inv: "audit_inv pg_time st" and iso: "reads_iso pg_time" and now: "after_rows pg_time now st"
    and ev: "ev = audit_event cid act actor ttype tid outc det now (head_digest event_sha256 [] (chapter_rows cid st))"
    and st': "audit_rows st' = audit_rows st @ [ev]" "audit_ready st'"
  shows "audit_inv pg_time st'"
proof -
  have "row_time pg_time ev = now"
    using iso now by (simp add: ev row_time_def reads_iso_def after_rows_def)
  then have "sorted_wrt (<) (map (row_time pg_time) (audit_rows st'))"
    using inv now st' by (auto simp: audit_inv_def sorted_wrt_append after_rows_def list_all_iff)
  moreover have "ledger_chain [] (chapter_rows c st')" for c
    using inv st' by (auto simp: audit_inv_def chapter_rows_def ev lc.chain_snoc)
  ultimately show ?thesis using inv st' by (auto simp: audit_inv_def ev)
qed

lemma audit_record_inv:
  assumes "audit_inv pg_time st" "reads_iso pg_time" "\<not> request_fails st" "after_rows pg_time now st"
    and "audit_record pg_time cid act actor ttype tid outc det now st = (res, st')"
  shows "audit_inv pg_time st'"
proof (cases "audit_validate act outc (or_empty_obj det)")
  case (Pair ok why)
  let ?ev = "audit_event cid act actor ttype tid outc det now (head_digest event_sha256 [] (chapter_rows cid st))"
  have "st' = st \<or> audit_rows st' = audit_rows st \<and> audit_ready st' \<or> audit_rows st' = audit_rows st @ [?ev] \<and> audit_ready st'"
    using assms(5) assms(1) Pair read_tip_last [OF assms(1,3), of cid]
    by (auto simp: audit_record_def insert_event_eq audit_inv_def Let_def split: if_splits bool.splits)
  then show ?thesis
    using assms(1) audit_append_inv [OF assms(1,2,4) refl] by (auto simp: audit_inv_def chapter_rows_def)
qed

lemma audit_reachable_inv:
  assumes "audit_reachable pg_time st" "reads_iso pg_time"
  shows "audit_inv pg_time st"
  using assms
proof (induction rule: audit_reachable.induct)
  case (fresh st)
  then show ?case by (simp add: audit_inv_def chapter_rows_def)
next
  case (recorded st now cid act actor ttype tid outc det res st')
  then show ?case using audit_record_inv by blast
next
  case (requested st)
  then show ?case by (simp add: audit_inv_def)
qed

lemma audit_verify_report:
  assumes "audit_ready st" "\<not> request_fails st" "sorted_wrt (<) (map (row_time pg_time) (audit_rows st))" "\<forall>r \<in> set (audit_rows st). detail r \<noteq> None"
  shows "fst (audit_verify_chain pg_time cid st) = Inr (Audit_Ok n) \<longleftrightarrow>
      n = min 5000 (length (chapter_rows cid st)) \<and> ledger_chain [] (take 5000 (chapter_rows cid st))"
proof -
  have "\<forall>r \<in> set (take 5000 (chapter_rows cid st)). detail r \<noteq> None"
    using assms(4) by (auto simp: chapter_rows_def dest!: in_set_takeD)
  then show ?thesis
    using assms audit_verify_ok [of "take 5000 (chapter_rows cid st)" 0 "[]"] oldest_first_sorted [OF assms(3), of cid]
    by (auto simp: audit_verify_chain_def Let_def split: option.splits)
qed


lemma iso_reads: "reads_iso fromisoformat"
  by (simp add: reads_iso_def isoformat_roundtrip)

definition demo_audit :: audit_state where
  "demo_audit = \<lparr>audit_ready = True, audit_rows = [], pg_faults = [False, True, False, False]\<rparr>"

lemma audit_record_valid:
  assumes "audit_ready st" "fst (audit_validate act outc (or_empty_obj det))" "read_tip pg_time cid st = (h, st1)"
  shows "audit_record pg_time cid act actor ttype tid outc det now st =
    (let ev = audit_event cid act actor ttype tid outc det now h
     in (Inr ev, (next_request st1)\<lparr>audit_rows := audit_rows st1 @ (if request_fails st1 then [] else [ev])\<rparr>))"
  using assms by (cases "audit_validate act outc (or_empty_obj det)") (auto simp: audit_record_def insert_event_eq Let_def)

lemma demo_valid: "fst (audit_validate ''grant'' ''ok'' (or_empty_obj JNull))"
  by (simp add: audit_validate_def or_empty_obj_def AUDIT_MAX_ACTION_LEN_def AUDIT_VALID_OUTCOMES_def AUDIT_MAX_DETAIL_BYTES_def dumps_len_def)

lemma demo_empty_tip: "audit_rows st = [] \<Longrightarrow> read_tip pg_time cid st = ([], next_request st)"
  by (simp add: read_tip_def chapter_rows_def oldest_first_def)


text \<open>The chapter's verifier and the device's agree: on the rows of a device's ledger without a key, the chapter's walk stops at the
  same row with the same finding, or passes exactly when the device's does.
\<close>

theorem chapter_and_device_verdicts_agree:
  assumes "db_open led" "signing_key led = None" "sidecar led = None" "\<forall>r \<in> set (rows led). detail r \<noteq> None"
  shows "verify_chain N led = Inr (case audit_verify_rows 0 [] (rows led) of
      None \<Rightarrow> Chain_Ok (length (rows led)) 0 0 None | Some d \<Rightarrow> Chain_Drift (length (rows led)) d)"
  using assms audit_verify_same [OF assms(4), of N 0 "[]"]
  by (auto simp: verify_chain_def verify_key_or_none_def check_head_checkpoint_def split: option.splits)

theorem chapter_and_device_verdicts_agree_witness:
  "verify_chain tag_nacl (fresh_ledger\<lparr>db_open := True, rows := [new_event ''c'' ''a'' None None None ''ok'' (JObj []) ''t'' ''x'']\<rparr>)
     = Inr (case audit_verify_rows 0 [] [new_event ''c'' ''a'' None None None ''ok'' (JObj []) ''t'' ''x''] of
      None \<Rightarrow> Chain_Ok 1 0 0 None | Some d \<Rightarrow> Chain_Drift 1 d)"
  using chapter_and_device_verdicts_agree [of "fresh_ledger\<lparr>db_open := True, rows := [new_event ''c'' ''a'' None None None ''ok'' (JObj []) ''t'' ''x'']\<rparr>" tag_nacl]
  by (simp add: fresh_ledger_def del: audit_verify_rows.simps cong: option.case_cong)

subsection \<open>Two records at once, and a tip that was not read\<close>

lemma isoformat_inject: "reads_iso pg_time \<Longrightarrow> t < max_instant \<Longrightarrow> u < max_instant \<Longrightarrow> isoformat t = isoformat u \<Longrightarrow> t = u"
  unfolding reads_iso_def by (metis option.inject)

lemma unlinked_row_breaks:
  assumes "audit_inv pg_time st" "reads_iso pg_time" "after_rows pg_time now st" "length (chapter_rows cid st) < 5000"
    and "ev = audit_event cid act actor ttype tid outc det now h" "h \<noteq> head_digest event_sha256 [] (chapter_rows cid st)"
    and "audit_rows st' = audit_rows st @ [ev]" "audit_ready st'" "\<not> request_fails st'"
  shows "\<exists>d. fst (audit_verify_chain pg_time cid st') = Inr (Audit_Broken (Suc (length (chapter_rows cid st))) d)"
proof -
  have rows': "chapter_rows cid st' = chapter_rows cid st @ [ev]" using assms(5,7) by (simp add: chapter_rows_def)
  have "row_time pg_time ev = now"
    using assms(2,3,5) by (simp add: row_time_def reads_iso_def after_rows_def)
  then have srt: "sorted_wrt (<) (map (row_time pg_time) (audit_rows st'))" and det: "\<forall>r \<in> set (audit_rows st'). detail r \<noteq> None"
    using assms(1,3,5,7) by (auto simp: audit_inv_def sorted_wrt_append after_rows_def list_all_iff)
  have "\<not> ledger_chain [] (take 5000 (chapter_rows cid st'))" using assms(4,5,6) by (simp add: rows' lc.chain_snoc)
  then have "fst (audit_verify_chain pg_time cid st') \<noteq> Inr (Audit_Ok n)" for n
    using audit_verify_report [OF assms(8,9) srt det] by blast
  then show ?thesis
    using assms(4,8,9) oldest_first_sorted [OF srt, of cid]
    by (cases "audit_verify_rows 0 [] (chapter_rows cid st @ [ev])") (auto simp: audit_verify_chain_def rows' Let_def)
qed

text \<open>Two records of one chapter that both read the tip before either inserts leave a chain the verifier rejects, unless the digest
  of the first collides with that of the row before it: nothing holds the tip between the two requests.
\<close>

theorem overlapping_records_break_the_chain:
  assumes "audit_reachable pg_time st" "reads_iso pg_time" "pg_faults st = []" "length (chapter_rows cid st) < 4999"
    and "after_rows pg_time t1 st" "t1 < t2" "t2 < max_instant"
    and "read_tip pg_time cid st = (h1, s1)" "read_tip pg_time cid s1 = (h2, s2)"
    and "insert_event cid act1 actor1 ttype1 tid1 outc1 det1 t1 h1 s2 = (e1, s3)"
    and "insert_event cid act2 actor2 ttype2 tid2 outc2 det2 t2 h2 s3 = (e2, s4)"
  shows "(\<exists>d. fst (audit_verify_chain pg_time cid s4) = Inr (Audit_Broken (length (chapter_rows cid st) + 2) d))
    \<or> collision_between sha256_hex (canonical_event ` set (audit_rows st)) {canonical_event e1}"
proof -
  have inv: "audit_inv pg_time st" using audit_reachable_inv [OF assms(1,2)] .
  have nofault: "\<not> request_fails s" if "pg_faults s = []" for s using that by (simp add: request_fails_def)
  let ?h = "head_digest event_sha256 [] (chapter_rows cid st)"
  have s1: "h1 = ?h" "s1 = next_request st" using read_tip_last [OF inv nofault [OF assms(3)], of cid] assms(8) by auto
  have inv1: "audit_inv pg_time s1" and f1: "pg_faults s1 = []" using inv assms(3) by (simp_all add: s1 audit_inv_def next_request_def chapter_rows_def)
  have s2: "h2 = ?h" "s2 = next_request s1" using read_tip_last [OF inv1 nofault [OF f1], of cid] assms(9) s1 by auto
  have rows3: "audit_rows s3 = audit_rows st @ [e1]" "pg_faults s3 = []" "audit_ready s3"
    and e1: "e1 = audit_event cid act1 actor1 ttype1 tid1 outc1 det1 t1 ?h"
    using assms(10) f1 inv by (auto simp: insert_event_eq s1 s2 next_request_def request_fails_def audit_inv_def Let_def)
  have rows4: "audit_rows s4 = audit_rows s3 @ [e2]" "\<not> request_fails s4" "audit_ready s4"
    and e2: "e2 = audit_event cid act2 actor2 ttype2 tid2 outc2 det2 t2 ?h"
    using assms(11) rows3 by (auto simp: insert_event_eq s2 next_request_def request_fails_def Let_def)
  have inv3: "audit_inv pg_time s3" by (rule audit_append_inv [OF inv assms(2,5) e1 rows3(1,3)])
  have rt: "row_time pg_time e1 = t1" using assms(2,5) by (simp add: e1 row_time_def reads_iso_def after_rows_def)
  have after2: "after_rows pg_time t2 s3" using assms(5,6,7) rt by (auto simp: after_rows_def rows3 list_all_iff)
  have ch3: "chapter_rows cid s3 = chapter_rows cid st @ [e1]" by (simp add: chapter_rows_def rows3 e1)
  show ?thesis
  proof (cases "?h = event_sha256 e1")
    case False
    have "\<exists>d. fst (audit_verify_chain pg_time cid s4) = Inr (Audit_Broken (Suc (length (chapter_rows cid s3))) d)"
      by (rule unlinked_row_breaks [OF inv3 assms(2) after2 _ e2 _ rows4(1,3,2)]) (use assms(4) False in \<open>simp_all add: ch3\<close>)
    then show ?thesis by (simp add: ch3)
  next
    case True
    then have ne: "chapter_rows cid st \<noteq> []" by (metis audit_event_facts(5) e1 head_digest_simps(1) lc.digest_nonempty)
    let ?r = "last (chapter_rows cid st)"
    have r: "?r \<in> set (chapter_rows cid st)" using ne by simp
    have "event_sha256 ?r = sha256_hex (canonical_event ?r)"
      using inv chained_dig [OF _ r, of event_sha256 row_link canonical_event sha256_hex "[]"] by (auto simp: audit_inv_def)
    moreover have "occurred_at ?r \<noteq> occurred_at e1"
      using r assms(5) rt by (auto simp: after_rows_def list_all_iff chapter_rows_def row_time_def)
    then have "canonical_event ?r \<noteq> canonical_event e1" by (auto simp: canonical_event_eq)
    ultimately have "collision_between sha256_hex (canonical_event ` set (chapter_rows cid st)) {canonical_event e1}"
      using True ne r by (intro collision_betweenI [of "canonical_event ?r" _ "canonical_event e1"]) (auto simp: head_digest_def e1)
    then show ?thesis by (auto simp: chapter_rows_def intro: collision_between_mono)
  qed
qed

theorem overlapping_records_break_the_chain_witness:
  "\<exists>s1 s2 s3 s4 e1 e2 d. read_tip fromisoformat ''c'' (demo_audit\<lparr>pg_faults := []\<rparr>) = ([], s1) \<and> read_tip fromisoformat ''c'' s1 = ([], s2)
     \<and> insert_event ''c'' ''grant'' None None None ''ok'' JNull 5 [] s2 = (e1, s3)
     \<and> insert_event ''c'' ''grant'' None None None ''ok'' JNull 9 [] s3 = (e2, s4)
     \<and> fst (audit_verify_chain fromisoformat ''c'' s4) = Inr (Audit_Broken 2 d)"
proof -
  let ?st = "demo_audit\<lparr>pg_faults := []\<rparr>"
  have reach: "audit_reachable fromisoformat ?st" by (rule audit_reachable.fresh) (simp_all add: demo_audit_def)
  have r1: "read_tip fromisoformat ''c'' ?st = ([], ?st)" by (simp add: demo_empty_tip demo_audit_def next_request_def)
  obtain e1 s3 where i1: "insert_event ''c'' ''grant'' None None None ''ok'' JNull 5 [] ?st = (e1, s3)" by (metis surj_pair)
  obtain e2 s4 where i2: "insert_event ''c'' ''grant'' None None None ''ok'' JNull 9 [] s3 = (e2, s4)" by (metis surj_pair)
  have "after_rows fromisoformat 5 ?st" "(9 :: nat) < max_instant"
    by (simp_all add: after_rows_def demo_audit_def max_instant_def days_of_years_def usec_per_day_def)
  with overlapping_records_break_the_chain [OF reach iso_reads _ _ _ _ _ r1 r1 i1 i2]
  have "\<exists>d. fst (audit_verify_chain fromisoformat ''c'' s4) = Inr (Audit_Broken 2 d)"
    by (simp add: demo_audit_def chapter_rows_def collision_between_def numeral_2_eq_2)
  with r1 i1 i2 show ?thesis by blast
qed

text \<open>When the tip cannot be read, the record is written as the first of a chain and reported as a success; a chapter that had rows
  then has a chain the verifier rejects.
\<close>

theorem unread_tip_breaks_the_chain:
  assumes "audit_reachable pg_time st" "reads_iso pg_time" "pg_faults st = [True]" "chapter_rows cid st \<noteq> []" "length (chapter_rows cid st) < 5000"
    and "after_rows pg_time now st" "fst (audit_validate act outc (or_empty_obj det))"
  shows "\<exists>ev st' d. audit_record pg_time cid act actor ttype tid outc det now st = (Inr ev, st')
    \<and> fst (audit_verify_chain pg_time cid st') = Inr (Audit_Broken (Suc (length (chapter_rows cid st))) d)"
proof -
  have inv: "audit_inv pg_time st" using audit_reachable_inv [OF assms(1,2)] .
  then have ready: "audit_ready st" and "head_digest event_sha256 [] (chapter_rows cid st) \<noteq> []"
    using lc.head_nonempty assms(4) by (auto simp: audit_inv_def)
  moreover have tip: "read_tip pg_time cid st = ([], next_request st)" using assms(3) by (simp add: read_tip_def request_fails_def)
  let ?ev = "audit_event cid act actor ttype tid outc det now []"
  let ?st' = "(next_request (next_request st))\<lparr>audit_rows := audit_rows st @ [?ev]\<rparr>"
  have rec: "audit_record pg_time cid act actor ttype tid outc det now st = (Inr ?ev, ?st')"
    unfolding audit_record_valid [OF ready assms(7) tip] using assms(3) by (simp add: request_fails_def next_request_def Let_def)
  have "\<exists>d. fst (audit_verify_chain pg_time cid ?st') = Inr (Audit_Broken (Suc (length (chapter_rows cid st))) d)"
    by (rule unlinked_row_breaks [OF inv assms(2,6,5) refl])
      (use calculation assms(3) in \<open>simp_all add: request_fails_def next_request_def\<close>)
  with rec show ?thesis by blast
qed

theorem unread_tip_breaks_the_chain_witness:
  "\<exists>ev st1 ev' st2 d. audit_record fromisoformat ''c'' ''grant'' None None None ''ok'' JNull 5 (demo_audit\<lparr>pg_faults := [False, False, True]\<rparr>) = (Inr ev, st1)
     \<and> audit_record fromisoformat ''c'' ''grant'' None None None ''ok'' JNull 9 st1 = (Inr ev', st2)
     \<and> fst (audit_verify_chain fromisoformat ''c'' st2) = Inr (Audit_Broken 2 d)"
proof -
  let ?st = "demo_audit\<lparr>pg_faults := [False, False, True]\<rparr>"
  define ev where "ev = audit_event ''c'' ''grant'' None None None ''ok'' JNull 5 []"
  define st1 where "st1 = \<lparr>audit_ready = True, audit_rows = [ev], pg_faults = [True]\<rparr>"
  have r1: "audit_record fromisoformat ''c'' ''grant'' None None None ''ok'' JNull 5 ?st = (Inr ev, st1)"
    by (simp add: audit_record_valid [OF _ demo_valid demo_empty_tip] demo_audit_def next_request_def request_fails_def st1_def ev_def Let_def)
  have small: "(9 :: nat) < max_instant" by (simp add: max_instant_def days_of_years_def usec_per_day_def)
  have "audit_reachable fromisoformat st1"
    by (rule audit_reachable.recorded [OF audit_reachable.fresh _ _ r1])
      (use small in \<open>simp_all add: demo_audit_def request_fails_def after_rows_def\<close>)
  from unread_tip_breaks_the_chain [OF this iso_reads, of "''c''" 9 "''grant''" "''ok''" JNull None None None] small demo_valid
  have "\<exists>ev' st2 d. audit_record fromisoformat ''c'' ''grant'' None None None ''ok'' JNull 9 st1 = (Inr ev', st2)
     \<and> fst (audit_verify_chain fromisoformat ''c'' st2) = Inr (Audit_Broken 2 d)"
    by (simp add: st1_def chapter_rows_def ev_def after_rows_def row_time_def isoformat_roundtrip numeral_2_eq_2)
  with r1 show ?thesis by blast
qed

subsection \<open>The queries, through the statement builders\<close>

definition audit_tip_params :: "string \<Rightarrow> params" where
  "audit_tip_params cid = [(''chapter_id'', ''eq.'' @ cid), (''order'', ''occurred_at.desc''), (''select'', ''event_sha256''), (''limit'', ''1'')]"

definition audit_verify_params :: "string \<Rightarrow> params" where
  "audit_verify_params cid = [(''chapter_id'', ''eq.'' @ cid), (''order'', ''occurred_at.asc''), (''limit'', ''5000'')]"

lemma read_filter_eq:
  assumes "plain_name col"
  shows "read_filter col (''eq.'' @ v) = Inr (Cmp col ''='' v)"
  using assms by (simp add: read_filter.simps check_name_def partition_on_def OPS_def)

lemma audit_names:
  "plain_name ''chapter_audit_events''" "plain_name ''chapter_id''" "plain_name ''occurred_at''" "plain_name ''event_sha256''"
  by (simp_all add: plain_name_def alnum_char_def)

lemma audit_words:
  "strip ''event_sha256'' = ''event_sha256''" "parse_int ''1'' = Some 1" "parse_int ''5000'' = Some 5000"
  "lower ''desc'' = ''desc''" "lower ''asc'' = ''asc''"
  by code_simp+

text \<open>Whatever the chapter's id holds, the statement that reads its tip is one select of the digest of the newest row of that chapter,
  and the statement that reads its chain is one select of its first 5000 rows by time.
\<close>

theorem audit_queries_are_confined:
  "\<exists>tip chain. build_select ''chapter_audit_events'' (audit_tip_params cid) = Inr tip
     \<and> build_select ''chapter_audit_events'' (audit_verify_params cid) = Inr chain
     \<and> sql_lex tip = Some (stmt_tokens (Select (Some [''event_sha256'']) ''chapter_audit_events'' [Cmp ''chapter_id'' ''='' cid]
          (Some [(''occurred_at'', True)]) (Some 1)))
     \<and> sql_lex chain = Some (stmt_tokens (Select None ''chapter_audit_events'' [Cmp ''chapter_id'' ''='' cid]
          (Some [(''occurred_at'', False)]) (Some 5000)))"
proof -
  have "read_select ''chapter_audit_events'' (audit_tip_params cid) =
      Inr (Select (Some [''event_sha256'']) ''chapter_audit_events'' [Cmp ''chapter_id'' ''='' cid] (Some [(''occurred_at'', True)]) (Some 1))"
    "read_select ''chapter_audit_events'' (audit_verify_params cid) =
      Inr (Select None ''chapter_audit_events'' [Cmp ''chapter_id'' ''='' cid] (Some [(''occurred_at'', False)]) (Some 5000))"
    using read_filter_eq [OF audit_names(2), of cid] audit_names audit_words
    by (simp_all add: read_select_def audit_tip_params_def audit_verify_params_def read_cols_def read_where_def read_order_def read_limit_def
        check_name_def RESERVED_def COMPOUND_def partition_on_def startswith_def)
  with says_select [of "''chapter_audit_events''" "audit_tip_params cid"] says_select [of "''chapter_audit_events''" "audit_verify_params cid"]
  show ?thesis by (auto simp: rel_sum.simps)
qed

end
