(* ===== verification/Authority.thy ===== *)
theory Authority
  imports Json Pg_Request "HOL-Library.AList"
begin

text \<open>
  The delegation gate of \<^verbatim>\<open>server/authority.py\<close>: which actions a member allowed an agent to take, their rate limits per day and per
  week, and the counters, with the gate of \<^verbatim>\<open>SovereignAgent._execute_tool\<close> that consults it before every tool. The two tables are
  association lists with their unique keys; every database request takes one entry of \<open>auth_requests\<close> and succeeds, returns nothing (as
  \<^verbatim>\<open>pg_request\<close> does when it fails) or raises. One instant stands for the clock of a call. A reason text is the values it formats, and the
  \<^verbatim>\<open>updated_at\<close> column is left out.

  Shown: the gate denies by default; as long as requests succeed, no window ever sees more actions than its cap; but a counter that
  could not be read counts as zero, and a scope change that was not stored is reported as done.
\<close>

subsection \<open>State\<close>



record scope_row =
  scope_allowed :: bool
  scope_constraints :: "(string \<times> json) list"
  scope_updated_by :: string

type_synonym usage_key = "string \<times> string \<times> string \<times> instant"

record authority_state =
  auth_ready :: bool
  scope_table :: "((string \<times> string) \<times> scope_row) list"
  usage_table :: "(usage_key \<times> int) list"
  auth_requests :: "request_outcome list"

definition TOOL_ACTION_MAP :: "(string \<times> string) list" where
  "TOOL_ACTION_MAP = [(''submit_intent'', ''submit_intent''), (''respond_to_intent'', ''respond_to_intent''), (''submit_call'', ''submit_call''),
     (''respond_to_call'', ''respond_to_call''), (''update_projection'', ''update_projection''), (''save_private_note'', ''save_private_note''),
     (''save_note'', ''save_private_note''), (''start_conversation'', ''start_conversation''), (''rsvp_event'', ''rsvp_event''),
     (''accept_meeting'', ''accept_meeting'')]"

definition VALID_ACTIONS :: "string list" where
  "VALID_ACTIONS = [''submit_intent'', ''respond_to_intent'', ''submit_call'', ''respond_to_call'', ''update_projection'', ''rsvp_event'',
     ''accept_meeting'', ''start_conversation'', ''cross_chapter_message'', ''publish_public_note'', ''save_private_note'']"

definition request_outcome_of :: "authority_state \<Rightarrow> request_outcome" where
  "request_outcome_of st = (case auth_requests st of [] \<Rightarrow> Req_Ok | o' # os \<Rightarrow> o')"

definition after_request :: "authority_state \<Rightarrow> authority_state" where
  "after_request st = st\<lparr>auth_requests := tl (auth_requests st)\<rparr>"

subsection \<open>Scope and usage\<close>

definition get_scope :: "string \<Rightarrow> string \<Rightarrow> authority_state \<Rightarrow> scope_row option \<times> authority_state" where
  "get_scope agent kind st =
     (if \<not> auth_ready st then (None, st)
      else (if request_outcome_of st = Req_Ok then map_of (scope_table st) (agent, kind) else None, after_request st))"

definition list_scope_for :: "string \<Rightarrow> authority_state \<Rightarrow> (string \<times> scope_row) list \<times> authority_state" where
  "list_scope_for agent st =
     (if \<not> auth_ready st then ([], st)
      else (if request_outcome_of st = Req_Ok
            then sort_key fst (map (\<lambda>r. (snd (fst r), snd r)) (filter (\<lambda>r. fst (fst r) = agent) (scope_table st))) else [], after_request st))"

text \<open>Day zero of the calendar is a Monday.\<close>

definition window_start :: "string \<Rightarrow> instant \<Rightarrow> instant" where
  "window_start window now =
     (if window = ''day'' then now div usec_per_day * usec_per_day
      else if window = ''week'' then now div usec_per_day div 7 * 7 * usec_per_day
      else now)"

definition usage_count :: "string \<Rightarrow> string \<Rightarrow> string \<Rightarrow> instant \<Rightarrow> authority_state \<Rightarrow> int result \<times> authority_state" where
  "usage_count agent kind window now st =
     (if \<not> auth_ready st then (Inl (RuntimeError ''no database configured for usage lookup''), st)
      else case request_outcome_of st of
        Req_Raise \<Rightarrow> (Inl (RuntimeError ''usage lookup failed''), after_request st)
      | Req_None \<Rightarrow> (Inr 0, after_request st)
      | Req_Ok \<Rightarrow> (Inr (case map_of (usage_table st) (agent, kind, window, window_start window now) of None \<Rightarrow> 0 | Some n \<Rightarrow> n), after_request st))"

subsection \<open>Constraints\<close>

datatype authority_reason =
    Reason_Ok
  | Rate_Limit int int string
  | Attendance_Type json json
  | Duration_Exceeded json json
  | Hour_Outside json json

definition as_int :: "json \<Rightarrow> int result" where
  "as_int j = (case json_int j of
     Some i \<Rightarrow> Inr i
   | None \<Rightarrow> (case j of JStr s \<Rightarrow> Inl (ValueError (''invalid literal for int(): '' @ py_repr s)) | _ \<Rightarrow> Inl (TypeError ''int() argument'')))"

text \<open>\<^verbatim>\<open>v in c\<close>: numbers and booleans compare by value at the top level.\<close>

fun num_value :: "json \<Rightarrow> int option" where
  "num_value (JBool b) = Some (if b then 10000 else 0)"
| "num_value (JInt i) = Some (10000 * i)"
| "num_value (JDec n) = Some n"
| "num_value j = None"

definition json_eq :: "json \<Rightarrow> json \<Rightarrow> bool" where
  "json_eq a b = (if num_value a = None then a = b else num_value a = num_value b)"

fun json_in :: "json \<Rightarrow> json \<Rightarrow> bool result" where
  "json_in v (JList xs) = Inr (list_ex (json_eq v) xs)"
| "json_in (JStr t) (JStr s) = Inr (list_ex (\<lambda>i. startswith (drop i s) t) [0..<length s + 1])"
| "json_in (JList xs) (JObj kvs) = Inl (TypeError ''unhashable type'')"
| "json_in (JObj xs) (JObj kvs) = Inl (TypeError ''unhashable type'')"
| "json_in v (JObj kvs) = Inr (\<exists>kv \<in> set kvs. v = JStr (fst kv))"
| "json_in v c = Inl (TypeError ''argument is not iterable'')"

definition rate_check :: "string \<Rightarrow> (string \<times> json) list \<Rightarrow> (string \<times> int) list \<Rightarrow> authority_reason option result" where
  "rate_check window constraints current_usage =
     (case map_of constraints (''max_per_'' @ window) of
        None \<Rightarrow> Inr None
      | Some v \<Rightarrow>
          bind_res (as_int v) (\<lambda>cap.
            let used = (case map_of current_usage (''per_'' @ window) of None \<Rightarrow> 0 | Some u \<Rightarrow> u)
            in Inr (if used \<ge> cap then Some (Rate_Limit used cap window) else None)))"

definition hours_check :: "json \<Rightarrow> json \<Rightarrow> authority_reason option result" where
  "hours_check hours hour =
     (case hours of
        JStr s \<Rightarrow>
          (case split_on (CHR ''-'') s of
             [a, b] \<Rightarrow>
               (case (parse_int (hd (split_on (CHR '':'') a)), parse_int (hd (split_on (CHR '':'') b))) of
                  (Some start_h, Some end_h) \<Rightarrow>
                    (case hour of
                       JList xs \<Rightarrow> Inl (TypeError ''int()'')
                     | JObj kvs \<Rightarrow> Inl (TypeError ''int()'')
                     | _ \<Rightarrow> (case json_int hour of
                               None \<Rightarrow> Inr None
                             | Some h \<Rightarrow> Inr (if start_h \<le> h \<and> h < end_h then None else Some (Hour_Outside hour hours))))
                | _ \<Rightarrow> Inr None)
           | _ \<Rightarrow> Inr None)
      | _ \<Rightarrow> Inr None)"

definition structural_check :: "string \<Rightarrow> (string \<times> json) list \<Rightarrow> (string \<times> json) list \<Rightarrow> authority_reason option result" where
  "structural_check kind constraints ctx =
     (if kind = ''rsvp_event'' then
        (let types = obj_get constraints ''types''; proposed = obj_get ctx ''type''
         in if truthy types \<and> truthy proposed
            then bind_res (json_in proposed types) (\<lambda>b. Inr (if b then None else Some (Attendance_Type proposed types)))
            else Inr None)
      else if kind = ''accept_meeting'' then
        (let max_min = obj_get constraints ''duration_max_min''; dur = obj_get ctx ''duration_min'';
             hours = obj_get constraints ''hours''; hour = obj_get ctx ''hour'';
             late = (if truthy hours \<and> hour \<noteq> JNull then hours_check hours hour else Inr None)
         in if truthy max_min \<and> truthy dur
            then bind_res (as_int dur) (\<lambda>d. bind_res (as_int max_min) (\<lambda>m. if d > m then Inr (Some (Duration_Exceeded dur max_min)) else late))
            else late)
      else Inr None)"

definition check_constraints :: "string \<Rightarrow> (string \<times> json) list \<Rightarrow> (string \<times> json) list \<Rightarrow> (string \<times> int) list \<Rightarrow> (bool \<times> authority_reason) result" where
  "check_constraints kind constraints ctx current_usage =
     bind_res (rate_check ''day'' constraints current_usage) (\<lambda>r1.
       case r1 of Some why \<Rightarrow> Inr (False, why)
       | None \<Rightarrow> bind_res (rate_check ''week'' constraints current_usage) (\<lambda>r2.
           case r2 of Some why \<Rightarrow> Inr (False, why)
           | None \<Rightarrow> bind_res (structural_check kind constraints ctx) (\<lambda>r3.
               case r3 of Some why \<Rightarrow> Inr (False, why) | None \<Rightarrow> Inr (True, Reason_Ok))))"

subsection \<open>The gate\<close>

datatype authority_decision =
    Unknown_Action
  | No_Scope_Configured
  | Action_Not_Allowed
  | Quota_Check_Failed
  | Decided bool authority_reason "(string \<times> int \<times> int) list"

fun decision_allows :: "authority_decision \<Rightarrow> bool" where
  "decision_allows (Decided b why quota) = b"
| "decision_allows d = False"

definition read_usage :: "string \<Rightarrow> string \<Rightarrow> string \<Rightarrow> instant \<Rightarrow> (string \<times> json) list \<Rightarrow> authority_state
    \<Rightarrow> (string \<times> int) list result \<times> authority_state" where
  "read_usage agent kind window now constraints st =
     (if map_of constraints (''max_per_'' @ window) = None then (Inr [], st)
      else case usage_count agent kind window now st of
        (Inl e, st1) \<Rightarrow> (Inl e, st1)
      | (Inr n, st1) \<Rightarrow> (Inr [(''per_'' @ window, n)], st1))"

definition quota_entry :: "string \<Rightarrow> (string \<times> json) list \<Rightarrow> (string \<times> int) list \<Rightarrow> (string \<times> int \<times> int) list result" where
  "quota_entry window constraints current_usage =
     (case map_of constraints (''max_per_'' @ window) of
        None \<Rightarrow> Inr []
      | Some v \<Rightarrow> bind_res (as_int v) (\<lambda>cap. Inr [(''per_'' @ window, case map_of current_usage (''per_'' @ window) of None \<Rightarrow> 0 | Some u \<Rightarrow> u, cap)]))"

definition decide :: "string \<Rightarrow> (string \<times> json) list \<Rightarrow> (string \<times> json) list \<Rightarrow> (string \<times> int) list \<Rightarrow> authority_decision result" where
  "decide kind constraints ctx current_usage =
     bind_res (check_constraints kind constraints ctx current_usage) (\<lambda>(ok, why).
     bind_res (quota_entry ''day'' constraints current_usage) (\<lambda>q1.
     bind_res (quota_entry ''week'' constraints current_usage) (\<lambda>q2. Inr (Decided ok why (q1 @ q2)))))"

definition check_authority :: "string \<Rightarrow> string \<Rightarrow> (string \<times> json) list \<Rightarrow> instant \<Rightarrow> authority_state \<Rightarrow> authority_decision result \<times> authority_state" where
  "check_authority agent kind ctx now st =
     (if kind \<notin> set VALID_ACTIONS then (Inr Unknown_Action, st)
      else case get_scope agent kind st of
        (None, st1) \<Rightarrow> (Inr No_Scope_Configured, st1)
      | (Some sc, st1) \<Rightarrow>
          if \<not> scope_allowed sc then (Inr Action_Not_Allowed, st1)
          else case read_usage agent kind ''day'' now (scope_constraints sc) st1 of
            (Inl e, st2) \<Rightarrow> (Inr Quota_Check_Failed, st2)
          | (Inr u1, st2) \<Rightarrow>
              (case read_usage agent kind ''week'' now (scope_constraints sc) st2 of
                 (Inl e, st3) \<Rightarrow> (Inr Quota_Check_Failed, st3)
               | (Inr u2, st3) \<Rightarrow> (decide kind (scope_constraints sc) ctx (u1 @ u2), st3)))"

text \<open>One window of \<^verbatim>\<open>record_usage\<close>: a read, then an update or an insert; the unique key refuses a second row.\<close>

definition set_usage :: "usage_key \<Rightarrow> int \<Rightarrow> authority_state \<Rightarrow> authority_state" where
  "set_usage key n st = st\<lparr>usage_table := AList.update key n (usage_table st)\<rparr>"

definition record_window :: "string \<Rightarrow> string \<Rightarrow> string \<Rightarrow> instant \<Rightarrow> (string \<times> json) list \<Rightarrow> authority_state \<Rightarrow> authority_state" where
  "record_window agent kind window now constraints st =
     (let key = (agent, kind, window, window_start window now); st1 = after_request st; st2 = after_request st1 in
      if map_of constraints (''max_per_'' @ window) = None then st
      else if request_outcome_of st = Req_Raise then st1
      else case (if request_outcome_of st = Req_Ok then map_of (usage_table st) key else None) of
        Some n \<Rightarrow> if request_outcome_of st1 = Req_Ok then set_usage key (n + 1) st2 else st2
      | None \<Rightarrow> if request_outcome_of st1 = Req_Ok \<and> map_of (usage_table st) key = None then set_usage key 1 st2 else st2)"

definition record_usage :: "string \<Rightarrow> string \<Rightarrow> instant \<Rightarrow> authority_state \<Rightarrow> authority_state" where
  "record_usage agent kind now st =
     (if \<not> auth_ready st then st
      else case get_scope agent kind st of
        (None, st1) \<Rightarrow> st1
      | (Some sc, st1) \<Rightarrow>
          record_window agent kind ''week'' now (scope_constraints sc) (record_window agent kind ''day'' now (scope_constraints sc) st1))"

datatype scope_result = Scope_Ok "scope_row option" | Scope_Unknown_Action | Scope_No_Database | Scope_Patch_Failed

definition set_scope :: "string \<Rightarrow> string \<Rightarrow> bool \<Rightarrow> (string \<times> json) list \<Rightarrow> string \<Rightarrow> authority_state \<Rightarrow> scope_result \<times> authority_state" where
  "set_scope agent kind allowed constraints updated_by st =
     (if kind \<notin> set VALID_ACTIONS then (Scope_Unknown_Action, st)
      else if \<not> auth_ready st then (Scope_No_Database, st)
      else case get_scope agent kind st of (existing, st1) \<Rightarrow>
        (let row = \<lparr>scope_allowed = allowed, scope_constraints = constraints, scope_updated_by = updated_by\<rparr>;
             st2 = after_request st1;
             stored = st2\<lparr>scope_table := AList.update (agent, kind) row (scope_table st)\<rparr>
         in case request_outcome_of st1 of
              Req_Raise \<Rightarrow> (Scope_Patch_Failed, st2)
            | Req_None \<Rightarrow> (Scope_Ok None, st2)
            | Req_Ok \<Rightarrow>
                if existing \<noteq> None \<or> map_of (scope_table st) (agent, kind) = None then (Scope_Ok (Some row), stored)
                else (Scope_Ok None, st2)))"

text \<open>The gate in front of a tool: what the tool may do, and the state it runs in. \<open>None\<close> is a refusal text.\<close>

definition tool_context :: "string \<Rightarrow> (string \<times> json) list \<Rightarrow> (string \<times> json) list" where
  "tool_context kind args =
     (if kind = ''rsvp_event''
      then [(''type'', if truthy (obj_get args ''attendance_type'') then obj_get args ''attendance_type'' else obj_get args ''type'')]
      else if kind = ''accept_meeting'' then [(''duration_min'', obj_get args ''duration_min''), (''hour'', obj_get args ''hour'')]
      else [])"

definition tool_gate :: "string \<Rightarrow> string \<Rightarrow> (string \<times> json) list \<Rightarrow> instant \<Rightarrow> authority_state \<Rightarrow> bool \<times> authority_state" where
  "tool_gate agent name args now st =
     (case map_of TOOL_ACTION_MAP name of
        None \<Rightarrow> (True, st)
      | Some kind \<Rightarrow>
          (case check_authority agent kind (tool_context kind args) now st of
             (Inl e, st1) \<Rightarrow> (False, st1)
           | (Inr d, st1) \<Rightarrow> if decision_allows d then (True, record_usage agent kind now st1) else (False, st1)))"

subsection \<open>The gate denies by default\<close>

lemma check_authority_needs_scope:
  assumes "check_authority agent kind ctx now st = (Inr d, st1)" "decision_allows d"
  shows "kind \<in> set VALID_ACTIONS \<and> auth_ready st \<and> request_outcome_of st = Req_Ok
    \<and> (\<exists>sc. map_of (scope_table st) (agent, kind) = Some sc \<and> scope_allowed sc)"
  using assms by (auto simp: check_authority_def get_scope_def split: if_splits prod.splits option.splits sum.splits)

lemma usage_count_frame: "usage_count agent kind window now st = (r, st1) \<Longrightarrow> scope_table st1 = scope_table st \<and> usage_table st1 = usage_table st \<and> auth_ready st1 = auth_ready st"
  by (auto simp: usage_count_def after_request_def split: if_splits request_outcome.splits)

lemma read_usage_frame: "read_usage agent kind window now cs st = (r, st1) \<Longrightarrow> scope_table st1 = scope_table st \<and> usage_table st1 = usage_table st \<and> auth_ready st1 = auth_ready st"
  by (auto simp: read_usage_def split: if_splits prod.splits sum.splits dest: usage_count_frame)

lemma check_authority_frame:
  "check_authority agent kind ctx now st = (r, st1) \<Longrightarrow> scope_table st1 = scope_table st \<and> usage_table st1 = usage_table st \<and> auth_ready st1 = auth_ready st"
  by (auto simp: check_authority_def get_scope_def after_request_def split: if_splits prod.splits option.splits sum.splits dest!: read_usage_frame)

lemma record_window_frame: "scope_table (record_window agent kind window now cs st) = scope_table st \<and> auth_ready (record_window agent kind window now cs st) = auth_ready st"
  by (auto simp: record_window_def set_usage_def after_request_def Let_def split: option.splits)

subsection \<open>No window exceeds its cap\<close>

definition used_in :: "string \<Rightarrow> string \<Rightarrow> string \<Rightarrow> instant \<Rightarrow> authority_state \<Rightarrow> int" where
  "used_in agent kind window start st = (case map_of (usage_table st) (agent, kind, window, start) of None \<Rightarrow> 0 | Some n \<Rightarrow> n)"

lemma quiet_requests [simp]:
  "auth_requests st = [] \<Longrightarrow> request_outcome_of st = Req_Ok"
  "auth_requests st = [] \<Longrightarrow> after_request st = st"
  by (simp_all add: request_outcome_of_def after_request_def)

lemma record_window_quiet:
  assumes "auth_requests st = []" "map_of cs (''max_per_'' @ w) \<noteq> None"
  shows "record_window agent kind w now cs st = set_usage (agent, kind, w, window_start w now) (used_in agent kind w (window_start w now) st + 1) st"
  using assms by (auto simp: record_window_def used_in_def Let_def split: option.splits)

lemma record_window_skips: "map_of cs (''max_per_'' @ w) = None \<Longrightarrow> record_window agent kind w now cs st = st"
  by (simp add: record_window_def)

lemma set_usage_facts [simp]:
  "auth_requests (set_usage k n st) = auth_requests st" "scope_table (set_usage k n st) = scope_table st" "auth_ready (set_usage k n st) = auth_ready st"
  "used_in a kd w s (set_usage k n st) = (if k = (a, kd, w, s) then n else used_in a kd w s st)"
  by (auto simp: set_usage_def used_in_def update_conv')

lemma record_window_used:
  assumes "auth_requests st = []"
  shows "used_in a kd w' s (record_window agent kind w now cs st) =
    used_in a kd w' s st + (if (a, kd, w', s) = (agent, kind, w, window_start w now) \<and> map_of cs (''max_per_'' @ w) \<noteq> None then 1 else 0)"
    "auth_requests (record_window agent kind w now cs st) = []"
  using record_window_quiet [OF assms, of cs w agent kind now] record_window_skips [of cs w agent kind now st] assms
  by (cases "map_of cs (''max_per_'' @ w) = None"; force)+

lemma record_usage_used:
  assumes "auth_requests st = []" "auth_ready st" "map_of (scope_table st) (agent, kind) = Some sc"
  shows "used_in a kd w s (record_usage agent kind now st) = used_in a kd w s st
      + (if a = agent \<and> kd = kind \<and> w \<in> {''day'', ''week''} \<and> s = window_start w now \<and> map_of (scope_constraints sc) (''max_per_'' @ w) \<noteq> None then 1 else 0)"
    "auth_requests (record_usage agent kind now st) = []" "auth_ready (record_usage agent kind now st)" "scope_table (record_usage agent kind now st) = scope_table st"
proof -
  let ?cs = "scope_constraints sc"
  let ?st1 = "record_window agent kind ''day'' now ?cs st"
  have rec: "record_usage agent kind now st = record_window agent kind ''week'' now ?cs ?st1"
    using assms by (simp add: record_usage_def get_scope_def)
  have q: "auth_requests ?st1 = []" by (rule record_window_used(2) [OF assms(1)])
  show "used_in a kd w s (record_usage agent kind now st) = used_in a kd w s st
      + (if a = agent \<and> kd = kind \<and> w \<in> {''day'', ''week''} \<and> s = window_start w now \<and> map_of ?cs (''max_per_'' @ w) \<noteq> None then 1 else 0)"
    unfolding rec record_window_used(1) [OF q] record_window_used(1) [OF assms(1)] by auto
  show "auth_requests (record_usage agent kind now st) = []" unfolding rec by (rule record_window_used(2) [OF q])
  show "auth_ready (record_usage agent kind now st)" "scope_table (record_usage agent kind now st) = scope_table st"
    unfolding rec using record_window_frame assms(2) by metis+
qed

lemma read_usage_quiet:
  assumes "auth_requests st = []" "auth_ready st"
  shows "read_usage agent kind w now cs st =
    (Inr (if map_of cs (''max_per_'' @ w) = None then [] else [(''per_'' @ w, used_in agent kind w (window_start w now) st)]), st)"
  using assms by (simp add: read_usage_def usage_count_def used_in_def)

lemma check_authority_quiet:
  assumes "auth_requests st = []" "auth_ready st"
  shows "snd (check_authority agent kind ctx now st) = st"
  using assms by (simp add: check_authority_def get_scope_def read_usage_quiet split: option.split)

lemma decide_under_cap:
  assumes "decide kind cs ctx usage = Inr d" "decision_allows d" "w \<in> {''day'', ''week''}"
    and "map_of cs (''max_per_'' @ w) = Some v" "as_int v = Inr cap"
  shows "(case map_of usage (''per_'' @ w) of None \<Rightarrow> 0 | Some u \<Rightarrow> u) < cap"
proof -
  from assms(1,2) obtain why where "check_constraints kind cs ctx usage = Inr (True, why)" by (auto simp: decide_def)
  then have "rate_check ''day'' cs usage = Inr None \<and> rate_check ''week'' cs usage = Inr None"
    by (auto simp: check_constraints_def split: option.splits)
  then have "rate_check w cs usage = Inr None" using assms(3) by auto
  then show ?thesis using assms(4,5) by (auto simp: rate_check_def Let_def split: if_splits)
qed

lemma check_authority_under_cap:
  assumes q: "auth_requests st = []" "auth_ready st" and sc: "map_of (scope_table st) (agent, kind) = Some sc"
    and "check_authority agent kind ctx now st = (Inr d, st1)" "decision_allows d"
    and w: "w \<in> {''day'', ''week''}" "map_of (scope_constraints sc) (''max_per_'' @ w) = Some v" "as_int v = Inr cap"
  shows "used_in agent kind w (window_start w now) st < cap"
proof -
  let ?u = "\<lambda>w. if map_of (scope_constraints sc) (''max_per_'' @ w) = None then [] else [(''per_'' @ w, used_in agent kind w (window_start w now) st)]"
  have "kind \<in> set VALID_ACTIONS" "scope_allowed sc" using check_authority_needs_scope [OF assms(4,5)] sc by auto
  then have "decide kind (scope_constraints sc) ctx (?u ''day'' @ ?u ''week'') = Inr d"
    using assms(4) q sc by (simp add: check_authority_def get_scope_def read_usage_quiet)
  from decide_under_cap [OF this assms(5) w] w(1,2) show ?thesis by (auto simp: map_add_def split: if_splits)
qed

definition asks_for :: "string \<Rightarrow> string \<Rightarrow> bool" where
  "asks_for name kind \<longleftrightarrow> map_of TOOL_ACTION_MAP name = Some kind"

lemma tool_gate_cases:
  assumes q: "auth_requests st = []" "auth_ready st" and g: "tool_gate agent name args now st = (ok, st1)"
  obtains (same) "st1 = st" "\<not> ok \<or> map_of TOOL_ACTION_MAP name = None"
    | (spent) k d sck where "map_of TOOL_ACTION_MAP name = Some k" "ok" "check_authority agent k (tool_context k args) now st = (Inr d, st)"
        "decision_allows d" "st1 = record_usage agent k now st" "map_of (scope_table st) (agent, k) = Some sck"
proof (cases "map_of TOOL_ACTION_MAP name")
  case None
  then show ?thesis using g same by (simp add: tool_gate_def)
next
  case (Some k)
  obtain r where r: "check_authority agent k (tool_context k args) now st = (r, st)"
    using check_authority_quiet [OF q] by (metis prod.collapse)
  show ?thesis
  proof (cases "\<exists>d. r = Inr d \<and> decision_allows d")
    case True
    then obtain d where d: "r = Inr d" "decision_allows d" by blast
    then show ?thesis using spent [OF Some, of d] g Some r check_authority_needs_scope [OF r [unfolded d(1)] d(2)] by (auto simp: tool_gate_def)
  next
    case False
    then show ?thesis using same g Some r by (auto simp: tool_gate_def split: sum.splits if_splits)
  qed
qed

lemma tool_gate_step:
  assumes q: "auth_requests st = []" "auth_ready st" and sc: "map_of (scope_table st) (agent, kind) = Some sc"
    and w: "w \<in> {''day'', ''week''}" "map_of (scope_constraints sc) (''max_per_'' @ w) = Some v" "as_int v = Inr cap"
    and g: "tool_gate agent name args now st = (ok, st1)"
  shows "auth_requests st1 = [] \<and> auth_ready st1 \<and> scope_table st1 = scope_table st"
    "ok \<Longrightarrow> asks_for name kind \<Longrightarrow> used_in agent kind w (window_start w now) st < cap
       \<and> used_in agent kind w (window_start w now) st1 = used_in agent kind w (window_start w now) st + 1"
    "\<not> (ok \<and> asks_for name kind) \<Longrightarrow> used_in agent kind w s st1 = used_in agent kind w s st"
proof -
  show "auth_requests st1 = [] \<and> auth_ready st1 \<and> scope_table st1 = scope_table st"
    using q record_usage_used(2-4) [OF q] by (cases rule: tool_gate_cases [OF q g]) auto
  from q g show "ok \<Longrightarrow> asks_for name kind \<Longrightarrow> used_in agent kind w (window_start w now) st < cap
       \<and> used_in agent kind w (window_start w now) st1 = used_in agent kind w (window_start w now) st + 1"
  proof (cases rule: tool_gate_cases)
    case (spent k d sck)
    assume "asks_for name kind"
    then have k: "k = kind" using spent(1) by (simp add: asks_for_def)
    then show ?thesis
      using check_authority_under_cap [OF q sc _ spent(4) w] spent(3) record_usage_used(1) [OF q sc, of agent kind w "window_start w now" now] spent(5) w(1,2)
      by auto
  qed (simp add: asks_for_def)
  from q g show "\<not> (ok \<and> asks_for name kind) \<Longrightarrow> used_in agent kind w s st1 = used_in agent kind w s st"
  proof (cases rule: tool_gate_cases)
    case (spent k d sck)
    assume "\<not> (ok \<and> asks_for name kind)"
    with spent(1,2) have "k \<noteq> kind" by (simp add: asks_for_def)
    then show ?thesis using record_usage_used(1) [OF q spent(6), of agent kind w s now] spent(5) by simp
  qed simp
qed

fun run_tools :: "string \<Rightarrow> string \<Rightarrow> (string \<times> (string \<times> json) list \<times> instant) list \<Rightarrow> authority_state \<Rightarrow> nat \<times> authority_state" where
  "run_tools agent kind [] st = (0, st)"
| "run_tools agent kind ((name, args, now) # calls) st =
     (case tool_gate agent name args now st of (ok, st1) \<Rightarrow>
        (case run_tools agent kind calls st1 of (n, st2) \<Rightarrow> ((if ok \<and> asks_for name kind then 1 else 0) + n, st2)))"

text \<open>
  C12: a rate limit holds. While requests succeed, however many tools an agent calls and with whatever arguments, the gate lets through
  at most the cap of a day or week of each action, less what the window had already seen.
\<close>

theorem rate_limits_hold:
  assumes "auth_requests st = []" "auth_ready st" "map_of (scope_table st) (agent, kind) = Some sc"
    and "w \<in> {''day'', ''week''}" "map_of (scope_constraints sc) (''max_per_'' @ w) = Some v" "as_int v = Inr cap"
    and "list_all (\<lambda>(name, args, now). window_start w now = s) calls"
  shows "int (fst (run_tools agent kind calls st)) \<le> max 0 (cap - used_in agent kind w s st)"
  using assms(1-3,7)
proof (induction calls arbitrary: st)
  case (Cons c calls)
  obtain name args now where c: "c = (name, args, now)" by (metis prod_cases3)
  obtain ok st1 where g: "tool_gate agent name args now st = (ok, st1)" by fastforce
  obtain n st2 where r: "run_tools agent kind calls st1 = (n, st2)" by fastforce
  note step = tool_gate_step [OF Cons.prems(1-3) assms(4-6) g]
  have "int n \<le> max 0 (cap - used_in agent kind w s st1)"
    using Cons.IH [of st1] Cons.prems(3,4) step(1) r by simp
  then show ?case using step(2) step(3) [of s] Cons.prems(4) r by (auto simp: c g)
qed simp

definition demo_authority :: authority_state where
  "demo_authority = \<lparr>auth_ready = True, scope_table = [((''a'', ''submit_call''), \<lparr>scope_allowed = True,
     scope_constraints = [(''max_per_day'', JInt 2)], scope_updated_by = ''self''\<rparr>)], usage_table = [], auth_requests = []\<rparr>"

theorem rate_limits_hold_witness:
  "fst (run_tools ''a'' ''submit_call'' [(''submit_call'', [], 1), (''submit_call'', [], 2), (''submit_call'', [], 3)] demo_authority) \<le> 2"
proof -
  have "int (fst (run_tools ''a'' ''submit_call'' [(''submit_call'', [], 1), (''submit_call'', [], 2), (''submit_call'', [], 3)] demo_authority))
      \<le> max 0 (2 - used_in ''a'' ''submit_call'' ''day'' 0 demo_authority)"
    by (rule rate_limits_hold [of demo_authority _ _ "\<lparr>scope_allowed = True, scope_constraints = [(''max_per_day'', JInt 2)], scope_updated_by = ''self''\<rparr>"
          "''day''" "JInt 2"])
      (simp_all add: demo_authority_def as_int_def window_start_def usec_per_day_def)
  then show ?thesis by (simp add: used_in_def demo_authority_def)
qed

text \<open>The gate denies by default. Whatever requests fail, an action is allowed only when it is a known one, the database answered, and
  its scope row exists and allows it.
\<close>

theorem gate_denies_by_default:
  assumes "check_authority agent kind ctx now st = (Inr d, st1)" "decision_allows d"
  shows "kind \<in> set VALID_ACTIONS \<and> auth_ready st \<and> request_outcome_of st = Req_Ok
    \<and> (\<exists>sc. map_of (scope_table st) (agent, kind) = Some sc \<and> scope_allowed sc)"
  using check_authority_needs_scope [OF assms] .

theorem gate_denies_by_default_witness:
  "\<exists>d st1. check_authority ''a'' ''submit_call'' [] 5 demo_authority = (Inr d, st1) \<and> decision_allows d \<and> ''submit_call'' \<in> set VALID_ACTIONS"
proof -
  have "check_authority ''a'' ''submit_call'' [] 5 demo_authority = (Inr (Decided True Reason_Ok [(''per_day'', 0, 2)]), demo_authority)"
    by (simp add: check_authority_def get_scope_def read_usage_def usage_count_def decide_def check_constraints_def rate_check_def structural_check_def
        quota_entry_def as_int_def demo_authority_def VALID_ACTIONS_def request_outcome_of_def after_request_def)
  from gate_denies_by_default [OF this] this show ?thesis by simp
qed

text \<open>A counter that could not be read counts as zero. When the database returns nothing for the usage, an action whose day is
  exhausted is allowed; only an exception is taken for a failed check.
\<close>

theorem unread_counter_fails_open:
  assumes "auth_ready st" "map_of (scope_table st) (agent, kind) = Some sc" "scope_allowed sc" "kind \<in> set VALID_ACTIONS"
    and "kind \<notin> {''rsvp_event'', ''accept_meeting''}" "scope_constraints sc = [(''max_per_day'', JInt cap)]" "0 < cap"
  shows "fst (check_authority agent kind ctx now (st\<lparr>auth_requests := [Req_Ok, Req_None]\<rparr>)) = Inr (Decided True Reason_Ok [(''per_day'', 0, cap)])
    \<and> fst (check_authority agent kind ctx now (st\<lparr>auth_requests := [Req_Ok, Req_Raise]\<rparr>)) = Inr Quota_Check_Failed"
  using assms by (simp add: check_authority_def get_scope_def read_usage_def usage_count_def decide_def check_constraints_def rate_check_def structural_check_def
        quota_entry_def as_int_def request_outcome_of_def after_request_def)

theorem unread_counter_fails_open_witness:
  "used_in ''a'' ''submit_call'' ''day'' 0 (set_usage (''a'', ''submit_call'', ''day'', 0) 99 demo_authority) = 99
   \<and> fst (check_authority ''a'' ''submit_call'' [] 5 ((set_usage (''a'', ''submit_call'', ''day'', 0) 99 demo_authority)\<lparr>auth_requests := [Req_Ok, Req_None]\<rparr>))
     = Inr (Decided True Reason_Ok [(''per_day'', 0, 2)])"
  using unread_counter_fails_open [of "set_usage (''a'', ''submit_call'', ''day'', 0) 99 demo_authority" "''a''" "''submit_call''"
      "\<lparr>scope_allowed = True, scope_constraints = [(''max_per_day'', JInt 2)], scope_updated_by = ''self''\<rparr>" 2 "[]" 5]
  by (simp add: demo_authority_def VALID_ACTIONS_def)

text \<open>A scope change that was not stored is reported as done: when the database returns nothing for the write, the answer is ok and the
  table is unchanged.
\<close>

theorem lost_scope_change_reports_ok:
  assumes "auth_ready st" "kind \<in> set VALID_ACTIONS" "auth_requests st = [Req_Ok, Req_None]"
  shows "\<exists>st1. set_scope agent kind allowed cs by st = (Scope_Ok None, st1) \<and> scope_table st1 = scope_table st"
  using assms by (simp add: set_scope_def get_scope_def request_outcome_of_def after_request_def Let_def)

theorem lost_scope_change_reports_ok_witness:
  "\<exists>st1. set_scope ''a'' ''submit_call'' False [] ''admin'' (demo_authority\<lparr>auth_requests := [Req_Ok, Req_None]\<rparr>) = (Scope_Ok None, st1)
     \<and> scope_table st1 = scope_table demo_authority"
  using lost_scope_change_reports_ok [of "demo_authority\<lparr>auth_requests := [Req_Ok, Req_None]\<rparr>" "''submit_call''"]
  by (simp add: demo_authority_def VALID_ACTIONS_def)

end
