(* ===== verification/Aae_Emit.thy ===== *)
theory Aae_Emit
  imports Consent_Ledger
begin

text \<open>
  The envelope emitter of \<^verbatim>\<open>consent/aae_emit.py\<close>: every gate verdict is also minted as a signed
  envelope chained to the agent's previous one and stored beside the ledger. Minting, hashing
  and chain checking are the \<^verbatim>\<open>sm_aae\<close> package, outside the repository, and the agent id is derived
  from the key by Ed25519; both are the parameter \<open>A\<close>. The state extends the ledger's,
  since \<^verbatim>\<open>ledger.init\<close> configures the emitter, with the envelope table and the approvals in flight
  that the gate keeps. Shown: emission cannot disturb the ledger, and the stored envelopes
  of an agent form one linked chain.
\<close>

record envelope =
  env_agent_id :: string
  env_prev_hash :: "string option"
  env_issued_at :: string
  env_body :: json

record sm_aae =
  key_identity :: "string \<Rightarrow> (string \<times> string) option"
  issue_envelope :: "string \<Rightarrow> string \<Rightarrow> string \<Rightarrow> string \<Rightarrow> json \<Rightarrow> string \<Rightarrow> string \<Rightarrow> string option \<Rightarrow> string \<Rightarrow> envelope option"
  envelope_hash :: "envelope \<Rightarrow> string"
  order_chain :: "envelope list \<Rightarrow> envelope list option"

record aae_row =
  aae_agent_id :: string
  aae_hash :: string
  aae_prev_hash :: "string option"
  aae_issued_at :: string
  aae_envelope :: envelope

record consent_state = ledger_state +
  aae_open :: bool
  aae_identity :: "(string \<times> string) option"
  envelopes :: "aae_row list"
  aae_faults :: "bool list"
  in_flight :: "string set"

definition configure :: "sm_aae \<Rightarrow> string option \<Rightarrow> 'a consent_state_scheme \<Rightarrow> 'a consent_state_scheme" where
  "configure A key st =
     (case key of
        None \<Rightarrow> st\<lparr>aae_open := True\<rparr>
      | Some k \<Rightarrow> st\<lparr>aae_open := True, aae_identity := key_identity A k\<rparr>)"

text \<open>\<^verbatim>\<open>ledger.init\<close>: a call without a key keeps the key, and the emitter is wired to the key in use.\<close>

definition init :: "sm_aae \<Rightarrow> string option \<Rightarrow> 'a consent_state_scheme \<Rightarrow> 'a consent_state_scheme" where
  "init A key st = (let st1 = open_ledger key st in configure A (signing_key st1) st1)"

definition tip :: "string \<Rightarrow> 'a consent_state_scheme \<Rightarrow> string option" where
  "tip agent st = (case rev (filter (\<lambda>r. aae_agent_id r = agent) (envelopes st)) of
     [] \<Rightarrow> None | r # _ \<Rightarrow> Some (aae_hash r))"

text \<open>Any failure, the package's or the database's, is logged and swallowed.\<close>

definition emit_decision :: "sm_aae \<Rightarrow> string \<Rightarrow> string \<Rightarrow> json \<Rightarrow> string \<Rightarrow> string \<Rightarrow> instant \<Rightarrow> 'a consent_state_scheme
    \<Rightarrow> envelope option \<times> 'a consent_state_scheme" where
  "emit_decision A cap scp params policy outc now st =
     (if \<not> aae_open st then (None, st)
      else case aae_identity st of
        None \<Rightarrow> (None, st)
      | Some (key_hex, did) \<Rightarrow>
          (case issue_envelope A key_hex did cap scp params policy outc (tip did st) (isoformat now) of
             None \<Rightarrow> (None, st)
           | Some env \<Rightarrow>
               (let st1 = st\<lparr>aae_faults := tl (aae_faults st)\<rparr>
                in if aae_faults st \<noteq> [] \<and> hd (aae_faults st) then (None, st1)
                   else if envelope_hash A env \<in> aae_hash ` set (envelopes st) then (None, st1)
                   else (Some env, st1\<lparr>envelopes := envelopes st @
                          [\<lparr>aae_agent_id = env_agent_id env, aae_hash = envelope_hash A env,
                            aae_prev_hash = env_prev_hash env, aae_issued_at = env_issued_at env,
                            aae_envelope = env\<rparr>]\<rparr>))))"

definition list_envelopes :: "string option \<Rightarrow> nat \<Rightarrow> 'a consent_state_scheme \<Rightarrow> envelope list" where
  "list_envelopes agent limit st =
     (if \<not> aae_open st then []
      else case (if truthy_str agent then agent else map_option snd (aae_identity st)) of
        None \<Rightarrow> []
      | Some aid \<Rightarrow> map aae_envelope (take limit (filter (\<lambda>r. aae_agent_id r = aid) (envelopes st))))"

definition verify_envelope_chain :: "sm_aae \<Rightarrow> string option \<Rightarrow> 'a consent_state_scheme \<Rightarrow> bool \<times> nat \<times> string" where
  "verify_envelope_chain A agent st =
     (let es = list_envelopes agent 1000 st;
          aid = (if truthy_str agent then the agent else str_or_empty (map_option snd (aae_identity st)))
      in (order_chain A es \<noteq> None, length es, aid))"

lemma emit_decision_frame [gate_simps]:
  "rows (snd (emit_decision A c s p q t now st)) = rows st"
  "sidecar (snd (emit_decision A c s p q t now st)) = sidecar st"
  "signing_key (snd (emit_decision A c s p q t now st)) = signing_key st"
  "db_open (snd (emit_decision A c s p q t now st)) = db_open st"
  "db_faults (snd (emit_decision A c s p q t now st)) = db_faults st"
  "cp_faults (snd (emit_decision A c s p q t now st)) = cp_faults st"
  "in_flight (snd (emit_decision A c s p q t now st)) = in_flight st"
  "consent_state.more (snd (emit_decision A c s p q t now st)) = consent_state.more st"
  by (auto simp: emit_decision_def Let_def split: option.splits prod.splits)

text \<open>Documented behaviour of \<^verbatim>\<open>sm_aae.issue_envelope\<close>: the envelope carries the agent and the previous
  hash it was asked to carry.\<close>

definition issue_faithful :: "sm_aae \<Rightarrow> bool" where
  "issue_faithful A \<longleftrightarrow> (\<forall>k a v r p q t h i env. issue_envelope A k a v r p q t h i = Some env \<longrightarrow>
     env_agent_id env = a \<and> env_prev_hash env = h)"

fun linked_rows :: "string option \<Rightarrow> aae_row list \<Rightarrow> bool" where
  "linked_rows p [] = True"
| "linked_rows p (r # rs) = (aae_prev_hash r = p \<and> linked_rows (Some (aae_hash r)) rs)"

definition agent_rows :: "string \<Rightarrow> 'a consent_state_scheme \<Rightarrow> aae_row list" where
  "agent_rows agent st = filter (\<lambda>r. aae_agent_id r = agent) (envelopes st)"

lemma linked_rows_snoc:
  "linked_rows p (rs @ [r]) \<longleftrightarrow> linked_rows p rs \<and> aae_prev_hash r = (if rs = [] then p else Some (aae_hash (last rs)))"
  by (induction rs arbitrary: p) auto

lemma tip_last: "tip agent st = (if agent_rows agent st = [] then None else Some (aae_hash (last (agent_rows agent st))))"
  by (cases "agent_rows agent st" rule: rev_cases) (auto simp: tip_def agent_rows_def)

lemma emit_decision_envelopes:
  assumes "issue_faithful A"
  shows "envelopes (snd (emit_decision A c s p q t now st)) = envelopes st
         \<or> (\<exists>r. envelopes (snd (emit_decision A c s p q t now st)) = envelopes st @ [r]
               \<and> aae_prev_hash r = tip (aae_agent_id r) st)"
  using assms by (auto simp: emit_decision_def issue_faithful_def Let_def split: option.splits prod.splits)

text \<open>Emission keeps every agent's stored envelopes one unforked chain: each links to the hash
  of the envelope stored before it for that agent, whatever emission fails.\<close>

theorem emit_keeps_envelopes_linked:
  assumes "issue_faithful A" "\<forall>agent. linked_rows None (agent_rows agent st)"
  shows "\<forall>agent. linked_rows None (agent_rows agent (snd (emit_decision A cap scp params policy outc now st)))"
proof -
  from emit_decision_envelopes [OF assms(1), of cap scp params policy outc now st] show ?thesis
  proof (elim disjE exE conjE)
    fix r
    assume e: "envelopes (snd (emit_decision A cap scp params policy outc now st)) = envelopes st @ [r]"
      and p: "aae_prev_hash r = tip (aae_agent_id r) st"
    have "agent_rows a (snd (emit_decision A cap scp params policy outc now st))
        = agent_rows a st @ (if aae_agent_id r = a then [r] else [])" for a
      by (simp add: agent_rows_def e)
    with assms(2) p show ?thesis by (simp add: linked_rows_snoc tip_last)
  qed (use assms(2) in \<open>simp add: agent_rows_def\<close>)
qed

definition plain_aae :: sm_aae where
  "plain_aae = \<lparr>key_identity = (\<lambda>k. Some (k, ''did:key:'' @ k)),
     issue_envelope = (\<lambda>k a v r p q t h i. Some \<lparr>env_agent_id = a, env_prev_hash = h, env_issued_at = i,
        env_body = JList [JStr v, JStr r, p, JStr q, JStr t]\<rparr>),
     envelope_hash = (\<lambda>e. str_or_empty (env_prev_hash e) @ dumps (env_body e)),
     order_chain = (\<lambda>es. Some es)\<rparr>"

lemma plain_aae_issue:
  "issue_envelope plain_aae k a v r p q t h i =
     Some \<lparr>env_agent_id = a, env_prev_hash = h, env_issued_at = i, env_body = JList [JStr v, JStr r, p, JStr q, JStr t]\<rparr>"
  by (simp add: plain_aae_def)

definition fresh_consent :: consent_state where
  "fresh_consent = \<lparr>db_open = False, signing_key = None, rows = [], sidecar = None, db_faults = [], cp_faults = [],
     aae_open = False, aae_identity = None, envelopes = [], aae_faults = [], in_flight = {}\<rparr>"

theorem emit_keeps_envelopes_linked_witness:
  "envelopes (snd (emit_decision plain_aae ''fs.read'' ''/tmp/a'' (JObj []) ''p'' ''denied'' 5 (init plain_aae (Some ''k'') fresh_consent))) \<noteq> []
   \<and> (\<forall>agent. linked_rows None (agent_rows agent
        (snd (emit_decision plain_aae ''fs.read'' ''/tmp/a'' (JObj []) ''p'' ''denied'' 5 (init plain_aae (Some ''k'') fresh_consent)))))"
proof -
  let ?st = "init plain_aae (Some ''k'') fresh_consent"
  have st: "aae_open ?st" "aae_identity ?st = Some (''k'', ''did:key:k'')" "envelopes ?st = []" "aae_faults ?st = []"
    by (simp_all add: init_def configure_def open_ledger_def fresh_consent_def plain_aae_def Let_def)
  have "issue_faithful plain_aae" by (simp add: issue_faithful_def plain_aae_def)
  moreover have "\<forall>agent. linked_rows None (agent_rows agent ?st)" by (simp add: agent_rows_def st)
  ultimately have "\<forall>agent. linked_rows None (agent_rows agent
      (snd (emit_decision plain_aae ''fs.read'' ''/tmp/a'' (JObj []) ''p'' ''denied'' 5 ?st)))"
    by (rule emit_keeps_envelopes_linked)
  moreover have "envelopes (snd (emit_decision plain_aae ''fs.read'' ''/tmp/a'' (JObj []) ''p'' ''denied'' 5 ?st)) \<noteq> []"
    by (simp add: emit_decision_def st plain_aae_issue Let_def)
  ultimately show ?thesis by blast
qed

end
