(* ===== verification/Consent_Gate.thy ===== *)
theory Consent_Gate
  imports Aae_Emit
begin

text \<open>
  The consent gate of \<^verbatim>\<open>consent/gate.py\<close>: the pure verdict, the writers that put verdicts, approvals,
  denials, tombstones and outcomes into the ledger, and the readers that decide from it
  whether an approval may be used or a denial still stands. A reader raises what Python would
  raise on a hand-written detail: \<^verbatim>\<open>AttributeError\<close> when it is not a dict, \<^verbatim>\<open>TypeError\<close> when the expiry is not
  text. The locks that serialise claims and the in-flight set make each operation one
  transition of the state.
\<close>

subsection \<open>Requests and verdicts\<close>

record action_request =
  capability :: string
  scope :: string
  context_fp :: string
  provenance :: string
  source_ref :: "string option"
  rationale :: string
  extra :: "(string \<times> json) list"

datatype decision_state = Reject | Prompt | Approved

record consent_decision =
  state :: decision_state
  reason :: string
  decision_sha :: "string option"

definition APPROVAL_TTL :: nat where "APPROVAL_TTL = minutes_us 5"
definition DENIAL_COOLDOWN :: nat where "DENIAL_COOLDOWN = hours_us 1"
definition VALID_PROVENANCE :: "string list" where
  "VALID_PROVENANCE = [''trusted'', ''semi_trusted'', ''untrusted'']"

definition validate_request :: "action_request \<Rightarrow> string option" where
  "validate_request req =
     (if capability req = [] then Some ''capability is required''
      else if CHR ''.'' \<notin> set (capability req) then Some ''capability must be dotted (e.g. browser.navigate)''
      else if scope req = [] then Some ''scope is required''
      else if context_fp req = [] then Some ''context is required''
      else if provenance req \<notin> set VALID_PROVENANCE then Some ''provenance must be one of VALID_PROVENANCE''
      else if provenance req = ''untrusted'' \<and> \<not> truthy_str (source_ref req)
      then Some ''untrusted provenance requires source_ref''
      else None)"

definition capability_denied :: "string \<Rightarrow> string set \<Rightarrow> bool" where
  "capability_denied cap denied \<longleftrightarrow> cap \<in> denied \<or> hd (split_on (CHR ''.'') cap) @ ''.*'' \<in> denied"

definition evaluate :: "action_request \<Rightarrow> string set \<Rightarrow> consent_decision" where
  "evaluate req denied =
     (case validate_request req of
        Some err \<Rightarrow> \<lparr>state = Reject, reason = ''invalid_request: '' @ err, decision_sha = None\<rparr>
      | None \<Rightarrow>
          if capability_denied (capability req) denied
          then \<lparr>state = Reject, reason = ''capability_denied: '' @ capability req @ '' is not available on this deployment'', decision_sha = None\<rparr>
          else if provenance req = ''untrusted''
          then \<lparr>state = Reject, reason = ''untrusted_provenance'', decision_sha = None\<rparr>
          else \<lparr>state = Prompt, reason = ''user_confirmation_required'', decision_sha = None\<rparr>)"

text \<open>The deployment's denylist, from the comma-separated environment variable.\<close>

definition denied_capabilities :: "string \<Rightarrow> string set" where
  "denied_capabilities raw = set (filter (\<lambda>p. p \<noteq> []) (map strip (split_on (CHR '','') raw)))"

subsection \<open>Writing to the ledger\<close>

fun state_name :: "decision_state \<Rightarrow> string" where
  "state_name Reject = ''reject''"
| "state_name Prompt = ''prompt''"
| "state_name Approved = ''approved''"

fun outcome_map :: "decision_state \<Rightarrow> string" where
  "outcome_map Reject = ''denied''"
| "outcome_map Prompt = ''deferred''"
| "outcome_map Approved = ''ok''"

fun aae_outcome :: "decision_state \<Rightarrow> string" where
  "aae_outcome Reject = ''denied''"
| "aae_outcome Prompt = ''conditional''"
| "aae_outcome Approved = ''authorized''"

definition request_fields :: "action_request \<Rightarrow> (string \<times> json) list" where
  "request_fields req =
     [(''capability'', JStr (capability req)), (''scope'', JStr (scope req)), (''context'', JStr (context_fp req)),
      (''provenance'', JStr (provenance req)), (''source_ref'', jstr_opt (source_ref req))]"

definition aae_fields :: "action_request \<Rightarrow> (string \<times> json) list" where
  "aae_fields req =
     [(''context'', JStr (context_fp req)), (''provenance'', JStr (provenance req)),
      (''source_ref'', JStr (str_or_empty (source_ref req)))]"

definition record_decision :: "nacl \<Rightarrow> sm_aae \<Rightarrow> action_request \<Rightarrow> consent_decision \<Rightarrow> string \<Rightarrow> string option \<Rightarrow> instant
    \<Rightarrow> 'a consent_state_scheme \<Rightarrow> string result \<times> 'a consent_state_scheme" where
  "record_decision N A req d cid actor now st =
     (let det = JObj (request_fields req @ [(''rationale'', JStr (take 2000 (rationale req))),
                        (''extra'', JObj (extra req)), (''decision_reason'', JStr (reason d))])
      in case record_event N cid (''consent.'' @ state_name (state d)) actor (Some ''capability'') (Some (capability req))
                (outcome_map (state d)) det now st of
        (Inl e, st1) \<Rightarrow> (Inl e, st1)
      | (Inr ev, st1) \<Rightarrow>
          (case emit_decision A (capability req) (scope req)
                  (JObj (aae_fields req @ [(''decision_reason'', JStr (reason d)), (''consent_event_sha256'', JStr (event_sha256 ev))]))
                  (''consent-gate:'' @ reason d) (aae_outcome (state d)) now st1 of
             (_, st2) \<Rightarrow> (Inr (event_sha256 ev), st2)))"

definition check_and_record :: "nacl \<Rightarrow> sm_aae \<Rightarrow> action_request \<Rightarrow> string \<Rightarrow> string option \<Rightarrow> string set \<Rightarrow> instant
    \<Rightarrow> 'a consent_state_scheme \<Rightarrow> consent_decision result \<times> 'a consent_state_scheme" where
  "check_and_record N A req cid actor denied now st =
     (let d = evaluate req denied
      in case record_decision N A req d cid actor now st of
           (Inl e, st1) \<Rightarrow> (Inl e, st1)
         | (Inr h, st1) \<Rightarrow> (Inr (d\<lparr>decision_sha := Some h\<rparr>), st1))"

definition deny :: "nacl \<Rightarrow> sm_aae \<Rightarrow> action_request \<Rightarrow> string \<Rightarrow> string \<Rightarrow> string option \<Rightarrow> instant
    \<Rightarrow> 'a consent_state_scheme \<Rightarrow> string result \<times> 'a consent_state_scheme" where
  "deny N A req cid prompt_sha actor now st =
     (let det = JObj (request_fields req @ [(''prompt_event_sha256'', JStr prompt_sha), (''extra'', JObj (extra req)),
                        (''decision_reason'', JStr ''user_denied'')])
      in case record_event N cid ''consent.denied'' actor (Some ''capability'') (Some (capability req)) ''denied'' det now st of
        (Inl e, st1) \<Rightarrow> (Inl e, st1)
      | (Inr ev, st1) \<Rightarrow>
          (case emit_decision A (capability req) (scope req)
                  (JObj (aae_fields req @ [(''prompt_event_sha256'', JStr prompt_sha), (''decision_reason'', JStr ''user_denied''),
                          (''consent_event_sha256'', JStr (event_sha256 ev))]))
                  ''consent-gate:user_denied'' ''denied'' now st1 of
             (_, st2) \<Rightarrow> (Inr (event_sha256 ev), st2)))"

definition approve :: "nacl \<Rightarrow> sm_aae \<Rightarrow> action_request \<Rightarrow> string \<Rightarrow> string \<Rightarrow> string option \<Rightarrow> instant
    \<Rightarrow> 'a consent_state_scheme \<Rightarrow> string result \<times> 'a consent_state_scheme" where
  "approve N A req cid prompt_sha actor now st =
     (let expires = isoformat (now + APPROVAL_TTL);
          det = JObj (request_fields req @ [(''prompt_event_sha256'', JStr prompt_sha), (''expires_at'', JStr expires),
                        (''extra'', JObj (extra req))])
      in case record_event N cid ''consent.approved'' actor (Some ''capability'') (Some (capability req)) ''ok'' det now st of
        (Inl e, st1) \<Rightarrow> (Inl e, st1)
      | (Inr ev, st1) \<Rightarrow>
          (case emit_decision A (capability req) (scope req)
                  (JObj (aae_fields req @ [(''prompt_event_sha256'', JStr prompt_sha), (''expires_at'', JStr expires),
                          (''decision_reason'', JStr ''user_approved''), (''consent_event_sha256'', JStr (event_sha256 ev))]))
                  ''consent-gate:user_approved'' ''authorized'' now st1 of
             (_, st2) \<Rightarrow> (Inr (event_sha256 ev), st2)))"

subsection \<open>Reading the ledger\<close>

text \<open>\<^verbatim>\<open>(ev.get("detail") or {}).get(k)\<close>.\<close>

fun json_get :: "json \<Rightarrow> string \<Rightarrow> json result" where
  "json_get (JObj kvs) k = Inr (obj_get kvs k)"
| "json_get j k = Inl (AttributeError ''get'')"

definition det_get :: "consent_event \<Rightarrow> string \<Rightarrow> json result" where
  "det_get ev k = json_get (or_empty_obj (event_detail ev)) k"

text \<open>\<^verbatim>\<open>str(x)\<close> of a truthy value; the text of a composite value starts with a bracket, so its exact
  spelling never meets a digest.\<close>

fun str_json :: "json \<Rightarrow> string" where
  "str_json (JStr s) = s"
| "str_json (JBool b) = (if b then ''True'' else ''False'')"
| "str_json j = dumps j"

text \<open>The set of digests named under a key by rows of one action.\<close>

fun named_shas :: "string \<Rightarrow> consent_event list \<Rightarrow> string set result" where
  "named_shas k [] = Inr {}"
| "named_shas k (ev # evs) =
     bind_res (det_get ev k) (\<lambda>v. bind_res (named_shas k evs) (\<lambda>out.
       Inr (if truthy v then insert (str_json v) out else out)))"

definition shas_listed :: "string \<Rightarrow> int \<Rightarrow> string \<Rightarrow> 'a consent_state_scheme \<Rightarrow> string set result" where
  "shas_listed act limit k st = bind_res (list_events (Some act) None None limit st) (named_shas k)"

definition consumed_approval_shas :: "'a consent_state_scheme \<Rightarrow> string set result" where
  "consumed_approval_shas st = shas_listed ''consent.consumed'' 200 ''approval_event_sha256'' st"

definition cleared_denial_shas :: "'a consent_state_scheme \<Rightarrow> string set result" where
  "cleared_denial_shas st = shas_listed ''consent.denial_cleared'' 500 ''denial_event_sha256'' st"


text \<open>The four-field match of an approval or denial row with a request.\<close>

definition matches_request :: "consent_event \<Rightarrow> action_request \<Rightarrow> bool result" where
  "matches_request ev req =
     (case or_empty_obj (event_detail ev) of
        JObj kvs \<Rightarrow> Inr (obj_get kvs ''capability'' = JStr (capability req) \<and> obj_get kvs ''scope'' = JStr (scope req)
                       \<and> obj_get kvs ''context'' = JStr (context_fp req) \<and> obj_get kvs ''provenance'' = JStr (provenance req))
      | _ \<Rightarrow> Inl (AttributeError ''get''))"

text \<open>\<^verbatim>\<open>datetime.fromisoformat(det["expires_at"])\<close>, KeyError and ValueError caught.\<close>

definition expiry_of :: "consent_event \<Rightarrow> instant option result" where
  "expiry_of ev =
     (case or_empty_obj (event_detail ev) of
        JObj kvs \<Rightarrow> (case map_of kvs ''expires_at'' of
                      None \<Rightarrow> Inr None
                    | Some (JStr s) \<Rightarrow> Inr (fromisoformat s)
                    | Some _ \<Rightarrow> Inl (TypeError ''fromisoformat: argument must be str''))
      | _ \<Rightarrow> Inl (AttributeError ''get''))"

fun scan_approvals :: "nacl \<Rightarrow> string option \<Rightarrow> string set \<Rightarrow> string set \<Rightarrow> action_request \<Rightarrow> string \<Rightarrow> instant
    \<Rightarrow> consent_event list \<Rightarrow> consent_event option result" where
  "scan_approvals N key consumed flying req cid now [] = Inr None"
| "scan_approvals N key consumed flying req cid now (ev # evs) =
     (let skip = scan_approvals N key consumed flying req cid now evs in
      if chapter_id ev \<noteq> cid then skip
      else case verify_row N key ev of
        Inl e \<Rightarrow> Inl e
      | Inr (False, why) \<Rightarrow> skip
      | Inr (True, why) \<Rightarrow>
          if event_sha256 ev \<in> consumed \<and> event_sha256 ev \<notin> flying then skip
          else case matches_request ev req of
            Inl e \<Rightarrow> Inl e
          | Inr False \<Rightarrow> skip
          | Inr True \<Rightarrow>
              (case expiry_of ev of
                 Inl e \<Rightarrow> Inl e
               | Inr None \<Rightarrow> skip
               | Inr (Some expires) \<Rightarrow> if expires \<le> now then skip else Inr (Some ev)))"

definition find_valid_approval :: "nacl \<Rightarrow> action_request \<Rightarrow> string \<Rightarrow> instant \<Rightarrow> 'a consent_state_scheme
    \<Rightarrow> consent_event option result" where
  "find_valid_approval N req cid now st =
     bind_res (consumed_approval_shas st) (\<lambda>consumed.
       bind_res (list_events (Some ''consent.approved'') None None 50 st) (\<lambda>evs.
         scan_approvals N (signing_key st) consumed (in_flight st) req cid now evs))"

fun scan_denials :: "string set \<Rightarrow> action_request \<Rightarrow> string \<Rightarrow> instant \<Rightarrow> consent_event list \<Rightarrow> consent_event option result" where
  "scan_denials cleared req cid now [] = Inr None"
| "scan_denials cleared req cid now (ev # evs) =
     (let skip = scan_denials cleared req cid now evs in
      if chapter_id ev \<noteq> cid \<or> event_sha256 ev \<in> cleared then skip
      else case matches_request ev req of
        Inl e \<Rightarrow> Inl e
      | Inr False \<Rightarrow> skip
      | Inr True \<Rightarrow>
          (case fromisoformat (occurred_at ev) of
             None \<Rightarrow> skip
           | Some occ \<Rightarrow> if int now - int occ > int DENIAL_COOLDOWN then skip else Inr (Some ev)))"

definition find_recent_denial :: "action_request \<Rightarrow> string \<Rightarrow> instant \<Rightarrow> 'a consent_state_scheme \<Rightarrow> consent_event option result" where
  "find_recent_denial req cid now st =
     bind_res (cleared_denial_shas st) (\<lambda>cleared.
       bind_res (list_events (Some ''consent.denied'') None None 50 st) (\<lambda>evs.
         scan_denials cleared req cid now evs))"

definition denial_key :: "consent_event \<Rightarrow> json list result" where
  "denial_key ev = map_res (det_get ev) [''capability'', ''scope'', ''context'', ''provenance'']"

text \<open>The loop of \<^verbatim>\<open>clear_denial\<close>: one tombstone per matching denial not yet cleared.\<close>

fun clear_loop :: "nacl \<Rightarrow> string \<Rightarrow> string option \<Rightarrow> json list \<Rightarrow> string set \<Rightarrow> instant \<Rightarrow> nat \<Rightarrow> consent_event list
    \<Rightarrow> 'a consent_state_scheme \<Rightarrow> nat result \<times> 'a consent_state_scheme" where
  "clear_loop N cid actor key already now n [] st = (Inr n, st)"
| "clear_loop N cid actor key already now n (ev # evs) st =
     (if chapter_id ev \<noteq> cid then clear_loop N cid actor key already now n evs st
      else case denial_key ev of
        Inl e \<Rightarrow> (Inl e, st)
      | Inr k \<Rightarrow>
          if k \<noteq> key \<or> event_sha256 ev = [] \<or> event_sha256 ev \<in> already
          then clear_loop N cid actor key already now n evs st
          else case record_event N cid ''consent.denial_cleared'' actor (Some ''denial'') (Some (event_sha256 ev)) ''ok''
                      (JObj [(''denial_event_sha256'', JStr (event_sha256 ev))]) now st of
            (Inl e, st1) \<Rightarrow> (Inl e, st1)
          | (Inr _, st1) \<Rightarrow> clear_loop N cid actor key already now (n + 1) evs st1)"

definition clear_denial :: "nacl \<Rightarrow> string \<Rightarrow> string \<Rightarrow> string option \<Rightarrow> instant \<Rightarrow> 'a consent_state_scheme
    \<Rightarrow> nat result \<times> 'a consent_state_scheme" where
  "clear_denial N sha cid actor now st =
     (case list_events (Some ''consent.denied'') None None 200 st of
        Inl e \<Rightarrow> (Inl e, st)
      | Inr denials \<Rightarrow>
          (case find (\<lambda>e. event_sha256 e = sha) denials of
             None \<Rightarrow> (Inr 0, st)
           | Some target \<Rightarrow>
               (case denial_key target of
                  Inl e \<Rightarrow> (Inl e, st)
                | Inr key \<Rightarrow>
                    (case cleared_denial_shas st of
                       Inl e \<Rightarrow> (Inl e, st)
                     | Inr already \<Rightarrow> clear_loop N cid actor key already now 0 denials st))))"

subsection \<open>One-shot execution\<close>

definition mark_consumed :: "nacl \<Rightarrow> string \<Rightarrow> string \<Rightarrow> string option \<Rightarrow> string \<Rightarrow> instant \<Rightarrow> 'a consent_state_scheme
    \<Rightarrow> string result \<times> 'a consent_state_scheme" where
  "mark_consumed N sha cid actor exec now st =
     (case record_event N cid ''consent.consumed'' actor (Some ''approval'') (Some sha) ''ok''
             (JObj [(''approval_event_sha256'', JStr sha), (''execution'', JStr exec)]) now st of
        (Inl e, st1) \<Rightarrow> (Inl e, st1)
      | (Inr ev, st1) \<Rightarrow> (Inr (event_sha256 ev), st1))"

text \<open>\<^verbatim>\<open>for attempt in range(3)\<close>: the last error, or none once an attempt succeeds.\<close>

fun consume_attempts :: "nacl \<Rightarrow> nat \<Rightarrow> string \<Rightarrow> string \<Rightarrow> string option \<Rightarrow> instant \<Rightarrow> py_error option \<Rightarrow> 'a consent_state_scheme
    \<Rightarrow> py_error option \<times> 'a consent_state_scheme" where
  "consume_attempts N 0 sha cid actor now err st = (err, st)"
| "consume_attempts N (Suc n) sha cid actor now err st =
     (case mark_consumed N sha cid actor ''unknown'' now st of
        (Inr _, st1) \<Rightarrow> (None, st1)
      | (Inl e, st1) \<Rightarrow> consume_attempts N n sha cid actor now (Some e) st1)"

definition claim_approval :: "nacl \<Rightarrow> action_request \<Rightarrow> string \<Rightarrow> string option \<Rightarrow> instant \<Rightarrow> 'a consent_state_scheme
    \<Rightarrow> consent_event option result \<times> 'a consent_state_scheme" where
  "claim_approval N req cid actor now st =
     (case find_valid_approval N req cid now st of
        Inl e \<Rightarrow> (Inl e, st)
      | Inr None \<Rightarrow> (Inr None, st)
      | Inr (Some approval) \<Rightarrow>
          (let sha = event_sha256 approval in
           if sha \<in> in_flight st then (Inr None, st)
           else case consume_attempts N 3 sha cid actor now None st of
             (Some e, st1) \<Rightarrow> (Inl e, st1)
           | (None, st1) \<Rightarrow> (Inr (Some approval), st1\<lparr>in_flight := insert sha (in_flight st1)\<rparr>)))"

definition execution_outcome :: "string \<Rightarrow> string" where
  "execution_outcome x =
     (case map_of [(''ok'', ''ok''), (''fail'', ''fail''), (''denied'', ''denied''), (''pending_approval'', ''deferred''), (''error'', ''fail'')] x of
        Some out \<Rightarrow> out | None \<Rightarrow> ''fail'')"

definition release_execution :: "nacl \<Rightarrow> string \<Rightarrow> string \<Rightarrow> string \<Rightarrow> string option \<Rightarrow> string option \<Rightarrow> instant
    \<Rightarrow> 'a consent_state_scheme \<Rightarrow> string option \<times> 'a consent_state_scheme" where
  "release_execution N sha cid exec actor err now st =
     (let st1 = st\<lparr>in_flight := in_flight st - {sha}\<rparr>;
          det = JObj ([(''approval_event_sha256'', JStr sha), (''execution'', JStr exec)]
                      @ (if truthy_str err then [(''error'', JStr (take 2000 (the err)))] else []))
      in case record_event N cid ''consent.executed'' actor (Some ''approval'') (Some sha) (execution_outcome exec) det now st1 of
           (Inl e, st2) \<Rightarrow> (None, st2)
         | (Inr ev, st2) \<Rightarrow> (Some (event_sha256 ev), st2))"

subsection \<open>The verdict\<close>

lemma split_on_hd: "hd (split_on c s) = takeWhile (\<lambda>x. x \<noteq> c) s"
  by (induction s) (auto split: list.splits)

text \<open>The verdict is a prompt exactly for a well-formed request whose authorisation is trusted or
  semi-trusted and whose capability the deployment has, that is neither its name nor the wildcard
  of its namespace is on the denylist; everything else is rejected and nothing is approved by the verdict.\<close>

theorem evaluate_prompts_only_trusted:
  "(state (evaluate req denied) = Prompt \<longleftrightarrow>
     provenance req \<in> {''trusted'', ''semi_trusted''} \<and> CHR ''.'' \<in> set (capability req)
     \<and> scope req \<noteq> [] \<and> context_fp req \<noteq> []
     \<and> capability req \<notin> denied \<and> takeWhile (\<lambda>x. x \<noteq> CHR ''.'') (capability req) @ ''.*'' \<notin> denied)
   \<and> (state (evaluate req denied) = Reject \<longleftrightarrow> state (evaluate req denied) \<noteq> Prompt)"
  by (auto simp: evaluate_def validate_request_def VALID_PROVENANCE_def capability_denied_def split_on_hd
      split: option.splits if_splits)

subsection \<open>Lookups by digest\<close>

lemma named_shas_mem:
  "named_shas k evs = Inr out \<Longrightarrow> ev \<in> set evs \<Longrightarrow> det_get ev k = Inr v \<Longrightarrow> truthy v \<Longrightarrow> str_json v \<in> out"
  by (induction evs arbitrary: out) auto

lemma named_shas_only:
  "named_shas k evs = Inr out \<Longrightarrow> x \<in> out \<Longrightarrow> \<exists>ev \<in> set evs. \<exists>v. det_get ev k = Inr v \<and> truthy v \<and> str_json v = x"
  by (induction evs arbitrary: out) (auto split: if_splits)

lemma named_shas_defined:
  "(\<And>ev. ev \<in> set evs \<Longrightarrow> \<exists>v. det_get ev k = Inr v) \<Longrightarrow> \<exists>out. named_shas k evs = Inr out"
proof (induction evs)
  case (Cons ev evs)
  then obtain out where "named_shas k evs = Inr out" by auto
  moreover obtain v where "det_get ev k = Inr v" using Cons.prems by auto
  ultimately show ?case by simp
qed simp

lemma det_get_row_to_dict [simp]: "det_get (row_to_dict r) k = det_get r k"
  by (simp add: det_get_def)

lemma matches_request_row_to_dict [simp]: "matches_request (row_to_dict r) req = matches_request r req"
  by (simp add: matches_request_def)

lemma expiry_of_row_to_dict [simp]: "expiry_of (row_to_dict r) = expiry_of r"
  by (simp add: expiry_of_def)

text \<open>The row names a digest under a key.\<close>

definition names_sha :: "string \<Rightarrow> string \<Rightarrow> consent_event \<Rightarrow> bool" where
  "names_sha k sha r \<longleftrightarrow> (\<exists>v. det_get r k = Inr v \<and> truthy v \<and> str_json v = sha)"

lemma short_actions [simp]:
  "short_action ''consent.consumed''" "short_action ''consent.approved''" "short_action ''consent.executed''"
  "short_action ''consent.denied''" "short_action ''consent.denial_cleared''"
  by (simp_all add: short_action_def MAX_ACTION_LEN_def)

lemma shas_listed_complete:
  assumes "shas_listed act limit k st = Inr out" "short_action act" "int (length (rows_of act st)) \<le> limit" "limit \<le> 1000"
    and "r \<in> set (rows st)" "action r = act" "names_sha k sha r"
  shows "sha \<in> out"
proof -
  from assms(1) have "db_open st" by (auto simp: shas_listed_def list_events_def split: if_splits)
  from list_events_all [OF this assms(2-4)] obtain evs where
    evs: "list_events (Some act) None None limit st = Inr evs" "set evs = row_to_dict ` set (rows_of act st)" by auto
  from assms(7) obtain v where v: "det_get r k = Inr v" "truthy v" "str_json v = sha" by (auto simp: names_sha_def)
  have "row_to_dict r \<in> set evs" using evs(2) assms(5,6) by (auto simp: rows_of_def)
  moreover have "named_shas k evs = Inr out" using assms(1) evs(1) by (simp add: shas_listed_def)
  ultimately show ?thesis using named_shas_mem [of _ evs out "row_to_dict r" v] v by auto
qed

lemma shas_listed_only:
  assumes "shas_listed act limit k st = Inr out" "short_action act" "sha \<in> out"
  shows "\<exists>r \<in> set (rows st). action r = act \<and> names_sha k sha r"
proof -
  from assms(1) obtain evs where evs: "list_events (Some act) None None limit st = Inr evs" "named_shas k evs = Inr out"
    by (auto simp: shas_listed_def)
  from named_shas_only [OF evs(2) assms(3)] obtain ev where "ev \<in> set evs" "names_sha k sha ev" by (auto simp: names_sha_def)
  with list_events_subset [OF evs(1) assms(2)] show ?thesis by (fastforce simp: names_sha_def)
qed

lemmas consumed_approval_shas_complete =
  shas_listed_complete [of "''consent.consumed''" 200 "''approval_event_sha256''", folded consumed_approval_shas_def, simplified]
lemmas consumed_approval_shas_only =
  shas_listed_only [of "''consent.consumed''" 200 "''approval_event_sha256''", folded consumed_approval_shas_def, simplified]
lemmas cleared_denial_shas_complete =
  shas_listed_complete [of "''consent.denial_cleared''" 500 "''denial_event_sha256''", folded cleared_denial_shas_def, simplified]
lemmas cleared_denial_shas_only =
  shas_listed_only [of "''consent.denial_cleared''" 500 "''denial_event_sha256''", folded cleared_denial_shas_def, simplified]

subsection \<open>Approvals\<close>

lemma scan_approvals_sound:
  assumes "scan_approvals N key consumed flying req cid now evs = Inr (Some ev)"
  shows "ev \<in> set evs \<and> chapter_id ev = cid \<and> (\<exists>why. verify_row N key ev = Inr (True, why))
    \<and> (event_sha256 ev \<notin> consumed \<or> event_sha256 ev \<in> flying) \<and> matches_request ev req = Inr True
    \<and> (\<exists>x. expiry_of ev = Inr (Some x) \<and> now < x)"
  using assms
proof (induction evs)
  case (Cons e evs)
  then show ?case
    by (auto simp: Let_def split: if_splits sum.splits prod.splits bool.splits option.splits)
qed simp

lemma find_valid_approval_row:
  assumes "find_valid_approval N req cid now st = Inr (Some ev)"
  shows "\<exists>r \<in> set (rows st). ev = row_to_dict r \<and> action r = ''consent.approved'' \<and> chapter_id r = cid
    \<and> matches_request r req = Inr True \<and> (\<exists>x. expiry_of r = Inr (Some x) \<and> now < x)"
proof -
  from assms obtain consumed evs where evs: "list_events (Some ''consent.approved'') None None 50 st = Inr evs"
    and scan: "scan_approvals N (signing_key st) consumed (in_flight st) req cid now evs = Inr (Some ev)"
    by (auto simp: find_valid_approval_def)
  note s = scan_approvals_sound [OF scan]
  with list_events_subset [OF evs] obtain r where "r \<in> set (rows st)" "action r = ''consent.approved''" "ev = row_to_dict r"
    by auto
  with s show ?thesis by (auto intro!: bexI [of _ r])
qed


subsection \<open>Rows the gate writes\<close>

text \<open>What a successful append with a non-empty dict adds, in the form the readers look at.\<close>

definition wrote :: "'a ledger_state_scheme \<Rightarrow> string \<Rightarrow> string \<Rightarrow> (string \<times> json) list \<Rightarrow> instant \<Rightarrow> consent_event \<Rightarrow> bool" where
  "wrote st c a kvs now r \<longleftrightarrow> chapter_id r = c \<and> action r = a \<and> occurred_at r = isoformat now
     \<and> event_sha256 r = sha256_of r \<and> event_sha256 r \<notin> event_sha256 ` set (rows st)
     \<and> (\<exists>kvs'. detail r = Some (JObj kvs') \<and> kvs' \<noteq> [] \<and> (\<forall>k. map_of kvs' k = map_option sort_keys (map_of kvs k)))"

lemma wrote_det_get: "wrote st c a kvs now r \<Longrightarrow> det_get r k = Inr (sort_keys (obj_get kvs k))"
  by (auto simp: wrote_def det_get_def event_detail_def or_empty_obj_def split: option.splits)

lemma record_event_appends:
  assumes "record_event N c a u y i t (JObj kvs) now st = (res, st')" "short_action a" "kvs \<noteq> []"
  shows "signing_key st' = signing_key st \<and> db_open st' = db_open st \<and> ledger_state.more st' = ledger_state.more st
    \<and> (((\<exists>e. res = Inl e) \<and> rows st' = rows st)
       \<or> (\<exists>r sg. rows st' = rows st @ [r] \<and> wrote st c a kvs now r \<and> sign_msg N (signing_key st) (event_sha256 r) = Inr (signature_b64 r)
            \<and> db_open st \<and> ((\<exists>e. res = Inl e) \<or> (\<exists>ev. res = Inr ev \<and> event_sha256 ev = event_sha256 r))))"
  using assms(1)
proof (cases rule: record_event_cases)
  case (appended ev sg)
  have ne: "sort_key fst (map (\<lambda>kv. (fst kv, sort_keys (snd kv))) kvs) \<noteq> []"
    using assms(3) by (simp only: length_0_conv [symmetric] length_sort length_map not_False_eq_True)
  have d: "or_empty_obj (JObj kvs) = JObj kvs" using assms(3) by (simp add: or_empty_obj_def)
  have sha: "sha256_of (stored ev) = sha256_of ev" by (simp add: sha256_of_def)
  have f: "chapter_id ev = c" "action ev = a" "occurred_at ev = isoformat now" "event_detail ev = JObj kvs"
    using assms(2) d by (simp_all add: appended(1) short_action_def event_detail_def)
  have "wrote st c a kvs now (stored ev)"
    using appended(3) ne f sha map_of_sorted_values [of kvs] by (auto simp: wrote_def good_append_def)
  with appended show ?thesis by (auto simp: good_append_def)
qed simp

lemma mark_consumed_writes:
  assumes "mark_consumed N sha cid actor ex now st = (res, st')"
  shows "signing_key st' = signing_key st \<and> db_open st' = db_open st \<and> ledger_state.more st' = ledger_state.more st
    \<and> ((\<exists>e. res = Inl e) \<and> rows st' = rows st
       \<or> (\<exists>r. rows st' = rows st @ [r] \<and> action r = ''consent.consumed''
           \<and> (sha \<noteq> [] \<longrightarrow> names_sha ''approval_event_sha256'' sha r)))"
proof -
  obtain res1 where r: "record_event N cid ''consent.consumed'' actor (Some ''approval'') (Some sha) ''ok''
      (JObj [(''approval_event_sha256'', JStr sha), (''execution'', JStr ex)]) now st = (res1, st')"
    and res: "(\<exists>e. res1 = Inl e) \<longleftrightarrow> (\<exists>e. res = Inl e)"
    using assms by (auto simp: mark_consumed_def split: prod.splits sum.splits)
  have n: "names_sha ''approval_event_sha256'' sha row"
    if "wrote st cid ''consent.consumed'' [(''approval_event_sha256'', JStr sha), (''execution'', JStr ex)] now row" "sha \<noteq> []" for row
    using wrote_det_get [OF that(1), of "''approval_event_sha256''"] that(2) by (simp add: names_sha_def)
  show ?thesis using record_event_appends [OF r] n res by (auto simp: wrote_def)
qed

lemma consume_attempts_writes:
  assumes "consume_attempts N n sha cid actor now err st = (err', st')" "sha \<noteq> []"
  shows "signing_key st' = signing_key st \<and> db_open st' = db_open st \<and> ledger_state.more st' = ledger_state.more st
    \<and> set (rows st) \<subseteq> set (rows st')
    \<and> (err' = None \<longrightarrow> err = None \<and> n = 0 \<or> (\<exists>r \<in> set (rows st'). action r = ''consent.consumed'' \<and> names_sha ''approval_event_sha256'' sha r))"
  using assms
proof (induction n arbitrary: st err)
  case (Suc n)
  obtain res1 st1 where m: "mark_consumed N sha cid actor ''unknown'' now st = (res1, st1)"
    by (cases "mark_consumed N sha cid actor ''unknown'' now st") auto
  note w = mark_consumed_writes [OF m]
  show ?case
  proof (cases res1)
    case (Inl e)
    with m Suc.prems have c: "consume_attempts N n sha cid actor now (Some e) st1 = (err', st')" by simp
    from Suc.IH [OF c Suc.prems(2)] w show ?thesis by auto
  next
    case (Inr h)
    with m Suc.prems w show ?thesis by auto
  qed
qed simp

subsection \<open>Every operation only appends\<close>

text \<open>What readers may rely on in a detail: a dict, with text under the expiry key.\<close>

definition safe_detail :: "json \<Rightarrow> bool" where
  "safe_detail d \<longleftrightarrow> (\<exists>kvs. d = JObj kvs \<and> (\<forall>v. map_of kvs ''expires_at'' = Some v \<longrightarrow> (\<exists>s. v = JStr s)))"

definition rows_safe :: "'a ledger_state_scheme \<Rightarrow> bool" where
  "rows_safe st \<longleftrightarrow> (\<forall>r \<in> set (rows st). \<exists>d. detail r = Some d \<and> safe_detail d)"

definition same_ledger :: "'a ledger_state_scheme \<Rightarrow> 'a ledger_state_scheme \<Rightarrow> bool" where
  "same_ledger st st' \<longleftrightarrow> rows st' = rows st \<and> sidecar st' = sidecar st \<and> signing_key st' = signing_key st \<and> db_open st' = db_open st"

text \<open>A run of the program's writers: appends with safe details, and changes that leave the ledger alone.\<close>

inductive writes :: "nacl \<Rightarrow> 'a ledger_state_scheme \<Rightarrow> 'a ledger_state_scheme \<Rightarrow> bool" for N where
  none: "writes N st st"
| appending: "writes N st st1 \<Longrightarrow> safe_detail d \<Longrightarrow> record_event N c a u y i t d now st1 = (res, st2) \<Longrightarrow> writes N st st2"
| beside: "writes N st st1 \<Longrightarrow> same_ledger st1 st2 \<Longrightarrow> writes N st st2"

lemma writes_trans: "writes N st1 st2 \<Longrightarrow> writes N st st1 \<Longrightarrow> writes N st st2"
  by (induction rule: writes.induct) (auto intro: writes.intros)

lemma ledger_inv_same: "same_ledger st st' \<Longrightarrow> ledger_inv N key st \<Longrightarrow> ledger_inv N key st'"
  by (simp add: ledger_inv_def same_ledger_def)

lemma writes_inv: "writes N st st' \<Longrightarrow> ledger_inv N key st \<Longrightarrow> ledger_inv N key st'"
proof (induction rule: writes.induct)
  case (appending st st1 d c a u y i t now res st2)
  then show ?case using ledger_inv_record by blast
qed (simp_all add: ledger_inv_same)

lemma safe_detail_sort: "safe_detail d \<Longrightarrow> safe_detail (sort_keys (or_empty_obj d))"
proof -
  assume "safe_detail d"
  then obtain kvs where d: "d = JObj kvs" "\<forall>v. map_of kvs ''expires_at'' = Some v \<longrightarrow> (\<exists>s. v = JStr s)"
    by (auto simp: safe_detail_def)
  then have "or_empty_obj d = JObj kvs" by (auto simp: or_empty_obj_def)
  then show ?thesis using d(2) map_of_sorted_values [of kvs "''expires_at''"]
    by (auto simp: safe_detail_def simp del: map_of_sort_key)
qed

lemma record_event_safe:
  assumes "record_event N c a u y i t d now st = (res, st')" "safe_detail d" "rows_safe st"
  shows "rows_safe st'"
  using assms(1)
proof (cases rule: record_event_cases)
  case (appended ev sg)
  have "detail (stored ev) = Some (sort_keys (or_empty_obj d))" by (simp add: appended(1) event_detail_def)
  with assms(2,3) appended(2) show ?thesis by (auto simp: rows_safe_def safe_detail_sort)
qed (use assms(3) in \<open>simp add: rows_safe_def\<close>)

lemma writes_safe: "writes N st st' \<Longrightarrow> rows_safe st \<Longrightarrow> rows_safe st'"
proof (induction rule: writes.induct)
  case (appending st st1 d c a u y i t now res st2)
  then show ?case using record_event_safe by blast
qed (auto simp: rows_safe_def same_ledger_def)

lemma writes_grow:
  "writes N st st' \<Longrightarrow> (\<exists>ext. rows st' = rows st @ ext) \<and> signing_key st' = signing_key st \<and> db_open st' = db_open st"
proof (induction rule: writes.induct)
  case (appending st st1 d c a u y i t now res st2)
  from appending(3) have "(rows st2 = rows st1 \<or> (\<exists>r. rows st2 = rows st1 @ [r])) \<and> signing_key st2 = signing_key st1 \<and> db_open st2 = db_open st1"
    by (cases rule: record_event_cases) auto
  with appending.IH show ?case by auto
qed (auto simp: same_ledger_def)

lemma writes_record: "safe_detail d \<Longrightarrow> writes N st (snd (record_event N c a u y i t d now st))"
  by (rule writes.appending [OF writes.none _ prod.collapse [symmetric]])

lemma writes_beside: "same_ledger st st' \<Longrightarrow> writes N st st'"
  by (rule writes.beside [OF writes.none])

lemma emit_same_ledger: "same_ledger st (snd (emit_decision A c s p q t now st))"
  by (simp add: same_ledger_def gate_simps)

text \<open>The shape of the three writers that also emit an envelope.\<close>

lemma writes_record_emit:
  assumes "safe_detail d"
  shows "writes N st (snd (case record_event N c a u y i t d now st of
           (Inl e, s) \<Rightarrow> (Inl e, s)
         | (Inr ev, s) \<Rightarrow> (case emit_decision A cap scp (f ev) pol out now s of (_, s2) \<Rightarrow> (Inr (g ev), s2))))"
proof (cases "record_event N c a u y i t d now st")
  case (Pair res s)
  have w: "writes N st s" using writes_record [OF assms, of N st c a u y i t now] Pair by simp
  show ?thesis
  proof (cases res)
    case (Inr ev)
    have "writes N st (snd (emit_decision A cap scp (f ev) pol out now s))"
      using w emit_same_ledger by (rule writes.beside)
    then show ?thesis using Pair Inr by (simp add: case_prod_beta)
  qed (use Pair w in simp)
qed

lemma record_emit_okE:
  assumes "(case record_event N c a u y i t d now st of
           (Inl e, s) \<Rightarrow> (Inl e, s)
         | (Inr ev, s) \<Rightarrow> (case emit_decision A cap scp (f ev) pol out now s of (_, s2) \<Rightarrow> (Inr (g ev), s2))) = (Inr h, st')"
  obtains ev s where "record_event N c a u y i t d now st = (Inr ev, s)" "h = g ev" "rows st' = rows s"
    "db_faults st' = db_faults s" "in_flight st' = in_flight s"
proof (cases "record_event N c a u y i t d now st")
  case (Pair res s)
  show thesis
  proof (cases res)
    case (Inl e)
    with assms Pair show thesis by simp
  next
    case (Inr ev)
    with assms Pair have h: "h = g ev" "st' = snd (emit_decision A cap scp (f ev) pol out now s)"
      by (auto simp: case_prod_beta)
    then show thesis using that [of ev s] Pair Inr by (simp add: gate_simps)
  qed
qed

lemma safe_detail_fields:
  "map_of kvs ''expires_at'' = None \<Longrightarrow> safe_detail (JObj (request_fields req @ kvs))"
  "map_of kvs ''expires_at'' = Some (JStr s) \<Longrightarrow> safe_detail (JObj (request_fields req @ kvs))"
  by (simp_all add: safe_detail_def request_fields_def)

lemma record_decision_writes: "writes N st (snd (record_decision N A req d cid actor now st))"
  unfolding record_decision_def Let_def by (rule writes_record_emit, rule safe_detail_fields(1)) simp

lemma check_and_record_writes: "writes N st (snd (check_and_record N A req cid actor denied now st))"
  using record_decision_writes [of N st A req "evaluate req denied" cid actor now]
  by (auto simp: check_and_record_def Let_def split: prod.splits sum.splits)

lemma deny_writes: "writes N st (snd (deny N A req cid psha actor now st))"
  unfolding deny_def Let_def by (rule writes_record_emit, rule safe_detail_fields(1)) simp

lemma approve_writes: "writes N st (snd (approve N A req cid psha actor now st))"
  unfolding approve_def Let_def by (rule writes_record_emit, rule safe_detail_fields(2)) simp

lemma safe_detail_plain: "map_of kvs ''expires_at'' = None \<Longrightarrow> safe_detail (JObj kvs)"
  by (simp add: safe_detail_def)

lemma mark_consumed_run: "writes N st (snd (mark_consumed N sha cid actor ex now st))"
  using writes_record [OF safe_detail_plain [of "[(''approval_event_sha256'', JStr sha), (''execution'', JStr ex)]"],
      of N st cid "''consent.consumed''" actor "Some ''approval''" "Some sha" "''ok''" now]
  by (auto simp: mark_consumed_def split: prod.splits sum.splits)

lemma consume_attempts_run: "writes N st (snd (consume_attempts N n sha cid actor now err st))"
proof (induction n arbitrary: st err)
  case (Suc n)
  obtain r s where m: "mark_consumed N sha cid actor ''unknown'' now st = (r, s)"
    by (cases "mark_consumed N sha cid actor ''unknown'' now st")
  have w: "writes N st s" using mark_consumed_run [of N st sha cid actor "''unknown''" now] m by simp
  show ?case
  proof (cases r)
    case (Inl e)
    have "writes N st (snd (consume_attempts N n sha cid actor now (Some e) s))" using Suc.IH w by (rule writes_trans)
    then show ?thesis using m Inl by simp
  qed (use m w in simp)
qed (simp add: writes.none)

lemma claim_approval_run: "writes N st (snd (claim_approval N req cid actor now st))"
proof -
  have w: "writes N st s" if "consume_attempts N 3 sha cid actor now None st = (r, s)" for r s sha
    using consume_attempts_run [of N st 3 sha cid actor now None] that by simp
  then have "writes N st (s\<lparr>in_flight := X\<rparr>)" if "consume_attempts N 3 sha cid actor now None st = (r, s)" for r s sha X
    using that by (intro writes.beside [OF w]) (simp_all add: same_ledger_def)
  with w show ?thesis
    by (auto simp: claim_approval_def Let_def writes.none split: sum.splits option.splits prod.splits)
qed

lemma release_execution_run: "writes N st (snd (release_execution N sha cid ex actor err now st))"
proof -
  let ?d = "[(''approval_event_sha256'', JStr sha), (''execution'', JStr ex)]
      @ (if truthy_str err then [(''error'', JStr (take 2000 (the err)))] else [])"
  let ?s = "st\<lparr>in_flight := in_flight st - {sha}\<rparr>"
  have "writes N st ?s" by (rule writes_beside) (simp add: same_ledger_def)
  moreover have "safe_detail (JObj ?d)" by (rule safe_detail_plain) simp
  ultimately have "writes N st (snd (record_event N cid ''consent.executed'' actor (Some ''approval'') (Some sha) (execution_outcome ex) (JObj ?d) now ?s))"
    using writes_trans writes_record by blast
  moreover have "snd (release_execution N sha cid ex actor err now st)
      = snd (record_event N cid ''consent.executed'' actor (Some ''approval'') (Some sha) (execution_outcome ex) (JObj ?d) now ?s)"
    unfolding release_execution_def Let_def by (simp only: case_prod_beta snd_conv split: sum.splits) simp
  ultimately show ?thesis by simp
qed

lemma clear_loop_run: "writes N st (snd (clear_loop N cid actor key already now n evs st))"
proof (induction evs arbitrary: n st)
  case (Cons ev evs)
  obtain r s where m: "record_event N cid ''consent.denial_cleared'' actor (Some ''denial'') (Some (event_sha256 ev)) ''ok''
      (JObj [(''denial_event_sha256'', JStr (event_sha256 ev))]) now st = (r, s)"
    by (cases "record_event N cid ''consent.denial_cleared'' actor (Some ''denial'') (Some (event_sha256 ev)) ''ok''
      (JObj [(''denial_event_sha256'', JStr (event_sha256 ev))]) now st")
  have w: "writes N st s"
    using writes_record [OF safe_detail_plain [of "[(''denial_event_sha256'', JStr (event_sha256 ev))]"],
        of N st cid "''consent.denial_cleared''" actor "Some ''denial''" "Some (event_sha256 ev)" "''ok''" now] m by simp
  have "writes N st (snd (clear_loop N cid actor key already now n' evs s))" for n'
    using Cons.IH w by (rule writes_trans)
  with m w Cons.IH show ?case by (auto simp: writes.none split: sum.splits)
qed (simp add: writes.none)

lemma clear_denial_run: "writes N st (snd (clear_denial N sha cid actor now st))"
  by (auto simp: clear_denial_def writes.none clear_loop_run split: sum.splits option.splits)

lemmas gate_writes = record_decision_writes check_and_record_writes deny_writes approve_writes
  mark_consumed_run claim_approval_run release_execution_run clear_denial_run

lemma consent_more:
  fixes st st' :: "'a consent_state_scheme"
  assumes "ledger_state.more st' = ledger_state.more st"
  shows "in_flight st' = in_flight st" "envelopes st' = envelopes st" "aae_open st' = aae_open st"
    "aae_identity st' = aae_identity st" "consent_state.more st' = consent_state.more st"
  using assms by (cases st; cases st'; simp)+

lemma claim_approval_post:
  "case claim_approval N req cid actor now st of
     (Inl e, st1) \<Rightarrow> in_flight st1 = in_flight st
   | (Inr None, st1) \<Rightarrow> st1 = st
   | (Inr (Some ev), st1) \<Rightarrow> event_sha256 ev \<notin> in_flight st \<and> in_flight st1 = insert (event_sha256 ev) (in_flight st)
       \<and> (\<exists>c \<in> set (rows st1). action c = ''consent.consumed'' \<and> names_sha ''approval_event_sha256'' (event_sha256 ev) c)"
proof (cases "\<exists>ev. find_valid_approval N req cid now st = Inr (Some ev) \<and> event_sha256 ev \<notin> in_flight st")
  case True
  then obtain ev where f: "find_valid_approval N req cid now st = Inr (Some ev)" "event_sha256 ev \<notin> in_flight st" by blast
  then have "length (event_sha256 ev) = 64"
    by (auto simp: find_valid_approval_def dest!: scan_approvals_sound verify_row_integrity)
  then have "event_sha256 ev \<noteq> []" by auto
  moreover obtain err s where a: "consume_attempts N 3 (event_sha256 ev) cid actor now None st = (err, s)"
    by (cases "consume_attempts N 3 (event_sha256 ev) cid actor now None st")
  ultimately show ?thesis
    using f consume_attempts_writes [OF a] consent_more(1) [of s st]
    by (cases err) (auto simp: claim_approval_def Let_def)
next
  case False
  then show ?thesis by (auto simp: claim_approval_def Let_def split: sum.splits option.splits)
qed

text \<open>Consume before execute. A claim that hands out an approval has put a tombstone naming it into the
  table and marked it in flight, and the approval was not in flight before; a claim that finds nothing changes nothing; a claim
  that raises, after three attempts at the tombstone, marks nothing in flight.\<close>

theorem claim_consumes_before_execution:
  "case claim_approval N req cid actor now st of
     (Inl e, st1) \<Rightarrow> in_flight st1 = in_flight st
   | (Inr None, st1) \<Rightarrow> st1 = st
   | (Inr (Some ev), st1) \<Rightarrow> event_sha256 ev \<notin> in_flight st \<and> in_flight st1 = insert (event_sha256 ev) (in_flight st)
       \<and> (\<exists>c \<in> set (rows st1). action c = ''consent.consumed'' \<and> names_sha ''approval_event_sha256'' (event_sha256 ev) c)"
  by (rule claim_approval_post)

text \<open>C6: one approval, one execution. An approval named by a tombstone in the table is never handed
  out again, by any claim at any time, in this process or after a restart, while the table has at most two hundred tombstones.\<close>

theorem spent_approval_is_never_claimed:
  assumes "c \<in> set (rows st)" "action c = ''consent.consumed''" "names_sha ''approval_event_sha256'' sha c"
    and "length (rows_of ''consent.consumed'' st) \<le> 200"
  shows "fst (claim_approval N req cid actor now st) = Inr (Some ev) \<longrightarrow> event_sha256 ev \<noteq> sha"
proof
  assume claim: "fst (claim_approval N req cid actor now st) = Inr (Some ev)"
  then have f: "find_valid_approval N req cid now st = Inr (Some ev)" and nf: "event_sha256 ev \<notin> in_flight st"
    by (auto simp: claim_approval_def Let_def split: sum.splits option.splits if_splits prod.splits)
  from f obtain consumed evs where k: "consumed_approval_shas st = Inr consumed"
    and scan: "scan_approvals N (signing_key st) consumed (in_flight st) req cid now evs = Inr (Some ev)"
    by (auto simp: find_valid_approval_def)
  have "sha \<in> consumed" using consumed_approval_shas_complete [OF k assms(4,1,2,3)] .
  with scan_approvals_sound [OF scan] nf show "event_sha256 ev \<noteq> sha" by auto
qed

subsection \<open>A fresh approval can be claimed\<close>

lemma scan_approvals_complete:
  assumes "\<forall>e \<in> set evs. (\<exists>v. verify_row N key e = Inr v) \<and> (\<exists>m. matches_request e req = Inr m) \<and> (\<exists>x. expiry_of e = Inr x)"
    and "ev \<in> set evs" "chapter_id ev = cid" "verify_row N key ev = Inr (True, why)"
    and "event_sha256 ev \<notin> consumed" "matches_request ev req = Inr True" "expiry_of ev = Inr (Some x)" "now < x"
  shows "\<exists>e. scan_approvals N key consumed flying req cid now evs = Inr (Some e)"
  using assms
proof (induction evs)
  case (Cons e evs)
  show ?case
  proof (cases "ev = e")
    case True
    with Cons.prems show ?thesis by simp
  next
    case False
    then have "\<exists>e. scan_approvals N key consumed flying req cid now evs = Inr (Some e)"
      using Cons.prems by (intro Cons.IH) auto
    moreover obtain v m y where "verify_row N key e = Inr v" "matches_request e req = Inr m" "expiry_of e = Inr y"
      using Cons.prems(1) by auto
    ultimately show ?thesis by (cases v) (auto simp: Let_def split: option.splits bool.splits)
  qed
qed simp

lemma safe_row_readable:
  assumes "detail r = Some d" "safe_detail d"
  shows "\<exists>m. matches_request r req = Inr m" "\<exists>x. expiry_of r = Inr x" "\<exists>v. det_get r k = Inr v"
proof -
  obtain kvs where kvs: "or_empty_obj (event_detail r) = JObj kvs" "\<forall>v. map_of kvs ''expires_at'' = Some v \<longrightarrow> (\<exists>s. v = JStr s)"
    using assms by (auto simp: safe_detail_def event_detail_def)
  then show "\<exists>m. matches_request r req = Inr m" "\<exists>v. det_get r k = Inr v"
    by (simp_all add: matches_request_def det_get_def)
  from kvs show "\<exists>x. expiry_of r = Inr x" by (fastforce simp: expiry_of_def split: option.splits json.splits)
qed

lemma verify_row_defined:
  "\<forall>k. key = Some k \<longrightarrow> nacl_correct N k \<Longrightarrow> \<exists>v. verify_row N key r = Inr v"
  by (cases key) (auto simp: verify_row_def verify_key_or_none_def nacl_correct_def Let_def)

lemma shas_listed_defined:
  assumes "rows_safe st" "db_open st" "short_action act"
  shows "\<exists>out. shas_listed act limit k st = Inr out"
proof -
  obtain evs where evs: "list_events (Some act) None None limit st = Inr evs"
    using list_events_action [OF assms(2,3)] by fastforce
  have "\<exists>v. det_get ev k = Inr v" if e: "ev \<in> set evs" for ev
  proof -
    from list_events_subset [OF evs assms(3) e] obtain r where "r \<in> set (rows st)" "ev = row_to_dict r" by auto
    with assms(1) safe_row_readable(3) show ?thesis by (fastforce simp: rows_safe_def)
  qed
  with evs named_shas_defined show ?thesis by (fastforce simp: shas_listed_def)
qed

text \<open>The situation in which a claim succeeds: some stored approval is usable.\<close>

lemma find_valid_approval_complete:
  assumes inv: "ledger_inv N key st" "rows_safe st" "\<forall>k. key = Some k \<longrightarrow> nacl_correct N k"
    and few: "length (rows_of ''consent.approved'' st) \<le> 50"
    and r: "r \<in> set (rows st)" "action r = ''consent.approved''" "chapter_id r = cid"
      "matches_request r req = Inr True" "expiry_of r = Inr (Some x)" "now < x"
    and unspent: "\<not> (\<exists>c \<in> set (rows st). action c = ''consent.consumed'' \<and> names_sha ''approval_event_sha256'' (event_sha256 r) c)"
  shows "\<exists>ev. find_valid_approval N req cid now st = Inr (Some ev)"
proof -
  have op: "db_open st" and key: "signing_key st = key" using inv(1) by (simp_all add: ledger_inv_def)
  obtain consumed where c: "consumed_approval_shas st = Inr consumed"
    using shas_listed_defined [OF inv(2) op short_actions(1)] unfolding consumed_approval_shas_def by blast
  have nc: "event_sha256 r \<notin> consumed" using consumed_approval_shas_only [OF c] unspent by blast
  obtain evs where evs: "list_events (Some ''consent.approved'') None None 50 st = Inr evs"
    "set evs = row_to_dict ` set (rows_of ''consent.approved'' st)"
    using list_events_all [OF op, of "''consent.approved''" 50] few by auto
  have "event_sha256 r = sha256_of r" "row_signed N key r"
    using inv(1) r(1) by (auto simp: ledger_inv_def sha256_of_def dest: chained_dig)
  with verify_row_accepts inv(3) obtain why where v: "verify_row N key (row_to_dict r) = Inr (True, why)" by blast
  have "\<forall>e \<in> set evs. (\<exists>v. verify_row N key e = Inr v) \<and> (\<exists>m. matches_request e req = Inr m) \<and> (\<exists>x. expiry_of e = Inr x)"
  proof
    fix e
    assume "e \<in> set evs"
    then obtain q where "q \<in> set (rows st)" "e = row_to_dict q" using evs(2) by (auto simp: rows_of_def)
    with inv(2) safe_row_readable(1,2) verify_row_defined [OF inv(3)]
    show "(\<exists>v. verify_row N key e = Inr v) \<and> (\<exists>m. matches_request e req = Inr m) \<and> (\<exists>x. expiry_of e = Inr x)"
      by (fastforce simp: rows_safe_def)
  qed
  moreover have "row_to_dict r \<in> set evs" using evs(2) r(1,2) by (auto simp: rows_of_def)
  ultimately have "\<exists>e. scan_approvals N key consumed (in_flight st) req cid now evs = Inr (Some e)"
    using scan_approvals_complete [of evs N key req "row_to_dict r" cid why consumed x now "in_flight st"] v nc r by simp
  with c evs(1) key show ?thesis by (simp add: find_valid_approval_def)
qed

lemma tombstone_valid:
  assumes "length sha = 64"
  shows "fst (validate ''consent.consumed'' ''ok'' (JObj [(''approval_event_sha256'', JStr sha), (''execution'', JStr ''unknown'')]))"
proof -
  have "length (dump_str sha) \<le> 386" using length_dump_str [of sha] assms by simp
  moreover have "length (dump_str ''approval_event_sha256'') \<le> 200" "length (dump_str ''execution'') \<le> 200" "length (dump_str ''unknown'') \<le> 200"
    by (simp_all add: dump_str_def esc_char_def)
  ultimately have "dumps_len (JObj [(''approval_event_sha256'', JStr sha), (''execution'', JStr ''unknown'')]) \<le> MAX_DETAIL_BYTES"
    by (simp add: dumps_len_def MAX_DETAIL_BYTES_def)
  then show ?thesis by (simp add: validate_def VALID_OUTCOMES_def MAX_ACTION_LEN_def)
qed

lemma mark_consumed_no_fault:
  assumes "length sha = 64" "db_open st" "db_faults st = []" "\<forall>k. signing_key st = Some k \<longrightarrow> nacl_correct N k"
  shows "(\<exists>h. fst (mark_consumed N sha cid actor ''unknown'' now st) = Inr h)
    \<or> mark_consumed N sha cid actor ''unknown'' now st = (Inl IntegrityError, st)"
  using record_event_no_fault [of "''consent.consumed''" "''ok''" "JObj [(''approval_event_sha256'', JStr sha), (''execution'', JStr ''unknown'')]"
      st N cid actor "Some ''approval''" "Some sha" now] tombstone_valid [OF assms(1)] assms(2-4)
  by (auto simp: mark_consumed_def nacl_correct_def split: prod.splits sum.splits)

lemma consume_attempts_no_fault:
  assumes "length sha = 64" "db_open st" "db_faults st = []" "\<forall>k. signing_key st = Some k \<longrightarrow> nacl_correct N k" "n \<noteq> 0"
  shows "fst (consume_attempts N n sha cid actor now err st) \<in> {None, Some IntegrityError}"
  using assms(5)
proof (induction n arbitrary: err)
  case (Suc n)
  from mark_consumed_no_fault [OF assms(1-4), of cid actor now] show ?case
  proof
    assume "mark_consumed N sha cid actor ''unknown'' now st = (Inl IntegrityError, st)"
    with Suc show ?case by (cases "n = 0") auto
  qed (auto split: prod.splits sum.splits)
qed simp

lemma request_fields_get [simp]:
  "map_of (request_fields req @ kvs) ''capability'' = Some (JStr (capability req))"
  "map_of (request_fields req @ kvs) ''scope'' = Some (JStr (scope req))"
  "map_of (request_fields req @ kvs) ''context'' = Some (JStr (context_fp req))"
  "map_of (request_fields req @ kvs) ''provenance'' = Some (JStr (provenance req))"
  "map_of (request_fields req @ kvs) ''expires_at'' = map_of kvs ''expires_at''"
  by (simp_all add: request_fields_def)

lemma wrote_matches: "wrote st c a (request_fields req @ kvs) now r \<Longrightarrow> matches_request r req = Inr True"
  by (auto simp: wrote_def matches_request_def event_detail_def simp del: map_of_append)

lemma wrote_expiry:
  "wrote st c a (request_fields req @ kvs) now r \<Longrightarrow> map_of kvs ''expires_at'' = Some (JStr s) \<Longrightarrow> expiry_of r = Inr (fromisoformat s)"
  by (auto simp: wrote_def expiry_of_def event_detail_def simp del: map_of_append)

text \<open>A successful approval stores a row the readers will match.\<close>

lemma approve_writes_row:
  assumes "approve N A req cid psha actor t st = (Inr sha, st1)"
  shows "\<exists>r. rows st1 = rows st @ [r] \<and> action r = ''consent.approved'' \<and> chapter_id r = cid \<and> event_sha256 r = sha
    \<and> matches_request r req = Inr True \<and> expiry_of r = Inr (fromisoformat (isoformat (t + APPROVAL_TTL)))"
proof -
  let ?kvs = "[(''prompt_event_sha256'', JStr psha), (''expires_at'', JStr (isoformat (t + APPROVAL_TTL))), (''extra'', JObj (extra req))]"
  obtain ev s where rec: "record_event N cid ''consent.approved'' actor (Some ''capability'') (Some (capability req)) ''ok''
      (JObj (request_fields req @ ?kvs)) t st = (Inr ev, s)" and sha: "sha = event_sha256 ev" and rows: "rows st1 = rows s"
    using assms unfolding approve_def Let_def by (elim record_emit_okE)
  from record_event_appends [OF rec] obtain r where r: "rows s = rows st @ [r]" "wrote st cid ''consent.approved'' (request_fields req @ ?kvs) t r"
    "event_sha256 ev = event_sha256 r" by auto
  then show ?thesis using rows sha wrote_matches [OF r(2)] wrote_expiry [OF r(2)] by (auto simp: wrote_def)
qed

lemma record_event_flight [gate_simps]:
  fixes st :: "'a consent_state_scheme"
  shows "in_flight (snd (record_event N c a u y i t d now st)) = in_flight st"
    "consent_state.more (snd (record_event N c a u y i t d now st)) = consent_state.more st"
proof -
  obtain res st' where r: "record_event N c a u y i t d now st = (res, st')"
    by (cases "record_event N c a u y i t d now st")
  then have "ledger_state.more st' = ledger_state.more st" by (cases rule: record_event_cases) auto
  with r consent_more [of st' st] show "in_flight (snd (record_event N c a u y i t d now st)) = in_flight st"
    "consent_state.more (snd (record_event N c a u y i t d now st)) = consent_state.more st" by simp_all
qed

lemma record_event_fault_stream:
  "record_event N c a u y i t d now st = (Inr ev, st') \<Longrightarrow> db_faults st' = tl (db_faults st)"
  by (auto simp: record_event_def Let_def split: bool.splits if_splits sum.splits prod.splits
        dest!: write_checkpoint_frame(4))

lemma approve_frame:
  assumes "approve N A req cid psha actor t st = (Inr sha, st1)"
  shows "db_faults st1 = tl (db_faults st) \<and> in_flight st1 = in_flight st"
proof -
  from assms obtain ev s d where rec: "record_event N cid ''consent.approved'' actor (Some ''capability'') (Some (capability req)) ''ok'' d t st = (Inr ev, s)"
    and fr: "db_faults st1 = db_faults s" "in_flight st1 = in_flight s"
    unfolding approve_def Let_def by (elim record_emit_okE) metis
  have "in_flight s = in_flight st" using record_event_flight(1) [of N cid] rec by (metis snd_conv)
  with fr record_event_fault_stream [OF rec] show ?thesis by simp
qed

lemma valid_row_claimable:
  assumes inv: "ledger_inv N key st" "rows_safe st" "\<forall>k. key = Some k \<longrightarrow> nacl_correct N k"
    and few: "length (rows_of ''consent.approved'' st) \<le> 50" "db_faults st = []" "in_flight st = {}"
    and r: "r \<in> set (rows st)" "action r = ''consent.approved''" "chapter_id r = cid"
      "matches_request r req = Inr True" "expiry_of r = Inr (Some x)" "now < x"
    and unspent: "\<not> (\<exists>c \<in> set (rows st). action c = ''consent.consumed'' \<and> names_sha ''approval_event_sha256'' (event_sha256 r) c)"
  shows "(\<exists>ev. fst (claim_approval N req cid actor now st) = Inr (Some ev) \<and> matches_request ev req = Inr True)
         \<or> fst (claim_approval N req cid actor now st) = Inl IntegrityError"
proof -
  from find_valid_approval_complete [OF inv few(1) r unspent]
  obtain ev where f: "find_valid_approval N req cid now st = Inr (Some ev)" by auto
  then obtain consumed evs where
    s: "scan_approvals N (signing_key st) consumed (in_flight st) req cid now evs = Inr (Some ev)"
    by (auto simp: find_valid_approval_def)
  note sound = scan_approvals_sound [OF s]
  then have len: "length (event_sha256 ev) = 64" by (auto dest: verify_row_integrity)
  have "db_open st" "\<forall>k. signing_key st = Some k \<longrightarrow> nacl_correct N k" using inv(1,3) by (auto simp: ledger_inv_def)
  from consume_attempts_no_fault [OF len this(1) few(2) this(2), of 3 cid actor now None] sound f few(3)
  show ?thesis by (auto simp: claim_approval_def Let_def split: prod.splits)
qed

text \<open>An approval can be used: once the user's approval is stored, a claim of the same action
  before its expiry returns a matching approval, on a ledger without database faults or other executions
  in flight, with at most fifty approvals. The one other result is the database refusing the tombstone because a row with
  its digest is already stored.\<close>

theorem stored_approval_can_be_claimed:
  assumes "ledger_inv N key st" "rows_safe st" "\<forall>k. key = Some k \<longrightarrow> nacl_correct N k"
    and "approve N A req cid psha actor t st = (Inr sha, st1)" "db_faults st = []" "in_flight st = {}"
    and "length (rows_of ''consent.approved'' st1) \<le> 50"
    and "\<not> (\<exists>c \<in> set (rows st1). action c = ''consent.consumed'' \<and> names_sha ''approval_event_sha256'' sha c)"
    and "now < t + APPROVAL_TTL" "t + APPROVAL_TTL < max_instant"
  shows "(\<exists>ev. fst (claim_approval N req cid actor' now st1) = Inr (Some ev) \<and> matches_request ev req = Inr True)
         \<or> fst (claim_approval N req cid actor' now st1) = Inl IntegrityError"
proof -
  have w: "writes N st st1" using approve_writes [of N st A req cid psha actor t] assms(4) by simp
  have inv: "ledger_inv N key st1" "rows_safe st1" using writes_inv [OF w assms(1)] writes_safe [OF w assms(2)] .
  have fr: "db_faults st1 = []" "in_flight st1 = {}" using approve_frame [OF assms(4)] assms(5,6) by auto
  from approve_writes_row [OF assms(4)] obtain r where "rows st1 = rows st @ [r]" and r: "action r = ''consent.approved''" "chapter_id r = cid"
    "event_sha256 r = sha" "matches_request r req = Inr True" "expiry_of r = Inr (fromisoformat (isoformat (t + APPROVAL_TTL)))"
    by blast
  then have r1: "r \<in> set (rows st1)" by simp
  from r(5) have x: "expiry_of r = Inr (Some (t + APPROVAL_TTL))" using isoformat_roundtrip [OF assms(10)] by simp
  have "\<not> (\<exists>c \<in> set (rows st1). action c = ''consent.consumed'' \<and> names_sha ''approval_event_sha256'' (event_sha256 r) c)"
    using assms(8) r(3) by simp
  from valid_row_claimable [OF inv assms(3,7) fr r1 r(1,2,4) x assms(9) this] show ?thesis .
qed

subsection \<open>Denials\<close>

lemma scan_denials_sound:
  assumes "scan_denials cleared req cid now evs = Inr (Some ev)"
  shows "ev \<in> set evs \<and> chapter_id ev = cid \<and> event_sha256 ev \<notin> cleared \<and> matches_request ev req = Inr True
    \<and> (\<exists>occ. fromisoformat (occurred_at ev) = Some occ \<and> int now - int occ \<le> int DENIAL_COOLDOWN)"
  using assms
proof (induction evs)
  case (Cons e evs)
  then show ?case by (auto simp: Let_def split: if_splits sum.splits bool.splits option.splits)
qed simp

lemma scan_denials_complete:
  assumes "\<forall>e \<in> set evs. \<exists>m. matches_request e req = Inr m"
    and "ev \<in> set evs" "chapter_id ev = cid" "event_sha256 ev \<notin> cleared" "matches_request ev req = Inr True"
    and "fromisoformat (occurred_at ev) = Some occ" "int now - int occ \<le> int DENIAL_COOLDOWN"
  shows "\<exists>e. scan_denials cleared req cid now evs = Inr (Some e)"
  using assms
proof (induction evs)
  case (Cons e evs)
  show ?case
  proof (cases "ev = e")
    case False
    then have "\<exists>e. scan_denials cleared req cid now evs = Inr (Some e)"
      using Cons.prems by (intro Cons.IH) auto
    moreover obtain m where "matches_request e req = Inr m" using Cons.prems(1) by auto
    ultimately show ?thesis by (auto simp: Let_def split: option.splits bool.splits)
  qed (use Cons.prems in simp)
qed simp

lemma deny_writes_row:
  assumes "deny N A req cid psha actor t st = (Inr sha, st1)"
  shows "\<exists>r. rows st1 = rows st @ [r] \<and> action r = ''consent.denied'' \<and> chapter_id r = cid \<and> event_sha256 r = sha
    \<and> matches_request r req = Inr True \<and> occurred_at r = isoformat t"
proof -
  let ?kvs = "[(''prompt_event_sha256'', JStr psha), (''extra'', JObj (extra req)), (''decision_reason'', JStr ''user_denied'')]"
  obtain ev s where rec: "record_event N cid ''consent.denied'' actor (Some ''capability'') (Some (capability req)) ''denied''
      (JObj (request_fields req @ ?kvs)) t st = (Inr ev, s)" and sha: "sha = event_sha256 ev" and rows: "rows st1 = rows s"
    using assms unfolding deny_def Let_def by (elim record_emit_okE)
  from record_event_appends [OF rec] obtain r where r: "rows s = rows st @ [r]" "wrote st cid ''consent.denied'' (request_fields req @ ?kvs) t r"
    "event_sha256 ev = event_sha256 r" by auto
  then show ?thesis using rows sha wrote_matches [OF r(2)] by (auto simp: wrote_def)
qed

text \<open>A denial sticks: once the user's denial is stored, the same action is suppressed for the next
  hour, unless the user lifts the denial (on a ledger with at most fifty denials).\<close>

theorem stored_denial_suppresses:
  assumes "rows_safe st" "db_open st" "deny N A req cid psha actor t st = (Inr sha, st1)"
    and "length (rows_of ''consent.denied'' st1) \<le> 50"
    and "\<not> (\<exists>c \<in> set (rows st1). action c = ''consent.denial_cleared'' \<and> names_sha ''denial_event_sha256'' sha c)"
    and "now \<le> t + DENIAL_COOLDOWN" "t < max_instant"
  shows "\<exists>ev. find_recent_denial req cid now st1 = Inr (Some ev) \<and> matches_request ev req = Inr True"
proof -
  have w: "writes N st st1" using deny_writes [of N st A req cid psha actor t] assms(3) by simp
  have safe: "rows_safe st1" and op: "db_open st1" using writes_safe [OF w assms(1)] writes_grow [OF w] assms(2) by auto
  from deny_writes_row [OF assms(3)] obtain r where "rows st1 = rows st @ [r]" and r: "action r = ''consent.denied''" "chapter_id r = cid"
    "event_sha256 r = sha" "matches_request r req = Inr True" "occurred_at r = isoformat t" by blast
  then have r1: "r \<in> set (rows st1)" by simp
  obtain cleared where c: "cleared_denial_shas st1 = Inr cleared" using shas_listed_defined [OF safe op short_actions(5)] unfolding cleared_denial_shas_def by blast
  have nc: "event_sha256 r \<notin> cleared" using cleared_denial_shas_only [OF c] assms(5) r(3) by blast
  obtain evs where evs: "list_events (Some ''consent.denied'') None None 50 st1 = Inr evs"
    "set evs = row_to_dict ` set (rows_of ''consent.denied'' st1)"
    using list_events_all [OF op, of "''consent.denied''" 50] assms(4) by auto
  have "\<forall>e \<in> set evs. \<exists>m. matches_request e req = Inr m"
    using evs(2) safe safe_row_readable(1) by (fastforce simp: rows_of_def rows_safe_def)
  moreover have "row_to_dict r \<in> set evs" using evs(2) r1 r(1) by (auto simp: rows_of_def)
  ultimately obtain e where s: "scan_denials cleared req cid now evs = Inr (Some e)"
    using scan_denials_complete [of evs req "row_to_dict r" cid cleared t now] nc r isoformat_roundtrip [OF assms(7)] assms(6) by auto
  with c evs(1) scan_denials_sound [OF s] show ?thesis by (simp add: find_recent_denial_def)
qed

lemma recent_denial_facts:
  assumes "find_recent_denial req cid now st = Inr (Some ev)" "length (rows_of ''consent.denial_cleared'' st) \<le> 500"
  shows "\<exists>r \<in> set (rows st). ev = row_to_dict r \<and> action r = ''consent.denied'' \<and> chapter_id r = cid
    \<and> matches_request r req = Inr True
    \<and> (\<exists>occ. fromisoformat (occurred_at r) = Some occ \<and> int now - int occ \<le> int DENIAL_COOLDOWN)
    \<and> \<not> (\<exists>c \<in> set (rows st). action c = ''consent.denial_cleared'' \<and> names_sha ''denial_event_sha256'' (event_sha256 r) c)"
proof -
  from assms(1) obtain cleared evs where c: "cleared_denial_shas st = Inr cleared"
    and evs: "list_events (Some ''consent.denied'') None None 50 st = Inr evs"
    and scan: "scan_denials cleared req cid now evs = Inr (Some ev)" by (auto simp: find_recent_denial_def)
  note s = scan_denials_sound [OF scan]
  from list_events_subset [OF evs] s obtain r where r: "r \<in> set (rows st)" "action r = ''consent.denied''" "ev = row_to_dict r" by auto
  have "\<not> (\<exists>c \<in> set (rows st). action c = ''consent.denial_cleared'' \<and> names_sha ''denial_event_sha256'' (event_sha256 r) c)"
    using cleared_denial_shas_complete [OF c assms(2)] s r(3) by auto
  with s r show ?thesis by (intro bexI [of _ r]) auto
qed

text \<open>Suppression is never wider than the denial: what suppresses an action is a stored denial of this
  chapter for exactly that capability, scope, context and provenance, at most an hour old and not lifted.\<close>

theorem find_recent_denial_sound:
  assumes "find_recent_denial req cid now st = Inr (Some ev)" "length (rows_of ''consent.denial_cleared'' st) \<le> 500"
  shows "\<exists>r \<in> set (rows st). ev = row_to_dict r \<and> action r = ''consent.denied'' \<and> chapter_id r = cid
    \<and> matches_request r req = Inr True
    \<and> (\<exists>occ. fromisoformat (occurred_at r) = Some occ \<and> int now - int occ \<le> int DENIAL_COOLDOWN)
    \<and> \<not> (\<exists>c \<in> set (rows st). action c = ''consent.denial_cleared'' \<and> names_sha ''denial_event_sha256'' (event_sha256 r) c)"
  using assms by (rule recent_denial_facts)

lemma clear_loop_marks:
  assumes "clear_loop N cid actor key already now n evs st = (Inr m, st1)" "ev \<in> set evs" "chapter_id ev = cid"
    "denial_key ev = Inr key" "event_sha256 ev \<noteq> []" "event_sha256 ev \<notin> already"
  shows "\<exists>c \<in> set (rows st1). action c = ''consent.denial_cleared'' \<and> names_sha ''denial_event_sha256'' (event_sha256 ev) c"
  using assms
proof (induction evs arbitrary: n st)
  case (Cons e evs)
  let ?rec = "record_event N cid ''consent.denial_cleared'' actor (Some ''denial'') (Some (event_sha256 e)) ''ok''
      (JObj [(''denial_event_sha256'', JStr (event_sha256 e))]) now st"
  show ?case
  proof (cases "ev = e")
    case True
    with Cons.prems obtain x s where s: "?rec = (Inr x, s)" "clear_loop N cid actor key already now (n + 1) evs s = (Inr m, st1)"
      by (auto split: sum.splits prod.splits)
    from record_event_appends [OF s(1)] obtain r where r: "rows s = rows st @ [r]"
      "wrote st cid ''consent.denial_cleared'' [(''denial_event_sha256'', JStr (event_sha256 e))] now r" by auto
    have "names_sha ''denial_event_sha256'' (event_sha256 e) r"
      using wrote_det_get [OF r(2), of "''denial_event_sha256''"] Cons.prems(5) True by (simp add: names_sha_def)
    moreover have "r \<in> set (rows st1)"
      using writes_grow [OF clear_loop_run [of N s cid actor key already now "n + 1" evs]] s(2) r(1) by auto
    ultimately show ?thesis using r(2) True by (auto simp: wrote_def)
  next
    case False
    with Cons.prems obtain n' s where "clear_loop N cid actor key already now n' evs s = (Inr m, st1)"
      by (auto split: sum.splits prod.splits if_splits)
    with Cons False show ?thesis by auto
  qed
qed simp

text \<open>Lifting a denial works: after a lift that reports success, the denial no longer suppresses any
  request, if the table held at most two hundred denials and no more than five hundred lifts.\<close>

theorem cleared_denial_stops_suppressing:
  assumes "r \<in> set (rows st)" "action r = ''consent.denied''" "chapter_id r = cid" "event_sha256 r \<noteq> []"
    and "distinct (map event_sha256 (rows st))" "length (rows_of ''consent.denied'' st) \<le> 200"
  shows "case clear_denial N (event_sha256 r) cid actor now st of
           (Inl e, st1) \<Rightarrow> True
         | (Inr n, st1) \<Rightarrow> length (rows_of ''consent.denial_cleared'' st1) \<le> 500 \<longrightarrow>
             (\<forall>req cid' now' ev. find_recent_denial req cid' now' st1 = Inr (Some ev) \<longrightarrow> event_sha256 ev \<noteq> event_sha256 r)"
proof (cases "clear_denial N (event_sha256 r) cid actor now st")
  case (Pair res st1)
  have "event_sha256 ev \<noteq> event_sha256 r"
    if res: "res = Inr n" and few: "length (rows_of ''consent.denial_cleared'' st1) \<le> 500"
      and f: "find_recent_denial req cid' now' st1 = Inr (Some ev)" for n req cid' now' ev
  proof -
    have op: "db_open st" using Pair res by (auto simp: clear_denial_def list_events_def split: if_splits)
    from list_events_all [OF op, of "''consent.denied''" 200] assms(6) obtain evs where
      evs: "list_events (Some ''consent.denied'') None None 200 st = Inr evs"
      "set evs = row_to_dict ` set (rows_of ''consent.denied'' st)" by auto
    have mem: "row_to_dict r \<in> set evs" using evs(2) assms(1,2) by (auto simp: rows_of_def)
    have uniq: "e = row_to_dict r" if "e \<in> set evs" "event_sha256 e = event_sha256 r" for e
      using that evs(2) assms(1,5) by (auto simp: rows_of_def distinct_map inj_on_def)
    obtain e where e: "find (\<lambda>e. event_sha256 e = event_sha256 r) evs = Some e"
      using mem by (cases "find (\<lambda>e. event_sha256 e = event_sha256 r) evs") (force simp: find_None_iff)+
    with find_SomeD [OF e] uniq have "e = row_to_dict r" by blast
    with Pair res evs(1) e obtain key already where k: "denial_key (row_to_dict r) = Inr key" "cleared_denial_shas st = Inr already"
      "clear_loop N cid actor key already now 0 evs st = (Inr n, st1)"
      by (auto simp: clear_denial_def split: sum.splits)
    have "\<exists>c \<in> set (rows st1). action c = ''consent.denial_cleared'' \<and> names_sha ''denial_event_sha256'' (event_sha256 r) c"
    proof (cases "event_sha256 r \<in> already")
      case True
      from cleared_denial_shas_only [OF k(2) True] writes_grow [OF clear_loop_run [of N st cid actor key already now 0 evs]] k(3)
      show ?thesis by auto
    next
      case False
      with clear_loop_marks [OF k(3) mem] assms(3,4) k(1) show ?thesis by simp
    qed
    with recent_denial_facts [OF f few] show ?thesis by auto
  qed
  with Pair show ?thesis by (cases res) auto
qed

subsection \<open>A concrete run\<close>

definition demo_req :: action_request where
  "demo_req = \<lparr>capability = ''fs.read'', scope = ''/tmp/a'', context_fp = ''ctx'', provenance = ''trusted'',
     source_ref = None, rationale = [], extra = []\<rparr>"

definition demo_st :: consent_state where
  "demo_st = init plain_aae (Some ''k'') fresh_consent"

lemma demo_st_facts [simp]:
  "rows demo_st = []" "db_open demo_st" "db_faults demo_st = []" "in_flight demo_st = {}" "signing_key demo_st = Some ''k''"
  "sidecar demo_st = None"
  by (simp_all add: demo_st_def init_def configure_def open_ledger_def fresh_consent_def Let_def)

lemma demo_inv: "ledger_inv tag_nacl (Some ''k'') demo_st" "rows_safe demo_st"
  by (simp_all add: ledger_inv_def rows_safe_def checkpoint_ok_def)

lemma length_isoformat: "length (isoformat t) \<le> 32"
  by (simp add: isoformat_def date_text_def time_text_def Let_def)

lemma demo_detail_valid:
  "length p \<le> 64 \<Longrightarrow> length x \<le> 32 \<Longrightarrow> fst (validate ''consent.approved'' ''ok'' (JObj (request_fields demo_req @
     [(''prompt_event_sha256'', JStr p), (''expires_at'', JStr x), (''extra'', JObj [])])))"
  using length_dump_str [of p] length_dump_str [of x]
  by (simp add: validate_def VALID_OUTCOMES_def MAX_ACTION_LEN_def MAX_DETAIL_BYTES_def dumps_len_def request_fields_def
      demo_req_def jstr_opt_def) (simp add: dump_str_def esc_char_def)

lemma demo_approve_any:
  fixes st :: "'a consent_state_scheme"
  assumes "rows st = []" "db_open st" "db_faults st = []" "signing_key st = Some ''k''" "length p \<le> 64"
  shows "\<exists>sha st1. approve tag_nacl A demo_req c p None now st = (Inr sha, st1)"
proof -
  let ?d = "JObj (request_fields demo_req @ [(''prompt_event_sha256'', JStr p),
    (''expires_at'', JStr (isoformat (now + APPROVAL_TTL))), (''extra'', JObj (extra demo_req))])"
  have "extra demo_req = []" by (simp add: demo_req_def)
  then have "fst (validate ''consent.approved'' ''ok'' ?d)"
    using demo_detail_valid [OF assms(5), of "isoformat (now + APPROVAL_TTL)"] length_isoformat by simp
  then have "\<exists>ev. fst (record_event tag_nacl c ''consent.approved'' None (Some ''capability'') (Some (capability demo_req)) ''ok'' ?d now st) = Inr ev"
    using assms by (intro record_event_succeeds) (simp_all add: tag_nacl_def)
  then obtain ev s where "record_event tag_nacl c ''consent.approved'' None (Some ''capability'') (Some (capability demo_req)) ''ok'' ?d now st = (Inr ev, s)"
    by (metis prod.collapse)
  then show ?thesis unfolding approve_def Let_def by (simp add: case_prod_beta)
qed

lemma demo_approve: "\<exists>sha st1. approve tag_nacl plain_aae demo_req ''c'' ''p'' None 5 demo_st = (Inr sha, st1)"
  by (rule demo_approve_any) simp_all

lemma small_instants: "t + APPROVAL_TTL < max_instant" if "t < 1000"
  using that by (simp add: APPROVAL_TTL_def minutes_us_def max_instant_def days_of_years_def usec_per_day_def)

theorem stored_approval_can_be_claimed_witness:
  "\<exists>sha st1. approve tag_nacl plain_aae demo_req ''c'' ''p'' None 5 demo_st = (Inr sha, st1)
     \<and> ((\<exists>ev. fst (claim_approval tag_nacl demo_req ''c'' None 6 st1) = Inr (Some ev) \<and> matches_request ev demo_req = Inr True)
        \<or> fst (claim_approval tag_nacl demo_req ''c'' None 6 st1) = Inl IntegrityError)"
proof -
  obtain sha st1 where a: "approve tag_nacl plain_aae demo_req ''c'' ''p'' None 5 demo_st = (Inr sha, st1)"
    using demo_approve by blast
  from approve_writes_row [OF a] obtain r where r: "rows st1 = [r]" "action r = ''consent.approved''" by auto
  have "6 < 5 + APPROVAL_TTL" by (simp add: APPROVAL_TTL_def minutes_us_def)
  moreover have "\<forall>k. Some ''k'' = Some k \<longrightarrow> nacl_correct tag_nacl k" by (simp add: tag_nacl_correct)
  ultimately show ?thesis
    using stored_approval_can_be_claimed [OF demo_inv _ a, of 6 None] small_instants [of 5] r a
    by (auto simp: rows_of_def)
qed


theorem spent_approval_is_never_claimed_witness:
  "let c = stored (new_event ''c'' ''consent.consumed'' None None None ''ok'' (JObj [(''approval_event_sha256'', JStr ''s'')]) ''t'' []);
       st = demo_st\<lparr>rows := [c]\<rparr>
   in names_sha ''approval_event_sha256'' ''s'' c
      \<and> (fst (claim_approval tag_nacl demo_req ''c'' None 6 st) = Inr (Some c) \<longrightarrow> event_sha256 c \<noteq> ''s'')"
proof -
  let ?c = "stored (new_event ''c'' ''consent.consumed'' None None None ''ok'' (JObj [(''approval_event_sha256'', JStr ''s'')]) ''t'' [])"
  have n: "names_sha ''approval_event_sha256'' ''s'' ?c"
    by (simp add: names_sha_def det_get_def stored_def event_detail_def)
  have "action ?c = ''consent.consumed''" by (simp add: MAX_ACTION_LEN_def)
  with spent_approval_is_never_claimed [of ?c "demo_st\<lparr>rows := [?c]\<rparr>" "''s''" tag_nacl demo_req "''c''" None 6 ?c] n
  show ?thesis by (simp add: Let_def rows_of_def)
qed

lemma demo_deny: "\<exists>sha st1. deny tag_nacl plain_aae demo_req ''c'' ''p'' None 5 demo_st = (Inr sha, st1)"
proof -
  let ?d = "JObj (request_fields demo_req @ [(''prompt_event_sha256'', JStr ''p''), (''extra'', JObj (extra demo_req)),
    (''decision_reason'', JStr ''user_denied'')])"
  have "fst (validate ''consent.denied'' ''denied'' ?d)"
    by (simp add: validate_def VALID_OUTCOMES_def MAX_ACTION_LEN_def MAX_DETAIL_BYTES_def dumps_len_def request_fields_def
        demo_req_def jstr_opt_def) (simp add: dump_str_def esc_char_def)
  then have "\<exists>ev. fst (record_event tag_nacl ''c'' ''consent.denied'' None (Some ''capability'') (Some (capability demo_req)) ''denied'' ?d 5 demo_st) = Inr ev"
    by (intro record_event_succeeds) (simp_all add: tag_nacl_def)
  then obtain ev s where "record_event tag_nacl ''c'' ''consent.denied'' None (Some ''capability'') (Some (capability demo_req)) ''denied'' ?d 5 demo_st = (Inr ev, s)"
    by (metis prod.collapse)
  then show ?thesis unfolding deny_def Let_def by (simp add: case_prod_beta)
qed

lemma small_instant: "(5 :: nat) < max_instant"
  by (simp add: max_instant_def days_of_years_def usec_per_day_def)

theorem stored_denial_suppresses_witness:
  "\<exists>sha st1 ev. deny tag_nacl plain_aae demo_req ''c'' ''p'' None 5 demo_st = (Inr sha, st1)
     \<and> find_recent_denial demo_req ''c'' 6 st1 = Inr (Some ev) \<and> matches_request ev demo_req = Inr True"
proof -
  obtain sha st1 where a: "deny tag_nacl plain_aae demo_req ''c'' ''p'' None 5 demo_st = (Inr sha, st1)" using demo_deny by blast
  from deny_writes_row [OF a] obtain r where r: "rows st1 = [r]" "action r = ''consent.denied''" by auto
  have "6 \<le> 5 + DENIAL_COOLDOWN" by (simp add: DENIAL_COOLDOWN_def hours_us_def)
  with stored_denial_suppresses [OF demo_inv(2) _ a, of 6] r a small_instant show ?thesis by (auto simp: rows_of_def)
qed

lemma demo_denied_state:
  obtains sha st1 r ev where "deny tag_nacl plain_aae demo_req ''c'' ''p'' None 5 demo_st = (Inr sha, st1)" "rows st1 = [r]"
    "action r = ''consent.denied''" "chapter_id r = ''c''" "event_sha256 r \<noteq> []"
    "find_recent_denial demo_req ''c'' 6 st1 = Inr (Some ev)"
proof -
  obtain sha st1 where a: "deny tag_nacl plain_aae demo_req ''c'' ''p'' None 5 demo_st = (Inr sha, st1)" using demo_deny by blast
  have w: "writes tag_nacl demo_st st1" using deny_writes [of tag_nacl demo_st plain_aae demo_req "''c''" "''p''" None 5] a by simp
  from deny_writes_row [OF a] obtain r where r: "rows st1 = [r]" "action r = ''consent.denied''" "chapter_id r = ''c''"
    "matches_request r demo_req = Inr True" "occurred_at r = isoformat 5" by auto
  have "event_sha256 r = sha256_of r"
    using writes_inv [OF w demo_inv(1)] r(1) by (auto simp: ledger_inv_def sha256_of_def)
  then have ne: "event_sha256 r \<noteq> []" using length_sha256_of [of r] by (metis length_0_conv zero_neq_numeral)
  have op: "db_open st1" using writes_grow [OF w] by simp
  have "cleared_denial_shas st1 = Inr {}"
    by (simp add: cleared_denial_shas_def shas_listed_def list_events_action [OF op] rows_of_def r newest_first_def)
  moreover have "list_events (Some ''consent.denied'') None None 50 st1 = Inr [row_to_dict r]"
    by (simp add: list_events_action [OF op] rows_of_def r newest_first_def)
  moreover have "fromisoformat (isoformat 5) = Some 5" by (rule isoformat_roundtrip [OF small_instant])
  ultimately have "find_recent_denial demo_req ''c'' 6 st1 = Inr (Some (row_to_dict r))"
    using r by (simp add: find_recent_denial_def DENIAL_COOLDOWN_def hours_us_def)
  with a r ne that show thesis by blast
qed

theorem find_recent_denial_sound_witness:
  "\<exists>st1 ev. find_recent_denial demo_req ''c'' 6 (st1 :: consent_state) = Inr (Some ev)
     \<and> (\<exists>r \<in> set (rows st1). ev = row_to_dict r \<and> action r = ''consent.denied'' \<and> chapter_id r = ''c''
       \<and> matches_request r demo_req = Inr True
       \<and> (\<exists>occ. fromisoformat (occurred_at r) = Some occ \<and> int 6 - int occ \<le> int DENIAL_COOLDOWN)
       \<and> \<not> (\<exists>c \<in> set (rows st1). action c = ''consent.denial_cleared'' \<and> names_sha ''denial_event_sha256'' (event_sha256 r) c))"
proof -
  obtain sha st1 r ev where d: "rows st1 = [r]" "action r = ''consent.denied''"
    "find_recent_denial demo_req ''c'' 6 (st1 :: consent_state) = Inr (Some ev)"
    by (rule demo_denied_state)
  have "length (rows_of ''consent.denial_cleared'' st1) \<le> 500" using d(1,2) by (simp add: rows_of_def)
  from find_recent_denial_sound [OF d(3) this] d(3) show ?thesis by blast
qed

theorem cleared_denial_stops_suppressing_witness:
  "\<exists>st r. rows st = [r] \<and> (\<exists>ev. find_recent_denial demo_req ''c'' 6 st = Inr (Some ev))
     \<and> (case clear_denial tag_nacl (event_sha256 r) ''c'' None 6 st of
           (Inl e, st1) \<Rightarrow> True
         | (Inr n, st1) \<Rightarrow> length (rows_of ''consent.denial_cleared'' st1) \<le> 500 \<longrightarrow>
             (\<forall>req cid' now' ev. find_recent_denial req cid' now' (st1 :: consent_state) = Inr (Some ev) \<longrightarrow> event_sha256 ev \<noteq> event_sha256 r))"
proof -
  obtain sha st r ev where d: "rows st = [r]" "action r = ''consent.denied''" "chapter_id r = ''c''" "event_sha256 r \<noteq> []"
    "find_recent_denial demo_req ''c'' 6 (st :: consent_state) = Inr (Some ev)"
    by (rule demo_denied_state)
  from cleared_denial_stops_suppressing [of r st "''c''" tag_nacl None 6] d show ?thesis
    by (intro exI [of _ st] exI [of _ r]) (auto simp: rows_of_def)
qed

end
