(* ===== verification/Habit_Model.thy ===== *)
theory Habit_Model
  imports Json "HOL-Library.AList"
begin

text \<open>
  The habit model of \<^verbatim>\<open>agent/community_member/habits/model.py\<close>: an append-only log of user decisions per
  (capability, scope, context) bucket, a counts table kept beside it, and the posterior mean of
  a Beta(1,1) prior. A transaction that fails leaves both tables as they were. The mean is a double:
  it is kept here as the exact quotient, and the two places that look at the double, the
  comparison with 0.85 and the rounding to four places, are computed with IEEE rounding. Shown: the
  counts are always what a rebuild from the log would give, and the comparison on doubles decides
  the exact inequality.
\<close>

subsection \<open>Tables and operations\<close>

type_synonym bucket = "string \<times> string \<times> string"

record observation =
  obs_bucket :: bucket
  obs_decision :: string
  obs_recorded_at :: string

record habit_model =
  habit_observations :: "observation list"
  habit_counts :: "(bucket \<times> nat \<times> nat) list"
  habit_faults :: "bool list"

record bucket_stats =
  approvals :: nat
  denials :: nat
  total :: nat
  mean_num :: nat
  mean_den :: nat

definition PRIOR_ALPHA :: nat where "PRIOR_ALPHA = 1"
definition PRIOR_BETA :: nat where "PRIOR_BETA = 1"

text \<open>\<^verbatim>\<open>INSERT ... ON CONFLICT DO UPDATE\<close> on the counts table.\<close>

definition bump :: "bucket \<Rightarrow> nat \<Rightarrow> nat \<Rightarrow> (bucket \<times> nat \<times> nat) list \<Rightarrow> (bucket \<times> nat \<times> nat) list" where
  "bump b da dd tab = (case map_of tab b of
     None \<Rightarrow> tab @ [(b, da, dd)]
   | Some (a, d) \<Rightarrow> AList.update b (a + da, d + dd) tab)"

definition observe :: "string \<Rightarrow> string \<Rightarrow> string \<Rightarrow> string \<Rightarrow> string \<Rightarrow> habit_model \<Rightarrow> unit result \<times> habit_model" where
  "observe cap scp ctx dec at hm =
     (if dec \<notin> {''approved'', ''denied''} then (Inl (ValueError ''decision must be approved or denied''), hm)
      else if cap = [] \<or> scp = [] \<or> ctx = [] then (Inl (ValueError ''capability, scope, context_sha256 all required''), hm)
      else
        let hm1 = hm\<lparr>habit_faults := tl (habit_faults hm)\<rparr>;
            da = (if dec = ''approved'' then 1 else 0);
            dd = (if dec = ''approved'' then 0 else 1)
        in if habit_faults hm \<noteq> [] \<and> hd (habit_faults hm) then (Inl OperationalError, hm1)
           else (Inr (), hm1\<lparr>habit_observations := habit_observations hm @ [\<lparr>obs_bucket = (cap, scp, ctx), obs_decision = dec, obs_recorded_at = at\<rparr>],
                              habit_counts := bump (cap, scp, ctx) da dd (habit_counts hm)\<rparr>))"

definition stats_from_counts :: "nat \<Rightarrow> nat \<Rightarrow> bucket_stats" where
  "stats_from_counts a d =
     (let alpha = PRIOR_ALPHA + a; beta = PRIOR_BETA + d
      in \<lparr>approvals = a, denials = d, total = a + d, mean_num = alpha, mean_den = alpha + beta\<rparr>)"

definition stats :: "string \<Rightarrow> string \<Rightarrow> string \<Rightarrow> habit_model \<Rightarrow> bucket_stats" where
  "stats cap scp ctx hm = (case map_of (habit_counts hm) (cap, scp, ctx) of
     None \<Rightarrow> stats_from_counts 0 0
   | Some (a, d) \<Rightarrow> stats_from_counts a d)"

definition observation_count :: "string \<Rightarrow> string \<Rightarrow> string \<Rightarrow> habit_model \<Rightarrow> nat" where
  "observation_count cap scp ctx hm = length (filter (\<lambda>ob. obs_bucket ob = (cap, scp, ctx)) (habit_observations hm))"

text \<open>\<^verbatim>\<open>SUM(CASE WHEN decision=... THEN 1 ELSE 0 END)\<close> over one bucket of the log.\<close>

definition log_count :: "string \<Rightarrow> bucket \<Rightarrow> observation list \<Rightarrow> nat" where
  "log_count dec b obs = length (filter (\<lambda>ob. obs_bucket ob = b \<and> obs_decision ob = dec) obs)"

definition rebuild_counts_from_log :: "habit_model \<Rightarrow> unit result \<times> habit_model" where
  "rebuild_counts_from_log hm =
     (let hm1 = hm\<lparr>habit_faults := tl (habit_faults hm)\<rparr>; obs = habit_observations hm
      in if habit_faults hm \<noteq> [] \<and> hd (habit_faults hm) then (Inl OperationalError, hm1)
         else (Inr (), hm1\<lparr>habit_counts :=
                 map (\<lambda>b. (b, log_count ''approved'' b obs, log_count ''denied'' b obs)) (remdups (map obs_bucket obs))\<rparr>))"

subsection \<open>The double behind the mean\<close>

text \<open>Quotient rounded to the nearest integer, ties to even.\<close>

definition round_div :: "nat \<Rightarrow> nat \<Rightarrow> nat" where
  "round_div a b = (let q = a div b; r = a mod b
     in if 2 * r < b \<or> (2 * r = b \<and> even q) then q else q + 1)"

text \<open>The exponent that brings \<open>n / d < 1\<close> to a 53-bit mantissa.\<close>

function mant_exp :: "nat \<Rightarrow> nat \<Rightarrow> nat \<Rightarrow> nat" where
  "mant_exp n d k = (if n = 0 \<or> d * 2 ^ 52 \<le> n * 2 ^ k then k else mant_exp n d (k + 1))"
  by pat_completeness auto
termination
proof (relation "measure (\<lambda>(n, d, k). d * 2 ^ 52 - n * 2 ^ k)", goal_cases)
  case (2 n d k)
  then have "n * 2 ^ k < n * 2 ^ (k + 1)" "n * 2 ^ k < d * 2 ^ 52" by auto
  then show ?case using diff_less_mono2 [of "n * 2 ^ k" "n * 2 ^ (k + 1)" "d * 2 ^ 52"] by simp
qed simp

declare mant_exp.simps [simp del]

definition double_div :: "nat \<Rightarrow> nat \<Rightarrow> nat \<times> nat" where
  "double_div n d = (let k = mant_exp n d 53 in (round_div (n * 2 ^ k) d, k))"

text \<open>\<^verbatim>\<open>n / d > 0.85\<close>, where 0.85 reads as the double 7656119366529843 over two to the 53.\<close>

definition exceeds_85 :: "nat \<Rightarrow> nat \<Rightarrow> bool" where
  "exceeds_85 n d = (case double_div n d of (m, k) \<Rightarrow> m * 2 ^ 53 > 7656119366529843 * 2 ^ k)"

text \<open>\<^verbatim>\<open>round(n / d, 4)\<close>, in units of a ten-thousandth.\<close>

definition round4 :: "nat \<Rightarrow> nat \<Rightarrow> int" where
  "round4 n d = (case double_div n d of (m, k) \<Rightarrow> int (round_div (m * 10000) (2 ^ k)))"

subsection \<open>The counts are the log\<close>

definition habit_inv :: "habit_model \<Rightarrow> bool" where
  "habit_inv hm \<longleftrightarrow> distinct (map fst (habit_counts hm))
     \<and> (\<forall>ob \<in> set (habit_observations hm). obs_decision ob \<in> {''approved'', ''denied''})
     \<and> (\<forall>b. map_of (habit_counts hm) b =
          (if b \<in> obs_bucket ` set (habit_observations hm)
           then Some (log_count ''approved'' b (habit_observations hm), log_count ''denied'' b (habit_observations hm))
           else None))"

lemma bump_lookup:
  "map_of (bump b da dd tab) c =
     (if c = b then Some (case map_of tab b of None \<Rightarrow> (da, dd) | Some (a, d) \<Rightarrow> (a + da, d + dd)) else map_of tab c)"
  by (auto simp: bump_def update_conv' map_add_def split: option.splits)

lemma bump_distinct: "distinct (map fst tab) \<Longrightarrow> distinct (map fst (bump b da dd tab))"
  by (auto simp: bump_def distinct_update map_of_eq_None_iff split: option.splits)

lemma log_count_snoc:
  "log_count dec b (obs @ [ob]) = log_count dec b obs + (if obs_bucket ob = b \<and> obs_decision ob = dec then 1 else 0)"
  by (simp add: log_count_def)

lemma log_count_fresh: "b \<notin> obs_bucket ` set obs \<Longrightarrow> log_count dec b obs = 0"
  by (auto simp: log_count_def filter_empty_conv)

lemma observe_inv: "habit_inv hm \<Longrightarrow> habit_inv (snd (observe cap scp ctx dec at hm))"
  by (auto simp: observe_def habit_inv_def Let_def bump_distinct bump_lookup log_count_snoc log_count_fresh)

lemma rebuild_lookup:
  "map_of (map (\<lambda>b. (b, f b)) (remdups bs)) b = (if b \<in> set bs then Some (f b) else None)"
  by (simp add: map_of_map_restrict restrict_map_def)

lemma rebuild_inv:
  "(\<forall>ob \<in> set (habit_observations hm). obs_decision ob \<in> {''approved'', ''denied''}) \<Longrightarrow> habit_inv hm
   \<Longrightarrow> habit_inv (snd (rebuild_counts_from_log hm))"
  by (auto simp: rebuild_counts_from_log_def habit_inv_def Let_def rebuild_lookup comp_def)

inductive habit_reachable :: "habit_model \<Rightarrow> bool" where
  empty: "habit_observations hm = [] \<Longrightarrow> habit_counts hm = [] \<Longrightarrow> habit_reachable hm"
| observed: "habit_reachable hm \<Longrightarrow> habit_reachable (snd (observe cap scp ctx dec at hm))"
| rebuilt: "habit_reachable hm \<Longrightarrow> habit_reachable (snd (rebuild_counts_from_log hm))"

lemma habit_reachable_inv: "habit_reachable hm \<Longrightarrow> habit_inv hm"
proof (induction rule: habit_reachable.induct)
  case (empty hm)
  then show ?case by (simp add: habit_inv_def)
next
  case (observed hm cap scp ctx dec at)
  then show ?case by (simp add: observe_inv)
next
  case (rebuilt hm)
  then show ?case by (intro rebuild_inv) (simp_all add: habit_inv_def)
qed

lemma log_count_total:
  "\<forall>ob \<in> set obs. obs_decision ob \<in> {''approved'', ''denied''} \<Longrightarrow>
   log_count ''approved'' b obs + log_count ''denied'' b obs = length (filter (\<lambda>ob. obs_bucket ob = b) obs)"
  by (induction obs) (auto simp: log_count_def)

text \<open>The counts table never drifts from the log. After any sequence of observations and rebuilds, failed
  transactions included, the statistics of every bucket are the numbers of approvals and denials the
  log holds for it, their total is the number of its log entries, and a rebuild would not change them.\<close>

theorem habit_counts_match_log:
  assumes "habit_reachable hm"
  shows "approvals (stats cap scp ctx hm) = log_count ''approved'' (cap, scp, ctx) (habit_observations hm)
    \<and> denials (stats cap scp ctx hm) = log_count ''denied'' (cap, scp, ctx) (habit_observations hm)
    \<and> total (stats cap scp ctx hm) = observation_count cap scp ctx hm
    \<and> stats cap scp ctx (snd (rebuild_counts_from_log hm)) = stats cap scp ctx hm"
proof -
  have inv: "habit_inv hm" using assms by (rule habit_reachable_inv)
  then have reb: "habit_inv (snd (rebuild_counts_from_log hm))" by (intro rebuild_inv) (simp_all add: habit_inv_def)
  have obs: "habit_observations (snd (rebuild_counts_from_log hm)) = habit_observations hm"
    by (simp add: rebuild_counts_from_log_def Let_def)
  have st: "stats cap scp ctx h = stats_from_counts (log_count ''approved'' (cap, scp, ctx) (habit_observations h))
      (log_count ''denied'' (cap, scp, ctx) (habit_observations h))" if "habit_inv h" for h
    using that log_count_fresh [of "(cap, scp, ctx)" "habit_observations h"] by (auto simp: stats_def habit_inv_def)
  show ?thesis
    using st [OF inv] st [OF reb] obs inv log_count_total [of "habit_observations hm" "(cap, scp, ctx)"]
    by (simp add: stats_from_counts_def Let_def observation_count_def habit_inv_def)
qed

theorem habit_counts_match_log_witness:
  "let hm = snd (observe ''fs.read'' ''/tmp'' ''ctx'' ''approved'' ''t'' \<lparr>habit_observations = [], habit_counts = [], habit_faults = []\<rparr>)
   in approvals (stats ''fs.read'' ''/tmp'' ''ctx'' hm) = 1 \<and> approvals (stats ''fs.read'' ''/tmp'' ''ctx'' hm)
       = log_count ''approved'' (''fs.read'', ''/tmp'', ''ctx'') (habit_observations hm)"
proof -
  let ?e = "\<lparr>habit_observations = [], habit_counts = [], habit_faults = []\<rparr>"
  have "habit_reachable (snd (observe ''fs.read'' ''/tmp'' ''ctx'' ''approved'' ''t'' ?e))"
    by (intro habit_reachable.observed habit_reachable.empty) simp_all
  from habit_counts_match_log [OF this, of "''fs.read''" "''/tmp''" "''ctx''"] show ?thesis
    by (simp add: Let_def) (simp add: log_count_def observe_def)
qed

subsection \<open>The double comparison is exact\<close>

lemma round_div_bounds:
  assumes "0 < b"
  shows "2 * (round_div a b * b) \<le> 2 * a + b" "2 * a \<le> 2 * (round_div a b * b) + b"
proof -
  define q r where "q = a div b" and "r = a mod b"
  have a: "a = q * b + r" "r < b" using assms by (simp_all add: q_def r_def)
  have "round_div a b = (if 2 * r < b \<or> (2 * r = b \<and> even q) then q else q + 1)"
    by (simp add: round_div_def q_def r_def Let_def)
  with a show "2 * (round_div a b * b) \<le> 2 * a + b" "2 * a \<le> 2 * (round_div a b * b) + b"
    by (auto simp: algebra_simps)
qed

lemma mant_exp_spec:
  "0 < n \<Longrightarrow> k \<le> mant_exp n d k \<and> (mant_exp n d k = k \<or> n * 2 ^ (mant_exp n d k - 1) < d * 2 ^ 52)"
proof (induction n d k rule: mant_exp.induct)
  case (1 n d k)
  show ?case
  proof (cases "d * 2 ^ 52 \<le> n * 2 ^ k")
    case True
    then show ?thesis by (subst (1 2 3) mant_exp.simps) simp
  next
    case False
    then have e: "mant_exp n d k = mant_exp n d (k + 1)" using 1(2) by (subst mant_exp.simps) simp
    from 1(1) False 1(2) have "k + 1 \<le> mant_exp n d (k + 1) \<and> (mant_exp n d (k + 1) = k + 1 \<or> n * 2 ^ (mant_exp n d (k + 1) - 1) < d * 2 ^ 52)"
      by simp
    with False show ?thesis unfolding e by auto
  qed
qed

lemma exceeds_85_iff:
  assumes "0 < n" "n < d" "d < 2 ^ 50"
  shows "exceeds_85 n d \<longleftrightarrow> 17 * d < 20 * n"
proof -
  define k m where "k = mant_exp n d 53" and "m = round_div (n * 2 ^ k) d"
  have d: "0 < d" using assms by simp
  have ex: "exceeds_85 n d \<longleftrightarrow> 7656119366529843 * 2 ^ k < m * 2 ^ 53"
    by (simp add: exceeds_85_def double_div_def Let_def k_def m_def)
  note b = round_div_bounds [OF d, of "n * 2 ^ k", folded m_def]
  from mant_exp_spec [OF assms(1), of 53 d] have k: "53 \<le> k" "k = 53 \<or> n * 2 ^ (k - 1) < d * 2 ^ 52" by (auto simp: k_def)
  show ?thesis
  proof (cases "k = 53")
    case True
    have ex': "exceeds_85 n d \<longleftrightarrow> 7656119366529843 < m" unfolding ex True by simp
    show ?thesis
    proof
      assume "exceeds_85 n d"
      then have "7656119366529844 \<le> m" unfolding ex' by simp
      then have "7656119366529844 * d \<le> m * d" by (rule mult_le_mono1)
      moreover have "2 * (m * d) \<le> 18014398509481984 * n + d" using b(1) True by simp
      ultimately show "17 * d < 20 * n" using d by linarith
    next
      assume g: "17 * d < 20 * n"
      show "exceeds_85 n d" unfolding ex'
      proof (rule ccontr)
        assume "\<not> 7656119366529843 < m"
        then have "m * d \<le> 7656119366529843 * d" by (intro mult_le_mono1) simp
        moreover have "18014398509481984 * n \<le> 2 * (m * d) + d" using b(2) True by simp
        moreover have "d < 1125899906842624" using assms(3) by simp
        ultimately show False using g by linarith
      qed
    qed
  next
    case False
    with k have k54: "54 \<le> k" "n * 2 ^ (k - 1) < d * 2 ^ 52" by auto
    have "(2::nat) ^ 53 \<le> 2 ^ (k - 1)" using k54(1) by (intro power_increasing) auto
    then have "n * 2 ^ 53 \<le> n * 2 ^ (k - 1)" by (rule mult_le_mono2)
    then have "n * 2 ^ 53 < d * 2 ^ 52" using k54(2) by (rule le_less_trans)
    then have "2 * n < d" by simp
    moreover have "\<not> exceeds_85 n d"
    proof -
      have "2 ^ k = 2 * (2::nat) ^ (k - 1)" using k54(1) by (metis power_eq_if not_numeral_le_zero)
      with b(1) have "2 * (m * d) \<le> 4 * (n * 2 ^ (k - 1)) + d" by simp
      moreover define y where "y = n * 2 ^ (k - 1)"
      moreover have "y < 4503599627370496 * d" using k54(2) unfolding y_def by (simp only: mult.commute) simp
      ultimately have "2 * (m * d) < 18014398509481985 * d" by linarith
      then have "(2 * m) * d < 18014398509481985 * d" by (simp only: mult.assoc)
      then have "2 * m < 18014398509481985" by (simp only: mult_less_cancel2)
      then have m: "m * 2 ^ 53 \<le> 2 ^ 53 * 2 ^ 53" by simp
      have "(2::nat) ^ 54 \<le> 2 ^ k" using k54(1) by (intro power_increasing) auto
      then have "7656119366529843 * 2 ^ 54 \<le> 7656119366529843 * (2::nat) ^ k" by (rule mult_le_mono2)
      with m show ?thesis unfolding ex by simp
    qed
    ultimately show ?thesis by simp
  qed
qed

text \<open>The comparison of the two doubles decides the exact inequality: for every mean a bucket of fewer than
  two to the 48 observations can have, the computed \<^verbatim>\<open>alpha / (alpha + beta)\<close> exceeds the double 0.85
  exactly when the fraction exceeds 17/20.\<close>

theorem posterior_comparison_exact:
  assumes "0 < n" "n < d" "d < 2 ^ 50"
  shows "exceeds_85 n d \<longleftrightarrow> 17 * d < 20 * n"
  using assms by (rule exceeds_85_iff)

theorem posterior_comparison_exact_witness: "exceeds_85 6 7 \<longleftrightarrow> 17 * (7::nat) < 20 * 6"
  by (rule posterior_comparison_exact) simp_all

end
