(* ===== verification/Graduation.thy ===== *)
theory Graduation
  imports Consent_Gate Habit_Model
begin

text \<open>
  Graduation, from \<^verbatim>\<open>graduation/state.py\<close> and \<^verbatim>\<open>graduation/auto_approval.py\<close>: the per-device table of graduated and
  revoked buckets, the status computed from it and the habit statistics, and the synthetic
  approval written when a bucket is graduated. Shown: what auto-approval requires, that revocation is
  sticky under every other operation, and that approvals minted before a revocation outlive it.
\<close>

subsection \<open>The store\<close>

type_synonym grad_key = "string \<times> string \<times> string \<times> string"

record grad_row =
  grad_state :: string
  graduated_at :: "string option"
  revoked_at :: "string option"

record graduation_store =
  device_did :: string
  graduations :: "(grad_key \<times> grad_row) list"
  grad_faults :: "bool list"

record grad_status =
  status_state :: string
  status_approvals :: nat
  status_graduated_at :: "string option"
  status_revoked_at :: "string option"

definition GRADUATION_MIN_APPROVALS :: nat where "GRADUATION_MIN_APPROVALS = 5"

definition make_graduation_key :: "string \<Rightarrow> string \<Rightarrow> string \<Rightarrow> string \<Rightarrow> grad_key result" where
  "make_graduation_key dev cap scp ctx =
     (if dev = [] then Inl (ValueError ''device_did is required for graduation key'')
      else if cap = [] then Inl (ValueError ''capability is required for graduation key'')
      else if scp = [] then Inl (ValueError ''scope is required for graduation key'')
      else if ctx = [] then Inl (ValueError ''context_sha256 is required for graduation key'')
      else Inr (dev, cap, scp, ctx))"

definition status :: "string \<Rightarrow> string \<Rightarrow> string \<Rightarrow> nat \<Rightarrow> nat \<Rightarrow> nat \<Rightarrow> graduation_store \<Rightarrow> grad_status result" where
  "status cap scp ctx apps num den gs =
     bind_res (make_graduation_key (device_did gs) cap scp ctx) (\<lambda>key.
       let row = map_of (graduations gs) key;
           stored = (case row of None \<Rightarrow> ''observing'' | Some r \<Rightarrow> grad_state r);
           ga = (case row of None \<Rightarrow> None | Some r \<Rightarrow> graduated_at r);
           ra = (case row of None \<Rightarrow> None | Some r \<Rightarrow> revoked_at r);
           st = (if stored = ''revoked'' then ''revoked''
                 else if apps \<ge> GRADUATION_MIN_APPROVALS \<and> exceeds_85 num den then ''graduated''
                 else ''observing'')
       in Inr \<lparr>status_state = st, status_approvals = apps, status_graduated_at = ga, status_revoked_at = ra\<rparr>)"

text \<open>One write transaction: it fails as a whole or applies.\<close>

definition grad_write :: "((grad_key \<times> grad_row) list \<Rightarrow> (grad_key \<times> grad_row) list) \<Rightarrow> graduation_store \<Rightarrow> unit result \<times> graduation_store" where
  "grad_write f gs =
     (let gs1 = gs\<lparr>grad_faults := tl (grad_faults gs)\<rparr>
      in if grad_faults gs \<noteq> [] \<and> hd (grad_faults gs) then (Inl OperationalError, gs1)
         else (Inr (), gs1\<lparr>graduations := f (graduations gs)\<rparr>))"

definition upsert_graduated :: "grad_key \<Rightarrow> string \<Rightarrow> (grad_key \<times> grad_row) list \<Rightarrow> (grad_key \<times> grad_row) list" where
  "upsert_graduated key now tab = (case map_of tab key of
     None \<Rightarrow> tab @ [(key, \<lparr>grad_state = ''graduated'', graduated_at = Some now, revoked_at = None\<rparr>)]
   | Some r \<Rightarrow> AList.update key (r\<lparr>grad_state := (if grad_state r = ''revoked'' then ''revoked'' else ''graduated''),
                                    graduated_at := (case graduated_at r of None \<Rightarrow> Some now | Some t \<Rightarrow> Some t)\<rparr>) tab)"

definition record_graduation :: "string \<Rightarrow> string \<Rightarrow> string \<Rightarrow> instant \<Rightarrow> graduation_store \<Rightarrow> string option result \<times> graduation_store" where
  "record_graduation cap scp ctx now gs =
     (case make_graduation_key (device_did gs) cap scp ctx of
        Inl e \<Rightarrow> (Inl e, gs)
      | Inr key \<Rightarrow>
          (case grad_write (upsert_graduated key (isoformat now)) gs of
             (Inl e, gs1) \<Rightarrow> (Inl e, gs1)
           | (Inr _, gs1) \<Rightarrow> (Inr (case map_of (graduations gs1) key of None \<Rightarrow> Some (isoformat now) | Some r \<Rightarrow> graduated_at r), gs1)))"

definition upsert_revoked :: "grad_key \<Rightarrow> string \<Rightarrow> (grad_key \<times> grad_row) list \<Rightarrow> (grad_key \<times> grad_row) list" where
  "upsert_revoked key now tab = (case map_of tab key of
     None \<Rightarrow> tab @ [(key, \<lparr>grad_state = ''revoked'', graduated_at = None, revoked_at = Some now\<rparr>)]
   | Some r \<Rightarrow> AList.update key (r\<lparr>grad_state := ''revoked'', revoked_at := Some now\<rparr>) tab)"

definition revoke :: "string \<Rightarrow> string \<Rightarrow> string \<Rightarrow> instant \<Rightarrow> graduation_store \<Rightarrow> string result \<times> graduation_store" where
  "revoke cap scp ctx now gs =
     (case make_graduation_key (device_did gs) cap scp ctx of
        Inl e \<Rightarrow> (Inl e, gs)
      | Inr key \<Rightarrow>
          (case grad_write (upsert_revoked key (isoformat now)) gs of
             (Inl e, gs1) \<Rightarrow> (Inl e, gs1)
           | (Inr _, gs1) \<Rightarrow> (Inr (isoformat now), gs1)))"

definition live_row :: "string \<Rightarrow> grad_key \<times> grad_row \<Rightarrow> bool" where
  "live_row dev kr \<longleftrightarrow> fst (fst kr) = dev \<and> grad_state (snd kr) \<noteq> ''revoked''"

definition revoke_all :: "instant \<Rightarrow> graduation_store \<Rightarrow> nat result \<times> graduation_store" where
  "revoke_all now gs =
     (case grad_write (map (\<lambda>kr. if live_row (device_did gs) kr
                              then (fst kr, (snd kr)\<lparr>grad_state := ''revoked'', revoked_at := Some (isoformat now)\<rparr>) else kr)) gs of
        (Inl e, gs1) \<Rightarrow> (Inl e, gs1)
      | (Inr _, gs1) \<Rightarrow> (Inr (length (filter (live_row (device_did gs)) (graduations gs))), gs1))"

subsection \<open>The synthetic approval\<close>

definition auto_detail :: "string \<Rightarrow> action_request \<Rightarrow> string \<Rightarrow> bucket_stats \<Rightarrow> json" where
  "auto_detail sha req ctx s = JObj
     [(''approval_event_sha256'', JStr sha), (''capability'', JStr (capability req)), (''scope'', JStr (scope req)),
      (''context_sha256'', JStr ctx), (''approvals_count'', JInt (int (approvals s))),
      (''posterior_mean'', JDec (round4 (mean_num s) (mean_den s))),
      (''thresholds'', JObj [(''min_approvals'', JInt 5), (''min_posterior'', JDec 8500)])]"

definition auto_approve_if_graduated :: "nacl \<Rightarrow> sm_aae \<Rightarrow> action_request \<Rightarrow> string \<Rightarrow> string \<Rightarrow> habit_model \<Rightarrow> string option \<Rightarrow> instant
    \<Rightarrow> graduation_store \<Rightarrow> 'a consent_state_scheme \<Rightarrow> string option result \<times> graduation_store \<times> 'a consent_state_scheme" where
  "auto_approve_if_graduated N A req ctx cid hm actor now gs st =
     (if ctx = [] then (Inr None, gs, st)
      else
        let s = stats (capability req) (scope req) ctx hm
        in case status (capability req) (scope req) ctx (approvals s) (mean_num s) (mean_den s) gs of
             Inl e \<Rightarrow> (Inl e, gs, st)
           | Inr gst \<Rightarrow>
               if status_state gst \<noteq> ''graduated'' then (Inr None, gs, st)
               else case record_graduation (capability req) (scope req) ctx now gs of
                 (Inl e, gs1) \<Rightarrow> (Inl e, gs1, st)
               | (Inr _, gs1) \<Rightarrow>
                   (case approve N A req cid ''graduated'' actor now st of
                      (Inl e, st1) \<Rightarrow> (Inl e, gs1, st1)
                    | (Inr sha, st1) \<Rightarrow>
                        (case record_event N cid ''consent.auto_approved'' actor (Some ''capability'') (Some (capability req)) ''ok''
                                (auto_detail sha req ctx s) now st1 of
                           (Inl e, st2) \<Rightarrow> (Inl e, gs1, st2)
                         | (Inr _, st2) \<Rightarrow> (Inr (Some sha), gs1, st2))))"

subsection \<open>What auto-approval requires\<close>

definition revoked :: "grad_key \<Rightarrow> graduation_store \<Rightarrow> bool" where
  "revoked key gs \<longleftrightarrow> (\<exists>r. map_of (graduations gs) key = Some r \<and> grad_state r = ''revoked'')"

lemma status_graduated:
  "status cap scp ctx a n d gs = Inr gst \<Longrightarrow> status_state gst = ''graduated'' \<longleftrightarrow>
     \<not> revoked (device_did gs, cap, scp, ctx) gs \<and> 5 \<le> a \<and> exceeds_85 n d"
  by (auto simp: status_def make_graduation_key_def revoked_def GRADUATION_MIN_APPROVALS_def Let_def
      split: option.splits if_splits)

lemma status_revoked:
  "revoked (device_did gs, cap, scp, ctx) gs \<Longrightarrow> status cap scp ctx a n d gs = Inr gst \<Longrightarrow> status_state gst = ''revoked''"
  by (auto simp: status_def make_graduation_key_def revoked_def Let_def split: if_splits)

lemma auto_approve_needs:
  assumes "auto_approve_if_graduated N A req ctx cid hm actor now gs st = (Inr (Some sha), gs1, st1)"
  shows "let s = stats (capability req) (scope req) ctx hm in 5 \<le> approvals s \<and> exceeds_85 (mean_num s) (mean_den s)
     \<and> \<not> revoked (device_did gs, capability req, scope req, ctx) gs"
  using assms status_graduated
  by (fastforce simp: auto_approve_if_graduated_def Let_def split: if_splits sum.splits prod.splits)

lemma stats_mean: "mean_num (stats c s x hm) = approvals (stats c s x hm) + 1"
  "mean_den (stats c s x hm) = approvals (stats c s x hm) + denials (stats c s x hm) + 2"
  by (auto simp: stats_def stats_from_counts_def PRIOR_ALPHA_def PRIOR_BETA_def Let_def split: option.splits)

text \<open>An action is auto-approved only on the strength of the user's own record: the log holds at
  least five approvals of exactly this capability, scope and context, more than seventeen thirds of them per denial (each side
  with its prior observation added), and the bucket is not revoked on this device.\<close>

theorem auto_approval_needs_history:
  assumes "habit_reachable hm" "length (habit_observations hm) < 2 ^ 48"
  shows "case auto_approve_if_graduated N A req ctx cid hm actor now gs st of
           (Inr (Some sha), gs1, st1) \<Rightarrow>
             (let b = (capability req, scope req, ctx);
                  yes = log_count ''approved'' b (habit_observations hm);
                  no = log_count ''denied'' b (habit_observations hm)
              in 5 \<le> yes \<and> 17 * (no + 1) < 3 * (yes + 1) \<and> \<not> revoked (device_did gs, b) gs)
         | _ \<Rightarrow> True"
proof -
  let ?b = "(capability req, scope req, ctx)"
  let ?s = "stats (capability req) (scope req) ctx hm"
  have inv: "habit_inv hm" using assms(1) by (rule habit_reachable_inv)
  have s: "approvals ?s = log_count ''approved'' ?b (habit_observations hm)" "denials ?s = log_count ''denied'' ?b (habit_observations hm)"
    using inv log_count_fresh [of ?b "habit_observations hm"]
    by (auto simp: stats_def stats_from_counts_def habit_inv_def Let_def)
  have le: "log_count dec ?b (habit_observations hm) \<le> length (habit_observations hm)" for dec by (simp add: log_count_def)
  have "mean_den ?s < 2 ^ 50"
    using le [of "''approved''"] le [of "''denied''"] assms(2) unfolding stats_mean s by simp
  then have "exceeds_85 (mean_num ?s) (mean_den ?s) \<longleftrightarrow> 17 * mean_den ?s < 20 * mean_num ?s"
    by (intro exceeds_85_iff) (simp_all add: stats_mean)
  then have e: "exceeds_85 (mean_num ?s) (mean_den ?s) \<Longrightarrow> 17 * (denials ?s + 1) < 3 * (approvals ?s + 1)"
    by (simp add: stats_mean)
  show ?thesis
  proof (cases "auto_approve_if_graduated N A req ctx cid hm actor now gs st")
    case (fields res gs1 st1)
    show ?thesis
    proof (cases "\<exists>sha. res = Inr (Some sha)")
      case True
      then obtain sha where r: "res = Inr (Some sha)" by blast
      from auto_approve_needs [of N A req ctx cid hm actor now gs st sha gs1 st1] fields r
      have "5 \<le> approvals ?s" "exceeds_85 (mean_num ?s) (mean_den ?s)" "\<not> revoked (device_did gs, ?b) gs"
        by (auto simp: Let_def)
      with e fields r s show ?thesis by (simp add: Let_def)
    qed (use fields in \<open>auto split: sum.splits option.splits\<close>)
  qed
qed

theorem auto_approval_needs_history_witness:
  "let hm = \<lparr>habit_observations = [], habit_counts = [], habit_faults = []\<rparr>;
       gs = \<lparr>device_did = ''did:key:d'', graduations = [], grad_faults = []\<rparr>
   in auto_approve_if_graduated tag_nacl plain_aae demo_req ''ctx'' ''c'' hm None 5 gs demo_st = (Inr None, gs, demo_st)
      \<and> (case auto_approve_if_graduated tag_nacl plain_aae demo_req ''ctx'' ''c'' hm None 5 gs demo_st of
           (Inr (Some sha), gs1, st1) \<Rightarrow>
             (let b = (capability demo_req, scope demo_req, ''ctx'');
                  yes = log_count ''approved'' b (habit_observations hm);
                  no = log_count ''denied'' b (habit_observations hm)
              in 5 \<le> yes \<and> 17 * (no + 1) < 3 * (yes + 1) \<and> \<not> revoked (device_did gs, b) gs)
         | _ \<Rightarrow> True)"
proof -
  let ?hm = "\<lparr>habit_observations = [], habit_counts = [], habit_faults = []\<rparr>"
  let ?gs = "\<lparr>device_did = ''did:key:d'', graduations = [], grad_faults = []\<rparr>"
  have "habit_reachable ?hm" by (rule habit_reachable.empty) simp_all
  from auto_approval_needs_history [OF this, where N = tag_nacl and A = plain_aae and req = demo_req and ctx = "''ctx''"
      and cid = "''c''" and actor = None and now = 5 and gs = ?gs and st = demo_st]
  show ?thesis
    by (simp add: Let_def auto_approve_if_graduated_def stats_def stats_from_counts_def status_def make_graduation_key_def
        GRADUATION_MIN_APPROVALS_def demo_req_def)
qed

subsection \<open>Revocation is sticky\<close>

definition grads_distinct :: "graduation_store \<Rightarrow> bool" where
  "grads_distinct gs \<longleftrightarrow> distinct (map fst (graduations gs))"

lemma upsert_graduated_lookup:
  "map_of (upsert_graduated key now tab) k =
     (if k = key then Some (case map_of tab key of None \<Rightarrow> \<lparr>grad_state = ''graduated'', graduated_at = Some now, revoked_at = None\<rparr>
        | Some r \<Rightarrow> r\<lparr>grad_state := (if grad_state r = ''revoked'' then ''revoked'' else ''graduated''),
                       graduated_at := (case graduated_at r of None \<Rightarrow> Some now | Some t \<Rightarrow> Some t)\<rparr>)
      else map_of tab k)"
  by (auto simp: upsert_graduated_def update_conv' map_add_def split: option.splits)

lemma upsert_revoked_lookup:
  "map_of (upsert_revoked key now tab) k =
     (if k = key then Some (case map_of tab key of None \<Rightarrow> \<lparr>grad_state = ''revoked'', graduated_at = None, revoked_at = Some now\<rparr>
        | Some r \<Rightarrow> r\<lparr>grad_state := ''revoked'', revoked_at := Some now\<rparr>)
      else map_of tab k)"
  by (auto simp: upsert_revoked_def update_conv' map_add_def split: option.splits)

lemma map_values_lookup:
  assumes "\<And>kr. fst (g kr) = fst kr"
  shows "map_of (map g tab) k = map_option (\<lambda>v. snd (g (k, v))) (map_of tab k)"
proof (induction tab)
  case (Cons kr tab)
  obtain a v where kr: "kr = (a, v)" by (cases kr)
  have "fst (g (a, v)) = a" using assms [of kr] kr by simp
  with Cons kr show ?case by auto
qed simp

lemma record_graduation_frame:
  "device_did (snd (record_graduation cap scp ctx now gs)) = device_did gs"
  "revoked key gs \<Longrightarrow> revoked key (snd (record_graduation cap scp ctx now gs))"
proof -
  have g: "snd (record_graduation cap scp ctx now gs) = (case make_graduation_key (device_did gs) cap scp ctx of
      Inl e \<Rightarrow> gs | Inr k \<Rightarrow> snd (grad_write (upsert_graduated k (isoformat now)) gs))"
    by (auto simp: record_graduation_def split: sum.splits prod.splits)
  show "device_did (snd (record_graduation cap scp ctx now gs)) = device_did gs"
    unfolding g by (auto simp: grad_write_def Let_def split: sum.splits)
  assume "revoked key gs"
  then show "revoked key (snd (record_graduation cap scp ctx now gs))"
    unfolding g by (auto simp: grad_write_def revoked_def upsert_graduated_lookup Let_def split: sum.splits)
qed

lemma revoke_frame:
  "device_did (snd (revoke cap scp ctx now gs)) = device_did gs"
  "revoked key gs \<Longrightarrow> revoked key (snd (revoke cap scp ctx now gs))"
proof -
  have g: "snd (revoke cap scp ctx now gs) = (case make_graduation_key (device_did gs) cap scp ctx of
      Inl e \<Rightarrow> gs | Inr k \<Rightarrow> snd (grad_write (upsert_revoked k (isoformat now)) gs))"
    by (auto simp: revoke_def split: sum.splits prod.splits)
  show "device_did (snd (revoke cap scp ctx now gs)) = device_did gs"
    unfolding g by (auto simp: grad_write_def Let_def split: sum.splits)
  assume "revoked key gs"
  then show "revoked key (snd (revoke cap scp ctx now gs))"
    unfolding g by (auto simp: grad_write_def revoked_def upsert_revoked_lookup Let_def split: sum.splits option.splits)
qed

definition revoke_live :: "string \<Rightarrow> string \<Rightarrow> grad_key \<times> grad_row \<Rightarrow> grad_key \<times> grad_row" where
  "revoke_live dev now kr = (if live_row dev kr then (fst kr, (snd kr)\<lparr>grad_state := ''revoked'', revoked_at := Some now\<rparr>) else kr)"

lemma revoke_all_snd: "snd (revoke_all now gs) = snd (grad_write (map (revoke_live (device_did gs) (isoformat now))) gs)"
  by (auto simp: revoke_all_def revoke_live_def [abs_def] split: sum.splits prod.splits)

lemma revoke_live_lookup:
  "map_of (map (revoke_live dev now) tab) k = map_option (\<lambda>v. snd (revoke_live dev now (k, v))) (map_of tab k)"
  by (rule map_values_lookup) (simp add: revoke_live_def)

lemma revoke_all_frame:
  "device_did (snd (revoke_all now gs)) = device_did gs"
  "revoked key gs \<Longrightarrow> revoked key (snd (revoke_all now gs))"
  unfolding revoke_all_snd
  by (auto simp: grad_write_def revoked_def revoke_live_lookup revoke_live_def live_row_def Let_def split: if_splits)

lemma auto_approve_store:
  "auto_approve_if_graduated N A req ctx cid hm actor now gs st = (res, gs1, st1) \<Longrightarrow>
   gs1 = gs \<or> gs1 = snd (record_graduation (capability req) (scope req) ctx now gs)"
  by (auto simp: auto_approve_if_graduated_def Let_def split: if_splits sum.splits prod.splits)

text \<open>Everything that happens to the store.\<close>

inductive grad_step :: "graduation_store \<Rightarrow> graduation_store \<Rightarrow> bool" where
  recorded: "grad_step gs (snd (record_graduation cap scp ctx now gs))"
| revoking: "grad_step gs (snd (revoke cap scp ctx now gs))"
| revoking_all: "grad_step gs (snd (revoke_all now gs))"
| approving: "auto_approve_if_graduated N A req ctx cid hm actor now gs (st :: consent_state) = (res, gs1, st1) \<Longrightarrow> grad_step gs gs1"

lemma grad_step_keeps: "grad_step gs gs1 \<Longrightarrow> device_did gs1 = device_did gs \<and> (revoked key gs \<longrightarrow> revoked key gs1)"
  by (induction rule: grad_step.induct)
    (auto simp: record_graduation_frame revoke_frame revoke_all_frame dest!: auto_approve_store)

lemma grad_steps_keep: "grad_step\<^sup>*\<^sup>* gs gs1 \<Longrightarrow> device_did gs1 = device_did gs \<and> (revoked key gs \<longrightarrow> revoked key gs1)"
  by (induction rule: rtranclp_induct) (auto dest: grad_step_keeps)

lemma revoke_revokes:
  "revoke cap scp ctx now gs = (Inr t, gs1) \<Longrightarrow> revoked (device_did gs, cap, scp, ctx) gs1 \<and> device_did gs1 = device_did gs"
  by (auto simp: revoke_def make_graduation_key_def grad_write_def revoked_def upsert_revoked_lookup Let_def
      split: if_splits sum.splits option.splits)

lemma revoked_blocks_auto:
  assumes "revoked (device_did gs, capability req, scope req, ctx) gs"
  shows "\<exists>res. auto_approve_if_graduated N A req ctx cid hm actor now gs st = (res, gs, st) \<and> (\<forall>sha. res \<noteq> Inr (Some sha))"
  using status_revoked [OF assms]
  by (auto simp: auto_approve_if_graduated_def Let_def split: sum.splits)

text \<open>Revocation is sticky. Once a bucket has been revoked, nothing that happens to the store afterwards,
  more recorded graduations and auto-approval attempts included, lets it be auto-approved again, whatever the habit
  statistics have become: the attempt approves nothing and changes neither the store nor the ledger.\<close>

theorem revocation_is_sticky:
  assumes "revoke (capability req) (scope req) ctx t gs = (Inr when, gs1)" "grad_step\<^sup>*\<^sup>* gs1 gs2"
  shows "\<exists>res. auto_approve_if_graduated N A req ctx cid hm actor now gs2 st = (res, gs2, st) \<and> (\<forall>sha. res \<noteq> Inr (Some sha))"
proof -
  from revoke_revokes [OF assms(1)] grad_steps_keep [OF assms(2)]
  have "revoked (device_did gs2, capability req, scope req, ctx) gs2" by metis
  then show ?thesis by (rule revoked_blocks_auto)
qed

theorem revocation_is_sticky_witness:
  "\<exists>gs1 res. revoke (capability demo_req) (scope demo_req) ''ctx'' 5 \<lparr>device_did = ''d'', graduations = [], grad_faults = []\<rparr> = (Inr (isoformat 5), gs1)
     \<and> auto_approve_if_graduated tag_nacl plain_aae demo_req ''ctx'' ''c'' \<lparr>habit_observations = [], habit_counts = [((''fs.read'', ''/tmp/a'', ''ctx''), 9, 0)], habit_faults = []\<rparr>
          None 6 gs1 demo_st = (res, gs1, demo_st) \<and> (\<forall>sha. res \<noteq> Inr (Some sha))"
proof -
  obtain gs1 where r: "revoke (capability demo_req) (scope demo_req) ''ctx'' 5 \<lparr>device_did = ''d'', graduations = [], grad_faults = []\<rparr> = (Inr (isoformat 5), gs1)"
    by (simp add: revoke_def make_graduation_key_def grad_write_def demo_req_def Let_def)
  from revocation_is_sticky [OF r rtranclp.rtrancl_refl] r show ?thesis by blast
qed

text \<open>Graduation is not bound to the device. The status consults the store only for revocations, and looks those
  up under the current device, so with the habit statistics at hand any other device identity, with no rows of its own, is
  graduated exactly as the first one was, and a revocation made on the first device does not carry over.\<close>

theorem graduation_follows_the_habit_file:
  assumes "make_graduation_key dev' cap scp ctx = Inr key'" "map_of tab key' = None"
  shows "bind_res (status cap scp ctx a n d \<lparr>device_did = dev', graduations = tab, grad_faults = fs\<rparr>) (\<lambda>gst. Inr (status_state gst))
         = Inr (if 5 \<le> a \<and> exceeds_85 n d then ''graduated'' else ''observing'')"
  using assms by (auto simp: status_def Let_def GRADUATION_MIN_APPROVALS_def)

theorem graduation_follows_the_habit_file_witness:
  "bind_res (status ''fs.read'' ''/tmp'' ''ctx'' 9 10 11 \<lparr>device_did = ''new'',
       graduations = [((''old'', ''fs.read'', ''/tmp'', ''ctx''), \<lparr>grad_state = ''revoked'', graduated_at = None, revoked_at = Some ''t''\<rparr>)],
       grad_faults = []\<rparr>) (\<lambda>gst. Inr (status_state gst)) = Inr ''graduated''"
proof -
  have "exceeds_85 10 11" by (simp add: exceeds_85_iff)
  then show ?thesis
    using graduation_follows_the_habit_file [of "''new''" "''fs.read''" "''/tmp''" "''ctx''" "(''new'', ''fs.read'', ''/tmp'', ''ctx'')"
        "[((''old'', ''fs.read'', ''/tmp'', ''ctx''), \<lparr>grad_state = ''revoked'', graduated_at = None, revoked_at = Some ''t''\<rparr>)]" 9 10 11 "[]"]
    by (simp add: make_graduation_key_def)
qed

subsection \<open>Effect on the ledger\<close>

lemma auto_detail_safe: "safe_detail (auto_detail sha req ctx s)"
  by (simp add: auto_detail_def safe_detail_def)

lemma auto_approve_run: "writes N st (snd (snd (auto_approve_if_graduated N A req ctx cid hm actor now gs st)))"
proof -
  let ?ap = "approve N A req cid ''graduated'' actor now st"
  have a: "writes N st (snd ?ap)" by (rule approve_writes)
  have "writes N st (snd (record_event N cid ''consent.auto_approved'' actor (Some ''capability'') (Some (capability req)) ''ok''
      (auto_detail sha req ctx s) now (snd ?ap)))" for sha s
    using writes_record [OF auto_detail_safe] a by (rule writes_trans)
  with a show ?thesis
    by (auto simp: auto_approve_if_graduated_def Let_def writes.none case_prod_beta split: sum.splits prod.splits)
qed

end
