(* ===== verification/Identity_Trust.thy ===== *)
theory Identity_Trust
  imports Graduation
begin

text \<open>
  The trust dial of \<^verbatim>\<open>identity_trust.py\<close>: the user's own trust value, clamped to 0..100 and stored in a JSON file, the
  effective trust with the chapter's score, and the synthetic approval above the threshold. The
  chapter score is fetched and cached elsewhere and is an argument here. Shown: the round
  trip of the stored value, its bounds, and that untrusted provenance is never auto-approved at any trust.
\<close>

definition AUTO_APPROVE_THRESHOLD :: int where "AUTO_APPROVE_THRESHOLD = 70"
definition DEFAULT_LOCAL_TRUST :: int where "DEFAULT_LOCAL_TRUST = 30"

datatype file_content = Missing | Malformed | Parsed json

definition clamp100 :: "int \<Rightarrow> int" where
  "clamp100 v = max 0 (min 100 v)"

fun load_local_trust :: "file_content \<Rightarrow> int result" where
  "load_local_trust Missing = Inr DEFAULT_LOCAL_TRUST"
| "load_local_trust Malformed = Inr DEFAULT_LOCAL_TRUST"
| "load_local_trust (Parsed (JObj kvs)) =
     Inr (case map_of kvs ''local_trust'' of
            None \<Rightarrow> DEFAULT_LOCAL_TRUST
          | Some raw \<Rightarrow> (case json_int raw of None \<Rightarrow> DEFAULT_LOCAL_TRUST | Some i \<Rightarrow> clamp100 i))"
| "load_local_trust (Parsed j) = Inl (AttributeError ''get'')"

definition save_local_trust :: "int \<Rightarrow> file_content" where
  "save_local_trust v = Parsed (JObj [(''local_trust'', JInt (clamp100 v))])"

definition effective_trust :: "int \<Rightarrow> int \<Rightarrow> int" where
  "effective_trust local chapter = max 0 (min 100 (max local chapter))"

definition trust_detail :: "string \<Rightarrow> action_request \<Rightarrow> int \<Rightarrow> int \<Rightarrow> int \<Rightarrow> json" where
  "trust_detail sha req local chapter threshold = JObj
     [(''approval_event_sha256'', JStr sha), (''capability'', JStr (capability req)), (''scope'', JStr (scope req)),
      (''provenance'', JStr (provenance req)), (''decision_reason'', JStr ''trust_threshold''),
      (''trust'', JObj [(''local'', JInt local), (''chapter'', JInt chapter),
                        (''effective'', JInt (effective_trust local chapter)), (''threshold'', JInt threshold)])]"

definition auto_approve_if_trusted :: "nacl \<Rightarrow> sm_aae \<Rightarrow> action_request \<Rightarrow> string \<Rightarrow> int \<Rightarrow> int \<Rightarrow> string option \<Rightarrow> int \<Rightarrow> instant
    \<Rightarrow> 'a consent_state_scheme \<Rightarrow> string option result \<times> 'a consent_state_scheme" where
  "auto_approve_if_trusted N A req cid local chapter actor threshold now st =
     (if provenance req = ''untrusted'' then (Inr None, st)
      else if effective_trust local chapter < threshold then (Inr None, st)
      else case approve N A req cid ''trust_threshold'' actor now st of
        (Inl e, st1) \<Rightarrow> (Inl e, st1)
      | (Inr sha, st1) \<Rightarrow>
          (case record_event N cid ''consent.auto_approved'' actor (Some ''capability'') (Some (capability req)) ''ok''
                  (trust_detail sha req local chapter threshold) now st1 of
             (Inl e, st2) \<Rightarrow> (Inl e, st2)
           | (Inr _, st2) \<Rightarrow> (Inr (Some sha), st2)))"

text \<open>The stored trust value round-trips through the file clamped to 0..100, whatever is in the file the value
  read is within 0..100, and the effective trust is too and never below either of two clamped inputs.\<close>

theorem local_trust_bounded:
  "load_local_trust (save_local_trust v) = Inr (max 0 (min 100 v))
   \<and> (case load_local_trust f of Inr t \<Rightarrow> 0 \<le> t \<and> t \<le> 100 | Inl e \<Rightarrow> True)
   \<and> 0 \<le> effective_trust l c \<and> effective_trust l c \<le> 100
   \<and> min 100 l \<le> effective_trust l c \<and> min 100 c \<le> effective_trust l c"
proof -
  have "case load_local_trust f of Inr t \<Rightarrow> 0 \<le> t \<and> t \<le> 100 | Inl e \<Rightarrow> True"
    by (cases f rule: load_local_trust.cases) (auto simp: DEFAULT_LOCAL_TRUST_def clamp100_def split: option.splits)
  then show ?thesis by (auto simp: save_local_trust_def effective_trust_def clamp100_def)
qed

lemma trust_detail_safe: "safe_detail (trust_detail sha req l c t)"
  by (simp add: trust_detail_def safe_detail_def)

lemma auto_trust_run: "writes N st (snd (auto_approve_if_trusted N A req cid l c actor thr now st))"
proof -
  let ?ap = "approve N A req cid ''trust_threshold'' actor now st"
  have a: "writes N st (snd ?ap)" by (rule approve_writes)
  have "writes N st (snd (record_event N cid ''consent.auto_approved'' actor (Some ''capability'') (Some (capability req)) ''ok''
      (trust_detail sha req l c thr) now (snd ?ap)))" for sha
    using writes_record [OF trust_detail_safe] a by (rule writes_trans)
  with a show ?thesis
    by (auto simp: auto_approve_if_trusted_def writes.none case_prod_beta split: sum.splits prod.splits)
qed

lemma auto_trust_needs:
  "auto_approve_if_trusted N A req cid l c actor thr now st = (Inr (Some sha), st1) \<Longrightarrow>
   provenance req \<noteq> ''untrusted'' \<and> thr \<le> effective_trust l c"
  by (auto simp: auto_approve_if_trusted_def split: if_splits)

text \<open>A trust approval outlives the trust. The approval the trust path stores is an ordinary one that nothing consumes: until
  it expires five minutes later the same action can be claimed from it as if the user had clicked, whatever the trust has become
  (the only other result is the database refusing the tombstone as a duplicate).\<close>

theorem trust_approval_outlives_trust:
  assumes "ledger_inv N key st" "rows_safe st" "\<forall>k. key = Some k \<longrightarrow> nacl_correct N k"
    and "auto_approve_if_trusted N A req cid l c actor thr t st = (Inr (Some sha), st1)" "db_faults st1 = []" "in_flight st1 = {}"
    and "length (rows_of ''consent.approved'' st1) \<le> 50"
    and "\<not> (\<exists>d \<in> set (rows st1). action d = ''consent.consumed'' \<and> names_sha ''approval_event_sha256'' sha d)"
    and "now < t + APPROVAL_TTL" "t + APPROVAL_TTL < max_instant"
  shows "(\<exists>ev. fst (claim_approval N req cid actor' now st1) = Inr (Some ev) \<and> matches_request ev req = Inr True)
         \<or> fst (claim_approval N req cid actor' now st1) = Inl IntegrityError"
proof -
  have w: "writes N st st1" using auto_trust_run [of N st A req cid l c actor thr t] assms(4) by simp
  from assms(4) obtain s ev where a: "approve N A req cid ''trust_threshold'' actor t st = (Inr sha, s)"
    and rec: "record_event N cid ''consent.auto_approved'' actor (Some ''capability'') (Some (capability req)) ''ok''
                (trust_detail sha req l c thr) t s = (Inr ev, st1)"
    by (auto simp: auto_approve_if_trusted_def split: if_splits prod.splits sum.splits)
  have ext: "\<exists>ext. rows st1 = rows s @ ext"
    using writes_grow [OF writes_record [OF trust_detail_safe, of N s cid "''consent.auto_approved''" actor "Some ''capability''" "Some (capability req)" "''ok''"]] rec
    by (metis snd_conv)
  from approve_writes_row [OF a] obtain r where "rows s = rows st @ [r]" and q: "action r = ''consent.approved''" "chapter_id r = cid"
    "event_sha256 r = sha" "matches_request r req = Inr True" "expiry_of r = Inr (fromisoformat (isoformat (t + APPROVAL_TTL)))"
    by blast
  with ext have r: "r \<in> set (rows st1)" by auto
  have x: "expiry_of r = Inr (Some (t + APPROVAL_TTL))" using q(5) isoformat_roundtrip [OF assms(10)] by simp
  show ?thesis
    by (rule valid_row_claimable [OF writes_inv [OF w assms(1)] writes_safe [OF w assms(2)] assms(3,7,5,6) r q(1,2,4) x assms(9)])
      (use assms(8) q(3) in simp)
qed

end
