(* ===== verification/Executor.thy ===== *)
theory Executor
  imports Identity_Trust
begin

text \<open>
  The executor of \<^verbatim>\<open>executor.py\<close>: each proposal of a plan goes through the whitelist, the recent-denial check, the
  untrusted-provenance reject, the two auto-approval paths, the one-shot claim and the prompt, and only an
  approved one reaches its runner. The runners are the parameter \<open>runners\<close>: a runner returns an output,
  raises an exception with a class name and a message, or is interrupted, and may change the state. The habit model and the graduation store, optional
  arguments in the code, are optional fields of the state. One instant stands for the clock during one proposal.
\<close>

subsection \<open>Data\<close>

record agent_state = consent_state +
  habits :: "habit_model option"
  grads :: "graduation_store option"

record tool_output =
  out_capability :: string
  out_scope :: string
  out_outcome :: string
  out_content :: string
  out_provenance :: string
  out_source_ref :: "string option"
  out_extra :: "(string \<times> json) list"

record execution_result =
  res_proposal :: action_request
  res_decision :: consent_decision
  res_output :: "tool_output option"
  res_error :: "string option"

datatype runner_result = Returned tool_output | Raised string string | Interrupted

type_synonym 'a runner = "action_request \<Rightarrow> 'a agent_state_scheme \<Rightarrow> runner_result \<times> 'a agent_state_scheme"

record exec_env =
  exec_nacl :: nacl
  exec_aae :: sm_aae
  exec_denied :: "string set"
  exec_chapter :: string
  exec_actor :: "string option"
  exec_context :: "string option"
  exec_local_trust :: "int option"
  exec_chapter_trust :: "int option"

definition KNOWN_CAPABILITIES :: "string list" where
  "KNOWN_CAPABILITIES = [''browser.navigate'', ''browser.extract'', ''fs.read'', ''fs.write'', ''shell.exec'', ''net.http'',
     ''desktop.click'', ''desktop.type'', ''desktop.read_screen'', ''skill.invoke'']"

definition NO_AUTO_APPROVE :: "string list" where
  "NO_AUTO_APPROVE = [''skill.invoke'']"

definition ALWAYS_UNTRUSTED_OUTPUTS :: "string list" where
  "ALWAYS_UNTRUSTED_OUTPUTS = [''browser.navigate'', ''browser.extract'', ''shell.exec'', ''fs.read'',
     ''desktop.click'', ''desktop.type'', ''desktop.read_screen'', ''skill.invoke'']"

subsection \<open>The phases\<close>

definition observe_safe :: "exec_env \<Rightarrow> action_request \<Rightarrow> string \<Rightarrow> instant \<Rightarrow> 'a agent_state_scheme \<Rightarrow> 'a agent_state_scheme" where
  "observe_safe X p dst now st =
     (case habits st of
        None \<Rightarrow> st
      | Some hm \<Rightarrow>
          if \<not> truthy_str (exec_context X) \<or> dst \<notin> {''approved'', ''reject''} then st
          else st\<lparr>habits := Some (snd (observe (capability p) (scope p) (the (exec_context X))
                   (if dst = ''approved'' then ''approved'' else ''denied'') (isoformat now) hm))\<rparr>)"

text \<open>Phase 2: an auto-approval when the bucket is graduated; an exception counts as no approval.\<close>

definition try_graduated :: "exec_env \<Rightarrow> action_request \<Rightarrow> instant \<Rightarrow> 'a agent_state_scheme
    \<Rightarrow> consent_decision option \<times> 'a agent_state_scheme" where
  "try_graduated X p now st =
     (case (habits st, grads st) of
        (Some hm, Some gs) \<Rightarrow>
          if capability p \<in> set NO_AUTO_APPROVE \<or> \<not> truthy_str (exec_context X) then (None, st)
          else (case auto_approve_if_graduated (exec_nacl X) (exec_aae X) p (the (exec_context X)) (exec_chapter X) hm (exec_actor X) now gs st of
                  (res, gs1, st1) \<Rightarrow>
                    (case res of Inr (Some h) \<Rightarrow> Some \<lparr>state = Approved, reason = ''graduated'', decision_sha = Some h\<rparr> | _ \<Rightarrow> None,
                     st1\<lparr>grads := Some gs1\<rparr>))
      | _ \<Rightarrow> (None, st))"

text \<open>Phase 2.5: an auto-approval when the effective trust meets the threshold.\<close>

definition try_trusted :: "exec_env \<Rightarrow> action_request \<Rightarrow> instant \<Rightarrow> 'a agent_state_scheme
    \<Rightarrow> consent_decision option \<times> 'a agent_state_scheme" where
  "try_trusted X p now st =
     (if capability p \<in> set NO_AUTO_APPROVE \<or> (exec_local_trust X = None \<and> exec_chapter_trust X = None) then (None, st)
      else case auto_approve_if_trusted (exec_nacl X) (exec_aae X) p (exec_chapter X)
                  (case exec_local_trust X of None \<Rightarrow> 0 | Some v \<Rightarrow> v) (case exec_chapter_trust X of None \<Rightarrow> 0 | Some v \<Rightarrow> v)
                  (exec_actor X) AUTO_APPROVE_THRESHOLD now st of
             (res, st1) \<Rightarrow>
               (case res of Inr (Some h) \<Rightarrow> Some \<lparr>state = Approved, reason = ''trust_threshold'', decision_sha = Some h\<rparr> | _ \<Rightarrow> None, st1))"

text \<open>Phase 3: the claim of a user-clicked approval.\<close>

definition try_claim :: "exec_env \<Rightarrow> action_request \<Rightarrow> instant \<Rightarrow> 'a agent_state_scheme
    \<Rightarrow> consent_decision option \<times> 'a agent_state_scheme" where
  "try_claim X p now st =
     (case claim_approval (exec_nacl X) p (exec_chapter X) (exec_actor X) now st of
        (res, st1) \<Rightarrow>
          (case res of Inr (Some ev) \<Rightarrow> Some \<lparr>state = Approved, reason = ''user_approved'', decision_sha = Some (event_sha256 ev)\<rparr> | _ \<Rightarrow> None, st1))"

text \<open>Phases 2 to 3 in order: the first that approves decides.\<close>

definition auto_decide :: "exec_env \<Rightarrow> action_request \<Rightarrow> instant \<Rightarrow> 'a agent_state_scheme
    \<Rightarrow> consent_decision option \<times> 'a agent_state_scheme" where
  "auto_decide X p now st =
     (case try_graduated X p now st of
        (Some d, st1) \<Rightarrow> (Some d, st1)
      | (None, st1) \<Rightarrow>
          (case try_trusted X p now st1 of
             (Some d, st2) \<Rightarrow> (Some d, st2)
           | (None, st2) \<Rightarrow> try_claim X p now st2))"

definition release_claim :: "exec_env \<Rightarrow> consent_decision \<Rightarrow> string \<Rightarrow> string option \<Rightarrow> instant \<Rightarrow> 'a agent_state_scheme \<Rightarrow> 'a agent_state_scheme" where
  "release_claim X d execution e now st =
     (if reason d = ''user_approved'' \<and> truthy_str (decision_sha d)
      then snd (release_execution (exec_nacl X) (the (decision_sha d)) (exec_chapter X) execution (exec_actor X) e now st)
      else st)"

definition result_of :: "action_request \<Rightarrow> consent_decision \<Rightarrow> tool_output option \<Rightarrow> string option \<Rightarrow> execution_result" where
  "result_of p d out e = \<lparr>res_proposal = p, res_decision = d, res_output = out, res_error = e\<rparr>"

text \<open>An approved proposal: the runner, the release, the provenance guard.\<close>

definition run_approved :: "exec_env \<Rightarrow> (string \<Rightarrow> 'a runner option) \<Rightarrow> action_request \<Rightarrow> consent_decision \<Rightarrow> instant \<Rightarrow> 'a agent_state_scheme
    \<Rightarrow> execution_result result \<times> 'a agent_state_scheme" where
  "run_approved X runners p d now st0 =
     (let st = observe_safe X p ''approved'' now st0 in
      case runners (capability p) of
        None \<Rightarrow>
          (let err = ''no runner registered for capability '' @ py_repr (capability p)
           in (Inr (result_of p d None (Some err)), release_claim X d ''error'' (Some err) now st))
      | Some run \<Rightarrow>
          (case run p st of
             (Raised name msg, st1) \<Rightarrow>
               (let err = name @ '': '' @ msg in (Inr (result_of p d None (Some err)), release_claim X d ''error'' (Some err) now st1))
           | (Interrupted, st1) \<Rightarrow> (Inl BaseException, release_claim X d ''error'' (Some ''runner interrupted before reporting'') now st1)
           | (Returned out, st1) \<Rightarrow>
               (let st2 = release_claim X d (out_outcome out) None now st1 in
                if capability p \<in> set ALWAYS_UNTRUSTED_OUTPUTS \<and> out_provenance out \<noteq> ''untrusted''
                then (Inr (result_of p d None (Some (''capability '' @ py_repr (capability p) @ '' output provenance must be '' @ py_repr ''untrusted''
                       @ '', got '' @ py_repr (out_provenance out)))), st2)
                else (Inr (result_of p d (Some out) None), st2))))"

definition pending_output :: "action_request \<Rightarrow> consent_decision \<Rightarrow> tool_output" where
  "pending_output p d = \<lparr>out_capability = capability p, out_scope = scope p, out_outcome = ''pending_approval'', out_content = [],
     out_provenance = ''trusted'', out_source_ref = None, out_extra = [(''prompt_event_sha256'', jstr_opt (decision_sha d))]\<rparr>"

definition execute_one :: "exec_env \<Rightarrow> (string \<Rightarrow> 'a runner option) \<Rightarrow> instant \<Rightarrow> action_request \<Rightarrow> 'a agent_state_scheme
    \<Rightarrow> execution_result result \<times> 'a agent_state_scheme" where
  "execute_one X runners now p st =
     (let N = exec_nacl X; A = exec_aae X; cid = exec_chapter X; actor = exec_actor X in
      if capability p \<notin> set KNOWN_CAPABILITIES
      then (case record_decision N A p \<lparr>state = Reject, reason = ''unknown_capability'', decision_sha = None\<rparr> cid actor now st of
              (Inl e, st1) \<Rightarrow> (Inl e, st1)
            | (Inr h, st1) \<Rightarrow> (Inr (result_of p \<lparr>state = Reject, reason = ''unknown_capability'', decision_sha = Some h\<rparr> None None), st1))
      else if (case find_recent_denial p cid now st of Inr (Some ev) \<Rightarrow> True | _ \<Rightarrow> False)
      then (Inr (result_of p \<lparr>state = Reject, reason = ''recently_denied'', decision_sha = None\<rparr> None None), st)
      else if provenance p = ''untrusted''
      then (case check_and_record N A p cid actor (exec_denied X) now st of
              (Inl e, st1) \<Rightarrow> (Inl e, st1)
            | (Inr d, st1) \<Rightarrow> (Inr (result_of p d None None), observe_safe X p ''reject'' now st1))
      else
        (case auto_decide X p now st of
           (Some d, st1) \<Rightarrow> run_approved X runners p d now st1
         | (None, st1) \<Rightarrow>
             (case check_and_record N A p cid actor (exec_denied X) now st1 of
                (Inl e, st2) \<Rightarrow> (Inl e, st2)
              | (Inr d, st2) \<Rightarrow>
                  if state d = Reject then (Inr (result_of p d None None), observe_safe X p ''reject'' now st2)
                  else if state d = Prompt then (Inr (result_of p d (Some (pending_output p d)) None), st2)
                  else run_approved X runners p d now st2)))"

fun execute_plan :: "exec_env \<Rightarrow> (string \<Rightarrow> 'a runner option) \<Rightarrow> (nat \<Rightarrow> instant) \<Rightarrow> action_request list \<Rightarrow> 'a agent_state_scheme
    \<Rightarrow> execution_result list result \<times> 'a agent_state_scheme" where
  "execute_plan X runners clk [] st = (Inr [], st)"
| "execute_plan X runners clk (p # ps) st =
     (case execute_one X runners (clk 0) p st of
        (Inl e, st1) \<Rightarrow> (Inl e, st1)
      | (Inr r, st1) \<Rightarrow>
          (case execute_plan X runners (\<lambda>i. clk (Suc i)) ps st1 of
             (Inl e, st2) \<Rightarrow> (Inl e, st2)
           | (Inr rs, st2) \<Rightarrow> (Inr (r # rs), st2)))"

subsection \<open>What each phase decides\<close>

lemma evaluate_never_approves: "state (evaluate req denied) \<noteq> Approved"
  by (simp add: evaluate_def split: option.splits)

lemma check_and_record_decides:
  "check_and_record N A req cid actor denied now st = (Inr d, st1) \<Longrightarrow> state d = state (evaluate req denied) \<and> reason d = reason (evaluate req denied)"
  by (auto simp: check_and_record_def Let_def split: prod.splits sum.splits)

lemma evaluate_untrusted: "provenance req = ''untrusted'' \<Longrightarrow> state (evaluate req denied) = Reject"
  by (simp add: evaluate_def split: option.splits)

lemma observe_safe_ledger: "same_ledger st (observe_safe X p s now st)"
  by (simp add: observe_safe_def same_ledger_def split: option.splits)

text \<open>The reasons an approved proposal can have, each with the evidence behind it: \<open>st\<close> is the state the proposal met,
  \<open>st1\<close> the state its runner will see.\<close>

definition justified :: "exec_env \<Rightarrow> action_request \<Rightarrow> consent_decision \<Rightarrow> instant \<Rightarrow> 'a agent_state_scheme \<Rightarrow> 'a agent_state_scheme \<Rightarrow> bool" where
  "justified X p d now st st1 \<longleftrightarrow>
     reason d = ''graduated'' \<and> capability p \<noteq> ''skill.invoke''
       \<and> (\<exists>hm gs ctx. habits st = Some hm \<and> grads st = Some gs \<and> exec_context X = Some ctx
            \<and> 5 \<le> approvals (stats (capability p) (scope p) ctx hm)
            \<and> \<not> revoked (device_did gs, capability p, scope p, ctx) gs)
   \<or> reason d = ''trust_threshold'' \<and> capability p \<noteq> ''skill.invoke''
       \<and> (70 \<le> case_option 0 id (exec_local_trust X) \<or> 70 \<le> case_option 0 id (exec_chapter_trust X))
   \<or> reason d = ''user_approved''
       \<and> (\<exists>r \<in> set (rows st1). action r = ''consent.approved'' \<and> chapter_id r = exec_chapter X \<and> decision_sha d = Some (event_sha256 r)
            \<and> matches_request r p = Inr True \<and> (\<exists>x. expiry_of r = Inr (Some x) \<and> now < x)
            \<and> event_sha256 r \<in> in_flight st1
            \<and> (\<exists>c \<in> set (rows st1). action c = ''consent.consumed'' \<and> names_sha ''approval_event_sha256'' (event_sha256 r) c))"

lemma try_graduated_justified:
  assumes "try_graduated X p now st = (Some d, st1)"
  shows "state d = Approved \<and> justified X p d now st st1"
proof -
  from assms obtain hm gs ctx where g: "habits st = Some hm" "grads st = Some gs" "exec_context X = Some ctx" "capability p \<noteq> ''skill.invoke''"
    by (auto simp: try_graduated_def NO_AUTO_APPROVE_def elim: truthy_str.elims split: option.splits if_splits)
  obtain res gs1 s where a: "auto_approve_if_graduated (exec_nacl X) (exec_aae X) p ctx (exec_chapter X) hm (exec_actor X) now gs st = (res, gs1, s)"
    by (metis prod.collapse)
  with assms g obtain h where "res = Inr (Some h)" "d = \<lparr>state = Approved, reason = ''graduated'', decision_sha = Some h\<rparr>"
    by (auto simp: try_graduated_def split: if_splits sum.splits option.splits)
  with g auto_approve_needs [OF a [unfolded this(1)]] show ?thesis by (auto simp: justified_def Let_def)
qed

lemma try_trusted_justified:
  assumes "try_trusted X p now st = (Some d, st1)"
  shows "state d = Approved \<and> justified X p d now st0 st1"
proof -
  let ?l = "case exec_local_trust X of None \<Rightarrow> 0 | Some v \<Rightarrow> v" and ?c = "case exec_chapter_trust X of None \<Rightarrow> 0 | Some v \<Rightarrow> v"
  obtain res s where a: "auto_approve_if_trusted (exec_nacl X) (exec_aae X) p (exec_chapter X) ?l ?c (exec_actor X) AUTO_APPROVE_THRESHOLD now st = (res, s)"
    by fastforce
  with assms obtain h where h: "res = Inr (Some h)" "d = \<lparr>state = Approved, reason = ''trust_threshold'', decision_sha = Some h\<rparr>"
    and cap: "capability p \<noteq> ''skill.invoke''"
    by (auto simp: try_trusted_def NO_AUTO_APPROVE_def split: if_splits sum.splits option.splits)
  from auto_trust_needs [OF a [unfolded h(1)]] have "70 \<le> ?l \<or> 70 \<le> ?c"
    unfolding effective_trust_def AUTO_APPROVE_THRESHOLD_def by linarith
  with h(2) cap show ?thesis by (auto simp: justified_def split: option.splits)
qed

lemma claim_approval_row:
  assumes "claim_approval N req cid actor now st = (Inr (Some ev), st1)"
  shows "\<exists>r \<in> set (rows st1). ev = row_to_dict r \<and> action r = ''consent.approved'' \<and> chapter_id r = cid
    \<and> matches_request r req = Inr True \<and> (\<exists>x. expiry_of r = Inr (Some x) \<and> now < x)"
proof -
  have "find_valid_approval N req cid now st = Inr (Some ev)"
    using assms by (auto simp: claim_approval_def Let_def split: sum.splits option.splits if_splits prod.splits)
  from find_valid_approval_row [OF this] writes_grow [OF claim_approval_run [of N st req cid actor now]] assms
  show ?thesis by fastforce
qed

lemma try_claim_justified:
  assumes "try_claim X p now st = (Some d, st1)"
  shows "state d = Approved \<and> justified X p d now st0 st1"
proof -
  obtain res s where "claim_approval (exec_nacl X) p (exec_chapter X) (exec_actor X) now st = (res, s)" by fastforce
  with assms obtain ev where c: "claim_approval (exec_nacl X) p (exec_chapter X) (exec_actor X) now st = (Inr (Some ev), st1)"
    and d: "d = \<lparr>state = Approved, reason = ''user_approved'', decision_sha = Some (event_sha256 ev)\<rparr>"
    by (auto simp: try_claim_def split: sum.splits option.splits)
  from claim_approval_row [OF c] obtain r where r: "r \<in> set (rows st1)" "ev = row_to_dict r" "action r = ''consent.approved''"
    "chapter_id r = exec_chapter X" "matches_request r p = Inr True" "\<exists>x. expiry_of r = Inr (Some x) \<and> now < x" by blast
  moreover have "event_sha256 r \<in> in_flight st1"
    "\<exists>c \<in> set (rows st1). action c = ''consent.consumed'' \<and> names_sha ''approval_event_sha256'' (event_sha256 r) c"
    using claim_approval_post [where N = "exec_nacl X" and req = p and cid = "exec_chapter X" and actor = "exec_actor X" and now = now and st = st] r(2) unfolding c by auto
  ultimately show ?thesis using d unfolding justified_def by auto
qed

lemma auto_decide_justified:
  "auto_decide X p now st = (Some d, st1) \<Longrightarrow> state d = Approved \<and> justified X p d now st st1"
  by (auto simp: auto_decide_def split: prod.splits option.splits
      dest: try_graduated_justified try_trusted_justified try_claim_justified)

subsection \<open>What a plan yields\<close>

lemma run_approved_result:
  "run_approved X runners p d now st = (Inr r, st1) \<Longrightarrow> res_proposal r = p \<and> res_decision r = d
     \<and> (\<forall>out. res_output r = Some out \<longrightarrow> capability p \<in> set ALWAYS_UNTRUSTED_OUTPUTS \<longrightarrow> out_provenance out = ''untrusted'')"
  by (auto simp: run_approved_def result_of_def Let_def split: option.splits prod.splits runner_result.splits if_splits)

text \<open>A proposal the executor decides before it looks at any authorisation.\<close>

definition refused_up_front :: "exec_env \<Rightarrow> instant \<Rightarrow> action_request \<Rightarrow> 'a agent_state_scheme \<Rightarrow> bool" where
  "refused_up_front X now p st \<longleftrightarrow> capability p \<notin> set KNOWN_CAPABILITIES
     \<or> (\<exists>ev. find_recent_denial p (exec_chapter X) now st = Inr (Some ev)) \<or> provenance p = ''untrusted''"

lemma execute_one_refused:
  assumes "refused_up_front X now p st"
  shows "execute_one X runners now p st = execute_one X runners' now p st"
    "execute_one X runners now p st = (Inr r, st1) \<Longrightarrow> res_proposal r = p \<and> state (res_decision r) = Reject \<and> res_output r = None"
  using assms by (auto simp: execute_one_def Let_def refused_up_front_def result_of_def
      split: if_splits sum.splits prod.splits option.splits dest!: check_and_record_decides dest: evaluate_untrusted)

lemma execute_one_accepted:
  assumes "\<not> refused_up_front X now p st"
  shows "execute_one X runners now p st =
     (case auto_decide X p now st of
        (Some d, st1) \<Rightarrow> run_approved X runners p d now st1
      | (None, st1) \<Rightarrow>
          (case check_and_record (exec_nacl X) (exec_aae X) p (exec_chapter X) (exec_actor X) (exec_denied X) now st1 of
             (Inl e, st2) \<Rightarrow> (Inl e, st2)
           | (Inr d, st2) \<Rightarrow>
               if state d = Reject then (Inr (result_of p d None None), observe_safe X p ''reject'' now st2)
               else (Inr (result_of p d (Some (pending_output p d)) None), st2)))"
proof -
  have "state d = Reject \<or> state d = Prompt"
    if "check_and_record (exec_nacl X) (exec_aae X) p (exec_chapter X) (exec_actor X) (exec_denied X) now s = (Inr d, s2)" for s d s2
    using check_and_record_decides [OF that] evaluate_never_approves [of p "exec_denied X"] by (cases "state d") auto
  with assms show ?thesis
    by (auto simp: execute_one_def Let_def refused_up_front_def split: option.splits sum.splits prod.splits)
qed

text \<open>The three kinds of result: refused, waiting for the user, or run with an authorisation.\<close>

lemma third_state: "s \<noteq> Reject \<Longrightarrow> s \<noteq> Prompt \<Longrightarrow> s = Approved"
  by (cases s) auto

lemma execute_one_result:
  assumes "execute_one X runners now p st = (Inr r, st2)"
  shows "res_proposal r = p
    \<and> (state (res_decision r) = Reject \<and> res_output r = None
       \<or> state (res_decision r) = Prompt \<and> res_output r = Some (pending_output p (res_decision r))
       \<or> state (res_decision r) = Approved \<and> \<not> refused_up_front X now p st
         \<and> (\<exists>st1. auto_decide X p now st = (Some (res_decision r), st1) \<and> run_approved X runners p (res_decision r) now st1 = (Inr r, st2))
         \<and> (\<forall>out. res_output r = Some out \<longrightarrow> capability p \<in> set ALWAYS_UNTRUSTED_OUTPUTS \<longrightarrow> out_provenance out = ''untrusted''))"
proof (cases "refused_up_front X now p st")
  case True
  from execute_one_refused(2) [OF True assms] show ?thesis by simp
next
  case False
  obtain od st1 where a: "auto_decide X p now st = (od, st1)" by fastforce
  show ?thesis
  proof (cases od)
    case (Some d)
    with assms a have run: "run_approved X runners p d now st1 = (Inr r, st2)" by (simp add: execute_one_accepted [OF False])
    with a Some False run_approved_result [OF run] auto_decide_justified [of X p now st d st1] show ?thesis by auto
  next
    case None
    have "state d \<noteq> Approved"
      if "check_and_record (exec_nacl X) (exec_aae X) p (exec_chapter X) (exec_actor X) (exec_denied X) now st1 = (Inr d, st2)" for d
      using check_and_record_decides [OF that] evaluate_never_approves [of p "exec_denied X"] by simp
    with assms a None show ?thesis
      by (auto simp: execute_one_accepted [OF False] result_of_def split: sum.splits prod.splits if_splits dest: third_state)
  qed
qed


text \<open>C8: content the user did not write never reaches an action. For an untrusted-provenance plan nothing that the runners would
  do matters: results and state are the same with any other runners, and each result is a rejection without output.\<close>

theorem untrusted_plan_reaches_no_runner:
  assumes "\<forall>p \<in> set ps. provenance p = ''untrusted''"
  shows "execute_plan X runners clk ps st = execute_plan X runners' clk ps st
    \<and> (case fst (execute_plan X runners clk ps st) of
         Inl e \<Rightarrow> True
       | Inr rs \<Rightarrow> list_all (\<lambda>r. state (res_decision r) = Reject \<and> res_output r = None) rs)"
  using assms
proof (induction ps arbitrary: clk st)
  case (Cons p ps)
  then have ref: "refused_up_front X (clk 0) p st" by (simp add: refused_up_front_def)
  note one = execute_one_refused(1) [OF ref, of runners runners'] and two = execute_one_refused(2) [OF ref, of runners]
  obtain r st1 where e: "execute_one X runners (clk 0) p st = (r, st1)" by fastforce
  show ?case
  proof (cases r)
    case (Inl x)
    then show ?thesis using e one by simp
  next
    case (Inr v)
    have "provenance q = ''untrusted''" if "q \<in> set ps" for q using Cons.prems that by simp
    then have "\<forall>q \<in> set ps. provenance q = ''untrusted''" by blast
    from Cons.IH [OF this, of "\<lambda>i. clk (Suc i)" st1] Inr e one two [of v st1] show ?thesis
      by (auto split: prod.splits sum.splits)
  qed
qed simp


definition guarded_result :: "execution_result \<Rightarrow> bool" where
  "guarded_result r \<longleftrightarrow>
     (case res_output r of
        None \<Rightarrow> state (res_decision r) \<noteq> Prompt
      | Some out \<Rightarrow> if state (res_decision r) = Prompt then out = pending_output (res_proposal r) (res_decision r)
          else state (res_decision r) = Approved
            \<and> (capability (res_proposal r) \<in> set ALWAYS_UNTRUSTED_OUTPUTS \<longrightarrow> out_provenance out = ''untrusted''))"

lemma execute_one_guarded: "execute_one X runners now p st = (Inr r, st1) \<Longrightarrow> res_proposal r = p \<and> guarded_result r"
  by (drule execute_one_result) (auto simp: guarded_result_def split: option.splits)

text \<open>A plan that returns gives one result per proposal in plan order; a result with an output is either the
  placeholder of a prompt, or an approved run whose output is marked untrusted when the capability is pinned to untrusted.\<close>

theorem plan_results_are_guarded:
  "case fst (execute_plan X runners clk ps st) of
     Inl e \<Rightarrow> True
   | Inr rs \<Rightarrow> map res_proposal rs = ps \<and> list_all guarded_result rs"
proof (induction ps arbitrary: clk st)
  case (Cons p ps)
  obtain r st1 where e: "execute_one X runners (clk 0) p st = (r, st1)" by fastforce
  show ?case
  proof (cases r)
    case (Inr v)
    with execute_one_guarded [of X runners "clk 0" p st v st1] e Cons.IH [of "\<lambda>i. clk (Suc i)" st1] show ?thesis
      by (auto split: prod.splits sum.splits)
  qed (use e in simp)
qed simp

subsection \<open>The ledger under a plan\<close>

definition runners_write :: "nacl \<Rightarrow> (string \<Rightarrow> 'a runner option) \<Rightarrow> bool" where
  "runners_write N runners \<longleftrightarrow> (\<forall>c run p st. runners c = Some run \<longrightarrow> writes N st (snd (run p st)))"

lemma observe_safe_run: "writes N st0 st \<Longrightarrow> writes N st0 (observe_safe X p s now st)"
  using observe_safe_ledger by (rule writes.beside [rotated])

lemma release_claim_run: "writes (exec_nacl X) st0 st \<Longrightarrow> writes (exec_nacl X) st0 (release_claim X d ex e now st)"
  by (simp add: release_claim_def writes_trans [OF release_execution_run])

lemma run_approved_run:
  assumes "runners_write (exec_nacl X) runners" "writes (exec_nacl X) st0 st"
  shows "writes (exec_nacl X) st0 (snd (run_approved X runners p d now st))"
proof (cases "runners (capability p)")
  case None
  with assms(2) show ?thesis by (simp add: run_approved_def Let_def release_claim_run observe_safe_run)
next
  case (Some run)
  let ?s = "observe_safe X p ''approved'' now st"
  have "writes (exec_nacl X) ?s (snd (run p ?s))" using assms(1) Some by (simp add: runners_write_def)
  then have "writes (exec_nacl X) st0 (snd (run p ?s))" using observe_safe_run [OF assms(2)] by (rule writes_trans)
  with Some show ?thesis
    by (cases "run p ?s") (auto simp: run_approved_def Let_def release_claim_run split: runner_result.splits)
qed

lemma auto_decide_run: "writes (exec_nacl X) st (snd (auto_decide X p now st))"
proof -
  have g: "writes (exec_nacl X) st (snd (try_graduated X p now st))" for st :: "'a agent_state_scheme"
    by (auto simp: try_graduated_def writes.none case_prod_beta same_ledger_def split: option.splits
        intro!: writes.beside [OF auto_approve_run])
  have t: "writes (exec_nacl X) st (snd (try_trusted X p now st))" for st :: "'a agent_state_scheme"
    by (simp add: try_trusted_def writes.none case_prod_beta auto_trust_run)
  have c: "writes (exec_nacl X) st (snd (try_claim X p now st))" for st :: "'a agent_state_scheme"
    by (simp add: try_claim_def case_prod_beta claim_approval_run)
  show ?thesis using g [of st] t [of "snd (try_graduated X p now st)"] c [of "snd (try_trusted X p now (snd (try_graduated X p now st)))"]
    by (auto simp: auto_decide_def case_prod_beta split: option.splits intro: writes_trans)
qed

lemma execute_one_run:
  assumes "runners_write (exec_nacl X) runners"
  shows "writes (exec_nacl X) st (snd (execute_one X runners now p st))"
proof (cases "refused_up_front X now p st")
  case True
  let ?c = "check_and_record (exec_nacl X) (exec_aae X) p (exec_chapter X) (exec_actor X) (exec_denied X) now st"
    and ?d = "record_decision (exec_nacl X) (exec_aae X) p \<lparr>state = Reject, reason = ''unknown_capability'', decision_sha = None\<rparr>
      (exec_chapter X) (exec_actor X) now st"
  have "snd (execute_one X runners now p st) \<in> {snd ?d, st, snd ?c, observe_safe X p ''reject'' now (snd ?c)}"
    using True by (auto simp: execute_one_def Let_def refused_up_front_def case_prod_beta split: sum.splits)
  with record_decision_writes check_and_record_writes observe_safe_run [OF check_and_record_writes] writes.none
  show ?thesis by (elim insertE) (simp_all only: singleton_iff empty_iff)
next
  case False
  let ?a = "auto_decide X p now st"
  let ?c = "check_and_record (exec_nacl X) (exec_aae X) p (exec_chapter X) (exec_actor X) (exec_denied X) now (snd ?a)"
  have c: "writes (exec_nacl X) st (snd ?c)"
    using check_and_record_writes auto_decide_run by (rule writes_trans)
  show ?thesis
  proof (cases "fst ?a")
    case None
    then have "snd (execute_one X runners now p st) \<in> {snd ?c, observe_safe X p ''reject'' now (snd ?c)}"
      by (auto simp: execute_one_accepted [OF False] case_prod_beta split: sum.splits)
    with c observe_safe_run [OF c] show ?thesis by auto
  next
    case (Some d)
    then have "execute_one X runners now p st = run_approved X runners p d now (snd ?a)"
      by (simp add: execute_one_accepted [OF False] case_prod_beta)
    with run_approved_run [OF assms auto_decide_run] show ?thesis by simp
  qed
qed

lemma execute_plan_run:
  assumes "runners_write (exec_nacl X) runners"
  shows "writes (exec_nacl X) st (snd (execute_plan X runners clk ps st))"
proof (induction ps arbitrary: clk st)
  case (Cons p ps)
  let ?o = "execute_one X runners (clk 0) p st"
  have "writes (exec_nacl X) st (snd (execute_plan X runners (\<lambda>i. clk (Suc i)) ps (snd ?o)))"
    using Cons.IH execute_one_run [OF assms] by (rule writes_trans)
  with execute_one_run [OF assms, of st "clk 0" p] show ?case by (auto simp: case_prod_beta split: sum.splits)
qed (simp add: writes.none)

text \<open>Executing a plan never damages the ledger. From a ledger that satisfies the invariant, and with runners that touch the
  ledger only by appending, every plan, whether it returns or raises, leaves a ledger that still verifies, every row that was there
  included.\<close>

theorem plan_keeps_ledger_verifiable:
  assumes "ledger_inv (exec_nacl X) key st" "\<forall>k. key = Some k \<longrightarrow> nacl_correct (exec_nacl X) k" "runners_write (exec_nacl X) runners"
  shows "case execute_plan X runners clk ps st of (res, st1) \<Rightarrow>
     (\<exists>n s. verify_chain (exec_nacl X) st1 = Inr (Chain_Ok n s 0 (if key = None then None else Some True)) \<and> n = length (rows st1))
     \<and> (\<exists>new. rows st1 = rows st @ new)"
proof -
  let ?st1 = "snd (execute_plan X runners clk ps st)"
  note w = execute_plan_run [OF assms(3), of st clk ps]
  show ?thesis using ledger_inv_verifies [OF writes_inv [OF w assms(1)] assms(2)] writes_grow [OF w] by (auto simp: case_prod_beta)
qed


subsection \<open>Concrete runs\<close>

definition demo_agent :: agent_state where
  "demo_agent = \<lparr>db_open = True, signing_key = Some ''k'', rows = [], sidecar = None, db_faults = [], cp_faults = [],
     aae_open = False, aae_identity = None, envelopes = [], aae_faults = [], in_flight = {}, habits = None, grads = None\<rparr>"

definition demo_env :: exec_env where
  "demo_env = \<lparr>exec_nacl = tag_nacl, exec_aae = plain_aae, exec_denied = {}, exec_chapter = ''c'', exec_actor = None,
     exec_context = None, exec_local_trust = Some 80, exec_chapter_trust = None\<rparr>"

definition demo_runners :: "string \<Rightarrow> 'a runner option" where
  "demo_runners c = (if c = ''fs.read'' then Some (\<lambda>p st. (Returned \<lparr>out_capability = capability p, out_scope = scope p,
     out_outcome = ''ok'', out_content = ''text'', out_provenance = ''untrusted'', out_source_ref = None, out_extra = []\<rparr>, st)) else None)"

lemma demo_agent_facts [simp]:
  "rows demo_agent = []" "db_open demo_agent" "db_faults demo_agent = []" "signing_key demo_agent = Some ''k''"
  "habits demo_agent = None" "grads demo_agent = None"
  by (simp_all add: demo_agent_def)

lemma demo_agent_inv: "ledger_inv tag_nacl (Some ''k'') demo_agent"
  by (simp add: ledger_inv_def checkpoint_ok_def demo_agent_def)

lemma demo_runners_write: "runners_write N demo_runners"
  by (auto simp: runners_write_def demo_runners_def writes.none split: if_splits)

theorem untrusted_plan_reaches_no_runner_witness:
  "execute_plan demo_env demo_runners (\<lambda>i. i) [demo_req\<lparr>provenance := ''untrusted''\<rparr>] demo_agent
     = execute_plan demo_env (\<lambda>c. None) (\<lambda>i. i) [demo_req\<lparr>provenance := ''untrusted''\<rparr>] demo_agent"
  using untrusted_plan_reaches_no_runner [of "[demo_req\<lparr>provenance := ''untrusted''\<rparr>]" demo_env demo_runners "\<lambda>i. i" demo_agent "\<lambda>c. None"]
  by simp

theorem plan_keeps_ledger_verifiable_witness:
  "case execute_plan demo_env demo_runners (\<lambda>i. i) [demo_req, demo_req] demo_agent of (res, st1) \<Rightarrow>
     (\<exists>n s. verify_chain tag_nacl st1 = Inr (Chain_Ok n s 0 (Some True)) \<and> n = length (rows st1))"
  using plan_keeps_ledger_verifiable [of demo_env "Some ''k''" demo_agent demo_runners "\<lambda>i. i" "[demo_req, demo_req]"]
    demo_agent_inv tag_nacl_correct [of "''k''"]
  by (auto simp: demo_env_def demo_runners_write simp del: execute_plan.simps)

lemma demo_no_denial: "find_recent_denial p c now demo_agent = Inr None"
  by (simp add: find_recent_denial_def cleared_denial_shas_def shas_listed_def list_events_def newest_first_def)

lemma demo_trusted:
  "(\<exists>sha st1. auto_approve_if_trusted tag_nacl plain_aae demo_req ''c'' 80 0 None 70 5 demo_agent = (Inr (Some sha), st1))
   \<or> fst (auto_approve_if_trusted tag_nacl plain_aae demo_req ''c'' 80 0 None 70 5 demo_agent) = Inl IntegrityError"
proof -
  obtain sha st1 where a: "approve tag_nacl plain_aae demo_req ''c'' ''trust_threshold'' None 5 demo_agent = (Inr sha, st1)"
    using demo_approve_any [of demo_agent "''trust_threshold''" plain_aae "''c''" 5] by auto
  have w: "writes tag_nacl demo_agent st1" using approve_writes [of tag_nacl demo_agent] a by (metis snd_conv)
  have "length sha = 64"
    using approve_writes_row [OF a] writes_inv [OF w demo_agent_inv] by (auto simp: ledger_inv_def dest!: chained_dig)
  then have "length (dump_str sha) \<le> 386" using length_dump_str [of sha] by simp
  moreover have "length (str_int 80) \<le> 2" "length (str_int 0) \<le> 2" "length (str_int 70) \<le> 2"
    by (simp_all add: str_int_def str_nat.simps)
  ultimately have v: "fst (validate ''consent.auto_approved'' ''ok'' (or_empty_obj (trust_detail sha demo_req 80 0 70)))"
    by (simp add: trust_detail_def or_empty_obj_def validate_def VALID_OUTCOMES_def MAX_ACTION_LEN_def MAX_DETAIL_BYTES_def
        dumps_len_def demo_req_def effective_trust_def) (simp add: dump_str_def esc_char_def)
  have "db_open st1" "signing_key st1 = Some ''k''" "db_faults st1 = []"
    using writes_grow [OF w] approve_frame [OF a] by simp_all
  with record_event_no_fault [OF v, of st1 tag_nacl "''c''" None "Some ''capability''" "Some (capability demo_req)" 5] a
  show ?thesis
    by (auto simp: auto_approve_if_trusted_def demo_req_def effective_trust_def tag_nacl_def case_prod_beta split: sum.splits)
qed


lemma demo_not_refused: "\<not> refused_up_front demo_env 5 demo_req demo_agent"
  using demo_no_denial by (simp add: refused_up_front_def KNOWN_CAPABILITIES_def demo_req_def)

lemma demo_auto:
  "fst (auto_approve_if_trusted tag_nacl plain_aae demo_req ''c'' 80 0 None 70 5 demo_agent) = Inl IntegrityError
   \<or> (\<exists>d st1. auto_decide demo_env demo_req 5 demo_agent = (Some d, st1) \<and> state d = Approved)"
  using demo_trusted
  by (auto simp: auto_decide_def try_graduated_def try_trusted_def demo_env_def NO_AUTO_APPROVE_def AUTO_APPROVE_THRESHOLD_def demo_req_def)



lemma auto_trust_rows:
  assumes "auto_approve_if_trusted N A req cid l c actor thr t st = (Inr (Some sha), st1)"
  shows "\<exists>r q. rows st1 = rows st @ [r, q] \<and> action r = ''consent.approved'' \<and> action q = ''consent.auto_approved''"
    "db_faults st1 = tl (tl (db_faults st))" "in_flight st1 = in_flight st"
proof -
  from assms obtain s ev where a: "approve N A req cid ''trust_threshold'' actor t st = (Inr sha, s)"
    and rec: "record_event N cid ''consent.auto_approved'' actor (Some ''capability'') (Some (capability req)) ''ok''
                (trust_detail sha req l c thr) t s = (Inr ev, st1)"
    by (auto simp: auto_approve_if_trusted_def split: if_splits prod.splits sum.splits)
  obtain kvs where d: "trust_detail sha req l c thr = JObj kvs" "kvs \<noteq> []" by (simp add: trust_detail_def)
  from record_event_appends [OF rec [unfolded d(1)] _ d(2)] approve_writes_row [OF a]
  show "\<exists>r q. rows st1 = rows st @ [r, q] \<and> action r = ''consent.approved'' \<and> action q = ''consent.auto_approved''"
    by (auto simp: wrote_def short_action_def MAX_ACTION_LEN_def)
  show "db_faults st1 = tl (tl (db_faults st))" "in_flight st1 = in_flight st"
    using record_event_fault_stream [OF rec] approve_frame [OF a] record_event_flight(1) rec by (metis snd_conv)+
qed

theorem trust_approval_outlives_trust_witness:
  "fst (auto_approve_if_trusted tag_nacl plain_aae demo_req ''c'' 80 0 None 70 5 demo_agent) = Inl IntegrityError
   \<or> (\<exists>sha st1. auto_approve_if_trusted tag_nacl plain_aae demo_req ''c'' 80 0 None 70 5 demo_agent = (Inr (Some sha), st1)
       \<and> ((\<exists>ev. fst (claim_approval tag_nacl demo_req ''c'' None 6 st1) = Inr (Some ev) \<and> matches_request ev demo_req = Inr True)
          \<or> fst (claim_approval tag_nacl demo_req ''c'' None 6 st1) = Inl IntegrityError))"
proof -
  have "(\<exists>ev. fst (claim_approval tag_nacl demo_req ''c'' None 6 st1) = Inr (Some ev) \<and> matches_request ev demo_req = Inr True)
      \<or> fst (claim_approval tag_nacl demo_req ''c'' None 6 st1) = Inl IntegrityError"
    if a: "auto_approve_if_trusted tag_nacl plain_aae demo_req ''c'' 80 0 None 70 5 demo_agent = (Inr (Some sha), st1)" for sha st1
  proof (rule trust_approval_outlives_trust [OF demo_agent_inv _ _ a])
    from auto_trust_rows(1) [OF a] obtain r q where r: "rows st1 = [r, q]" "action r = ''consent.approved''" "action q = ''consent.auto_approved''"
      by auto
    then show "length (rows_of ''consent.approved'' st1) \<le> 50" by (simp add: rows_of_def)
    from r show "\<not> (\<exists>d \<in> set (rows st1). action d = ''consent.consumed'' \<and> names_sha ''approval_event_sha256'' sha d)" by simp
    show "db_faults st1 = []" "in_flight st1 = {}" using auto_trust_rows(2,3) [OF a] by (simp_all add: demo_agent_def)
  qed (simp_all add: rows_safe_def tag_nacl_correct small_instants, simp add: APPROVAL_TTL_def minutes_us_def)
  with demo_trusted show ?thesis by blast
qed

lemma denylist_irrelevant [simp]:
  "auto_decide (X\<lparr>exec_denied := D\<rparr>) p now st = auto_decide X p now st"
  "refused_up_front (X\<lparr>exec_denied := D\<rparr>) now p st = refused_up_front X now p st"
  "run_approved (X\<lparr>exec_denied := D\<rparr>) runners p d now st = run_approved X runners p d now st"
proof -
  have "try_graduated (X\<lparr>exec_denied := D\<rparr>) p now s = try_graduated X p now s"
    "try_trusted (X\<lparr>exec_denied := D\<rparr>) p now s = try_trusted X p now s"
    "try_claim (X\<lparr>exec_denied := D\<rparr>) p now s = try_claim X p now s" for s :: "'a agent_state_scheme"
    by (simp_all add: try_graduated_def try_trusted_def try_claim_def cong: option.case_cong if_cong)
  then show "auto_decide (X\<lparr>exec_denied := D\<rparr>) p now st = auto_decide X p now st"
    by (simp add: auto_decide_def cong: option.case_cong prod.case_cong)
  have "observe_safe (X\<lparr>exec_denied := D\<rparr>) q v now s = observe_safe X q v now s"
    "release_claim (X\<lparr>exec_denied := D\<rparr>) d ex e now s = release_claim X d ex e now s" for q v ex e and s :: "'a agent_state_scheme"
    by (simp_all add: observe_safe_def release_claim_def split: option.split)
  then show "run_approved (X\<lparr>exec_denied := D\<rparr>) runners p d now st = run_approved X runners p d now st"
    by (simp only: run_approved_def Let_def cong: option.case_cong prod.case_cong runner_result.case_cong if_cong)
qed (simp add: refused_up_front_def)

text \<open>The deployment denylist does not bind the auto-approval paths. When trust, graduation or a claim approves a proposal,
  the proposal is executed with the same result and state under every denylist, one that denies its capability included.\<close>

theorem denylist_does_not_bind_auto_approval:
  assumes "\<not> refused_up_front X now p st" "auto_decide X p now st = (Some d, st1)"
  shows "execute_one (X\<lparr>exec_denied := D\<rparr>) runners now p st = run_approved X runners p d now st1"
  using assms by (simp add: execute_one_accepted)

theorem denylist_does_not_bind_auto_approval_witness:
  "fst (auto_approve_if_trusted tag_nacl plain_aae demo_req ''c'' 80 0 None 70 5 demo_agent) = Inl IntegrityError
   \<or> (\<exists>d st1. execute_one (demo_env\<lparr>exec_denied := {''fs.read''}\<rparr>) demo_runners 5 demo_req demo_agent
          = run_approved demo_env demo_runners demo_req d 5 st1 \<and> state d = Approved)"
  using demo_auto denylist_does_not_bind_auto_approval [OF demo_not_refused] by fastforce

subsection \<open>Where the executor raises\<close>

lemma length_dump_str_ge: "length s \<le> length (dump_str s)"
proof -
  have "length s \<le> length (concat (map esc_char s))" by (induction s) (auto simp: esc_char_def Let_def split: if_splits)
  then show ?thesis by (simp add: dump_str_def)
qed

text \<open>A whitelist rejection whose details exceed the row limit makes the whole plan raise: when the first proposal
  names an unknown capability and a scope of more than 32 KiB, no result is returned for any proposal, and nothing is recorded.\<close>

theorem oversized_proposal_aborts_the_plan:
  assumes "capability p \<notin> set KNOWN_CAPABILITIES" "32768 < length (scope p)"
  shows "execute_plan X runners clk (p # ps) st = (Inl (ValueError ''detail too large (max 32768 bytes)''), st)"
proof -
  have "32768 < dumps_len (JObj (request_fields p @ kvs))" for kvs
    using length_dump_str_ge [of "scope p"] assms(2) by (simp add: dumps_len_def request_fields_def)
  then have "validate (''consent.reject'') ''denied'' (or_empty_obj (JObj (request_fields p @ kvs))) = (False, ''detail too large (max 32768 bytes)'')" for kvs
    by (simp add: validate_def or_empty_obj_def MAX_ACTION_LEN_def VALID_OUTCOMES_def MAX_DETAIL_BYTES_def request_fields_def)
  then show ?thesis using assms(1) by (simp add: execute_one_def record_decision_def record_event_def Let_def)
qed

theorem oversized_proposal_aborts_the_plan_witness:
  "execute_plan demo_env demo_runners (\<lambda>i. i) [demo_req\<lparr>capability := ''agent.note'', scope := replicate 32769 (CHR ''a'')\<rparr>, demo_req] demo_agent
     = (Inl (ValueError ''detail too large (max 32768 bytes)''), demo_agent)"
  by (rule oversized_proposal_aborts_the_plan) (simp_all add: KNOWN_CAPABILITIES_def)

end
