(* ===== verification/Panic.thy ===== *)
theory Panic
  imports Executor
begin

text \<open>
  The panic revoke of \<^verbatim>\<open>panic.py\<close>: every graduation of the device is revoked, every live approval is tombstoned, the trust
  dial is reset, the signing key is replaced, and one row records it. The state is the agent's, extended by the trust files, the
  loaded configuration and the key store; the fresh key pair and the failures of the key store and the configuration file are the
  argument \<open>panic_env\<close>, a failure to write the trust files is a field. One instant stands for the clock during the sequence.
\<close>

subsection \<open>State and sequence\<close>

datatype trust_fault = Trust_Ok | Save_Fails | Unlink_Fails

record panic_state = agent_state +
  local_file :: file_content
  chapter_cache :: bool
  trust_fault :: trust_fault
  cfg_agent_id :: string
  cfg_private_key :: string
  cfg_public_key :: string
  keyring :: "string \<rightharpoonup> string"

record panic_env =
  fresh_private :: string
  fresh_public :: string
  store_fails :: "py_error option"
  save_fails :: "py_error option"

record panic_report =
  revoked_graduations :: nat
  new_public_key :: string
  key_rotated :: bool
  audit_event_sha256 :: string
  revoked_approvals :: nat
  trust_reset :: bool

definition revoke_all_graduations :: "string option \<Rightarrow> instant \<Rightarrow> 'a agent_state_scheme \<Rightarrow> nat \<times> 'a agent_state_scheme" where
  "revoke_all_graduations did now st =
     (if \<not> truthy_str did then (0, st)
      else case grads st of
        None \<Rightarrow> (0, st)
      | Some gs \<Rightarrow>
          (case revoke_all now (gs\<lparr>device_did := the did\<rparr>) of
             (res, gs1) \<Rightarrow> (case res of Inl e \<Rightarrow> 0 | Inr n \<Rightarrow> n, st\<lparr>grads := Some (gs1\<lparr>device_did := device_did gs\<rparr>)\<rparr>)))"

text \<open>\<^verbatim>\<open>datetime.fromisoformat(det["expires_at"]) <= now\<close>; an unreadable expiry counts as live.\<close>

definition already_expired :: "consent_event \<Rightarrow> instant \<Rightarrow> bool result" where
  "already_expired ev now =
     (case or_empty_obj (event_detail ev) of
        JObj kvs \<Rightarrow> (case map_of kvs ''expires_at'' of
                      None \<Rightarrow> Inr False
                    | Some (JStr s) \<Rightarrow> Inr (case fromisoformat s of None \<Rightarrow> False | Some x \<Rightarrow> x \<le> now)
                    | Some _ \<Rightarrow> Inl (TypeError ''fromisoformat: argument must be str''))
      | _ \<Rightarrow> Inl (TypeError ''indices must be integers''))"

fun revoke_loop :: "nacl \<Rightarrow> string \<Rightarrow> string option \<Rightarrow> instant \<Rightarrow> string set \<Rightarrow> nat \<Rightarrow> consent_event list \<Rightarrow> 'a consent_state_scheme
    \<Rightarrow> nat result \<times> 'a consent_state_scheme" where
  "revoke_loop N cid actor now consumed spent [] st = (Inr spent, st)"
| "revoke_loop N cid actor now consumed spent (ev # evs) st =
     (let sha = event_sha256 ev in
      if sha = [] \<or> sha \<in> consumed then revoke_loop N cid actor now consumed spent evs st
      else case already_expired ev now of
        Inl e \<Rightarrow> (Inl e, st)
      | Inr True \<Rightarrow> revoke_loop N cid actor now consumed spent evs st
      | Inr False \<Rightarrow>
          (case mark_consumed N sha cid actor ''revoked_by_panic'' now st of
             (Inl e, st1) \<Rightarrow> (Inl e, st1)
           | (Inr _, st1) \<Rightarrow> revoke_loop N cid actor now consumed (spent + 1) evs st1))"

definition revoke_live_approvals :: "nacl \<Rightarrow> string \<Rightarrow> string option \<Rightarrow> instant \<Rightarrow> 'a consent_state_scheme
    \<Rightarrow> nat result \<times> 'a consent_state_scheme" where
  "revoke_live_approvals N cid actor now st =
     (case consumed_approval_shas st of
        Inl e \<Rightarrow> (Inl e, st)
      | Inr consumed \<Rightarrow>
          (case list_events (Some ''consent.approved'') None None 500 st of
             Inl e \<Rightarrow> (Inl e, st)
           | Inr evs \<Rightarrow> revoke_loop N cid actor now consumed 0 evs st))"

definition reset_trust :: "'a panic_state_scheme \<Rightarrow> bool \<times> 'a panic_state_scheme" where
  "reset_trust st =
     (if trust_fault st = Save_Fails then (False, st)
      else
        let st1 = st\<lparr>local_file := save_local_trust DEFAULT_LOCAL_TRUST\<rparr>
        in if chapter_cache st \<and> trust_fault st = Unlink_Fails then (False, st1)
           else (True, st1\<lparr>chapter_cache := False\<rparr>))"

definition rotate_signing_key :: "panic_env \<Rightarrow> 'a panic_state_scheme \<Rightarrow> (string \<times> bool) result \<times> 'a panic_state_scheme" where
  "rotate_signing_key V st =
     (if cfg_agent_id st = [] then (Inr (cfg_public_key st, False), st)
      else case store_fails V of
        Some e \<Rightarrow> (Inl e, st)
      | None \<Rightarrow>
          (let st1 = st\<lparr>keyring := (keyring st)(cfg_agent_id st \<mapsto> fresh_private V), cfg_private_key := fresh_private V,
                        cfg_public_key := fresh_public V\<rparr>
           in case save_fails V of
                Some e \<Rightarrow> (Inl e, st1)
              | None \<Rightarrow> (Inr (fresh_public V, True), st1)))"

definition panic_detail :: "nat \<Rightarrow> nat \<Rightarrow> bool \<Rightarrow> bool \<Rightarrow> string \<Rightarrow> json" where
  "panic_detail ngrad spent reset rotated pub = JObj
     [(''revoked_graduations'', JInt (int ngrad)), (''revoked_approvals'', JInt (int spent)), (''trust_reset'', JBool reset),
      (''key_rotated'', JBool rotated), (''new_public_key'', JStr pub)]"

definition execute_panic :: "nacl \<Rightarrow> panic_env \<Rightarrow> string \<Rightarrow> string option \<Rightarrow> bool \<Rightarrow> instant \<Rightarrow> 'a panic_state_scheme
    \<Rightarrow> panic_report result \<times> 'a panic_state_scheme" where
  "execute_panic N V cid agent rot now st =
     (case revoke_all_graduations agent now st of (ngrad, st1) \<Rightarrow>
      case revoke_live_approvals N cid agent now st1 of
        (Inl e, st2) \<Rightarrow> (Inl e, st2)
      | (Inr spent, st2) \<Rightarrow>
          (case reset_trust st2 of (reset, st3) \<Rightarrow>
           case (if rot then rotate_signing_key V st3 else (Inr (cfg_public_key st3, False), st3)) of
             (Inl e, st4) \<Rightarrow> (Inl e, st4)
           | (Inr (pub, rotated), st4) \<Rightarrow>
               (case record_event N cid ''consent.panic_revoke'' agent (Some ''all'') (Some ''panic'') ''ok''
                       (panic_detail ngrad spent reset rotated pub) now st4 of
                  (Inl e, st5) \<Rightarrow> (Inl e, st5)
                | (Inr ev, st5) \<Rightarrow>
                    (Inr \<lparr>revoked_graduations = ngrad, new_public_key = pub, key_rotated = rotated, audit_event_sha256 = event_sha256 ev,
                          revoked_approvals = spent, trust_reset = reset\<rparr>, st5))))"

subsection \<open>What survives a panic\<close>

lemma revoke_loop_count:
  "revoke_loop N cid actor now consumed spent evs st = (res, st1) \<Longrightarrow> length (rows st1) \<le> length (rows st) + length evs"
proof (induction evs arbitrary: spent st)
  case (Cons ev evs)
  have m: "length (rows s) \<le> length (rows st) + 1" if "mark_consumed N sha cid actor ''revoked_by_panic'' now st = (r, s)" for sha r s
    using mark_consumed_writes [OF that] by auto
  from Cons.prems show ?case
    by (auto simp: Let_def split: if_splits sum.splits bool.splits prod.splits dest!: m Cons.IH)
qed simp


lemma already_expired_expiry:
  "already_expired ev now = Inr b \<Longrightarrow> expiry_of ev = Inr (Some x) \<Longrightarrow> b \<longleftrightarrow> x \<le> now"
  by (auto simp: already_expired_def expiry_of_def split: json.splits option.splits)

lemma revoke_loop_post:
  fixes st :: "'a consent_state_scheme"
  assumes "revoke_loop N cid actor now consumed spent evs st = (res, st1)"
  shows "signing_key st1 = signing_key st \<and> db_open st1 = db_open st \<and> ledger_state.more st1 = ledger_state.more st
    \<and> (\<exists>new. rows st1 = rows st @ new \<and> list_all (\<lambda>r. action r = ''consent.consumed'') new)
    \<and> ((\<exists>e. res = Inl e) \<or> (\<forall>ev \<in> set evs. event_sha256 ev \<in> insert [] consumed \<or> already_expired ev now = Inr True
          \<or> (\<exists>c \<in> set (rows st1). action c = ''consent.consumed'' \<and> names_sha ''approval_event_sha256'' (event_sha256 ev) c)))"
  using assms
proof (induction evs arbitrary: spent st)
  case (Cons ev evs)
  let ?sha = "event_sha256 ev"
  show ?case
  proof (cases "?sha = [] \<or> ?sha \<in> consumed \<or> already_expired ev now = Inr True")
    case True
    with Cons.prems have "revoke_loop N cid actor now consumed spent evs st = (res, st1)" by (auto simp: Let_def split: if_splits)
    from Cons.IH [OF this] True show ?thesis by auto
  next
    case False
    then have skip: "?sha \<noteq> []" "?sha \<notin> consumed" by auto
    show ?thesis
    proof (cases "already_expired ev now")
      case (Inl e)
      with Cons.prems skip show ?thesis by auto
    next
      case (Inr b)
      with False have live: "already_expired ev now = Inr False" by (cases b) auto
      obtain r s where m: "mark_consumed N ?sha cid actor ''revoked_by_panic'' now st = (r, s)" by fastforce
      note w = mark_consumed_writes [OF m]
      show ?thesis
      proof (cases r)
        case (Inl e)
        with Cons.prems live skip m w show ?thesis by (auto simp: Let_def)
      next
        case (Inr h)
        with Cons.prems live skip m have "revoke_loop N cid actor now consumed (spent + 1) evs s = (res, st1)" by (simp add: Let_def)
        from Cons.IH [OF this] w Inr skip show ?thesis by auto
      qed
    qed
  qed
qed simp

text \<open>The steps of a panic that returns.\<close>

lemma execute_panic_ok:
  assumes "execute_panic N V cid agent rot now st = (Inr rep, st5)"
  obtains st1 st2 st3 st4 n ev where "revoke_all_graduations agent now st = (n, st1)"
    "revoke_live_approvals N cid agent now st1 = (Inr (revoked_approvals rep), st2)" "reset_trust st2 = (trust_reset rep, st3)"
    "(if rot then rotate_signing_key V st3 else (Inr (cfg_public_key st3, False), st3)) = (Inr (new_public_key rep, key_rotated rep), st4)"
    "record_event N cid ''consent.panic_revoke'' agent (Some ''all'') (Some ''panic'') ''ok''
       (panic_detail n (revoked_approvals rep) (trust_reset rep) (key_rotated rep) (new_public_key rep)) now st4 = (Inr ev, st5)"
  using assms by (auto simp: execute_panic_def split: prod.splits sum.splits)

lemma revoke_all_graduations_frame:
  assumes "revoke_all_graduations did now st = (n, st1)"
  shows "rows st1 = rows st" "signing_key st1 = signing_key st" "db_open st1 = db_open st" "in_flight st1 = in_flight st"
  using assms by (auto simp: revoke_all_graduations_def split: if_splits option.splits prod.splits)

lemma reset_trust_frame:
  "reset_trust st = (b, st1) \<Longrightarrow> rows st1 = rows st \<and> signing_key st1 = signing_key st \<and> db_open st1 = db_open st \<and> in_flight st1 = in_flight st
     \<and> grads st1 = grads st \<and> (b \<longrightarrow> local_file st1 = save_local_trust DEFAULT_LOCAL_TRUST \<and> \<not> chapter_cache st1)"
  by (auto simp: reset_trust_def Let_def split: if_splits)

lemma rotate_signing_key_frame:
  "rotate_signing_key V st = (res, st1) \<Longrightarrow> rows st1 = rows st \<and> signing_key st1 = signing_key st \<and> db_open st1 = db_open st \<and> in_flight st1 = in_flight st
     \<and> grads st1 = grads st \<and> local_file st1 = local_file st \<and> chapter_cache st1 = chapter_cache st"
  by (auto simp: rotate_signing_key_def Let_def split: if_splits option.splits)

lemma panic_row:
  fixes st :: "'a panic_state_scheme"
  assumes "record_event N cid ''consent.panic_revoke'' agent (Some ''all'') (Some ''panic'') ''ok'' (panic_detail n s t r k) now st = (Inr ev, st1)"
  shows "\<exists>q. rows st1 = rows st @ [q] \<and> action q = ''consent.panic_revoke''"
    "signing_key st1 = signing_key st" "db_open st1 = db_open st" "ledger_state.more st1 = ledger_state.more st"
proof -
  obtain kvs where d: "panic_detail n s t r k = JObj kvs" "kvs \<noteq> []" by (simp add: panic_detail_def)
  have sh: "short_action ''consent.panic_revoke''" by (simp add: short_action_def MAX_ACTION_LEN_def)
  from record_event_appends [OF assms [unfolded d(1)] sh d(2)]
  show "\<exists>q. rows st1 = rows st @ [q] \<and> action q = ''consent.panic_revoke''"
    "signing_key st1 = signing_key st" "db_open st1 = db_open st" "ledger_state.more st1 = ledger_state.more st"
    by (auto simp: wrote_def)
qed

text \<open>The ledger after a panic that returns: the old rows, tombstones, and the panic row; every approval among the newest five
  hundred is expired, was spent before, or is named by a tombstone.\<close>

lemma panic_ledger:
  fixes st :: "'a panic_state_scheme"
  assumes "execute_panic N V cid agent rot now st = (Inr rep, st5)" "length (rows_of ''consent.approved'' st) \<le> 500"
  shows "\<exists>new q. rows st5 = rows st @ new @ [q] \<and> list_all (\<lambda>r. action r = ''consent.consumed'') new \<and> action q = ''consent.panic_revoke''"
    "in_flight st5 = in_flight st" "signing_key st5 = signing_key st" "db_open st5 = db_open st"
    "\<forall>r \<in> set (rows st). action r = ''consent.approved'' \<longrightarrow> event_sha256 r = [] \<or> already_expired r now = Inr True
       \<or> (\<exists>c \<in> set (rows st5). action c = ''consent.consumed'' \<and> names_sha ''approval_event_sha256'' (event_sha256 r) c)"
proof -
  from execute_panic_ok [OF assms(1)] obtain st1 st2 st3 st4 n ev where
    s1: "revoke_all_graduations agent now st = (n, st1)"
    and s2: "revoke_live_approvals N cid agent now st1 = (Inr (revoked_approvals rep), st2)"
    and s3: "reset_trust st2 = (trust_reset rep, st3)"
    and s4: "(if rot then rotate_signing_key V st3 else (Inr (cfg_public_key st3, False), st3)) = (Inr (new_public_key rep, key_rotated rep), st4)"
    and s5: "record_event N cid ''consent.panic_revoke'' agent (Some ''all'') (Some ''panic'') ''ok''
       (panic_detail n (revoked_approvals rep) (trust_reset rep) (key_rotated rep) (new_public_key rep)) now st4 = (Inr ev, st5)" .
  note f1 = revoke_all_graduations_frame [OF s1] and f3 = reset_trust_frame [OF s3]
  have f4: "rows st4 = rows st3 \<and> signing_key st4 = signing_key st3 \<and> db_open st4 = db_open st3 \<and> in_flight st4 = in_flight st3"
    using s4 rotate_signing_key_frame [of V st3] by (auto split: if_splits)
  note f5 = panic_row [OF s5]
  from s2 obtain consumed evs where c: "consumed_approval_shas st1 = Inr consumed"
    and l: "list_events (Some ''consent.approved'') None None 500 st1 = Inr evs"
    and loop: "revoke_loop N cid agent now consumed 0 evs st1 = (Inr (revoked_approvals rep), st2)"
    by (auto simp: revoke_live_approvals_def split: sum.splits)
  note f2 = revoke_loop_post [OF loop]
  then obtain new where new: "rows st2 = rows st @ new" "list_all (\<lambda>r. action r = ''consent.consumed'') new" using f1(1) by auto
  have fl: "in_flight st2 = in_flight st1" using f2 consent_more(1) by blast
  have fl5: "in_flight st5 = in_flight st4" using f5(4) consent_more(1) by blast
  show "in_flight st5 = in_flight st" "signing_key st5 = signing_key st" "db_open st5 = db_open st"
    using fl fl5 f1 f2 f3 f4 f5(2,3) by simp_all
  from f5(1) obtain q where q: "rows st5 = rows st2 @ [q]" "action q = ''consent.panic_revoke''" using f3 f4 by auto
  with new show "\<exists>new q. rows st5 = rows st @ new @ [q] \<and> list_all (\<lambda>r. action r = ''consent.consumed'') new \<and> action q = ''consent.panic_revoke''"
    by auto
  have op: "db_open st1" using l by (simp add: list_events_def split: if_splits)
  have "rows_of ''consent.approved'' st1 = rows_of ''consent.approved'' st" using f1(1) by (simp add: rows_of_def)
  with list_events_all [OF op, of "''consent.approved''" 500] assms(2) l
  have evs: "set evs = row_to_dict ` set (rows_of ''consent.approved'' st)" by auto
  show "\<forall>r \<in> set (rows st). action r = ''consent.approved'' \<longrightarrow> event_sha256 r = [] \<or> already_expired r now = Inr True
       \<or> (\<exists>c \<in> set (rows st5). action c = ''consent.consumed'' \<and> names_sha ''approval_event_sha256'' (event_sha256 r) c)"
  proof (intro ballI impI)
    fix r
    assume r: "r \<in> set (rows st)" "action r = ''consent.approved''"
    then have "row_to_dict r \<in> set evs" using evs by (auto simp: rows_of_def)
    with f2 consider "event_sha256 r = []" | "event_sha256 r \<in> consumed" | "already_expired (row_to_dict r) now = Inr True"
      | "\<exists>c \<in> set (rows st2). action c = ''consent.consumed'' \<and> names_sha ''approval_event_sha256'' (event_sha256 r) c"
      by fastforce
    then show "event_sha256 r = [] \<or> already_expired r now = Inr True
       \<or> (\<exists>c \<in> set (rows st5). action c = ''consent.consumed'' \<and> names_sha ''approval_event_sha256'' (event_sha256 r) c)"
    proof cases
      case 2
      from consumed_approval_shas_only [OF c] 2 obtain d where "d \<in> set (rows st1)" "action d = ''consent.consumed''"
        "names_sha ''approval_event_sha256'' (event_sha256 r) d" by blast
      then show ?thesis using q(1) new(1) f1(1) by auto
    next
      case 3
      then show ?thesis by (simp add: already_expired_def)
    qed (use q(1) in auto)
  qed
qed

lemma panic_growth:
  fixes st :: "'a panic_state_scheme"
  assumes "execute_panic N V cid agent rot now st = (Inr rep, st5)"
  shows "length (rows st5) \<le> length (rows st) + length (rows_of ''consent.approved'' st) + 1"
proof -
  from execute_panic_ok [OF assms] obtain st1 st2 st3 st4 n ev where
    s1: "revoke_all_graduations agent now st = (n, st1)"
    and s2: "revoke_live_approvals N cid agent now st1 = (Inr (revoked_approvals rep), st2)"
    and s3: "reset_trust st2 = (trust_reset rep, st3)"
    and s4: "(if rot then rotate_signing_key V st3 else (Inr (cfg_public_key st3, False), st3)) = (Inr (new_public_key rep, key_rotated rep), st4)"
    and s5: "record_event N cid ''consent.panic_revoke'' agent (Some ''all'') (Some ''panic'') ''ok''
       (panic_detail n (revoked_approvals rep) (trust_reset rep) (key_rotated rep) (new_public_key rep)) now st4 = (Inr ev, st5)" .
  from s2 obtain consumed evs where l: "list_events (Some ''consent.approved'') None None 500 st1 = Inr evs"
    and loop: "revoke_loop N cid agent now consumed 0 evs st1 = (Inr (revoked_approvals rep), st2)"
    by (auto simp: revoke_live_approvals_def split: sum.splits)
  have "db_open st1" using l by (simp add: list_events_def split: if_splits)
  from list_events_action [OF this, of "''consent.approved''" 500] l revoke_all_graduations_frame(1) [OF s1]
  have "length evs \<le> length (rows_of ''consent.approved'' st)" by (auto simp: rows_of_def)
  moreover have "rows st4 = rows st2" using reset_trust_frame [OF s3] s4 rotate_signing_key_frame [of V st3] by (auto split: if_splits)
  ultimately show ?thesis
    using revoke_loop_count [OF loop] panic_row(1) [OF s5] revoke_all_graduations_frame(1) [OF s1] by auto
qed

lemma panic_no_claim:
  fixes st :: "'a panic_state_scheme"
  assumes "execute_panic N V cid agent rot now st = (Inr rep, st5)" "in_flight st = {}"
    and "length (rows_of ''consent.approved'' st) \<le> 500" "length (rows_of ''consent.consumed'' st5) \<le> 200" "now \<le> later"
  shows "\<not> (\<exists>ev. fst (claim_approval N req chap actor later st5) = Inr (Some ev))"
proof
  note post = panic_ledger [OF assms(1,3)]
  assume "\<exists>ev. fst (claim_approval N req chap actor later st5) = Inr (Some ev)"
  then obtain ev where f: "find_valid_approval N req chap later st5 = Inr (Some ev)"
    by (auto simp: claim_approval_def Let_def split: sum.splits option.splits if_splits prod.splits)
  then obtain consumed evs where k: "consumed_approval_shas st5 = Inr consumed"
    and scan: "scan_approvals N (signing_key st5) consumed (in_flight st5) req chap later evs = Inr (Some ev)"
    by (auto simp: find_valid_approval_def)
  from find_valid_approval_row [OF f] obtain r x where r: "r \<in> set (rows st5)" "ev = row_to_dict r" "action r = ''consent.approved''"
    "expiry_of r = Inr (Some x)" "later < x" by blast
  with post(1) have old: "r \<in> set (rows st)" by (auto simp: list_all_iff)
  have "length (event_sha256 ev) = 64" using scan_approvals_sound [OF scan] by (auto dest: verify_row_integrity)
  then have "event_sha256 r \<noteq> []" using r(2) by auto
  moreover have "already_expired r now \<noteq> Inr True" using already_expired_expiry [of r now True x] r(4,5) assms(5) by auto
  ultimately obtain c where "c \<in> set (rows st5)" "action c = ''consent.consumed''" "names_sha ''approval_event_sha256'' (event_sha256 r) c"
    using post(5) old r(3) by blast
  from consumed_approval_shas_complete [OF k assms(4) this] have "event_sha256 r \<in> consumed" .
  with scan_approvals_sound [OF scan] r(2) post(2) assms(2) show False by simp
qed

text \<open>Nothing that was approved before a panic may run after it. When the panic returns, no claim of any request, in any
  chapter and at any later time, is handed an approval, as long as no execution was in flight, at most five hundred approvals were
  on file, and the ledger then has at most two hundred tombstones.\<close>

theorem panic_spends_every_approval:
  fixes st :: "'a panic_state_scheme"
  assumes "execute_panic N V cid agent rot now st = (Inr rep, st5)" "in_flight st = {}"
    and "length (rows_of ''consent.approved'' st) \<le> 500" "length (rows_of ''consent.consumed'' st5) \<le> 200" "now \<le> later"
  shows "\<not> (\<exists>ev. fst (claim_approval N req chap actor later st5) = Inr (Some ev))"
  using panic_no_claim [OF assms(1-5)] .

lemma panic_more:
  fixes st st' :: "'a panic_state_scheme"
  assumes "ledger_state.more st' = ledger_state.more st"
  shows "grads st' = grads st" "cfg_public_key st' = cfg_public_key st" "local_file st' = local_file st" "chapter_cache st' = chapter_cache st"
    "habits st' = habits st"
  using assms by (cases st; cases st'; simp)+

text \<open>What a panic does to the stores it resets.\<close>

lemma panic_stores:
  fixes st :: "'a panic_state_scheme"
  assumes "execute_panic N V cid agent rot now st = (Inr rep, st5)"
  shows "grads st5 = grads (snd (revoke_all_graduations agent now st))" "habits st5 = habits st"
    "trust_reset rep \<Longrightarrow> local_file st5 = save_local_trust DEFAULT_LOCAL_TRUST \<and> \<not> chapter_cache st5"
proof -
  from execute_panic_ok [OF assms] obtain st1 st2 st3 st4 n ev where
    s1: "revoke_all_graduations agent now st = (n, st1)"
    and s2: "revoke_live_approvals N cid agent now st1 = (Inr (revoked_approvals rep), st2)"
    and s3: "reset_trust st2 = (trust_reset rep, st3)"
    and s4: "(if rot then rotate_signing_key V st3 else (Inr (cfg_public_key st3, False), st3)) = (Inr (new_public_key rep, key_rotated rep), st4)"
    and s5: "record_event N cid ''consent.panic_revoke'' agent (Some ''all'') (Some ''panic'') ''ok''
       (panic_detail n (revoked_approvals rep) (trust_reset rep) (key_rotated rep) (new_public_key rep)) now st4 = (Inr ev, st5)" .
  have m2: "ledger_state.more st2 = ledger_state.more st1"
    using s2 by (auto simp: revoke_live_approvals_def split: sum.splits dest!: revoke_loop_post)
  have h1: "habits st1 = habits st" using s1 by (auto simp: revoke_all_graduations_def split: if_splits option.splits prod.splits)
  have f3: "grads st3 = grads st2" "habits st3 = habits st2" "trust_reset rep \<Longrightarrow> local_file st3 = save_local_trust DEFAULT_LOCAL_TRUST \<and> \<not> chapter_cache st3"
    using s3 by (auto simp: reset_trust_def Let_def split: if_splits)
  have f4: "grads st4 = grads st3" "habits st4 = habits st3" "local_file st4 = local_file st3" "chapter_cache st4 = chapter_cache st3"
    using s4 by (auto simp: rotate_signing_key_def Let_def split: if_splits option.splits)
  note m5 = panic_more [OF panic_row(4) [OF s5]]
  show "grads st5 = grads (snd (revoke_all_graduations agent now st))" "habits st5 = habits st"
    "trust_reset rep \<Longrightarrow> local_file st5 = save_local_trust DEFAULT_LOCAL_TRUST \<and> \<not> chapter_cache st5"
    using m5 f4 f3 panic_more(1,5) [OF m2] h1 s1 by simp_all
qed

lemma panic_revokes_recorded:
  fixes st :: "'a panic_state_scheme"
  assumes "execute_panic N V cid (Some dev) rot now st = (Inr rep, st5)" "dev \<noteq> []"
    and "grads st = Some gs" "device_did gs = dev" "grad_faults gs = []"
    and "map_of (graduations gs) (dev, cap, scp, ctx) = Some row"
  shows "\<exists>gs5. grads st5 = Some gs5 \<and> device_did gs5 = dev \<and> revoked (dev, cap, scp, ctx) gs5"
proof -
  have "gs\<lparr>device_did := dev\<rparr> = gs" using assms(4) by simp
  then have "grads st5 = Some (snd (revoke_all now gs)\<lparr>device_did := dev\<rparr>)"
    using panic_stores(1) [OF assms(1)] assms(2-4) by (cases "revoke_all now gs") (auto simp: revoke_all_graduations_def)
  moreover have "revoked (dev, cap, scp, ctx) (snd (revoke_all now gs)\<lparr>device_did := dev\<rparr>)"
    using assms(4-6) by (auto simp: revoke_all_snd revoked_def grad_write_def Let_def revoke_live_lookup revoke_live_def live_row_def)
  ultimately show ?thesis by simp
qed

lemma panic_trust_on_file:
  assumes "execute_panic N V cid agent rot now st = (Inr rep, st5)" "trust_reset rep"
  shows "load_local_trust (local_file st5) = Inr 30"
  using panic_stores(3) [OF assms] by (simp add: save_local_trust_def DEFAULT_LOCAL_TRUST_def clamp100_def)

lemma low_trust_refuses:
  "l < 70 \<Longrightarrow> c < 70 \<Longrightarrow> auto_approve_if_trusted N A req chap l c actor AUTO_APPROVE_THRESHOLD later st = (Inr None, st)"
  by (simp add: auto_approve_if_trusted_def effective_trust_def clamp100_def AUTO_APPROVE_THRESHOLD_def)

text \<open>A panic closes the automatic paths it knows about. A graduation recorded for the device before the panic is revoked
  after it, so its bucket is not auto-approved, and when the trust files were reset the trust on file is too low to approve anything,
  whatever the request.\<close>

theorem panic_closes_automatic_paths:
  fixes st :: "'a panic_state_scheme"
  assumes "execute_panic N V cid (Some dev) rot now st = (Inr rep, st5)" "dev \<noteq> []"
    and "grads st = Some gs" "device_did gs = dev" "grad_faults gs = []"
    and "map_of (graduations gs) (dev, cap, scp, ctx) = Some row"
  shows "\<exists>gs5. grads st5 = Some gs5 \<and> revoked (dev, cap, scp, ctx) gs5
    \<and> (trust_reset rep \<longrightarrow> (\<exists>t. load_local_trust (local_file st5) = Inr t
          \<and> fst (auto_approve_if_trusted N A req chap t 0 actor AUTO_APPROVE_THRESHOLD later st5) = Inr None))"
proof -
  have "fst (auto_approve_if_trusted N A req chap 30 0 actor AUTO_APPROVE_THRESHOLD later st5) = Inr None"
    by (simp add: low_trust_refuses)
  with panic_revokes_recorded [OF assms] panic_trust_on_file [OF assms(1)] show ?thesis by auto
qed

text \<open>A panic does not close a bucket that qualifies but was never recorded. A bucket whose statistics meet the bar and
  that has no row in the store is still graduated after the panic, on the same statistics.\<close>

theorem panic_leaves_unrecorded_buckets:
  fixes st :: "'a panic_state_scheme"
  assumes "execute_panic N V cid (Some dev) rot now st = (Inr rep, st5)" "grads st = Some gs" "device_did gs = dev"
    and "map_of (graduations gs) (dev, cap, scp, ctx) = None" "status cap scp ctx n num den gs = Inr g" "status_state g = ''graduated''"
  shows "\<exists>gs5 g5. grads st5 = Some gs5 \<and> habits st5 = habits st \<and> status cap scp ctx n num den gs5 = Inr g5 \<and> status_state g5 = ''graduated''"
proof -
  have ne: "dev \<noteq> []" using assms(3,5) by (auto simp: status_def make_graduation_key_def)
  have "gs\<lparr>device_did := dev\<rparr> = gs" using assms(3) by simp
  then have g5: "grads st5 = Some (snd (revoke_all now gs)\<lparr>device_did := dev\<rparr>)"
    using panic_stores(1) [OF assms(1)] assms(2,3) ne by (cases "revoke_all now gs") (auto simp: revoke_all_graduations_def)
  have "map_of (graduations (snd (revoke_all now gs))) (dev, cap, scp, ctx) = None"
    using assms(4) by (simp add: revoke_all_snd grad_write_def Let_def revoke_live_lookup)
  moreover have "make_graduation_key dev cap scp ctx = Inr (dev, cap, scp, ctx)"
    using assms(3,5) by (auto simp: status_def make_graduation_key_def split: if_splits)
  ultimately show ?thesis using assms(3-6) g5 panic_stores(2) [OF assms(1)]
    by (auto simp: status_def Let_def split: if_splits)
qed

subsection \<open>A concrete panic\<close>

definition demo_approved :: consent_event where
  "demo_approved = \<lparr>chapter_id = ''c'', actor_agent_id = None, action = ''consent.approved'', target_type = None, target_id = None,
     outcome = ''ok'', detail = Some (JObj [(''expires_at'', JStr (isoformat 1000))]), occurred_at = isoformat 1, prev_sha256 = None,
     event_sha256 = ''x'', signature_b64 = None\<rparr>"

definition demo_panic :: panic_state where
  "demo_panic = \<lparr>db_open = True, signing_key = None, rows = [demo_approved], sidecar = None, db_faults = [], cp_faults = [],
     aae_open = False, aae_identity = None, envelopes = [], aae_faults = [], in_flight = {}, habits = None, grads = None,
     local_file = Missing, chapter_cache = False, trust_fault = Trust_Ok, cfg_agent_id = ''a'', cfg_private_key = ''s'',
     cfg_public_key = ''p'', keyring = (\<lambda>x. None)\<rparr>"

definition demo_penv :: panic_env where
  "demo_penv = \<lparr>fresh_private = ''s2'', fresh_public = ''p2'', store_fails = None, save_fails = None\<rparr>"

lemma demo_panic_facts [simp]:
  "rows demo_panic = [demo_approved]" "db_open demo_panic" "db_faults demo_panic = []" "signing_key demo_panic = None" "in_flight demo_panic = {}"
  by (simp_all add: demo_panic_def)

lemma demo_tombstone:
  "\<exists>h st1. mark_consumed tag_nacl ''x'' ''c'' None ''revoked_by_panic'' 5 demo_panic = (Inr h, st1) \<and> db_faults st1 = []"
proof -
  let ?d = "JObj [(''approval_event_sha256'', JStr ''x''), (''execution'', JStr ''revoked_by_panic'')]"
  let ?r = "record_event tag_nacl ''c'' ''consent.consumed'' None (Some ''approval'') (Some ''x'') ''ok'' ?d 5 demo_panic"
  have v: "fst (validate ''consent.consumed'' ''ok'' (or_empty_obj ?d))"
    by (simp add: validate_def or_empty_obj_def VALID_OUTCOMES_def MAX_ACTION_LEN_def MAX_DETAIL_BYTES_def dumps_len_def)
      (simp add: dump_str_def esc_char_def)
  have "sha256_of e \<noteq> ''x''" for e :: consent_event
    by (rule notI, drule arg_cong [of _ _ length]) simp
  then have "\<exists>ev. fst ?r = Inr ev"
    by (intro record_event_succeeds [OF v]) (auto simp: event_sha256_new_event demo_approved_def)
  then obtain ev s where r: "?r = (Inr ev, s)" by (metis prod.collapse)
  from record_event_fault_stream [OF r] r show ?thesis by (simp add: mark_consumed_def)
qed

lemma demo_panic_runs:
  "fst (execute_panic tag_nacl demo_penv ''c'' None False 5 demo_panic) = Inl IntegrityError
   \<or> (\<exists>rep st5. execute_panic tag_nacl demo_penv ''c'' None False 5 demo_panic = (Inr rep, st5))"
proof -
  obtain h s where m: "mark_consumed tag_nacl ''x'' ''c'' None ''revoked_by_panic'' 5 demo_panic = (Inr h, s)" "db_faults s = []"
    using demo_tombstone by blast
  have l: "consumed_approval_shas demo_panic = Inr {}" "list_events (Some ''consent.approved'') None None 500 demo_panic = Inr [row_to_dict demo_approved]"
    by (simp_all add: consumed_approval_shas_def shas_listed_def list_events_def newest_first_def demo_approved_def MAX_ACTION_LEN_def)
  have x: "already_expired (row_to_dict demo_approved) 5 = Inr False"
    using isoformat_roundtrip [of 1000]
    by (simp add: already_expired_def row_to_dict_def demo_approved_def event_detail_def or_empty_obj_def max_instant_def
        days_of_years_def usec_per_day_def)
  from l x m(1) have rl: "revoke_live_approvals tag_nacl ''c'' None 5 demo_panic = (Inr 1, s)"
    by (simp add: revoke_live_approvals_def Let_def) (simp add: demo_approved_def)
  obtain b s3 where t: "reset_trust s = (b, s3)" by fastforce
  have f: "db_open s3" "db_faults s3 = []" "signing_key s3 = None"
    using mark_consumed_writes [OF m(1)] reset_trust_frame [OF t] m(2) t by (auto simp: reset_trust_def Let_def split: if_splits)
  have "cfg_public_key s3 = ''p''"
    using t panic_more(2) [of s demo_panic] mark_consumed_writes [OF m(1)] by (auto simp: reset_trust_def Let_def demo_panic_def split: if_splits)
  moreover have v: "fst (validate ''consent.panic_revoke'' ''ok'' (or_empty_obj (panic_detail 0 1 b False ''p'')))"
    by (cases b; simp add: validate_def panic_detail_def or_empty_obj_def VALID_OUTCOMES_def MAX_ACTION_LEN_def MAX_DETAIL_BYTES_def dumps_len_def
        str_int_def str_nat.simps; simp add: dump_str_def esc_char_def)
  ultimately show ?thesis
    using record_event_no_fault [OF v f(1,2), of tag_nacl "''c''" None "Some ''all''" "Some ''panic''" 5] f(3) rl t
    by (auto simp: execute_panic_def revoke_all_graduations_def case_prod_beta split: sum.splits)
qed

theorem panic_spends_every_approval_witness:
  "fst (execute_panic tag_nacl demo_penv ''c'' None False 5 demo_panic) = Inl IntegrityError
   \<or> (\<exists>rep st5. execute_panic tag_nacl demo_penv ''c'' None False 5 demo_panic = (Inr rep, st5)
        \<and> \<not> (\<exists>ev. fst (claim_approval tag_nacl demo_req ''c'' None 6 st5) = Inr (Some ev)))"
  using demo_panic_runs
proof
  assume "\<exists>rep st5. execute_panic tag_nacl demo_penv ''c'' None False 5 demo_panic = (Inr rep, st5)"
  then obtain rep st5 where e: "execute_panic tag_nacl demo_penv ''c'' None False 5 demo_panic = (Inr rep, st5)" by blast
  have few: "length (rows_of ''consent.approved'' demo_panic) \<le> 500" by (simp add: rows_of_def)
  have "length (rows_of ''consent.consumed'' st5) \<le> 200" 
    unfolding rows_of_def using panic_growth [OF e] by (intro order_trans [OF length_filter_le]) (simp add: rows_of_def demo_approved_def)
  from panic_spends_every_approval [OF e _ few this, of 6 demo_req "''c''" None] e show ?thesis by auto
qed simp


definition demo_grads :: graduation_store where
  "demo_grads = \<lparr>device_did = ''d'', graduations = [((''d'', ''fs.read'', ''s'', ''c''),
     \<lparr>grad_state = ''graduated'', graduated_at = None, revoked_at = None\<rparr>)], grad_faults = []\<rparr>"

definition demo_graduated :: panic_state where
  "demo_graduated = demo_panic\<lparr>rows := [], grads := Some demo_grads\<rparr>"

lemma demo_graduated_panics:
  "\<exists>rep st5. execute_panic tag_nacl demo_penv ''c'' (Some ''d'') False 5 demo_graduated = (Inr rep, st5) \<and> trust_reset rep"
proof -
  let ?st1 = "demo_graduated\<lparr>grads := Some (snd (revoke_all 5 demo_grads))\<rparr>"
  let ?st3 = "?st1\<lparr>local_file := save_local_trust DEFAULT_LOCAL_TRUST, chapter_cache := False\<rparr>"
  let ?r = "record_event tag_nacl ''c'' ''consent.panic_revoke'' (Some ''d'') (Some ''all'') (Some ''panic'') ''ok''
       (panic_detail 1 0 True False ''p'') 5 ?st3"
  have g: "revoke_all_graduations (Some ''d'') 5 demo_graduated = (1, ?st1)"
    by (simp add: revoke_all_graduations_def demo_graduated_def revoke_all_def demo_grads_def grad_write_def live_row_def)
  have l: "revoke_live_approvals tag_nacl ''c'' (Some ''d'') 5 ?st1 = (Inr 0, ?st1)"
    by (simp add: revoke_live_approvals_def consumed_approval_shas_def shas_listed_def list_events_def newest_first_def demo_graduated_def)
  have t: "reset_trust ?st1 = (True, ?st3)" by (simp add: reset_trust_def demo_graduated_def demo_panic_def)
  have v: "fst (validate ''consent.panic_revoke'' ''ok'' (or_empty_obj (panic_detail 1 0 True False ''p'')))"
    by (simp add: validate_def panic_detail_def or_empty_obj_def VALID_OUTCOMES_def MAX_ACTION_LEN_def MAX_DETAIL_BYTES_def dumps_len_def
        str_int_def str_nat.simps) (simp add: dump_str_def esc_char_def)
  have "\<exists>ev. fst ?r = Inr ev" by (intro record_event_succeeds [OF v]) (simp_all add: demo_graduated_def)
  then obtain ev s where "?r = (Inr ev, s)" by (metis prod.collapse)
  moreover have "cfg_public_key ?st3 = ''p''" by (simp add: demo_graduated_def demo_panic_def)
  ultimately show ?thesis using g l t by (simp add: execute_panic_def)
qed

theorem panic_closes_automatic_paths_witness:
  "\<exists>rep st5 gs5. execute_panic tag_nacl demo_penv ''c'' (Some ''d'') False 5 demo_graduated = (Inr rep, st5)
     \<and> grads st5 = Some gs5 \<and> revoked (''d'', ''fs.read'', ''s'', ''c'') gs5"
proof -
  obtain rep st5 where e: "execute_panic tag_nacl demo_penv ''c'' (Some ''d'') False 5 demo_graduated = (Inr rep, st5)"
    using demo_graduated_panics by blast
  have "\<exists>gs5. grads st5 = Some gs5 \<and> revoked (''d'', ''fs.read'', ''s'', ''c'') gs5"
    using panic_closes_automatic_paths [OF e, of demo_grads "''fs.read''" "''s''" "''c''"
        "\<lparr>grad_state = ''graduated'', graduated_at = None, revoked_at = None\<rparr>" plain_aae demo_req "''c''" None 6]
    by (auto simp: demo_graduated_def demo_grads_def)
  with e show ?thesis by blast
qed

theorem panic_leaves_unrecorded_buckets_witness:
  "\<exists>rep st5 gs5 g5. execute_panic tag_nacl demo_penv ''c'' (Some ''d'') False 5 demo_graduated = (Inr rep, st5)
     \<and> grads st5 = Some gs5 \<and> status ''fs.read'' ''t'' ''c'' 19 20 21 gs5 = Inr g5 \<and> status_state g5 = ''graduated''"
proof -
  obtain rep st5 where e: "execute_panic tag_nacl demo_penv ''c'' (Some ''d'') False 5 demo_graduated = (Inr rep, st5)"
    using demo_graduated_panics by blast
  have "exceeds_85 20 21" by (simp add: exceeds_85_iff)
  then have "\<exists>g. status ''fs.read'' ''t'' ''c'' 19 20 21 demo_grads = Inr g \<and> status_state g = ''graduated''"
    by (simp add: status_def make_graduation_key_def demo_grads_def Let_def GRADUATION_MIN_APPROVALS_def)
  then obtain g where g: "status ''fs.read'' ''t'' ''c'' 19 20 21 demo_grads = Inr g" "status_state g = ''graduated''" by blast
  have "\<exists>gs5 g5. grads st5 = Some gs5 \<and> status ''fs.read'' ''t'' ''c'' 19 20 21 gs5 = Inr g5 \<and> status_state g5 = ''graduated''"
    using panic_leaves_unrecorded_buckets [OF e _ _ _ g] by (auto simp: demo_graduated_def demo_grads_def)
  with e show ?thesis by blast
qed

end
