(* ===== verification/Duress.thy ===== *)
theory Duress
  imports Panic Py_Crypto
begin

text \<open>
  The duress passphrase of \<^verbatim>\<open>duress.py\<close>: two PBKDF2 digests in a JSON file, a check that computes both, and the silent
  wipe that the duress passphrase triggers. The salts are arguments (\<^verbatim>\<open>os.urandom\<close>); the file is a \<open>file_content\<close>; a wipe of
  the habit file that fails leaves the habits as they are.
\<close>

subsection \<open>The passphrase store\<close>

definition PBKDF2_ITERATIONS :: int where "PBKDF2_ITERATIONS = 800000"

datatype passphrase_check = Normal | Duress | Invalid

text \<open>The salts and digests keep the JSON values read from the file; only strings can be decoded.\<close>

record passphrase_store =
  normal_salt_b64 :: json
  normal_hash_b64 :: json
  duress_salt_b64 :: json
  duress_hash_b64 :: json
  iterations :: int

definition hash_passphrase :: "string \<Rightarrow> bytes \<Rightarrow> int \<Rightarrow> bytes result" where
  "hash_passphrase p salt iters =
     (if iters < 1 then Inl (ValueError ''iteration value must be greater than 0.'')
      else Inr (pbkdf2_sha256 (utf8 p) salt (nat iters)))"

definition store_json :: "passphrase_store \<Rightarrow> json" where
  "store_json s = JObj [(''normal_salt_b64'', normal_salt_b64 s), (''normal_hash_b64'', normal_hash_b64 s),
     (''duress_salt_b64'', duress_salt_b64 s), (''duress_hash_b64'', duress_hash_b64 s), (''iterations'', JInt (iterations s))]"

definition register_passphrases :: "string \<Rightarrow> string \<Rightarrow> int \<Rightarrow> bytes \<Rightarrow> bytes \<Rightarrow> file_content \<Rightarrow> passphrase_store result \<times> file_content" where
  "register_passphrases normal duress iters normal_salt duress_salt f =
     (if normal = [] \<or> duress = [] then (Inl (ValueError ''both passphrases must be non-empty''), f)
      else if normal = duress then (Inl (ValueError ''normal and duress passphrases must differ''), f)
      else case hash_passphrase normal normal_salt iters of
        Inl e \<Rightarrow> (Inl e, f)
      | Inr normal_hash \<Rightarrow>
          (case hash_passphrase duress duress_salt iters of
             Inl e \<Rightarrow> (Inl e, f)
           | Inr duress_hash \<Rightarrow>
               (let store = \<lparr>normal_salt_b64 = JStr (b64encode normal_salt), normal_hash_b64 = JStr (b64encode normal_hash),
                             duress_salt_b64 = JStr (b64encode duress_salt), duress_hash_b64 = JStr (b64encode duress_hash),
                             iterations = iters\<rparr>
                in (Inr store, Parsed (store_json store)))))"

definition load_store :: "file_content \<Rightarrow> passphrase_store option" where
  "load_store f =
     (case f of
        Parsed (JObj kvs) \<Rightarrow>
          (case (map_of kvs ''normal_salt_b64'', map_of kvs ''normal_hash_b64'', map_of kvs ''duress_salt_b64'', map_of kvs ''duress_hash_b64'',
                 case map_of kvs ''iterations'' of None \<Rightarrow> Some PBKDF2_ITERATIONS | Some j \<Rightarrow> json_int j) of
             (Some ns, Some nh, Some ds, Some dh, Some n) \<Rightarrow>
               Some \<lparr>normal_salt_b64 = ns, normal_hash_b64 = nh, duress_salt_b64 = ds, duress_hash_b64 = dh, iterations = n\<rparr>
           | _ \<Rightarrow> None)
      | _ \<Rightarrow> None)"

fun b64decode_json :: "json \<Rightarrow> bytes result" where
  "b64decode_json (JStr s) = b64decode s"
| "b64decode_json j = Inl (TypeError ''argument should be a bytes-like object or ASCII string'')"

subsection \<open>The check and the wipe\<close>

record duress_options =
  wipe_habits :: bool
  wipe_fails :: bool
  revoke_graduations :: bool
  duress_device :: "string option"
  graduation_db :: bool

definition duress_record :: "nacl \<Rightarrow> string \<Rightarrow> string option \<Rightarrow> instant \<Rightarrow> 'a agent_state_scheme \<Rightarrow> 'a agent_state_scheme" where
  "duress_record N cid actor now st =
     snd (record_event N cid ''consent.duress_triggered'' actor (Some ''self'') (Some ''duress'') ''ok'' (JObj [(''marker'', JStr ''silent'')]) now st)"

definition trigger_duress :: "nacl \<Rightarrow> string \<Rightarrow> string option \<Rightarrow> duress_options \<Rightarrow> instant \<Rightarrow> 'a agent_state_scheme \<Rightarrow> 'a agent_state_scheme" where
  "trigger_duress N cid actor opts now st =
     (let st1 = duress_record N cid actor now st;
          st2 = (if wipe_habits opts \<and> \<not> wipe_fails opts
                 then st1\<lparr>habits := map_option (\<lambda>hm. hm\<lparr>habit_observations := [], habit_counts := []\<rparr>) (habits st1)\<rparr> else st1)
      in if revoke_graduations opts \<and> truthy_str (duress_device opts) \<and> graduation_db opts
         then snd (revoke_all_graduations (duress_device opts) now st2) else st2)"

definition verify_and_handle :: "nacl \<Rightarrow> string \<Rightarrow> file_content \<Rightarrow> string \<Rightarrow> string option \<Rightarrow> duress_options \<Rightarrow> instant \<Rightarrow> 'a agent_state_scheme
    \<Rightarrow> passphrase_check result \<times> 'a agent_state_scheme" where
  "verify_and_handle N passphrase f cid actor opts now st =
     (case load_store f of
        None \<Rightarrow> (Inr Invalid, st)
      | Some store \<Rightarrow>
          (case bind_res (b64decode_json (normal_salt_b64 store)) (\<lambda>normal_salt.
                bind_res (b64decode_json (normal_hash_b64 store)) (\<lambda>normal_hash.
                bind_res (b64decode_json (duress_salt_b64 store)) (\<lambda>duress_salt.
                bind_res (b64decode_json (duress_hash_b64 store)) (\<lambda>duress_hash.
                bind_res (hash_passphrase passphrase normal_salt (iterations store)) (\<lambda>h_normal.
                bind_res (hash_passphrase passphrase duress_salt (iterations store)) (\<lambda>h_duress.
                  Inr (h_normal = normal_hash, h_duress = duress_hash))))))) of
             Inl e \<Rightarrow> (Inl e, st)
           | Inr (normal_match, duress_match) \<Rightarrow>
               if duress_match then (Inr Duress, trigger_duress N cid actor opts now st)
               else if normal_match then (Inr Normal, st)
               else (Inr Invalid, st)))"

subsection \<open>What the check tells and does\<close>

lemma load_store_json: "load_store (Parsed (store_json s)) = Some s"
  by (simp add: load_store_def store_json_def)

text \<open>The store answers for exactly the two passphrases it was made from. After a registration the check of any passphrase
  returns without an exception: duress when its derived key under the duress salt is that of the duress passphrase, otherwise normal when its key
  under the normal salt is that of the normal passphrase, otherwise invalid. Only a duress verdict changes the state.\<close>

theorem passphrases_recognised:
  assumes "register_passphrases normal duress iters salt1 salt2 f0 = (Inr store, f)"
  shows "case verify_and_handle N p f cid actor opts now st of (res, st1) \<Rightarrow>
     res = Inr (if pbkdf2_sha256 (utf8 p) salt2 (nat iters) = pbkdf2_sha256 (utf8 duress) salt2 (nat iters) then Duress
                else if pbkdf2_sha256 (utf8 p) salt1 (nat iters) = pbkdf2_sha256 (utf8 normal) salt1 (nat iters) then Normal
                else Invalid)
     \<and> (if p = duress then res = Inr Duress else True)
     \<and> st1 = (if res = Inr Duress then trigger_duress N cid actor opts now st else st)"
proof -
  from assms have it: "\<not> iters < 1" and f: "f = Parsed (store_json store)" and
    s: "store = \<lparr>normal_salt_b64 = JStr (b64encode salt1), normal_hash_b64 = JStr (b64encode (pbkdf2_sha256 (utf8 normal) salt1 (nat iters))),
        duress_salt_b64 = JStr (b64encode salt2), duress_hash_b64 = JStr (b64encode (pbkdf2_sha256 (utf8 duress) salt2 (nat iters))),
        iterations = iters\<rparr>"
    by (auto simp: register_passphrases_def hash_passphrase_def Let_def split: if_splits)
  show ?thesis unfolding verify_and_handle_def f load_store_json
    using it by (simp add: s hash_passphrase_def)
qed

theorem passphrases_recognised_witness:
  "\<exists>store f. register_passphrases ''open'' ''help'' 1 [1] [2] Missing = (Inr store, f)
     \<and> fst (verify_and_handle tag_nacl ''help'' f ''c'' None
         \<lparr>wipe_habits = True, wipe_fails = False, revoke_graduations = True, duress_device = None, graduation_db = False\<rparr> 5 demo_agent) = Inr Duress"
proof -
  obtain store f where r: "register_passphrases ''open'' ''help'' 1 [1] [2] Missing = (Inr store, f)"
    by (simp add: register_passphrases_def hash_passphrase_def Let_def)
  from passphrases_recognised [OF r, where N = tag_nacl and p = "''help''" and cid = "''c''" and actor = None and now = 5 and st = demo_agent
      and opts = "\<lparr>wipe_habits = True, wipe_fails = False, revoke_graduations = True, duress_device = None, graduation_db = False\<rparr>"] r show ?thesis by (auto simp: case_prod_beta)
qed

lemma duress_record_frame:
  fixes st :: "'a agent_state_scheme"
  shows "habits (duress_record N cid actor now st) = habits st" "grads (duress_record N cid actor now st) = grads st"
    "writes N st (duress_record N cid actor now st)"
proof -
  have "consent_state.more (duress_record N cid actor now st) = consent_state.more st"
    unfolding duress_record_def by (rule record_event_flight(2))
  then show "habits (duress_record N cid actor now st) = habits st" "grads (duress_record N cid actor now st) = grads st"
    by (cases "duress_record N cid actor now st"; cases st; simp)+
  show "writes N st (duress_record N cid actor now st)"
    unfolding duress_record_def by (rule writes_record) (simp add: safe_detail_def)
qed

text \<open>The duress wipe resets what it promises and nothing else of the record. The ledger only gains rows, so it still
  verifies; every bucket of the habit model is back at its prior; and no graduation recorded for the device is left live.\<close>

theorem duress_wipe_effects:
  fixes st :: "'a agent_state_scheme"
  assumes "ledger_inv N key st" "\<forall>k. key = Some k \<longrightarrow> nacl_correct N k"
    and "wipe_habits opts" "\<not> wipe_fails opts" "revoke_graduations opts" "graduation_db opts" "duress_device opts = Some dev" "dev \<noteq> []"
    and "grads st = Some gs" "grad_faults gs = []" "habits st = Some hm"
  shows "let st1 = trigger_duress N cid actor opts now st in
     (\<exists>n s. verify_chain N st1 = Inr (Chain_Ok n s 0 (if key = None then None else Some True)))
     \<and> (\<exists>new. rows st1 = rows st @ new)
     \<and> (\<exists>hm1. habits st1 = Some hm1 \<and> stats cap scp ctx hm1 = stats_from_counts 0 0)
     \<and> (\<exists>gs1. grads st1 = Some gs1 \<and> \<not> (\<exists>kr \<in> set (graduations gs1). live_row dev kr))"
proof -
  let ?st1 = "trigger_duress N cid actor opts now st" and ?s = "duress_record N cid actor now st"
  let ?w = "?s\<lparr>habits := Some (hm\<lparr>habit_observations := [], habit_counts := []\<rparr>)\<rparr>"
  note fr = duress_record_frame [where N = N and cid = cid and actor = actor and now = now and st = st]
  obtain res gs1 where g: "revoke_all now (gs\<lparr>device_did := dev\<rparr>) = (res, gs1)" by fastforce
  have t: "?st1 = ?w\<lparr>grads := Some (gs1\<lparr>device_did := device_did gs\<rparr>)\<rparr>"
    using assms(3-9,11) fr(1,2) g by (simp add: trigger_duress_def Let_def revoke_all_graduations_def)
  have w: "writes N st ?st1" using fr(3) by (rule writes.beside) (simp add: t same_ledger_def)
  have "graduations gs1 = map (revoke_live dev (isoformat now)) (graduations gs)"
    using g revoke_all_snd [of now "gs\<lparr>device_did := dev\<rparr>"] assms(10) by (simp add: grad_write_def Let_def)
  then have "\<not> (\<exists>kr \<in> set (graduations gs1). live_row dev kr)" by (auto simp: revoke_live_def live_row_def)
  moreover have "stats cap scp ctx (hm\<lparr>habit_observations := [], habit_counts := []\<rparr>) = stats_from_counts 0 0"
    by (simp add: stats_def)
  ultimately show ?thesis
    using ledger_inv_verifies [OF writes_inv [OF w assms(1)] assms(2)] writes_grow [OF w] by (auto simp: t Let_def)
qed

theorem duress_wipe_effects_witness:
  "let st1 = trigger_duress tag_nacl ''c'' None
       \<lparr>wipe_habits = True, wipe_fails = False, revoke_graduations = True, duress_device = Some ''d'', graduation_db = True\<rparr> 5
       (demo_agent\<lparr>habits := Some \<lparr>habit_observations = [], habit_counts = [((''fs.read'', ''s'', ''c''), 9, 0)], habit_faults = []\<rparr>,
                   grads := Some demo_grads\<rparr>)
   in \<exists>gs1. grads st1 = Some gs1 \<and> \<not> (\<exists>kr \<in> set (graduations gs1). live_row ''d'' kr)"
proof -
  let ?st = "demo_agent\<lparr>habits := Some \<lparr>habit_observations = [], habit_counts = [((''fs.read'', ''s'', ''c''), 9, 0)], habit_faults = []\<rparr>,
                   grads := Some demo_grads\<rparr>"
  have "ledger_inv tag_nacl (Some ''k'') ?st" using demo_agent_inv by (simp add: ledger_inv_def)
  from duress_wipe_effects [OF this, where opts = "\<lparr>wipe_habits = True, wipe_fails = False, revoke_graduations = True, duress_device = Some ''d'',
      graduation_db = True\<rparr>" and dev = "''d''" and gs = demo_grads and cid = "''c''" and actor = None and now = 5]
  show ?thesis by (auto simp: tag_nacl_correct demo_grads_def Let_def)
qed

end
