(* ===== verification/Spec2Isabelle.thy ===== *)
theory Spec2Isabelle
  imports Merkle Sandbox_Policy Send_Edge Scheduler A2a_Tasks Policy_Cycles Tool_Loop Chapter_Audit Authority Duress
begin





end
